(* ===== verification/Mai_Prelude.thy ===== *)
theory Mai_Prelude
  imports Main "HOL-Library.AList" "HOL-Library.Sublist" "HOL-Library.Word"
    "HOL-Library.Char_ord" "HOL-Library.List_Lexorder" "HOL-Library.Product_Lexorder"
begin

text \<open>
  Shared vocabulary of the development.

  \<^item> Machine integers (\<open>u16\<close>, \<open>u32\<close>, \<open>u64\<close>) as words, with Rust's \<open>saturating_sub\<close>.
  \<^item> Results: \<open>Ok\<close> and \<open>Err\<close> name the injections of the sum type.
  \<^item> Strings: a Rust \<open>String\<close> is a sequence of UTF-8 bytes, so it is a HOL \<open>string\<close> whose
    characters are bytes. The functions of \<open>str\<close> the program uses (\<open>lines\<close>, \<open>trim\<close>,
    \<open>split_whitespace\<close>, \<open>chars().take(n)\<close>, \<open>parse::<u64>\<close>, ...) are written out over bytes.
  \<^item> Dictionaries: a \<open>HashMap\<close> or \<open>BTreeMap\<close> is an association list with distinct keys; its
    interface is the locale \<open>dictionary\<close>, interpreted on association lists as \<open>hm\<close>.
  \<^item> Machines: \<open>run_steps\<close> feeds a list of inputs to a step function; the locale
    \<open>invariant_machine\<close> lifts what one step keeps to whole runs.
\<close>

named_theorems str_eval \<open>evaluation of the string functions on closed arguments\<close>
named_theorems dict_simps \<open>lookups after dictionary updates\<close>

section \<open>Integers and results\<close>

type_synonym u16 = "16 word"
type_synonym u32 = "32 word"
type_synonym u64 = "64 word"

definition saturating_sub :: "'a::len word \<Rightarrow> 'a word \<Rightarrow> 'a word" where
  "saturating_sub a b = (if b \<le> a then a - b else 0)"

lemma unat_saturating_sub: "unat (saturating_sub a b) = unat a - unat b"
  by (auto simp: saturating_sub_def unat_sub word_le_nat_alt)

lemma saturating_sub_self [simp]: "saturating_sub a a = 0"
  by (simp add: saturating_sub_def)

definition saturating_add :: "'a::len word \<Rightarrow> 'a word \<Rightarrow> 'a word" where
  "saturating_add a b = (if unat a + unat b < 2 ^ LENGTH('a) then a + b else - 1)"

abbreviation Ok :: "'a \<Rightarrow> 'e + 'a" where "Ok \<equiv> Inr"
abbreviation Err :: "'e \<Rightarrow> 'e + 'a" where "Err \<equiv> Inl"

section \<open>Strings\<close>

definition byte :: "char \<Rightarrow> nat" where
  "byte c = of_char c"

text \<open>A UTF-8 continuation byte; \<open>is_char_boundary(i)\<close> holds where the byte at \<open>i\<close> is none.\<close>

definition is_cont :: "char \<Rightarrow> bool" where
  "is_cont c \<longleftrightarrow> 128 \<le> byte c \<and> byte c < 192"

abbreviation starts_with :: "string \<Rightarrow> string \<Rightarrow> bool" where
  "starts_with s p \<equiv> prefix p s"

abbreviation ends_with :: "string \<Rightarrow> string \<Rightarrow> bool" where
  "ends_with s p \<equiv> suffix p s"

abbreviation contains :: "string \<Rightarrow> string \<Rightarrow> bool" where
  "contains s p \<equiv> sublist p s"

definition strip_prefix :: "string \<Rightarrow> string \<Rightarrow> string option" where
  "strip_prefix s p = (if prefix p s then Some (drop (length p) s) else None)"

definition strip_suffix :: "string \<Rightarrow> string \<Rightarrow> string option" where
  "strip_suffix s p = (if suffix p s then Some (take (length s - length p) s) else None)"

lemma strip_prefix_append [simp]: "strip_prefix (p @ s) p = Some s"
  by (simp add: strip_prefix_def)

lemma strip_suffix_append [simp]: "strip_suffix (s @ p) p = Some s"
  by (simp add: strip_suffix_def suffix_def)

text \<open>\<open>s.chars().take(n).collect()\<close>: the first \<open>n\<close> characters, each a byte and the continuation
  bytes after it.\<close>

function take_chars :: "nat \<Rightarrow> string \<Rightarrow> string" where
  "take_chars n [] = []"
| "take_chars 0 (c # cs) = []"
| "take_chars (Suc n) (c # cs) = c # takeWhile is_cont cs @ take_chars n (dropWhile is_cont cs)"
  by pat_completeness auto
termination
  by (relation "measure (\<lambda>(n, s). length s)") (auto simp: le_imp_less_Suc length_dropWhile_le)

lemma take_chars_prefix: "prefix (take_chars n s) s"
proof (induction n s rule: take_chars.induct)
  case (3 n c cs)
  then have "prefix (takeWhile is_cont cs @ take_chars n (dropWhile is_cont cs))
      (takeWhile is_cont cs @ dropWhile is_cont cs)"
    by (simp only: same_prefix_prefix)
  then show ?case by simp
qed auto

definition ascii_lower :: "char \<Rightarrow> char" where
  "ascii_lower c = (if 65 \<le> byte c \<and> byte c \<le> 90 then char_of (byte c + 32) else c)"

definition ascii_upper :: "char \<Rightarrow> char" where
  "ascii_upper c = (if 97 \<le> byte c \<and> byte c \<le> 122 then char_of (byte c - 32) else c)"

definition to_ascii_lowercase :: "string \<Rightarrow> string" where
  "to_ascii_lowercase s = map ascii_lower s"

definition to_ascii_uppercase :: "string \<Rightarrow> string" where
  "to_ascii_uppercase s = map ascii_upper s"

definition is_ascii_digit :: "char \<Rightarrow> bool" where
  "is_ascii_digit c \<longleftrightarrow> 48 \<le> byte c \<and> byte c \<le> 57"

definition is_ascii_alphanumeric :: "char \<Rightarrow> bool" where
  "is_ascii_alphanumeric c \<longleftrightarrow> is_ascii_digit c
     \<or> (65 \<le> byte c \<and> byte c \<le> 90) \<or> (97 \<le> byte c \<and> byte c \<le> 122)"

lemma byte_ascii_lower_upper: "\<not> (65 \<le> byte (ascii_lower c) \<and> byte (ascii_lower c) \<le> 90)"
  by (auto simp: ascii_lower_def byte_def)

lemma ascii_lower_idem [simp]: "ascii_lower (ascii_lower c) = ascii_lower c"
  using byte_ascii_lower_upper [of c] by (auto simp: ascii_lower_def [of "ascii_lower c"])

lemma to_ascii_lowercase_idem [simp]:
  "to_ascii_lowercase (to_ascii_lowercase s) = to_ascii_lowercase s"
  by (simp add: to_ascii_lowercase_def)

text \<open>\<open>s.split(c)\<close> for one character: always at least one piece.\<close>

fun split_on :: "char \<Rightarrow> string \<Rightarrow> string list" where
  "split_on d [] = [[]]"
| "split_on d (c # cs) =
     (if c = d then [] # split_on d cs
      else case split_on d cs of [] \<Rightarrow> [[c]] | w # ws \<Rightarrow> (c # w) # ws)"

fun join :: "string \<Rightarrow> string list \<Rightarrow> string" where
  "join sep [] = []"
| "join sep [w] = w"
| "join sep (w # v # ws) = w @ sep @ join sep (v # ws)"

lemma split_on_nonempty [simp]: "split_on d s \<noteq> []"
  by (induction s) (auto split: list.splits)

lemma join_split_on: "join [d] (split_on d s) = s"
proof (induction s)
  case (Cons c cs)
  obtain w ws where ws: "split_on d cs = w # ws"
    by (meson neq_Nil_conv split_on_nonempty)
  with Cons.IH show ?case by (cases ws) auto
qed simp

text \<open>\<open>s.replace(c, w)\<close> for one character.\<close>

definition replace_char :: "char \<Rightarrow> string \<Rightarrow> string \<Rightarrow> string" where
  "replace_char c w s = concat (map (\<lambda>x. if x = c then w else [x]) s)"

text \<open>\<open>split_inclusive(|b| b == d)\<close>: pieces that keep their delimiter; no empty last piece.\<close>

fun split_inclusive :: "char \<Rightarrow> string \<Rightarrow> string list" where
  "split_inclusive d [] = []"
| "split_inclusive d (c # cs) =
     (if c = d then [c] # split_inclusive d cs
      else case split_inclusive d cs of [] \<Rightarrow> [[c]] | w # ws \<Rightarrow> (c # w) # ws)"

lemma split_inclusive_Nil_iff [simp]: "split_inclusive d s = [] \<longleftrightarrow> s = []"
  by (cases s) (auto split: list.splits)

lemma split_inclusive_append:
  "a = [] \<or> last a = d \<Longrightarrow> split_inclusive d (a @ b) = split_inclusive d a @ split_inclusive d b"
  by (induction a) (auto split: list.splits if_splits)

lemma concat_split_inclusive: "concat (split_inclusive d s) = s"
  by (induction s) (auto split: list.splits)

abbreviation newline :: char where "newline \<equiv> CHR 0x0A"
abbreviation carriage_return :: char where "carriage_return \<equiv> CHR 0x0D"

text \<open>\<open>str::lines\<close>: pieces ended by a newline, without it and without one \<open>\r\<close> before it; a last
  piece without a newline is kept as it is.\<close>

definition line_of :: "string \<Rightarrow> string" where
  "line_of piece =
     (case strip_suffix piece [newline] of
        None \<Rightarrow> piece
      | Some l \<Rightarrow> (case strip_suffix l [carriage_return] of None \<Rightarrow> l | Some l' \<Rightarrow> l'))"

definition lines :: "string \<Rightarrow> string list" where
  "lines s = map line_of (split_inclusive newline s)"

text \<open>The UTF-8 encodings of the Unicode white space characters, as \<open>char::is_whitespace\<close> has them.\<close>

definition whitespace :: "string list" where
  "whitespace =
     [[CHR 0x09], [CHR 0x0A], [CHR 0x0B], [CHR 0x0C], [CHR 0x0D], [CHR 0x20],
      [CHR 0xC2, CHR 0x85], [CHR 0xC2, CHR 0xA0], [CHR 0xE1, CHR 0x9A, CHR 0x80],
      [CHR 0xE2, CHR 0x80, CHR 0x80], [CHR 0xE2, CHR 0x80, CHR 0x81],
      [CHR 0xE2, CHR 0x80, CHR 0x82], [CHR 0xE2, CHR 0x80, CHR 0x83],
      [CHR 0xE2, CHR 0x80, CHR 0x84], [CHR 0xE2, CHR 0x80, CHR 0x85],
      [CHR 0xE2, CHR 0x80, CHR 0x86], [CHR 0xE2, CHR 0x80, CHR 0x87],
      [CHR 0xE2, CHR 0x80, CHR 0x88], [CHR 0xE2, CHR 0x80, CHR 0x89],
      [CHR 0xE2, CHR 0x80, CHR 0x8A], [CHR 0xE2, CHR 0x80, CHR 0xA8],
      [CHR 0xE2, CHR 0x80, CHR 0xA9], [CHR 0xE2, CHR 0x80, CHR 0xAF],
      [CHR 0xE2, CHR 0x81, CHR 0x9F], [CHR 0xE3, CHR 0x80, CHR 0x80]]"

lemma whitespace_nonempty: "w \<in> set whitespace \<Longrightarrow> 0 < length w"
  by (auto simp: whitespace_def)

text \<open>Length of the white space character at the start of a string, 0 when there is none.\<close>

definition ws_len :: "string \<Rightarrow> nat" where
  "ws_len s = (case find (\<lambda>w. prefix w s) whitespace of None \<Rightarrow> 0 | Some w \<Rightarrow> length w)"

function trim_start :: "string \<Rightarrow> string" where
  "trim_start s = (if s = [] \<or> ws_len s = 0 then s else trim_start (drop (ws_len s) s))"
  by pat_completeness auto
termination
  by (relation "measure length") auto

definition ws_end_len :: "string \<Rightarrow> nat" where
  "ws_end_len s = (case find (\<lambda>w. suffix w s) whitespace of None \<Rightarrow> 0 | Some w \<Rightarrow> length w)"

function trim_end :: "string \<Rightarrow> string" where
  "trim_end s = (if s = [] \<or> ws_end_len s = 0 then s
                 else trim_end (take (length s - ws_end_len s) s))"
  by pat_completeness auto
termination
  by (relation "measure length") auto

declare trim_start.simps [simp del] trim_end.simps [simp del]

definition trim :: "string \<Rightarrow> string" where
  "trim s = trim_end (trim_start s)"

text \<open>\<open>str::split_whitespace\<close>: the non-empty pieces between white space characters. \<open>w\<close> is the
  piece being read.\<close>

function split_ws_from :: "string \<Rightarrow> string \<Rightarrow> string list" where
  "split_ws_from w [] = (if w = [] then [] else [w])"
| "split_ws_from w (c # cs) =
     (if ws_len (c # cs) = 0 then split_ws_from (w @ [c]) cs
      else (if w = [] then [] else [w]) @ split_ws_from [] (drop (ws_len (c # cs)) (c # cs)))"
  by pat_completeness auto
termination
  by (relation "measure (\<lambda>(w, s). length s)") auto

definition split_whitespace :: "string \<Rightarrow> string list" where
  "split_whitespace s = split_ws_from [] s"

text \<open>Decimal printing and parsing of unsigned integers (\<open>to_string\<close>, \<open>parse\<close>). \<open>parse\<close> accepts one
  leading \<open>+\<close>, wants at least one digit and fails above the type's maximum.\<close>

definition digit_char :: "nat \<Rightarrow> char" where
  "digit_char d = char_of (48 + d)"

fun show_nat :: "nat \<Rightarrow> string" where
  "show_nat n = (if n < 10 then [digit_char n] else show_nat (n div 10) @ [digit_char (n mod 10)])"

declare show_nat.simps [simp del]

fun digits_value :: "nat \<Rightarrow> string \<Rightarrow> nat option" where
  "digits_value acc [] = Some acc"
| "digits_value acc (c # cs) =
     (if is_ascii_digit c then digits_value (10 * acc + (byte c - 48)) cs else None)"

definition parse_nat :: "nat \<Rightarrow> string \<Rightarrow> nat option" where
  "parse_nat limit s =
     (let ds = (case s of c # cs \<Rightarrow> if c = CHR ''+'' then cs else s | [] \<Rightarrow> s)
      in if ds = [] then None
         else case digits_value 0 ds of
                None \<Rightarrow> None
              | Some n \<Rightarrow> if n < limit then Some n else None)"

lemma byte_digit_char [simp]: "d < 10 \<Longrightarrow> byte (digit_char d) = 48 + d"
  by (simp add: byte_def digit_char_def)

lemma is_ascii_digit_digit_char [simp]: "d < 10 \<Longrightarrow> is_ascii_digit (digit_char d)"
  by (simp add: is_ascii_digit_def)

lemma digits_value_append:
  "digits_value acc (xs @ ys) = Option.bind (digits_value acc xs) (\<lambda>a. digits_value a ys)"
  by (induction xs arbitrary: acc) auto

lemma digits_value_show_nat: "digits_value 0 (show_nat n) = Some n"
proof (induction n rule: show_nat.induct)
  case (1 n)
  then show ?case
    by (cases "n < 10") (simp_all add: show_nat.simps [of n] digits_value_append)
qed

lemma show_nat_digits: "c \<in> set (show_nat n) \<Longrightarrow> is_ascii_digit c"
proof (induction n rule: show_nat.induct)
  case (1 n)
  then show ?case
    by (cases "n < 10") (auto simp: show_nat.simps [of n])
qed

lemma show_nat_Cons: "\<exists>c cs. show_nat n = c # cs \<and> is_ascii_digit c"
proof -
  have "show_nat n \<noteq> []" by (subst show_nat.simps) simp
  then obtain c cs where "show_nat n = c # cs" by (meson neq_Nil_conv)
  then show ?thesis using show_nat_digits [of c n] by auto
qed

lemma parse_show_nat: "n < limit \<Longrightarrow> parse_nat limit (show_nat n) = Some n"
proof -
  assume n: "n < limit"
  obtain c cs where s: "show_nat n = c # cs" and d: "is_ascii_digit c"
    using show_nat_Cons by blast
  from d have "c \<noteq> CHR ''+''" by (auto simp: is_ascii_digit_def byte_def)
  with n s digits_value_show_nat [of n] show ?thesis by (simp add: parse_nat_def)
qed

definition show_u64 :: "u64 \<Rightarrow> string" where
  "show_u64 w = show_nat (unat w)"

definition parse_u64 :: "string \<Rightarrow> u64 option" where
  "parse_u64 s = map_option of_nat (parse_nat (2 ^ 64) s)"

definition show_u32 :: "u32 \<Rightarrow> string" where
  "show_u32 w = show_nat (unat w)"

definition parse_u32 :: "string \<Rightarrow> u32 option" where
  "parse_u32 s = map_option of_nat (parse_nat (2 ^ 32) s)"

lemma parse_show_u64 [simp]: "parse_u64 (show_u64 w) = Some w"
  using unsigned_less [of w, where ?'a = nat] by (simp add: parse_u64_def show_u64_def parse_show_nat)

lemma parse_show_u32 [simp]: "parse_u32 (show_u32 w) = Some w"
  using unsigned_less [of w, where ?'a = nat] by (simp add: parse_u32_def show_u32_def parse_show_nat)

lemma whitespace_no_digit:
  "list_all (\<lambda>w. w \<noteq> [] \<and> \<not> is_ascii_digit (hd w) \<and> \<not> is_ascii_digit (last w)) whitespace"
  by (simp add: whitespace_def is_ascii_digit_def byte_def)

lemma no_ws_digit_start:
  assumes "is_ascii_digit c" shows "ws_len (c # cs) = 0"
proof -
  have "\<not> prefix w (c # cs)" if "w \<in> set whitespace" for w
  proof -
    from that whitespace_no_digit have "w \<noteq> []" "\<not> is_ascii_digit (hd w)" by (auto simp: list_all_iff)
    with assms show ?thesis by (auto simp: prefix_Cons)
  qed
  then have "find (\<lambda>w. prefix w (c # cs)) whitespace = None" by (simp add: find_None_iff)
  then show ?thesis by (simp add: ws_len_def)
qed

lemma no_ws_digit_end:
  assumes "is_ascii_digit c" shows "ws_end_len (cs @ [c]) = 0"
proof -
  have "\<not> suffix w (cs @ [c])" if "w \<in> set whitespace" for w
  proof -
    from that whitespace_no_digit have "w \<noteq> []" "\<not> is_ascii_digit (last w)" by (auto simp: list_all_iff)
    with assms show ?thesis by (auto simp: suffix_snoc)
  qed
  then have "find (\<lambda>w. suffix w (cs @ [c])) whitespace = None" by (simp add: find_None_iff)
  then show ?thesis by (simp add: ws_end_len_def)
qed

lemma trim_show_nat [simp]: "trim (show_nat n) = show_nat n"
proof -
  obtain x xs where x: "show_nat n = x # xs" "is_ascii_digit x" using show_nat_Cons [of n] by auto
  obtain ys y where y: "show_nat n = ys @ [y]" by (metis rev_exhaust x(1) list.distinct(1))
  then have "is_ascii_digit y" using show_nat_digits [of y n] by simp
  with x y have "ws_len (show_nat n) = 0" "ws_end_len (show_nat n) = 0"
    using no_ws_digit_start no_ws_digit_end by metis+
  then have "trim_start (show_nat n) = show_nat n" "trim_end (show_nat n) = show_nat n"
    by (subst trim_start.simps, simp, subst trim_end.simps, simp)
  then show ?thesis by (simp add: trim_def)
qed

lemma trim_show_u64 [simp]: "trim (show_u64 c) = show_u64 c"
  by (simp add: show_u64_def)

lemma trim_show_u32 [simp]: "trim (show_u32 c) = show_u32 c"
  by (simp add: show_u32_def)

lemmas [str_eval] = byte_def is_cont_def strip_prefix_def strip_suffix_def line_of_def lines_def
  whitespace_def ws_len_def ws_end_len_def trim_def trim_start.simps trim_end.simps
  split_whitespace_def ascii_lower_def ascii_upper_def to_ascii_lowercase_def
  to_ascii_uppercase_def is_ascii_digit_def is_ascii_alphanumeric_def sublist_Cons_right
  suffix_to_prefix replace_char_def

section \<open>Dictionaries\<close>

type_synonym ('k, 'v) dict = "('k \<times> 'v) list"

abbreviation keys :: "('k, 'v) dict \<Rightarrow> 'k list" where
  "keys d \<equiv> map fst d"

text \<open>\<open>get_mut\<close> followed by an assignment through the reference: nothing for an absent key.\<close>

definition modify :: "('m \<Rightarrow> 'k \<Rightarrow> 'v option) \<Rightarrow> ('k \<Rightarrow> 'v \<Rightarrow> 'm \<Rightarrow> 'm) \<Rightarrow> 'k \<Rightarrow> ('v \<Rightarrow> 'v) \<Rightarrow> 'm \<Rightarrow> 'm"
  where "modify lookup put k f m =
    (case lookup m k of None \<Rightarrow> m | Some v \<Rightarrow> put k (f v) m)"

text \<open>The interface of Rust's \<open>HashMap\<close> and \<open>BTreeMap\<close> as the program uses it.\<close>

locale dictionary =
  fixes lookup :: "'m \<Rightarrow> 'k \<Rightarrow> 'v option"
    and put :: "'k \<Rightarrow> 'v \<Rightarrow> 'm \<Rightarrow> 'm"
    and remove :: "'k \<Rightarrow> 'm \<Rightarrow> 'm"
    and entries :: "'m \<Rightarrow> ('k \<times> 'v) list"
    and wf :: "'m \<Rightarrow> bool"
  assumes lookup_put: "lookup (put k v m) k' = (if k' = k then Some v else lookup m k')"
    and lookup_remove: "lookup (remove k m) k' = (if k' = k then None else lookup m k')"
    and entries_lookup: "wf m \<Longrightarrow> (k, v) \<in> set (entries m) \<longleftrightarrow> lookup m k = Some v"
    and entries_distinct: "wf m \<Longrightarrow> distinct (map fst (entries m))"
    and wf_put: "wf m \<Longrightarrow> wf (put k v m)"
    and wf_remove: "wf m \<Longrightarrow> wf (remove k m)"
begin

lemma lookup_modify:
  "lookup (modify lookup put k f m) k' =
     (if k' = k then map_option f (lookup m k) else lookup m k')"
  by (auto simp: modify_def lookup_put split: option.splits)

lemma wf_modify: "wf m \<Longrightarrow> wf (modify lookup put k f m)"
  by (auto simp: modify_def wf_put split: option.splits)

text \<open>A loop that rewrites the entries of a list of distinct keys rewrites exactly those.\<close>

lemma lookup_modify_all:
  "distinct ks \<Longrightarrow>
   lookup (fold (\<lambda>k. modify lookup put k f) ks m) k' =
     (if k' \<in> set ks then map_option f (lookup m k') else lookup m k')"
  by (induction ks arbitrary: m) (auto simp: lookup_modify)

lemma entry_of_lookup: "wf m \<Longrightarrow> lookup m k = Some v \<Longrightarrow> v \<in> snd ` set (entries m)"
  by (force simp flip: entries_lookup)

end

interpretation hm: dictionary map_of AList.update AList.delete "\<lambda>d. d" "\<lambda>d. distinct (keys d)"
proof (unfold_locales, goal_cases)
  case 1 show ?case by (simp add: update_conv')
next
  case 2 show ?case by (simp add: delete_conv')
next
  case 3 then show ?case by (simp add: map_of_eq_Some_iff)
next
  case 4 then show ?case by simp
next
  case 5 then show ?case by (rule distinct_update)
next
  case 6 then show ?case by (rule distinct_delete)
qed

lemmas [dict_simps] = hm.lookup_put hm.lookup_remove hm.lookup_modify

abbreviation modify_dict :: "'k \<Rightarrow> ('v \<Rightarrow> 'v) \<Rightarrow> ('k, 'v) dict \<Rightarrow> ('k, 'v) dict" where
  "modify_dict \<equiv> modify map_of AList.update"

text \<open>\<open>retain(|k, v| p)\<close>.\<close>

definition retain :: "('k \<Rightarrow> 'v \<Rightarrow> bool) \<Rightarrow> ('k, 'v) dict \<Rightarrow> ('k, 'v) dict" where
  "retain p d = filter (\<lambda>(k, v). p k v) d"

lemma distinct_retain: "distinct (keys d) \<Longrightarrow> distinct (keys (retain p d))"
  by (simp add: retain_def distinct_map_filter)

lemma map_of_retain [dict_simps]:
  "distinct (keys d) \<Longrightarrow>
   map_of (retain p d) k = (case map_of d k of None \<Rightarrow> None | Some v \<Rightarrow> if p k v then Some v else None)"
proof (induction d)
  case (Cons e d)
  then show ?case
    by (cases e) (force simp: retain_def dest: map_of_SomeD split: option.splits)
qed (simp add: retain_def)

section \<open>Logs with cursors\<close>

text \<open>Entries that are strictly ordered by their cursors: a part of the log is determined by what is in it.\<close>

lemma strict_fst_unique:
  fixes xs ys :: "('c :: linorder \<times> 'e) list"
  assumes "sorted_wrt (<) (map fst xs)" "sorted_wrt (<) (map fst ys)" "set xs = set ys"
  shows "xs = ys"
proof (rule map_inj_on)
  show "map fst xs = map fst ys" using assms by (intro strict_sorted_equal) simp_all
  show "inj_on fst (set xs \<union> set ys)" using assms(1,3) strict_sorted_iff [of "map fst xs"] by (simp add: distinct_map)
qed

locale cursor_log =
  fixes entries :: "'s \<Rightarrow> ('c :: linorder \<times> 'e) list"
    and ok :: "'s \<Rightarrow> bool"
  assumes ordered: "ok s \<Longrightarrow> sorted_wrt (<) (map fst (entries s))"
begin

lemma part_sorted: "ok s \<Longrightarrow> sorted_wrt (<) (map fst (filter P (entries s)))"
  using ordered by (simp add: sorted_wrt_map sorted_wrt_filter)

lemma parts_equal:
  "ok s \<Longrightarrow> ok t \<Longrightarrow> set (filter P (entries s)) = set (filter Q (entries t)) \<Longrightarrow> filter P (entries s) = filter Q (entries t)"
  by (rule strict_fst_unique) (auto intro: part_sorted simp del: set_filter)

text \<open>A part that continues another one, also of a later state of the log.\<close>

lemma part_append:
  assumes "ok s" "ok t" "\<And>k x. (k, x) \<in> set (entries s) \<Longrightarrow> P (k, x) \<Longrightarrow> k \<le> e" "\<And>k x. (k, x) \<in> set (entries t) \<Longrightarrow> Q (k, x) \<Longrightarrow> e < k"
    and "set (filter R (entries t)) = set (filter P (entries s) @ filter Q (entries t))"
  shows "filter R (entries t) = filter P (entries s) @ filter Q (entries t)"
proof (rule strict_fst_unique [OF part_sorted [OF assms(2)] _ assms(5)])
  show "sorted_wrt (<) (map fst (filter P (entries s) @ filter Q (entries t)))"
    using part_sorted [OF assms(1), of P] part_sorted [OF assms(2), of Q] assms(3,4) by (fastforce simp: sorted_wrt_append)
qed

lemma part_split:
  assumes "ok s" "c \<le> c'" "c' \<le> c''"
  shows "filter (\<lambda>(k, x). c < k \<and> k \<le> c'') (entries s) =
    filter (\<lambda>(k, x). c < k \<and> k \<le> c') (entries s) @ filter (\<lambda>(k, x). c' < k \<and> k \<le> c'') (entries s)"
  by (rule part_append [OF assms(1,1), where e = c']) (use assms(2,3) in auto)

lemma last_is_greatest:
  assumes "ok s" "x \<in> set (filter P (entries s))"
  shows "fst x \<le> last (map fst (filter P (entries s)))"
proof -
  have "fst x \<le> last (map fst xs)" if "sorted_wrt (<) (map fst xs)" "x \<in> set xs" for xs
    using that
  proof (induction xs)
    case (Cons y xs)
    then show ?case by (cases "xs = []") (auto simp: last_map intro: less_imp_le)
  qed simp
  then show ?thesis using part_sorted assms by blast
qed

end

section \<open>Machines and their runs\<close>

fun run_steps :: "('s \<Rightarrow> 'i \<Rightarrow> 's \<times> 'o list) \<Rightarrow> 's \<Rightarrow> 'i list \<Rightarrow> 's \<times> 'o list" where
  "run_steps step s [] = (s, [])"
| "run_steps step s (i # is) =
     (let (s', out) = step s i; (s'', outs) = run_steps step s' is in (s'', out @ outs))"

lemma run_steps_append:
  "run_steps step s (xs @ ys) =
     (let (s', out) = run_steps step s xs; (s'', outs) = run_steps step s' ys in (s'', out @ outs))"
  by (induction xs arbitrary: s) (auto simp: split_beta)

lemma run_steps_Cons [simp]:
  "fst (run_steps step s (i # is)) = fst (run_steps step (fst (step s i)) is)"
  "snd (run_steps step s (i # is)) = snd (step s i) @ snd (run_steps step (fst (step s i)) is)"
  by (simp_all add: split_beta)

declare run_steps.simps(2) [simp del]

locale invariant_machine =
  fixes step :: "'s \<Rightarrow> 'i \<Rightarrow> 's \<times> 'o list"
    and inv :: "'s \<Rightarrow> bool"
  assumes step_inv: "inv s \<Longrightarrow> inv (fst (step s i))"
begin

lemma run_inv: "inv s \<Longrightarrow> inv (fst (run_steps step s is))"
  by (induction "is" arbitrary: s) (auto simp: step_inv)

text \<open>A fact about the outputs of one step from a good state holds of every output of a run.\<close>

lemma run_outputs:
  assumes "\<And>s i x. inv s \<Longrightarrow> x \<in> set (snd (step s i)) \<Longrightarrow> P x"
    and "inv s"
  shows "\<forall>x \<in> set (snd (run_steps step s is)). P x"
  using assms(2)
proof (induction "is" arbitrary: s)
  case (Cons i "is")
  then show ?case using assms(1) step_inv by fastforce
qed simp

end

section \<open>Interleaved systems and their traces\<close>

text \<open>Threads and tasks that share state are labelled step relations; \<open>traced step s0 tr s\<close> runs them from \<open>s0\<close> with the labels
  \<open>tr\<close>.\<close>

inductive traced :: "('s \<Rightarrow> 'l \<Rightarrow> 's \<Rightarrow> bool) \<Rightarrow> 's \<Rightarrow> 'l list \<Rightarrow> 's \<Rightarrow> bool" for step :: "'s \<Rightarrow> 'l \<Rightarrow> 's \<Rightarrow> bool" and s0 :: 's where
  start: "traced step s0 [] s0"
| more: "traced step s0 tr s \<Longrightarrow> step s l s' \<Longrightarrow> traced step s0 (tr @ [l]) s'"

inductive_cases traced_snoc: "traced step s0 (tr @ [l]) s"

lemma traced_split: "traced step s0 (tr1 @ tr2) s \<Longrightarrow> \<exists>s1. traced step s0 tr1 s1 \<and> traced step s1 tr2 s"
proof (induction tr2 arbitrary: s rule: rev_induct)
  case (snoc l tr2)
  from snoc.prems have "traced step s0 ((tr1 @ tr2) @ [l]) s" by simp
  then obtain s2 where r: "traced step s0 (tr1 @ tr2) s2" and st: "step s2 l s" by (rule traced_snoc)
  from snoc.IH [OF r] st show ?case by (blast intro: traced.more)
qed (auto intro: traced.start)

lemma traced_cons:
  assumes "step s l s1" "traced step s1 tr s'"
  shows "traced step s (l # tr) s'"
  using assms(2)
proof (induction rule: traced.induct)
  case start
  from traced.more [where step = step, OF traced.start, OF assms(1)] show ?case by simp
next
  case (more tr s2 l2 s3)
  from traced.more [OF more(3,2)] show ?case by simp
qed

lemma traced_append: "traced step s tr1 s1 \<Longrightarrow> traced step s1 tr2 s2 \<Longrightarrow> traced step s (tr1 @ tr2) s2"
proof (induction arbitrary: tr2 rule: traced.induct)
  case (more tr s1 l s')
  from more.IH [OF traced_cons [OF more.hyps(2) more.prems]] show ?case by simp
qed simp

text \<open>An invariant may speak of the labels so far.\<close>

locale traced_invariant =
  fixes step :: "'s \<Rightarrow> 'l \<Rightarrow> 's \<Rightarrow> bool"
    and inv :: "'l list \<Rightarrow> 's \<Rightarrow> bool"
  assumes step_inv: "step s l s' \<Longrightarrow> inv tr s \<Longrightarrow> inv (tr @ [l]) s'"
begin

lemma traced_inv: "traced step s0 tr s \<Longrightarrow> inv [] s0 \<Longrightarrow> inv tr s"
  by (induction rule: traced.induct) (auto intro: step_inv)

text \<open>Before every step of a run the invariant holds of the labels before it.\<close>

lemma traced_at:
  assumes "traced step s0 (tr1 @ l # tr2) s" "inv [] s0"
  obtains s1 s2 where "traced step s0 tr1 s1" "inv tr1 s1" "step s1 l s2" "traced step s0 (tr1 @ [l]) s2"
proof -
  from assms(1) have "traced step s0 ((tr1 @ [l]) @ tr2) s" by simp
  then obtain s2 where s2: "traced step s0 (tr1 @ [l]) s2" by (auto dest: traced_split simp del: append_assoc)
  then obtain s1 where "traced step s0 tr1 s1" "step s1 l s2" by (rule traced_snoc)
  with traced_inv assms(2) s2 show ?thesis using that by blast
qed

end

end
