(* ===== verification/Mai_Protocol.thy ===== *)
theory Mai_Protocol
  imports Mai_Prelude
begin

text \<open>
  The wire protocol shared by the probe and the app (\<open>crates/mai-protocol\<close>): the value types
  (\<open>types.rs\<close>), the two message enums (\<open>messages.rs\<close>), the JSON Lines codec (\<open>codec.rs\<close>) and
  \<open>sanitize_client\<close> (\<open>lib.rs\<close>).

  \<open>serde_json\<close> is not part of the repository: the codec takes the serialiser and the parser as
  arguments. A floating point number is carried as its bit pattern; nothing computes with it.
\<close>

section \<open>Value types\<close>

type_synonym f32 = "32 word"

datatype agent_state = Unknown | Working | NeedsInput | Done | Exited

datatype event_source = Hook | Scrape

record pane_ref =
  pr_session :: string
  pr_pane_id :: u32

record agent_event =
  ev_pane :: pane_ref
  ev_agent :: string
  ev_source :: event_source
  ev_state :: agent_state
  ev_message :: "string option"
  ev_ts_ms :: u64
  ev_spool_offset :: "u64 option"

record session_info =
  si_name :: string
  si_exited :: bool

record pane_info =
  pi_id :: u32
  pi_tab_id :: u32
  pi_tab_name :: string
  pi_title :: string
  pi_command :: "string option"
  pi_exited :: bool

record metrics =
  me_cpu_pct :: f32
  me_mem_used :: u64
  me_mem_total :: u64
  me_disk_read_bps :: u64
  me_disk_write_bps :: u64
  me_net_rx_bps :: u64
  me_net_tx_bps :: u64
  me_load1 :: "f32 option"
  me_ts_ms :: u64

record agent_rule =
  ru_name :: string
  ru_title_patterns :: "string list"
  ru_screen_patterns :: "string list"
  ru_needs_input_patterns :: "string list"
  ru_done_patterns :: "string list"
  ru_ignore_patterns :: "string list"
  ru_stable_ms :: u64

record scrape_rules =
  sr_agents :: "agent_rule list"

section \<open>Messages\<close>

text \<open>Probe to app, on the probe's standard output.\<close>

datatype probe_msg =
    PM_Hello (hello_protocol_version: u32) (hello_probe_version: string) (hello_os: string)
      (hello_arch: string) (hello_zellij_path: "string option")
      (hello_zellij_version: "string option")
  | PM_Sessions "session_info list"
  | PM_Panes string "pane_info list"
  | PM_AgentEvent agent_event
  | PM_Metrics metrics
  | PM_Heartbeat u64
  | PM_Error string string

text \<open>App to probe, on the probe's standard input. Fields in the order of the source.\<close>

datatype app_msg =
    AM_Ack u64
  | AM_SendText string u32 string
  | AM_Focus string u32 u32
  | AM_SetInterval u64 u64 u64
  | AM_SetRules scrape_rules

definition PROTOCOL_VERSION :: u32 where
  "PROTOCOL_VERSION = 1"

definition sanitize_client :: "string \<Rightarrow> string" where
  "sanitize_client i = filter (\<lambda>c. is_ascii_alphanumeric c \<or> c = CHR ''-'' \<or> c = CHR ''_'') i"

section \<open>Codec\<close>

text \<open>\<open>ser\<close> stands for \<open>serde_json::to_string\<close>, \<open>de\<close> for \<open>serde_json::from_str\<close>.\<close>

definition encode_line :: "('a \<Rightarrow> 'e + string) \<Rightarrow> 'a \<Rightarrow> 'e + string" where
  "encode_line ser msg = (case ser msg of Err e \<Rightarrow> Err e | Ok s \<Rightarrow> Ok (s @ [newline]))"

definition trim_line_end :: "string \<Rightarrow> string" where
  "trim_line_end s = rev (dropWhile (\<lambda>c. c = carriage_return \<or> c = newline) (rev s))"

definition decode_line :: "(string \<Rightarrow> 'e + 'a) \<Rightarrow> string \<Rightarrow> 'e + 'a" where
  "decode_line de line = de (trim_line_end line)"

section \<open>Facts about the codec and client ids\<close>

lemma trim_line_end_clean:
  "newline \<notin> set s \<Longrightarrow> carriage_return \<notin> set s \<Longrightarrow>
   set e \<subseteq> {newline, carriage_return} \<Longrightarrow> trim_line_end (s @ e) = s"
proof -
  assume s: "newline \<notin> set s" "carriage_return \<notin> set s"
    and e: "set e \<subseteq> {newline, carriage_return}"
  let ?p = "\<lambda>c. c = carriage_return \<or> c = newline"
  have "dropWhile ?p (rev e @ rev s) = dropWhile ?p (rev s)"
    using e by (subst dropWhile_append2) auto
  also have "\<dots> = rev s"
  proof (cases "rev s")
    case (Cons c cs)
    then have "c \<in> set s" by (metis list.set_intros(1) set_rev)
    with s have "\<not> ?p c" by auto
    with Cons show ?thesis by simp
  qed simp
  finally show ?thesis by (simp add: trim_line_end_def)
qed

lemma sanitize_client_safe:
  "c \<in> set (sanitize_client i) \<Longrightarrow> is_ascii_alphanumeric c \<or> c = CHR ''-'' \<or> c = CHR ''_''"
  by (simp add: sanitize_client_def)

lemma sanitize_client_idem [simp]: "sanitize_client (sanitize_client i) = sanitize_client i"
  by (simp add: sanitize_client_def)

end
