(* ===== verification/Mai_Types.thy ===== *)
theory Mai_Types
  imports Mai_Protocol
begin

text \<open>
  Data the components of \<open>crates/mai-core\<close> hand each other: what a probe says in its greeting and
  how its stream fails (\<open>link.rs\<close>), one line of \<open>install-hooks\<close> output (\<open>deploy.rs\<close>), why a host
  waits, its connection and overall states, the events and commands of a host task
  (\<open>host.rs\<close>), and the requests to a terminal task (\<open>term.rs\<close>, \<open>pty.rs\<close>). Paths are strings; durations are numbers of milliseconds.
\<close>

type_synonym path = string
type_synonym duration = nat

section \<open>The probe stream\<close>

record hello_info =
  hi_protocol_version :: u32
  hi_probe_version :: string
  hi_os :: string
  hi_arch :: string
  hi_zellij_path :: "string option"
  hi_zellij_version :: "string option"

datatype link_error =
    LE_Io string
  | LE_Closed
  | LE_Silent
  | LE_NoHello string
  | LE_Protocol u32 u32

fun show_link_error :: "link_error \<Rightarrow> string" where
  "show_link_error (LE_Io e) = ''probe stream: '' @ e"
| "show_link_error LE_Closed = ''probe stream closed''"
| "show_link_error LE_Silent = ''probe stopped responding''"
| "show_link_error (LE_NoHello m) = ''probe did not start: '' @ m"
| "show_link_error (LE_Protocol probe app) =
     ''probe protocol '' @ show_u32 probe @ '', app protocol '' @ show_u32 app"

section \<open>Hook installation results\<close>

record hook_result =
  hr_agent :: string
  hr_outcome :: string
  hr_path :: "string option"
  hr_note :: "string option"
  hr_reason :: "string option"
  hr_error :: "string option"

section \<open>Hosts and their connections\<close>

datatype host_kind = HK_Local | HK_Ssh string

record host_config =
  hc_id :: string
  hc_kind :: host_kind
  hc_zellij :: "string option"

datatype problem =
    P_Auth string
  | P_HostKeyRejected
  | P_HostKeyChanged path nat
  | P_HostKeyRevoked path nat
  | P_Deploy string
  | P_Config string
  | P_Protocol u32 u32

fun show_problem :: "problem \<Rightarrow> string" where
  "show_problem (P_Auth m) = ''authentication failed: '' @ m"
| "show_problem P_HostKeyRejected = ''host key not accepted''"
| "show_problem (P_HostKeyChanged file line) =
     ''HOST KEY CHANGED (recorded in '' @ file @ '' line '' @ show_nat line @ '')''"
| "show_problem (P_HostKeyRevoked file line) =
     ''host key REVOKED (marked in '' @ file @ '' line '' @ show_nat line @ '')''"
| "show_problem (P_Deploy m) = ''probe deployment failed: '' @ m"
| "show_problem (P_Config m) = ''configuration error: '' @ m"
| "show_problem (P_Protocol probe app) =
     ''probe protocol '' @ show_u32 probe @ '' does not match app protocol '' @ show_u32 app"

datatype open_error = OE_Retry string | OE_NeedsUser problem

datatype conn_state =
    CS_Connecting
  | CS_Up
  | CS_Retrying duration string
  | CS_NeedsUser problem

datatype host_status = HS_Connecting | HS_Online | HS_Degraded | HS_Offline | HS_AuthRequired

datatype host_event =
    HE_Probe conn_state
  | HE_Hello hello_info
  | HE_Hooks "string + hook_result list"
  | HE_Msg probe_msg
  | HE_Dropped app_msg
  | HE_Term "conn_state option"
  | HE_Notes "string list"

datatype host_command = HC_Retry | HC_Send app_msg | HC_Stop

definition needs_auth :: "conn_state \<Rightarrow> bool" where
  "needs_auth c =
     (case c of
        CS_NeedsUser p \<Rightarrow>
          (case p of
             P_Auth m \<Rightarrow> True
           | P_HostKeyRejected \<Rightarrow> True
           | P_HostKeyChanged f l \<Rightarrow> True
           | P_HostKeyRevoked f l \<Rightarrow> True
           | _ \<Rightarrow> False)
      | _ \<Rightarrow> False)"

definition host_state :: "conn_state \<Rightarrow> conn_state option \<Rightarrow> host_status" where
  "host_state probe term =
     (let conns = probe # (case term of None \<Rightarrow> [] | Some t \<Rightarrow> [t]);
          up = length (filter (\<lambda>c. c = CS_Up) conns)
      in if up = length conns then HS_Online
         else if up > 0 then HS_Degraded
         else if list_ex needs_auth conns then HS_AuthRequired
         else if list_ex (\<lambda>c. c = CS_Connecting) conns then HS_Connecting
         else HS_Offline)"

section \<open>Terminals\<close>

record term_size =
  ts_cols :: u16
  ts_rows :: u16

record attach_spec =
  as_session :: string
  as_create :: bool
  as_size :: term_size

datatype term_error = TE_NoHost | TE_BadSession string | TE_Open open_error | TE_Stopped

definition check_session :: "string \<Rightarrow> term_error + unit" where
  "check_session name =
     (if name = [] \<or> starts_with name ''-'' then Err (TE_BadSession name) else Ok ())"

text \<open>The \<open>reply\<close> channel of an open request is named by a number.\<close>

datatype term_cmd =
    TC_Open attach_spec nat
  | TC_Input u64 "char list"
  | TC_Resize u64 term_size
  | TC_Close u64
  | TC_Retry
  | TC_Stop

section \<open>What the overall state says about the connections\<close>

text \<open>The host state shown to the user is determined by its connections as the design says:
  online exactly when every open connection is up, degraded exactly when some but not all are,
  otherwise authentication required when one waits for credentials or a host key decision, else
  connecting when one is connecting, else offline.\<close>

theorem host_state_meaning:
  "(host_state p t = HS_Online \<longleftrightarrow> p = CS_Up \<and> t \<in> {None, Some CS_Up})
   \<and> (host_state p t = HS_Degraded \<longleftrightarrow> (\<exists>c. t = Some c \<and> (p = CS_Up) \<noteq> (c = CS_Up)))
   \<and> (host_state p t = HS_AuthRequired \<longleftrightarrow>
        p \<noteq> CS_Up \<and> t \<noteq> Some CS_Up \<and> (needs_auth p \<or> (\<exists>c. t = Some c \<and> needs_auth c)))
   \<and> (host_state p t = HS_Connecting \<longleftrightarrow>
        p \<noteq> CS_Up \<and> t \<noteq> Some CS_Up \<and> \<not> (needs_auth p \<or> (\<exists>c. t = Some c \<and> needs_auth c))
        \<and> (p = CS_Connecting \<or> t = Some CS_Connecting))"
  by (cases t) (auto simp: host_state_def Let_def)

end
