(* ===== verification/Link.thy ===== *)
theory Link
  imports Mai_Types
begin

text \<open>
  The app side of the probe's JSON Lines stream (\<open>crates/mai-core/src/link.rs\<close>).

  The reader is what the transport will deliver: a list of lines, errors and the end of the stream,
  each with the time (in milliseconds) at which it becomes available; after the list the stream is
  silent. \<open>next_line\<close> is the read under \<open>tokio::time::timeout\<close>, so the time at which every operation
  returns is part of the model. The writer keeps the bytes handed to the transport and takes the
  results of its next operations from a list (none left: they succeed).
\<close>

section \<open>The stream\<close>

definition HELLO_TIMEOUT :: duration where "HELLO_TIMEOUT = 30000"
definition SILENCE_TIMEOUT :: duration where "SILENCE_TIMEOUT = 20000"
definition MAX_NOISE_LINES :: nat where "MAX_NOISE_LINES = 50"

datatype read_item = R_Line string | R_Io string | R_Eof

text \<open>A write or flush that fails may have passed on some of its bytes.\<close>

datatype write_result = W_Ok | W_Fail nat string

record probe_link =
  li_now :: nat
  li_lines :: "(nat \<times> read_item) list"
  li_written :: string
  li_results :: "write_result list"

fun item_result :: "read_item \<Rightarrow> link_error + string" where
  "item_result (R_Line line) = Ok line"
| "item_result (R_Io e) = Err (LE_Io e)"
| "item_result R_Eof = Err LE_Closed"

text \<open>A closed stream stays closed.\<close>

definition next_line :: "duration \<Rightarrow> probe_link \<Rightarrow> (link_error + string) \<times> probe_link" where
  "next_line timeout l =
     (case li_lines l of
        [] \<Rightarrow> (Err LE_Silent, l\<lparr>li_now := li_now l + timeout\<rparr>)
      | (t, item) # rest \<Rightarrow>
          if li_now l + timeout < t then (Err LE_Silent, l\<lparr>li_now := li_now l + timeout\<rparr>)
          else (item_result item,
                l\<lparr>li_now := max (li_now l) t,
                  li_lines := if item = R_Eof then li_lines l else rest\<rparr>))"

section \<open>Handshake, receiving and sending\<close>

text \<open>\<open>de\<close> is the parser behind \<open>decode_line::<ProbeMsg>\<close> with its error printed, \<open>dbg\<close> the derived
  \<open>Debug\<close> output of a message.\<close>

function hello_loop ::
    "(string \<Rightarrow> string + probe_msg) \<Rightarrow> (probe_msg \<Rightarrow> string) \<Rightarrow> nat \<Rightarrow> string list \<Rightarrow> probe_link
      \<Rightarrow> (link_error + hello_info) \<times> probe_link" where
  "hello_loop de dbg deadline noise l =
     (if length noise > MAX_NOISE_LINES
      then (Err (LE_NoHello (''unexpected output: '' @ take_chars 120 (hd noise))), l)
      else
        let (r, l') = next_line (deadline - li_now l) l
        in case r of
             Err e \<Rightarrow> (Err e, l')
           | Ok line \<Rightarrow>
               (case decode_line de line of
                  Ok (PM_Hello v pv os arch zp zv) \<Rightarrow>
                    if v \<noteq> PROTOCOL_VERSION then (Err (LE_Protocol v PROTOCOL_VERSION), l')
                    else (Ok \<lparr>hi_protocol_version = v, hi_probe_version = pv, hi_os = os, hi_arch = arch,
                              hi_zellij_path = zp, hi_zellij_version = zv\<rparr>, l')
                | Ok other \<Rightarrow> (Err (LE_NoHello (''first message was not hello: '' @ dbg other)), l')
                | Err _ \<Rightarrow> hello_loop de dbg deadline (noise @ [line]) l'))"
  by pat_completeness auto
termination
  by (relation "measure (\<lambda>(de, dbg, deadline, noise, l). Suc MAX_NOISE_LINES - length noise)") auto

declare hello_loop.simps [simp del]

definition hello ::
    "(string \<Rightarrow> string + probe_msg) \<Rightarrow> (probe_msg \<Rightarrow> string) \<Rightarrow> probe_link
      \<Rightarrow> (link_error + hello_info) \<times> probe_link" where
  "hello de dbg l = hello_loop de dbg (li_now l + HELLO_TIMEOUT) [] l"

definition recv_msg :: "(string \<Rightarrow> string + probe_msg) \<Rightarrow> string \<Rightarrow> probe_msg" where
  "recv_msg de line =
     (case decode_line de line of
        Ok m \<Rightarrow> m
      | Err e \<Rightarrow> PM_Error ''bad_probe_line'' (e @ '': '' @ take_chars 120 line))"

definition recv ::
    "(string \<Rightarrow> string + probe_msg) \<Rightarrow> probe_link \<Rightarrow> (link_error + probe_msg) \<times> probe_link" where
  "recv de l =
     (let (r, l') = next_line SILENCE_TIMEOUT l
      in (case r of Err e \<Rightarrow> Err e | Ok line \<Rightarrow> Ok (recv_msg de line), l'))"

text \<open>One operation of the writer, with the bytes it passes on.\<close>

definition writer_op :: "string \<Rightarrow> probe_link \<Rightarrow> (link_error + unit) \<times> probe_link" where
  "writer_op bytes l =
     (case li_results l of
        [] \<Rightarrow> (Ok (), l\<lparr>li_written := li_written l @ bytes\<rparr>)
      | W_Ok # rs \<Rightarrow> (Ok (), l\<lparr>li_written := li_written l @ bytes, li_results := rs\<rparr>)
      | W_Fail n e # rs \<Rightarrow>
          (Err (LE_Io e), l\<lparr>li_written := li_written l @ take n bytes, li_results := rs\<rparr>))"

definition link_send ::
    "(app_msg \<Rightarrow> string + string) \<Rightarrow> app_msg \<Rightarrow> probe_link \<Rightarrow> (link_error + unit) \<times> probe_link" where
  "link_send ser msg l =
     (case encode_line ser msg of
        Err e \<Rightarrow> (Err (LE_Io e), l)
      | Ok line \<Rightarrow>
          (let (r, l1) = writer_op line l
           in case r of Err e \<Rightarrow> (Err e, l1) | Ok _ \<Rightarrow> writer_op [] l1))"

section \<open>The handshake\<close>

text \<open>The position of the greeting in a stream: lines that do not parse, then the greeting, all of
  them there by the deadline.\<close>

definition noise_item :: "(string \<Rightarrow> string + probe_msg) \<Rightarrow> nat \<Rightarrow> nat \<times> read_item \<Rightarrow> bool" where
  "noise_item de deadline x \<longleftrightarrow> fst x \<le> deadline
     \<and> (\<exists>line e. snd x = R_Line line \<and> decode_line de line = Err e)"

definition greeting :: "hello_info \<Rightarrow> probe_msg" where
  "greeting h = PM_Hello (hi_protocol_version h) (hi_probe_version h) (hi_os h) (hi_arch h)
     (hi_zellij_path h) (hi_zellij_version h)"

lemma next_line_by_deadline:
  "li_now l \<le> deadline \<Longrightarrow> li_now (snd (next_line (deadline - li_now l) l)) \<le> deadline"
  by (auto simp: next_line_def split: list.splits prod.splits)

lemma next_line_Ok:
  "fst (next_line d l) = Ok line \<longleftrightarrow>
     (\<exists>t rest. li_lines l = (t, R_Line line) # rest \<and> t \<le> li_now l + d)"
proof (cases "li_lines l")
  case (Cons x rest)
  then show ?thesis
    by (cases x; cases "snd x") (auto simp: next_line_def)
qed (simp add: next_line_def)

lemma next_line_rest:
  "li_lines l = (t, R_Line line) # rest \<Longrightarrow> t \<le> li_now l + d \<Longrightarrow>
   next_line d l = (Ok line, l\<lparr>li_now := max (li_now l) t, li_lines := rest\<rparr>)"
  by (simp add: next_line_def)

lemma hello_loop_time:
  "li_now l \<le> deadline \<Longrightarrow> li_now (snd (hello_loop de dbg deadline noise l)) \<le> deadline"
proof (induction de dbg deadline noise l rule: hello_loop.induct)
  case (1 de dbg deadline noise l)
  obtain r l' where n: "next_line (deadline - li_now l) l = (r, l')" by fastforce
  have l': "li_now l' \<le> deadline" using next_line_by_deadline [OF 1(2)] n by simp
  note IH = 1(1) [OF _ n [symmetric], OF _ refl]
  show ?case
    using l' 1(2) IH
    by (subst hello_loop.simps) (auto simp: n Let_def split: sum.split probe_msg.split)
qed

lemma hello_loop_noise:
  assumes "li_now l \<le> deadline" "length noise \<le> MAX_NOISE_LINES"
    and "li_lines l = (t, R_Line line) # rest" "t \<le> deadline" "decode_line de line = Err e"
  shows "hello_loop de dbg deadline noise l =
    hello_loop de dbg deadline (noise @ [line]) (l\<lparr>li_now := max (li_now l) t, li_lines := rest\<rparr>)"
  using assms by (subst hello_loop.simps) (simp add: next_line_rest)

lemma hello_loop_message:
  assumes "li_now l \<le> deadline" "length noise \<le> MAX_NOISE_LINES"
    and "li_lines l = (t, R_Line line) # rest" "t \<le> deadline" "decode_line de line = Ok m"
  shows "fst (hello_loop de dbg deadline noise l) = Ok h \<longleftrightarrow>
    m = greeting h \<and> hi_protocol_version h = PROTOCOL_VERSION"
  using assms
  by (subst hello_loop.simps; cases m)
    (auto simp: next_line_rest greeting_def intro!: hello_info.equality)

lemma hello_loop_fails:
  assumes "li_now l \<le> deadline"
    and "\<not> (\<exists>t line rest. li_lines l = (t, R_Line line) # rest \<and> t \<le> deadline)"
  shows "fst (hello_loop de dbg deadline noise l) \<noteq> Ok h"
proof -
  have "fst (next_line (deadline - li_now l) l) \<noteq> Ok line" for line
    using assms by (auto simp: next_line_Ok)
  then obtain e where e: "fst (next_line (deadline - li_now l) l) = Err e"
    by (cases "fst (next_line (deadline - li_now l) l)") auto
  then show ?thesis by (subst hello_loop.simps) (simp add: split_beta)
qed

definition greeted ::
    "(string \<Rightarrow> string + probe_msg) \<Rightarrow> nat \<Rightarrow> nat \<Rightarrow> (nat \<times> read_item) list \<Rightarrow> hello_info \<Rightarrow> bool" where
  "greeted de deadline allowed items h \<longleftrightarrow>
     (\<exists>ns t line rest. items = ns @ (t, R_Line line) # rest \<and> list_all (noise_item de deadline) ns
        \<and> length ns \<le> allowed \<and> t \<le> deadline \<and> decode_line de line = Ok (greeting h)
        \<and> hi_protocol_version h = PROTOCOL_VERSION)"

lemma greeted_Cons:
  "greeted de deadline allowed (x # items) h \<longleftrightarrow>
     (noise_item de deadline x \<and> 0 < allowed \<and> greeted de deadline (allowed - 1) items h)
     \<or> (\<exists>line. snd x = R_Line line \<and> fst x \<le> deadline \<and> decode_line de line = Ok (greeting h)
          \<and> hi_protocol_version h = PROTOCOL_VERSION)"
  (is "?l \<longleftrightarrow> ?n \<or> ?g")
proof
  assume ?l
  then obtain ns t line rest where x: "x # items = ns @ (t, R_Line line) # rest"
    "list_all (noise_item de deadline) ns" "length ns \<le> allowed" "t \<le> deadline"
    "decode_line de line = Ok (greeting h)" "hi_protocol_version h = PROTOCOL_VERSION"
    by (auto simp: greeted_def)
  then show "?n \<or> ?g" by (cases ns) (fastforce simp: greeted_def)+
next
  assume "?n \<or> ?g"
  then show ?l
  proof
    assume n: ?n
    then obtain ns t line rest where "items = ns @ (t, R_Line line) # rest"
      "list_all (noise_item de deadline) ns" "length ns \<le> allowed - 1" "t \<le> deadline"
      "decode_line de line = Ok (greeting h)" "hi_protocol_version h = PROTOCOL_VERSION"
      by (auto simp: greeted_def)
    with n show ?l
      unfolding greeted_def
      by (intro exI [of _ "x # ns"] exI [of _ t] exI [of _ line] exI [of _ rest]) auto
  next
    assume ?g
    then show ?l by (cases x) (auto simp: greeted_def intro!: exI [of _ "[]"])
  qed
qed

lemma hello_loop_Ok:
  "li_now l \<le> deadline \<Longrightarrow> length noise \<le> MAX_NOISE_LINES \<Longrightarrow>
   fst (hello_loop de dbg deadline noise l) = Ok h \<longleftrightarrow>
     greeted de deadline (MAX_NOISE_LINES - length noise) (li_lines l) h"
proof (induction "li_lines l" arbitrary: l noise)
  case Nil
  then show ?case using hello_loop_fails [of l deadline] by (simp add: greeted_def)
next
  case (Cons x items)
  show ?case
  proof (cases "\<exists>t line. x = (t, R_Line line) \<and> t \<le> deadline")
    case False
    then have "fst (hello_loop de dbg deadline noise l) \<noteq> Ok h"
      using Cons.prems Cons.hyps(2) by (intro hello_loop_fails) auto
    with False show ?thesis
      by (cases x) (auto simp: Cons.hyps(2) [symmetric] greeted_Cons noise_item_def)
  next
    case True
    then obtain t line where x: "x = (t, R_Line line)" and t: "t \<le> deadline" by auto
    have items: "li_lines l = (t, R_Line line) # items" using Cons.hyps(2) x by simp
    show ?thesis
    proof (cases "decode_line de line")
      case (Inr m)
      then show ?thesis
        using hello_loop_message [OF Cons.prems items t Inr] t
        by (auto simp: items greeted_Cons noise_item_def)
    next
      case (Inl e)
      let ?l = "l\<lparr>li_now := max (li_now l) t, li_lines := items\<rparr>"
      have step: "hello_loop de dbg deadline noise l = hello_loop de dbg deadline (noise @ [line]) ?l"
        by (rule hello_loop_noise [OF Cons.prems items t Inl])
      show ?thesis
      proof (cases "length noise < MAX_NOISE_LINES")
        case True
        then show ?thesis
          using Cons.hyps(1) [of ?l "noise @ [line]"] Cons.prems t Inl
          by (simp add: step items greeted_Cons noise_item_def)
      next
        case False
        with Cons.prems have "length (noise @ [line]) > MAX_NOISE_LINES" by simp
        then have "fst (hello_loop de dbg deadline (noise @ [line]) ?l) \<noteq> Ok h"
          by (subst hello_loop.simps) simp
        with False Inl show ?thesis by (simp add: step items greeted_Cons)
      qed
    qed
  qed
qed

text \<open>The handshake succeeds with \<open>h\<close> exactly when the stream delivers, within the hello timeout,
  at most 50 lines that are no protocol messages and then the greeting \<open>h\<close> with the app's own
  protocol version; whatever the stream does, it returns by the deadline.\<close>

theorem hello_accepts_iff:
  "(fst (hello de dbg l) = Ok h \<longleftrightarrow>
      greeted de (li_now l + HELLO_TIMEOUT) MAX_NOISE_LINES (li_lines l) h)
   \<and> li_now (snd (hello de dbg l)) \<le> li_now l + HELLO_TIMEOUT"
  using hello_loop_Ok [of l "li_now l + HELLO_TIMEOUT" "[]" de dbg h]
    hello_loop_time [of l "li_now l + HELLO_TIMEOUT" de dbg "[]"]
  by (simp add: hello_def)

lemma hello_loop_flood:
  assumes "li_now l \<le> deadline" "list_all (noise_item de deadline) ns"
    and "li_lines l = ns @ rest" "length noise + length ns = Suc MAX_NOISE_LINES" "noise \<noteq> [] \<or> ns \<noteq> []"
  shows "fst (hello_loop de dbg deadline noise l) = Err (LE_NoHello (''unexpected output: '' @
    take_chars 120 (hd (noise @ concat (map (\<lambda>x. case snd x of R_Line s \<Rightarrow> [s] | _ \<Rightarrow> []) ns)))))"
  using assms
proof (induction ns arbitrary: l noise)
  case Nil
  then show ?case by (subst hello_loop.simps) simp
next
  case (Cons x ns)
  then obtain t line e where x: "x = (t, R_Line line)" "t \<le> deadline" "decode_line de line = Err e"
    by (cases x) (auto simp: noise_item_def)
  from Cons.prems have small: "length noise \<le> MAX_NOISE_LINES" by simp
  let ?l = "l\<lparr>li_now := max (li_now l) t, li_lines := ns @ rest\<rparr>"
  have "hello_loop de dbg deadline noise l = hello_loop de dbg deadline (noise @ [line]) ?l"
    using Cons.prems x by (intro hello_loop_noise [OF _ small]) auto
  with Cons.IH [of ?l "noise @ [line]"] Cons.prems x show ?case by simp
qed

text \<open>A stream that is not the probe's is given up: after 51 lines that are no protocol messages
  the handshake fails and the error quotes the first of them.\<close>

theorem hello_flood_fails:
  assumes "li_lines l = (t, R_Line first) # ns @ rest" and "length ns = MAX_NOISE_LINES"
    and "list_all (noise_item de (li_now l + HELLO_TIMEOUT)) ((t, R_Line first) # ns)"
  shows "fst (hello de dbg l) = Err (LE_NoHello (''unexpected output: '' @ take_chars 120 first))"
  using hello_loop_flood [of l "li_now l + HELLO_TIMEOUT" de "(t, R_Line first) # ns" rest "[]"] assms
  by (simp add: hello_def)

section \<open>Receiving and sending\<close>

text \<open>The silence watchdog: \<open>recv\<close> always returns within 20 seconds. It reports a silent probe
  exactly when nothing at all became available in that time; a line that came is never an error,
  it is the message it encodes or a \<open>bad_probe_line\<close> report quoting it.\<close>

theorem recv_watchdog:
  "li_now (snd (recv de l)) \<le> li_now l + SILENCE_TIMEOUT
   \<and> (fst (recv de l) = Err LE_Silent \<longleftrightarrow>
        (case li_lines l of [] \<Rightarrow> True | (t, item) # rest \<Rightarrow> li_now l + SILENCE_TIMEOUT < t))
   \<and> (\<forall>m. fst (recv de l) = Ok m \<longleftrightarrow>
        (\<exists>t line rest. li_lines l = (t, R_Line line) # rest \<and> t \<le> li_now l + SILENCE_TIMEOUT
           \<and> (decode_line de line = Ok m
              \<or> (\<exists>e. decode_line de line = Err e
                   \<and> m = PM_Error ''bad_probe_line'' (e @ '': '' @ take_chars 120 line)))))"
proof (cases "li_lines l")
  case (Cons x rest)
  then show ?thesis
    by (cases x; cases "snd x")
      (auto simp: recv_def next_line_def recv_msg_def Let_def split: sum.splits)
qed (simp add: recv_def next_line_def)

text \<open>What the two ends rely on in \<open>serde_json\<close>: printing succeeds, escapes line ends, and parsing
  reads back what was printed.\<close>

definition serde_faithful :: "('a \<Rightarrow> 'e + string) \<Rightarrow> (string \<Rightarrow> 'e + 'a) \<Rightarrow> 'a \<Rightarrow> bool" where
  "serde_faithful ser de m \<longleftrightarrow>
     (\<exists>s. ser m = Ok s \<and> newline \<notin> set s \<and> carriage_return \<notin> set s \<and> de s = Ok m)"

lemma split_inclusive_line:
  "d \<notin> set s \<Longrightarrow> split_inclusive d (s @ d # rest) = (s @ [d]) # split_inclusive d rest"
  by (induction s) auto

lemma split_inclusive_last: "d \<notin> set s \<Longrightarrow> split_inclusive d s = (if s = [] then [] else [s])"
  by (induction s) auto

lemma line_of_newline:
  "carriage_return \<notin> set s \<Longrightarrow> line_of (s @ [newline]) = s"
  by (auto simp: line_of_def strip_suffix_def suffix_def)

lemma lines_cons:
  "newline \<notin> set s \<Longrightarrow> carriage_return \<notin> set s \<Longrightarrow> lines (s @ newline # rest) = s # lines rest"
  by (simp add: lines_def split_inclusive_line line_of_newline)

text \<open>C32. The codec is faithful on a stream: the encoded messages, written one after the other and
  read back as lines, decode to the same messages in the same order, also when the stream ends in
  the middle of a further line.\<close>

theorem codec_stream_roundtrip:
  assumes "\<forall>m \<in> set ms. serde_faithful ser de m"
    and "map (encode_line ser) ms = map Ok ls"
    and "newline \<notin> set torn"
  shows "\<exists>tail. lines (concat ls @ torn) = take (length ms) (lines (concat ls @ torn)) @ tail
      \<and> length tail \<le> 1
      \<and> map (decode_line de) (take (length ms) (lines (concat ls @ torn))) = map Ok ms"
  using assms(1,2)
proof (induction ms arbitrary: ls)
  case Nil
  then show ?case using assms(3) by (simp add: lines_def split_inclusive_last)
next
  case (Cons m ms)
  then obtain l ls' where ls: "ls = l # ls'" "encode_line ser m = Ok l"
    "map (encode_line ser) ms = map Ok ls'" by (cases ls) auto
  from Cons.prems(1) obtain s where s: "ser m = Ok s" "newline \<notin> set s" "carriage_return \<notin> set s" "de s = Ok m"
    by (auto simp: serde_faithful_def)
  from ls s have l: "l = s @ [newline]" by (auto simp: encode_line_def)
  have "trim_line_end s = s" using trim_line_end_clean [OF s(2,3), of "[]"] by simp
  with Cons.IH [OF _ ls(3)] Cons.prems(1) s show ?case
    by (simp add: ls(1) l lines_cons decode_line_def)
qed

lemma writer_op_Ok:
  "fst (writer_op bytes l) = Ok () \<Longrightarrow> li_written (snd (writer_op bytes l)) = li_written l @ bytes"
  by (auto simp: writer_op_def split: list.splits write_result.splits)

text \<open>A successful send has handed over exactly one encoded line.\<close>

lemma link_send_Ok:
  assumes "fst (link_send ser msg l) = Ok ()"
  shows "\<exists>line. encode_line ser msg = Ok line
    \<and> li_written (snd (link_send ser msg l)) = li_written l @ line"
  using assms
  by (auto simp: link_send_def Let_def split_beta writer_op_Ok split: sum.splits)

section \<open>Witnesses\<close>

definition ex_de :: "string \<Rightarrow> string + probe_msg" where
  "ex_de s = (case parse_u64 s of None \<Rightarrow> Err ''expected value'' | Some n \<Rightarrow> Ok (PM_Heartbeat n))"

theorem hello_flood_fails_witness:
  "fst (hello ex_de (\<lambda>_. []) \<lparr>li_now = 0, li_lines = (7, R_Line ''motd'') # replicate 50 (9, R_Line ''motd''),
       li_written = [], li_results = []\<rparr>)
   = Err (LE_NoHello (''unexpected output: '' @ take_chars 120 ''motd''))"
proof -
  let ?l = "\<lparr>li_now = 0, li_lines = (7, R_Line ''motd'') # replicate 50 (9, R_Line ''motd''),
    li_written = [], li_results = []\<rparr>"
  have "decode_line ex_de ''motd'' = Err ''expected value''"
    by (simp add: decode_line_def trim_line_end_def ex_de_def parse_u64_def parse_nat_def str_eval)
  then have "noise_item ex_de (li_now ?l + HELLO_TIMEOUT) (t, R_Line ''motd'')" if "t < 10" for t
    using that by (simp add: noise_item_def HELLO_TIMEOUT_def)
  then have "list_all (noise_item ex_de (li_now ?l + HELLO_TIMEOUT))
      ((7, R_Line ''motd'') # replicate 50 (9, R_Line ''motd''))"
    by (simp add: list_all_iff)
  from hello_flood_fails [OF _ _ this, of "[]"] show ?thesis
    by (simp add: MAX_NOISE_LINES_def)
qed

lemma show_u64_clean: "newline \<notin> set (show_u64 n)" "carriage_return \<notin> set (show_u64 n)"
  using show_nat_digits [of newline "unat n"] show_nat_digits [of carriage_return "unat n"]
  by (auto simp: show_u64_def is_ascii_digit_def byte_def)

theorem codec_stream_roundtrip_witness:
  "map (decode_line (\<lambda>s. case parse_u64 s of None \<Rightarrow> Err () | Some n \<Rightarrow> Ok n))
     (take 2 (lines (concat [show_u64 7 @ [newline], show_u64 41 @ [newline]] @ ''{'')))
   = map Ok [7, 41]"
proof -
  let ?de = "\<lambda>s. case parse_u64 s of None \<Rightarrow> Err () | Some n \<Rightarrow> Ok n" and ?ser = "\<lambda>n. Ok (show_u64 n)"
  have "\<forall>m \<in> set [7, 41]. serde_faithful ?ser ?de m"
    by (simp add: serde_faithful_def show_u64_clean)
  from codec_stream_roundtrip [OF this, of "[show_u64 7 @ [newline], show_u64 41 @ [newline]]" "''{''"]
  show ?thesis by (auto simp: encode_line_def numeral_2_eq_2)
qed

end
