(* ===== verification/Host.thy ===== *)
theory Host
  imports Link
begin

text \<open>
  The task that keeps one host's probe connection alive (\<open>crates/mai-core/src/host.rs\<close>): connect,
  greet, relay messages, and reconnect with backoff.

  The asynchronous function \<open>run\<close> is a machine: \<open>host_phase\<close> is the \<open>await\<close> the task stands at, an
  input is what completes that \<open>await\<close> (the result of \<open>Connector::open\<close>, the handshake or the next
  message of the link, a command, the end of a backoff sleep), and a step runs to the next \<open>await\<close>.
  Where the source waits in a \<open>select!\<close>, either branch may complete, so any sequence of inputs is
  considered; an input the current \<open>await\<close> does not listen to has no effect. The link of \<open>Link\<close> is
  part of the state. Outputs are the events sent to the monitor, the calls of \<open>open\<close> and the
  messages written to the probe. Writing takes no time in the model.
\<close>

section \<open>Backoff\<close>

record backoff =
  bo_next :: duration

definition BACKOFF_FIRST :: duration where "BACKOFF_FIRST = 1000"
definition BACKOFF_MAX :: duration where "BACKOFF_MAX = 60000"
definition STABLE_AFTER :: duration where "STABLE_AFTER = 30000"

definition next_delay :: "backoff \<Rightarrow> duration \<times> backoff" where
  "next_delay b = (bo_next b, b\<lparr>bo_next := min (bo_next b * 2) BACKOFF_MAX\<rparr>)"

definition backoff_reset :: "backoff \<Rightarrow> backoff" where
  "backoff_reset b = b\<lparr>bo_next := BACKOFF_FIRST\<rparr>"

definition backoff_default :: backoff where
  "backoff_default = \<lparr>bo_next = BACKOFF_FIRST\<rparr>"

section \<open>State, inputs and outputs\<close>

text \<open>The external functions of the wire: parser, \<open>Debug\<close> printer, serialiser.\<close>

record wire =
  wi_de :: "string \<Rightarrow> string + probe_msg"
  wi_dbg :: "probe_msg \<Rightarrow> string"
  wi_ser :: "app_msg \<Rightarrow> string + string"

record opened =
  op_link :: probe_link
  op_hooks :: "string + hook_result list"
  op_notes :: "string list"

text \<open>\<open>HP_Waiting delay reset\<close> is \<open>wait(delay)\<close>; \<open>reset\<close> says whether the code after it resets the
  backoff before connecting again.\<close>

datatype host_phase =
    HP_Opening
  | HP_Hello opened
  | HP_Serving opened nat
  | HP_Waiting "duration option" bool
  | HP_Stopped

record host =
  ho_cfg :: host_config
  ho_backoff :: backoff
  ho_phase :: host_phase

text \<open>A command comes with its time; \<open>None\<close> is the closed command channel. The last argument of an
  input is what \<open>stderr.summary()\<close> returns if the step asks for it.\<close>

datatype host_in =
    I_Opened "open_error + opened"
  | I_Hello "string option"
  | I_Recv "string option"
  | I_Cmd nat "host_command option" "string option"
  | I_Elapsed

datatype host_out = O_Emit string host_event | O_Open | O_Sent app_msg

datatype wake = Wake_Retry | Wake_Stop

section \<open>Operations\<close>

definition host_emit :: "host \<Rightarrow> host_event \<Rightarrow> host_out" where
  "host_emit h ev = O_Emit (hc_id (ho_cfg h)) ev"

definition with_stderr :: "string \<Rightarrow> string option \<Rightarrow> string" where
  "with_stderr reason summary =
     (case summary of
        Some tail \<Rightarrow> reason @ '' (probe stderr: '' @ tail @ '')''
      | None \<Rightarrow> reason)"

fun idle_command :: "host \<Rightarrow> host_command option \<Rightarrow> wake option \<times> host_out list" where
  "idle_command h None = (Some Wake_Stop, [])"
| "idle_command h (Some HC_Stop) = (Some Wake_Stop, [])"
| "idle_command h (Some HC_Retry) = (Some Wake_Retry, [])"
| "idle_command h (Some (HC_Send m)) = (None, [host_emit h (HE_Dropped m)])"

text \<open>The top of the loop in \<open>run\<close>, up to the call of \<open>open\<close>.\<close>

definition connect_now :: "host \<Rightarrow> host \<times> host_out list" where
  "connect_now h = (h\<lparr>ho_phase := HP_Opening\<rparr>, [host_emit h (HE_Probe CS_Connecting), O_Open])"

text \<open>The bottom of the loop: the backoff delay.\<close>

definition retry_later :: "host \<Rightarrow> string \<Rightarrow> host \<times> host_out list" where
  "retry_later h reason =
     (let (retry_in, b) = next_delay (ho_backoff h)
      in (h\<lparr>ho_backoff := b, ho_phase := HP_Waiting (Some retry_in) False\<rparr>,
          [host_emit h (HE_Probe (CS_Retrying retry_in reason))]))"

definition needs_user :: "host \<Rightarrow> problem \<Rightarrow> bool \<Rightarrow> host \<times> host_out list" where
  "needs_user h p reset =
     (h\<lparr>ho_phase := HP_Waiting None reset\<rparr>, [host_emit h (HE_Probe (CS_NeedsUser p))])"

definition stop :: "host \<Rightarrow> host \<times> host_out list" where
  "stop h = (h\<lparr>ho_phase := HP_Stopped\<rparr>, [])"

text \<open>A command during \<open>busy\<close>: only a stop matters.\<close>

definition busy_command :: "host \<Rightarrow> host_command option \<Rightarrow> host \<times> host_out list" where
  "busy_command h cmd =
     (case idle_command h cmd of
        (Some Wake_Stop, outs) \<Rightarrow> (h\<lparr>ho_phase := HP_Stopped\<rparr>, outs)
      | (_, outs) \<Rightarrow> (h, outs))"

definition wait_command :: "host \<Rightarrow> bool \<Rightarrow> host_command option \<Rightarrow> host \<times> host_out list" where
  "wait_command h reset cmd =
     (case idle_command h cmd of
        (Some Wake_Retry, outs) \<Rightarrow>
          (let (h', outs') =
             connect_now (if reset then h\<lparr>ho_backoff := backoff_reset (ho_backoff h)\<rparr> else h)
           in (h', outs @ outs'))
      | (Some Wake_Stop, outs) \<Rightarrow> (h\<lparr>ho_phase := HP_Stopped\<rparr>, outs)
      | (None, outs) \<Rightarrow> (h, outs))"

text \<open>The link failed while serving.\<close>

definition serve_failed ::
    "host \<Rightarrow> probe_link \<Rightarrow> nat \<Rightarrow> link_error \<Rightarrow> string option \<Rightarrow> host \<times> host_out list" where
  "serve_failed h l up_since e tail =
     retry_later
       (if STABLE_AFTER \<le> li_now l - up_since
        then h\<lparr>ho_backoff := backoff_reset (ho_backoff h)\<rparr> else h)
       (with_stderr (show_link_error e) tail)"

fun ack_of :: "probe_msg \<Rightarrow> u64 option" where
  "ack_of (PM_AgentEvent ev) = ev_spool_offset ev"
| "ack_of _ = None"

text \<open>The two branches of \<open>serve\<close>.\<close>

definition serve_recv ::
    "wire \<Rightarrow> host \<Rightarrow> opened \<Rightarrow> nat \<Rightarrow> string option \<Rightarrow> host \<times> host_out list" where
  "serve_recv w h opd up_since tail =
     (let (r, l) = recv (wi_de w) (op_link opd)
      in case r of
           Err e \<Rightarrow> serve_failed h l up_since e tail
         | Ok msg \<Rightarrow>
             (case ack_of msg of
                None \<Rightarrow> (h\<lparr>ho_phase := HP_Serving (opd\<lparr>op_link := l\<rparr>) up_since\<rparr>, [host_emit h (HE_Msg msg)])
              | Some off \<Rightarrow>
                  (let (s, l') = link_send (wi_ser w) (AM_Ack off) l
                   in case s of
                        Err e \<Rightarrow>
                          (let (h', outs) = serve_failed h l' up_since e tail
                           in (h', host_emit h (HE_Msg msg) # outs))
                      | Ok _ \<Rightarrow>
                          (h\<lparr>ho_phase := HP_Serving (opd\<lparr>op_link := l'\<rparr>) up_since\<rparr>,
                           [host_emit h (HE_Msg msg), O_Sent (AM_Ack off)]))))"

definition serve_cmd ::
    "wire \<Rightarrow> host \<Rightarrow> opened \<Rightarrow> nat \<Rightarrow> nat \<Rightarrow> host_command option \<Rightarrow> string option
      \<Rightarrow> host \<times> host_out list" where
  "serve_cmd w h opd up_since now cmd tail =
     (let l = (op_link opd)\<lparr>li_now := max now (li_now (op_link opd))\<rparr>
      in case cmd of
           None \<Rightarrow> stop h
         | Some HC_Stop \<Rightarrow> stop h
         | Some HC_Retry \<Rightarrow> (h\<lparr>ho_phase := HP_Serving (opd\<lparr>op_link := l\<rparr>) up_since\<rparr>, [])
         | Some (HC_Send m) \<Rightarrow>
             (let (s, l') = link_send (wi_ser w) m l
              in case s of
                   Err e \<Rightarrow>
                     (let (h', outs) = serve_failed h l' up_since e tail
                      in (h', host_emit h (HE_Dropped m) # outs))
                 | Ok _ \<Rightarrow>
                     (h\<lparr>ho_phase := HP_Serving (opd\<lparr>op_link := l'\<rparr>) up_since\<rparr>, [O_Sent m])))"

text \<open>The result of the handshake.\<close>

definition hello_done ::
    "wire \<Rightarrow> host \<Rightarrow> opened \<Rightarrow> string option \<Rightarrow> host \<times> host_out list" where
  "hello_done w h opd tail =
     (let (r, l) = hello (wi_de w) (wi_dbg w) (op_link opd)
      in case r of
           Err (LE_Protocol probe app) \<Rightarrow> needs_user h (P_Protocol probe app) False
         | Err e \<Rightarrow> retry_later h (with_stderr (show_link_error e) tail)
         | Ok info \<Rightarrow>
             (h\<lparr>ho_phase := HP_Serving (opd\<lparr>op_link := l\<rparr>) (li_now l)\<rparr>,
              [host_emit h (HE_Hello info), host_emit h (HE_Hooks (op_hooks opd))]
              @ (if op_notes opd = [] then [] else [host_emit h (HE_Notes (op_notes opd))])
              @ [host_emit h (HE_Probe CS_Up)]))"

definition open_done :: "host \<Rightarrow> open_error + opened \<Rightarrow> host \<times> host_out list" where
  "open_done h r =
     (case r of
        Err (OE_NeedsUser p) \<Rightarrow> needs_user h p True
      | Err (OE_Retry reason) \<Rightarrow> retry_later h reason
      | Ok opd \<Rightarrow> (h\<lparr>ho_phase := HP_Hello opd\<rparr>, []))"

fun host_step :: "wire \<Rightarrow> host \<Rightarrow> host_in \<Rightarrow> host \<times> host_out list" where
  "host_step w h (I_Opened r) =
     (case ho_phase h of HP_Opening \<Rightarrow> open_done h r | _ \<Rightarrow> (h, []))"
| "host_step w h (I_Hello tail) =
     (case ho_phase h of HP_Hello opd \<Rightarrow> hello_done w h opd tail | _ \<Rightarrow> (h, []))"
| "host_step w h (I_Recv tail) =
     (case ho_phase h of HP_Serving opd up \<Rightarrow> serve_recv w h opd up tail | _ \<Rightarrow> (h, []))"
| "host_step w h (I_Cmd now cmd tail) =
     (case ho_phase h of
        HP_Opening \<Rightarrow> busy_command h cmd
      | HP_Hello opd \<Rightarrow> busy_command h cmd
      | HP_Serving opd up \<Rightarrow> serve_cmd w h opd up now cmd tail
      | HP_Waiting delay reset \<Rightarrow> wait_command h reset cmd
      | HP_Stopped \<Rightarrow> (h, []))"
| "host_step w h I_Elapsed =
     (case ho_phase h of HP_Waiting (Some d) reset \<Rightarrow> connect_now h | _ \<Rightarrow> (h, []))"

definition run_host :: "host_config \<Rightarrow> host \<times> host_out list" where
  "run_host cfg = connect_now \<lparr>ho_cfg = cfg, ho_backoff = backoff_default, ho_phase = HP_Stopped\<rparr>"

text \<open>A whole run: the first connect and the steps the inputs cause.\<close>

definition host_run :: "wire \<Rightarrow> host_config \<Rightarrow> host_in list \<Rightarrow> host \<times> host_out list" where
  "host_run w cfg ins =
     (let (h, outs) = run_host cfg; (h', outs') = run_steps (host_step w) h ins in (h', outs @ outs'))"

lemmas host_step_defs = open_done_def hello_done_def serve_recv_def serve_cmd_def serve_failed_def
  retry_later_def needs_user_def connect_now_def busy_command_def wait_command_def stop_def
  next_delay_def backoff_reset_def host_emit_def

section \<open>The connection protocol\<close>

text \<open>What an output says about the connection, given the last reported state: when each may come.\<close>

fun event_ok :: "conn_state option \<Rightarrow> host_event \<Rightarrow> bool" where
  "event_ok c (HE_Probe CS_Connecting) \<longleftrightarrow>
     (case c of Some CS_Connecting \<Rightarrow> False | Some CS_Up \<Rightarrow> False | _ \<Rightarrow> True)"
| "event_ok c (HE_Probe CS_Up) \<longleftrightarrow> c = Some CS_Connecting"
| "event_ok c (HE_Probe (CS_Retrying d r)) \<longleftrightarrow>
     (c = Some CS_Connecting \<or> c = Some CS_Up) \<and> BACKOFF_FIRST \<le> d \<and> d \<le> BACKOFF_MAX"
| "event_ok c (HE_Probe (CS_NeedsUser p)) \<longleftrightarrow> c = Some CS_Connecting"
| "event_ok c (HE_Hello info) \<longleftrightarrow> c = Some CS_Connecting \<and> hi_protocol_version info = PROTOCOL_VERSION"
| "event_ok c (HE_Hooks r) \<longleftrightarrow> c = Some CS_Connecting"
| "event_ok c (HE_Notes ns) \<longleftrightarrow> c = Some CS_Connecting \<and> ns \<noteq> []"
| "event_ok c (HE_Msg m) \<longleftrightarrow> c = Some CS_Up"
| "event_ok c (HE_Dropped m) \<longleftrightarrow> True"
| "event_ok c (HE_Term t) \<longleftrightarrow> False"

fun out_ok :: "string \<Rightarrow> conn_state option \<Rightarrow> host_out \<Rightarrow> bool" where
  "out_ok i c O_Open \<longleftrightarrow> c = Some CS_Connecting"
| "out_ok i c (O_Sent m) \<longleftrightarrow> c = Some CS_Up"
| "out_ok i c (O_Emit j ev) \<longleftrightarrow> j = i \<and> event_ok c ev"

fun conn_after :: "host_out \<Rightarrow> conn_state option \<Rightarrow> conn_state option" where
  "conn_after (O_Emit i (HE_Probe s)) c = Some s"
| "conn_after _ c = c"

fun trace_ok :: "string \<Rightarrow> conn_state option \<Rightarrow> host_out list \<Rightarrow> bool" where
  "trace_ok i c [] = True"
| "trace_ok i c (x # xs) = (out_ok i c x \<and> trace_ok i (conn_after x c) xs)"

lemma trace_ok_append:
  "trace_ok i c (xs @ ys) \<longleftrightarrow> trace_ok i c xs \<and> trace_ok i (fold conn_after xs c) ys"
  by (induction xs arbitrary: c) auto

text \<open>The state of the task agrees with what it last reported.\<close>

fun phase_conn :: "host_phase \<Rightarrow> conn_state option \<Rightarrow> bool" where
  "phase_conn HP_Opening c = (c = Some CS_Connecting)"
| "phase_conn (HP_Hello opd) c = (c = Some CS_Connecting)"
| "phase_conn (HP_Serving opd up) c = (c = Some CS_Up)"
| "phase_conn (HP_Waiting delay reset) c =
     (case delay of
        Some d \<Rightarrow> \<exists>r. c = Some (CS_Retrying d r)
      | None \<Rightarrow> \<exists>p. c = Some (CS_NeedsUser p))"
| "phase_conn HP_Stopped c = True"

definition backoff_ok :: "backoff \<Rightarrow> bool" where
  "backoff_ok b \<longleftrightarrow> BACKOFF_FIRST \<le> bo_next b \<and> bo_next b \<le> BACKOFF_MAX"

lemma backoff_ok_reset [simp]: "backoff_ok (b\<lparr>bo_next := BACKOFF_FIRST\<rparr>)"
  by (simp add: backoff_ok_def BACKOFF_FIRST_def BACKOFF_MAX_def)

lemma backoff_ok_next [simp]:
  "backoff_ok b \<Longrightarrow> backoff_ok (b\<lparr>bo_next := min (bo_next b * 2) BACKOFF_MAX\<rparr>)"
  by (auto simp: backoff_ok_def BACKOFF_FIRST_def BACKOFF_MAX_def)

definition step_ok :: "host \<Rightarrow> conn_state option \<Rightarrow> host \<times> host_out list \<Rightarrow> bool" where
  "step_ok h c r \<longleftrightarrow> trace_ok (hc_id (ho_cfg h)) c (snd r) \<and> ho_cfg (fst r) = ho_cfg h
     \<and> backoff_ok (ho_backoff (fst r)) \<and> phase_conn (ho_phase (fst r)) (fold conn_after (snd r) c)"

lemma retry_later_ok:
  "backoff_ok (ho_backoff h) \<Longrightarrow> c = Some CS_Connecting \<or> c = Some CS_Up \<Longrightarrow> step_ok h c (retry_later h reason)"
  by (auto simp: step_ok_def retry_later_def next_delay_def host_emit_def backoff_ok_def
      BACKOFF_FIRST_def BACKOFF_MAX_def)

lemma serve_failed_ok:
  "backoff_ok (ho_backoff h) \<Longrightarrow> step_ok h (Some CS_Up) (serve_failed h l up e tail)"
  using retry_later_ok [of h "Some CS_Up"]
    retry_later_ok [of "h\<lparr>ho_backoff := backoff_reset (ho_backoff h)\<rparr>" "Some CS_Up"]
  by (simp add: serve_failed_def step_ok_def backoff_reset_def)

lemma step_ok_Cons:
  "step_ok h (conn_after x c) (h', outs) \<Longrightarrow> out_ok (hc_id (ho_cfg h)) c x \<Longrightarrow> step_ok h c (h', x # outs)"
  by (simp add: step_ok_def)

lemma serve_recv_ok:
  "backoff_ok (ho_backoff h) \<Longrightarrow> step_ok h (Some CS_Up) (serve_recv w h opd up tail)"
  using serve_failed_ok [of h]
  by (auto simp: serve_recv_def Let_def split_beta host_emit_def step_ok_def
      split: sum.split option.split)

lemma serve_cmd_ok:
  "backoff_ok (ho_backoff h) \<Longrightarrow> step_ok h (Some CS_Up) (serve_cmd w h opd up now cmd tail)"
  using serve_failed_ok [of h]
  by (auto simp: serve_cmd_def Let_def split_beta host_emit_def step_ok_def stop_def
      split: sum.split option.split host_command.split)

lemma hello_version: "fst (hello de dbg l) = Ok info \<Longrightarrow> hi_protocol_version info = PROTOCOL_VERSION"
  using hello_loop_Ok [of l "li_now l + HELLO_TIMEOUT" "[]" de dbg info]
  by (auto simp: hello_def greeted_def)

lemma hello_done_ok:
  assumes "backoff_ok (ho_backoff h)"
  shows "step_ok h (Some CS_Connecting) (hello_done w h opd tail)"
proof (cases "fst (hello (wi_de w) (wi_dbg w) (op_link opd))")
  case (Inl e)
  then show ?thesis
    using retry_later_ok [OF assms, of "Some CS_Connecting"] assms
    by (cases e) (simp_all add: hello_done_def split_beta needs_user_def host_emit_def step_ok_def)
next
  case (Inr info)
  then show ?thesis
    using hello_version [OF Inr] assms
    by (auto simp: hello_done_def split_beta host_emit_def step_ok_def)
qed

lemma host_step_ok:
  assumes "backoff_ok (ho_backoff h)" "phase_conn (ho_phase h) c"
  shows "step_ok h c (host_step w h i)"
proof (cases i)
  case (I_Opened r)
  then show ?thesis
    using assms retry_later_ok [OF assms(1), of "Some CS_Connecting"]
    by (auto simp: open_done_def needs_user_def host_emit_def step_ok_def
        split: host_phase.split sum.split open_error.split)
next
  case (I_Cmd now cmd tail)
  then show ?thesis
    using assms serve_cmd_ok [OF assms(1)]
    by (cases "(h, cmd)" rule: idle_command.cases; cases "ho_phase h")
      (auto simp: busy_command_def wait_command_def connect_now_def host_emit_def step_ok_def
        backoff_reset_def split: option.splits)
next
  case I_Elapsed
  with assms show ?thesis
    by (cases "ho_phase h") (auto simp: connect_now_def host_emit_def step_ok_def split: option.splits)
qed (use assms serve_recv_ok hello_done_ok in \<open>auto simp: step_ok_def split: host_phase.split\<close>)

lemma host_steps_ok:
  "backoff_ok (ho_backoff h) \<Longrightarrow> phase_conn (ho_phase h) c \<Longrightarrow>
   step_ok h c (run_steps (host_step w) h ins)"
proof (induction ins arbitrary: h c)
  case (Cons i ins)
  from host_step_ok [OF Cons.prems, of w i]
  have s: "step_ok h c (host_step w h i)" .
  then have "step_ok (fst (host_step w h i)) (fold conn_after (snd (host_step w h i)) c)
      (run_steps (host_step w) (fst (host_step w h i)) ins)"
    by (intro Cons.IH) (auto simp: step_ok_def)
  with s show ?case by (simp add: step_ok_def trace_ok_append)
qed (simp add: step_ok_def)

text \<open>C9. The connection protocol. Over any run, the events a host task sends carry its host's id and
  follow the protocol its readers rely on: a connect attempt starts only when none is under way
  and nothing is up; Up, Retrying and NeedsUser each end an attempt (Retrying also ends Up);
  \<open>open\<close> is called only while Connecting; the greeting has the app's protocol version and comes
  before Up; probe messages are relayed, and messages written to the probe, only while Up; every
  announced retry delay is between 1 and 60 seconds.\<close>

theorem connection_protocol: "trace_ok (hc_id cfg) None (snd (host_run w cfg ins))"
proof -
  let ?h = "fst (run_host cfg)"
  have h: "backoff_ok (ho_backoff ?h)" "phase_conn (ho_phase ?h) (Some CS_Connecting)" "ho_cfg ?h = cfg"
    by (simp_all add: run_host_def connect_now_def backoff_default_def backoff_ok_def
        BACKOFF_FIRST_def BACKOFF_MAX_def)
  have "trace_ok (hc_id cfg) None (snd (run_host cfg))"
    "fold conn_after (snd (run_host cfg)) None = Some CS_Connecting"
    by (simp_all add: run_host_def connect_now_def host_emit_def)
  with host_steps_ok [OF h(1,2), of w ins] h(3) show ?thesis
    by (simp add: host_run_def split_beta trace_ok_append step_ok_def)
qed

section \<open>Acknowledgements and commands\<close>

fun is_ack :: "app_msg \<Rightarrow> bool" where
  "is_ack (AM_Ack off) = True"
| "is_ack _ = False"

text \<open>The messages the task was asked to send, up to the command that stops it.\<close>

fun accepted :: "host_in list \<Rightarrow> app_msg list" where
  "accepted [] = []"
| "accepted (I_Cmd now None tail # is) = []"
| "accepted (I_Cmd now (Some HC_Stop) tail # is) = []"
| "accepted (I_Cmd now (Some (HC_Send m)) tail # is) = m # accepted is"
| "accepted (_ # is) = accepted is"

text \<open>The acknowledgements in a sequence of outputs: each directly follows the event it is for, and
  each hook event with a spool offset is followed by its acknowledgement or by the loss of the
  connection.\<close>

fun acked :: "host_out list \<Rightarrow> bool" where
  "acked [] = True"
| "acked (O_Emit i (HE_Msg m) # outs) =
     (case ack_of m of
        None \<Rightarrow> acked outs
      | Some off \<Rightarrow>
          (case outs of
             O_Sent m' # outs' \<Rightarrow> m' = AM_Ack off \<and> acked outs'
           | O_Emit j (HE_Probe (CS_Retrying d r)) # outs' \<Rightarrow> acked outs'
           | _ \<Rightarrow> False))"
| "acked (O_Sent m # outs) = (\<not> is_ack m \<and> acked outs)"
| "acked (_ # outs) = acked outs"

lemma acked_append: "acked xs \<Longrightarrow> acked ys \<Longrightarrow> acked (xs @ ys)"
proof (induction xs rule: acked.induct)
  case (2 i m outs)
  then show ?case
    by (auto split: option.splits list.splits host_out.splits host_event.splits conn_state.splits)
qed auto

lemma acked_retry: "acked (snd (retry_later h reason))"
  by (simp add: retry_later_def next_delay_def host_emit_def)

lemma acked_failed: "acked (snd (serve_failed h l up e tail))"
  by (simp add: serve_failed_def acked_retry)

lemma serve_failed_out:
  "\<exists>d r. snd (serve_failed h l up e tail) = [host_emit h (HE_Probe (CS_Retrying d r))]"
  by (auto simp: serve_failed_def retry_later_def next_delay_def host_emit_def)

lemma acked_recv: "acked (snd (serve_recv w h opd up tail))"
proof (cases "fst (recv (wi_de w) (op_link opd))")
  case (Inl e)
  then show ?thesis by (simp add: serve_recv_def split_beta acked_failed)
next
  case (Inr m)
  show ?thesis
  proof (cases "ack_of m")
    case (Some off)
    let ?s = "link_send (wi_ser w) (AM_Ack off) (snd (recv (wi_de w) (op_link opd)))"
    show ?thesis
    proof (cases "fst ?s")
      case (Inl e)
      obtain d r where "snd (serve_failed h (snd ?s) up e tail) = [host_emit h (HE_Probe (CS_Retrying d r))]"
        using serve_failed_out by blast
      with Inr Some Inl show ?thesis by (simp add: serve_recv_def split_beta host_emit_def)
    qed (use Inr Some in \<open>simp add: serve_recv_def split_beta host_emit_def\<close>)
  qed (use Inr in \<open>simp add: serve_recv_def split_beta host_emit_def\<close>)
qed

lemma acked_step:
  assumes "\<And>now m tail. i = I_Cmd now (Some (HC_Send m)) tail \<Longrightarrow> \<not> is_ack m"
  shows "acked (snd (host_step w h i))"
proof (cases i)
  case (I_Opened r)
  then show ?thesis
    by (auto simp: open_done_def needs_user_def host_emit_def acked_retry
        split: host_phase.split sum.split open_error.split)
next
  case (I_Hello tail)
  then show ?thesis
    by (auto simp: hello_done_def needs_user_def host_emit_def acked_retry split_beta
        split: host_phase.split sum.split link_error.split)
next
  case (I_Recv tail)
  then show ?thesis using acked_recv by (auto split: host_phase.split)
next
  case (I_Cmd now cmd tail)
  then show ?thesis
    using assms acked_failed
    by (cases "(h, cmd)" rule: idle_command.cases; cases "ho_phase h")
      (auto simp: busy_command_def wait_command_def serve_cmd_def connect_now_def host_emit_def
        stop_def Let_def split_beta split: sum.split)
qed (auto simp: connect_now_def host_emit_def split: host_phase.split option.split)

text \<open>A stopped task does nothing.\<close>

lemma stopped_run:
  "ho_phase h = HP_Stopped \<Longrightarrow> run_steps (host_step w) h ins = (h, [])"
proof (induction ins)
  case (Cons i ins)
  then have "host_step w h i = (h, [])" by (cases i) auto
  with Cons show ?case by (simp add: run_steps.simps)
qed simp

text \<open>What became of the messages the task was asked to send.\<close>

fun outcome :: "host_out \<Rightarrow> app_msg list" where
  "outcome (O_Sent m) = (if is_ack m then [] else [m])"
| "outcome (O_Emit i (HE_Dropped m)) = [m]"
| "outcome _ = []"

definition outcomes :: "host_out list \<Rightarrow> app_msg list" where
  "outcomes outs = concat (map outcome outs)"

lemma outcomes_simps [simp]:
  "outcomes [] = []" "outcomes (x # xs) = outcome x @ outcomes xs"
  "outcomes (xs @ ys) = outcomes xs @ outcomes ys"
  by (simp_all add: outcomes_def)

lemma retry_later_quiet [simp]:
  "outcomes (snd (retry_later h reason)) = []" "ho_phase (fst (retry_later h reason)) \<noteq> HP_Stopped"
  by (simp_all add: retry_later_def next_delay_def host_emit_def)

lemma serve_failed_quiet [simp]:
  "outcomes (snd (serve_failed h l up e tail)) = []"
  "ho_phase (fst (serve_failed h l up e tail)) \<noteq> HP_Stopped"
  by (simp_all add: serve_failed_def)

lemma not_command_quiet:
  assumes "\<And>now cmd tail. i \<noteq> I_Cmd now cmd tail" "ho_phase h \<noteq> HP_Stopped"
  shows "outcomes (snd (host_step w h i)) = [] \<and> ho_phase (fst (host_step w h i)) \<noteq> HP_Stopped"
  using assms
  by (cases i)
    (auto simp: open_done_def hello_done_def serve_recv_def needs_user_def connect_now_def
      host_emit_def split_beta split: host_phase.split sum.split open_error.split link_error.split
      option.split)

lemma send_command_outcome:
  assumes "ho_phase h \<noteq> HP_Stopped" "\<not> is_ack m"
  shows "outcomes (snd (host_step w h (I_Cmd now (Some (HC_Send m)) tail))) = [m]
    \<and> ho_phase (fst (host_step w h (I_Cmd now (Some (HC_Send m)) tail))) \<noteq> HP_Stopped"
  using assms
  by (cases "ho_phase h")
    (auto simp: busy_command_def wait_command_def serve_cmd_def host_emit_def Let_def split_beta
      split: sum.split)

lemma retry_command_quiet:
  assumes "ho_phase h \<noteq> HP_Stopped"
  shows "outcomes (snd (host_step w h (I_Cmd now (Some HC_Retry) tail))) = []
    \<and> ho_phase (fst (host_step w h (I_Cmd now (Some HC_Retry) tail))) \<noteq> HP_Stopped"
  using assms
  by (cases "ho_phase h")
    (auto simp: busy_command_def wait_command_def serve_cmd_def connect_now_def host_emit_def Let_def
      split_beta)

lemma stop_command:
  assumes "cmd = None \<or> cmd = Some HC_Stop"
  shows "snd (host_step w h (I_Cmd now cmd tail)) = []
    \<and> ho_phase (fst (host_step w h (I_Cmd now cmd tail))) = HP_Stopped"
  using assms
  by (cases "ho_phase h") (auto simp: busy_command_def wait_command_def serve_cmd_def stop_def)

lemma host_steps_accounts:
  "ho_phase h \<noteq> HP_Stopped \<Longrightarrow> \<forall>m \<in> set (accepted ins). \<not> is_ack m \<Longrightarrow>
   acked (snd (run_steps (host_step w) h ins))
   \<and> outcomes (snd (run_steps (host_step w) h ins)) = accepted ins"
proof (induction ins arbitrary: h)
  case (Cons i ins)
  show ?case
  proof (cases "\<exists>now tail. i = I_Cmd now None tail \<or> i = I_Cmd now (Some HC_Stop) tail")
    case True
    then obtain now cmd tail where i: "i = I_Cmd now cmd tail" "cmd = None \<or> cmd = Some HC_Stop"
      by blast
    from stop_command [OF i(2), of w h now tail] i show ?thesis
      by (auto simp: stopped_run)
  next
    case False
    have ack: "acked (snd (host_step w h i))"
      using Cons.prems(2) by (intro acked_step) auto
    have "accepted (i # ins) = outcomes (snd (host_step w h i)) @ accepted ins
      \<and> ho_phase (fst (host_step w h i)) \<noteq> HP_Stopped"
    proof (cases i)
      case (I_Cmd now cmd tail)
      with False Cons.prems show ?thesis
        using send_command_outcome [of h _ w now tail] retry_command_quiet [of h w now tail]
        by (cases "(h, cmd)" rule: idle_command.cases) auto
    qed (use not_command_quiet [of i h w] Cons.prems(1) in auto)
    with Cons.IH [of "fst (host_step w h i)"] Cons.prems(2) ack show ?thesis
      by (auto intro: acked_append)
  qed
qed simp

lemma run_host_start:
  "ho_phase (fst (run_host cfg)) \<noteq> HP_Stopped" "outcomes (snd (run_host cfg)) = []"
  "acked (snd (run_host cfg))"
  by (simp_all add: run_host_def connect_now_def host_emit_def)

text \<open>No command is lost: of the messages a host task is asked to send before it is stopped, each
  is either written to the probe or reported as dropped, exactly once and in the order they
  came, however the connection behaves.\<close>

theorem commands_accounted:
  assumes "\<forall>m \<in> set (accepted ins). \<not> is_ack m"
  shows "outcomes (snd (host_run w cfg ins)) = accepted ins"
  using host_steps_accounts [OF run_host_start(1) assms] run_host_start(2)
  by (simp add: host_run_def split_beta)


section \<open>Waiting\<close>

definition is_retry :: "host_in \<Rightarrow> bool" where
  "is_retry i \<longleftrightarrow> (\<exists>now tail. i = I_Cmd now (Some HC_Retry) tail)"

lemma needs_user_step:
  assumes "ho_phase h = HP_Waiting None reset" "\<not> is_retry i"
  shows "O_Open \<notin> set (snd (host_step w h i))
    \<and> ho_phase (fst (host_step w h i)) \<in> {HP_Waiting None reset, HP_Stopped}
    \<and> ho_backoff (fst (host_step w h i)) = ho_backoff h"
proof (cases i)
  case (I_Cmd now cmd tail)
  with assms show ?thesis
    by (cases "(h, cmd)" rule: idle_command.cases)
      (auto simp: wait_command_def is_retry_def host_emit_def)
qed (use assms in auto)

lemma needs_user_run:
  "ho_phase h = HP_Waiting None reset \<Longrightarrow> \<forall>i \<in> set ins. \<not> is_retry i \<Longrightarrow>
   O_Open \<notin> set (snd (run_steps (host_step w) h ins))
   \<and> ho_phase (fst (run_steps (host_step w) h ins)) \<in> {HP_Waiting None reset, HP_Stopped}
   \<and> ho_backoff (fst (run_steps (host_step w) h ins)) = ho_backoff h"
proof (induction ins arbitrary: h)
  case (Cons i ins)
  let ?s = "host_step w h i"
  from Cons.prems have s: "O_Open \<notin> set (snd ?s)" "ho_phase (fst ?s) \<in> {HP_Waiting None reset, HP_Stopped}"
    "ho_backoff (fst ?s) = ho_backoff h" using needs_user_step [of h reset i w] by auto
  show ?case
  proof (cases "ho_phase (fst ?s) = HP_Stopped")
    case True
    then show ?thesis using s by (simp add: stopped_run)
  next
    case False
    then show ?thesis using Cons.IH [of "fst ?s"] s Cons.prems(2) by auto
  qed
qed simp

text \<open>A host that needs the user makes no connection attempt, whatever happens and however long it
  takes, until it is told to retry; then it connects at once, with the backoff back at one second
  if the connect was refused.\<close>

theorem needs_user_waits:
  assumes "ho_phase h = HP_Waiting None reset" and "\<forall>i \<in> set ins. \<not> is_retry i"
    and "(h', outs) = run_steps (host_step w) h ins"
  shows "O_Open \<notin> set outs \<and> ho_phase h' \<in> {HP_Waiting None reset, HP_Stopped}
    \<and> (ho_phase h' = HP_Waiting None reset \<longrightarrow>
         (\<exists>h''. host_step w h' (I_Cmd now (Some HC_Retry) tail)
             = (h'', [O_Emit (hc_id (ho_cfg h')) (HE_Probe CS_Connecting), O_Open])
           \<and> bo_next (ho_backoff h'') = (if reset then BACKOFF_FIRST else bo_next (ho_backoff h))))"
  using needs_user_run [OF assms(1,2), of w] assms(3) [symmetric]
  by (auto simp: wait_command_def connect_now_def host_emit_def backoff_reset_def)

text \<open>The task's use of a \<open>Connector\<close>: what \<open>open\<close> returns is its next input.\<close>

definition open_input :: "('o \<Rightarrow> opened) \<Rightarrow> open_error + 'o \<Rightarrow> host_in" where
  "open_input f r = I_Opened (case r of Err e \<Rightarrow> Err e | Ok x \<Rightarrow> Ok (f x))"

locale connector =
  fixes open_conn :: "'s \<Rightarrow> 's \<times> (open_error + 'o)"
    and refused :: "'s \<Rightarrow> problem \<Rightarrow> bool"
  assumes refused_asks: "refused s p \<Longrightarrow> snd (open_conn s) = Err (OE_NeedsUser p)"
begin

lemma refused_waits:
  assumes "refused s p" "ho_phase h = HP_Opening" "\<forall>i \<in> set ins. \<not> is_retry i"
    and "run_steps (host_step w) h (open_input f (snd (open_conn s)) # ins) = (h', outs)"
  shows "\<exists>rest. outs = O_Emit (hc_id (ho_cfg h)) (HE_Probe (CS_NeedsUser p)) # rest \<and> O_Open \<notin> set rest
    \<and> ho_phase h' \<in> {HP_Waiting None True, HP_Stopped}"
proof -
  let ?h = "h\<lparr>ho_phase := HP_Waiting None True\<rparr>"
  have "host_step w h (open_input f (snd (open_conn s))) = (?h, [O_Emit (hc_id (ho_cfg h)) (HE_Probe (CS_NeedsUser p))])"
    using refused_asks [OF assms(1)] assms(2) by (simp add: open_input_def open_done_def needs_user_def host_emit_def)
  with assms(4) needs_user_run [of ?h True ins w] assms(3) show ?thesis by (auto simp: run_steps.simps split: prod.splits)
qed

end

text \<open>The announced delays, and the states that may reset the backoff.\<close>

fun delay_of :: "host_out \<Rightarrow> duration list" where
  "delay_of (O_Emit i (HE_Probe (CS_Retrying d r))) = [d]"
| "delay_of _ = []"

definition delays :: "host_out list \<Rightarrow> duration list" where
  "delays outs = concat (map delay_of outs)"

fun reached_host :: "host_out \<Rightarrow> bool" where
  "reached_host (O_Emit i (HE_Probe CS_Up)) = True"
| "reached_host (O_Emit i (HE_Probe (CS_NeedsUser p))) = True"
| "reached_host _ = False"

definition schedule :: "nat \<Rightarrow> duration" where
  "schedule n = min (BACKOFF_FIRST * 2 ^ n) BACKOFF_MAX"

definition unreached :: "nat \<Rightarrow> host \<Rightarrow> bool" where
  "unreached n h \<longleftrightarrow> bo_next (ho_backoff h) = schedule n
     \<and> (case ho_phase h of
            HP_Serving opd up \<Rightarrow> False
          | HP_Waiting delay reset \<Rightarrow> delay \<noteq> None \<and> \<not> reset
          | _ \<Rightarrow> True)"

lemma schedule_Suc: "min (schedule n * 2) BACKOFF_MAX = schedule (Suc n)"
  by (auto simp: schedule_def)

lemma unreached_step:
  assumes "unreached n h" "list_all (\<lambda>x. \<not> reached_host x) (snd (host_step w h i))"
  shows "delays (snd (host_step w h i)) = [] \<and> unreached n (fst (host_step w h i))
    \<or> delays (snd (host_step w h i)) = [schedule n] \<and> unreached (Suc n) (fst (host_step w h i))"
proof (cases i)
  case (I_Cmd now cmd tail)
  with assms show ?thesis
    by (cases "(h, cmd)" rule: idle_command.cases; cases "ho_phase h")
      (auto simp: busy_command_def wait_command_def connect_now_def host_emit_def unreached_def
        delays_def split: option.splits)
next
  case (I_Opened r)
  with assms show ?thesis
    by (auto simp: open_done_def needs_user_def retry_later_def next_delay_def schedule_Suc
        host_emit_def unreached_def delays_def
        split: host_phase.splits option.splits sum.splits open_error.splits)
next
  case (I_Hello tail)
  with assms show ?thesis
    by (auto simp: hello_done_def needs_user_def retry_later_def next_delay_def schedule_Suc
        host_emit_def unreached_def delays_def split_beta
        split: host_phase.splits option.splits sum.splits link_error.splits)
qed (use assms in \<open>auto simp: connect_now_def host_emit_def unreached_def delays_def
      split: host_phase.splits option.splits\<close>)

lemma unreached_run:
  "unreached n h \<Longrightarrow> list_all (\<lambda>x. \<not> reached_host x) (snd (run_steps (host_step w) h ins)) \<Longrightarrow>
   \<exists>k. delays (snd (run_steps (host_step w) h ins)) = map schedule [n..<n + k]"
proof (induction ins arbitrary: n h)
  case (Cons i ins)
  let ?s = "host_step w h i"
  from Cons.prems(2) have l: "list_all (\<lambda>x. \<not> reached_host x) (snd ?s)"
    "list_all (\<lambda>x. \<not> reached_host x) (snd (run_steps (host_step w) (fst ?s) ins))" by simp_all
  have app: "delays (snd (run_steps (host_step w) h (i # ins)))
      = delays (snd ?s) @ delays (snd (run_steps (host_step w) (fst ?s) ins))"
    by (simp add: delays_def)
  from unreached_step [OF Cons.prems(1) l(1)] show ?case
  proof
    assume "delays (snd ?s) = [] \<and> unreached n (fst ?s)"
    with Cons.IH [OF _ l(2)] app show ?thesis by auto
  next
    assume s: "delays (snd ?s) = [schedule n] \<and> unreached (Suc n) (fst ?s)"
    with Cons.IH [OF _ l(2)] obtain k where
      "delays (snd (run_steps (host_step w) (fst ?s) ins)) = map schedule [Suc n..<Suc n + k]" by blast
    moreover have "[n..<n + Suc k] = n # [Suc n..<Suc n + k]" by (simp add: upt_conv_Cons)
    ultimately have "delays (snd (run_steps (host_step w) h (i # ins))) = map schedule [n..<n + Suc k]"
      using s app by (simp only: list.map append_Cons append_Nil)
    then show ?thesis by blast
  qed
qed (auto simp: delays_def)

text \<open>The backoff schedule: while a host is neither reached nor waiting for the user, the delays it
  announces are 1, 2, 4, ... seconds, capped at 60, in this order with none skipped, whatever
  commands (retries included) arrive in between.\<close>

theorem backoff_schedule:
  assumes "list_all (\<lambda>x. \<not> reached_host x) (snd (host_run w cfg ins))"
  shows "\<exists>k. delays (snd (host_run w cfg ins)) = map (\<lambda>n. min (1000 * 2 ^ n) 60000) [0..<k]"
proof -
  have "unreached 0 (fst (run_host cfg))" and d: "delays (snd (run_host cfg)) = []"
    by (simp_all add: run_host_def connect_now_def host_emit_def unreached_def delays_def schedule_def
        backoff_default_def BACKOFF_FIRST_def BACKOFF_MAX_def)
  with unreached_run [of 0 "fst (run_host cfg)" w ins] assms obtain k where
    "delays (snd (run_steps (host_step w) (fst (run_host cfg)) ins)) = map schedule [0..<k]"
    by (auto simp: host_run_def split_beta)
  with d have "delays (snd (host_run w cfg ins)) = map schedule [0..<k]"
    by (simp add: host_run_def split_beta delays_def)
  moreover have "schedule = (\<lambda>n. min (1000 * 2 ^ n) 60000)"
    by (rule ext) (simp add: schedule_def BACKOFF_FIRST_def BACKOFF_MAX_def)
  ultimately show ?thesis by metis
qed

section \<open>Witnesses\<close>

definition ex_wire :: wire where
  "ex_wire = \<lparr>wi_de = ex_de, wi_dbg = (\<lambda>_. []), wi_ser = (\<lambda>_. Ok ''{}'')\<rparr>"

definition ex_cfg :: host_config where
  "ex_cfg = \<lparr>hc_id = ''h'', hc_kind = HK_Local, hc_zellij = None\<rparr>"

lemmas host_eval = host_run_def run_host_def host_step_defs run_steps.simps ex_wire_def ex_cfg_def
  backoff_default_def BACKOFF_FIRST_def BACKOFF_MAX_def

theorem commands_accounted_witness:
  "outcomes (snd (host_run ex_wire ex_cfg
     [I_Cmd 5 (Some (HC_Send (AM_SendText ''s'' 1 ''y''))) None, I_Opened (Err (OE_Retry ''refused'')),
      I_Cmd 9 (Some (HC_Send (AM_Focus ''s'' 0 1))) None, I_Cmd 10 None None]))
   = [AM_SendText ''s'' 1 ''y'', AM_Focus ''s'' 0 1]"
  by (subst commands_accounted) simp_all


theorem needs_user_waits_witness:
  "O_Open \<notin> set (snd (run_steps (host_step ex_wire)
     \<lparr>ho_cfg = ex_cfg, ho_backoff = backoff_default, ho_phase = HP_Waiting None True\<rparr> [I_Elapsed, I_Recv None]))"
  using needs_user_waits [OF _ _ prod.collapse,
    of "\<lparr>ho_cfg = ex_cfg, ho_backoff = backoff_default, ho_phase = HP_Waiting None True\<rparr>" True
       "[I_Elapsed, I_Recv None]" ex_wire]
  by (simp add: is_retry_def)

theorem backoff_schedule_witness:
  "\<exists>k. delays (snd (host_run ex_wire ex_cfg
     [I_Opened (Err (OE_Retry ''refused'')), I_Elapsed, I_Opened (Err (OE_Retry ''refused''))]))
   = map (\<lambda>n. min (1000 * 2 ^ n) 60000) [0..<k]"
  by (rule backoff_schedule) (simp add: host_eval)

end
