(* ===== verification/Tracker.thy ===== *)
theory Tracker
  imports Mai_Protocol "HOL-Library.Multiset"
begin

text \<open>
  Per-agent state tracking (\<open>crates/mai-core/src/tracker.rs\<close>): hook and screen-scrape events are
  merged into one record per agent, and the tracker decides when the user is alerted.

  The \<open>HashMap\<close> of agents is a \<open>dict\<close>; its order stands for the unspecified iteration order.
  \<open>tracker_step\<close> collects the operations that change a tracker, so that statements about any
  sequence of them are statements about \<open>run_steps tracker_step\<close>.
\<close>

section \<open>State\<close>

record agent_key =
  ak_host_id :: string
  ak_session :: string
  ak_pane_id :: u32

definition from_event :: "string \<Rightarrow> agent_event \<Rightarrow> agent_key" where
  "from_event host_id ev =
     \<lparr>ak_host_id = host_id, ak_session = pr_session (ev_pane ev), ak_pane_id = pr_pane_id (ev_pane ev)\<rparr>"

record tracker_config =
  hook_authority_ms :: u64
  alert_dedupe_ms :: u64

definition default_tracker_config :: tracker_config where
  "default_tracker_config = \<lparr>hook_authority_ms = 600000, alert_dedupe_ms = 30000\<rparr>"

record alert =
  al_key :: agent_key
  al_agent :: string
  al_state :: agent_state
  al_message :: "string option"

record agent_record =
  ar_key :: agent_key
  ar_agent :: string
  ar_state :: agent_state
  ar_message :: "string option"
  ar_acknowledged :: bool
  ar_since_ms :: u64
  ar_last_hook_ms :: "u64 option"
  ar_last_hook_offset :: "u64 option"
  ar_last_alert :: "(agent_state \<times> u64) option"

record tracker =
  tr_cfg :: tracker_config
  tr_agents :: "(agent_key, agent_record) dict"

section \<open>Operations\<close>

definition is_alerting :: "agent_state \<Rightarrow> bool" where
  "is_alerting s \<longleftrightarrow> s = NeedsInput \<or> s = Done"

definition scrape_may_override :: "agent_state \<Rightarrow> agent_state \<Rightarrow> bool" where
  "scrape_may_override from to \<longleftrightarrow> is_alerting from \<and> to = Working"

definition tracker_new :: "tracker_config \<Rightarrow> tracker" where
  "tracker_new cfg = \<lparr>tr_cfg = cfg, tr_agents = []\<rparr>"

text \<open>The record \<open>apply\<close> starts from when the agent is seen for the first time.\<close>

definition new_record :: "agent_key \<Rightarrow> agent_event \<Rightarrow> agent_record" where
  "new_record key ev =
     \<lparr>ar_key = key, ar_agent = ev_agent ev, ar_state = Unknown, ar_message = None,
      ar_acknowledged = True, ar_since_ms = ev_ts_ms ev, ar_last_hook_ms = None,
      ar_last_hook_offset = None, ar_last_alert = None\<rparr>"

text \<open>The two arms of \<open>match ev.source\<close>. \<open>None\<close> is the early return; otherwise the record with the
  hook bookkeeping updated.\<close>

definition hook_gate :: "agent_record \<Rightarrow> agent_event \<Rightarrow> agent_record option" where
  "hook_gate r ev =
     (case ev_spool_offset ev of
        Some off \<Rightarrow>
          if (case ar_last_hook_offset r of None \<Rightarrow> False | Some prev \<Rightarrow> off \<le> prev) then None
          else Some (r\<lparr>ar_last_hook_ms := Some (ev_ts_ms ev), ar_last_hook_offset := Some off\<rparr>)
      | None \<Rightarrow>
          if (case ar_last_hook_ms r of None \<Rightarrow> False | Some h \<Rightarrow> ev_ts_ms ev < h) then None
          else Some (r\<lparr>ar_last_hook_ms := Some (ev_ts_ms ev)\<rparr>))"

definition hook_authoritative :: "tracker_config \<Rightarrow> agent_record \<Rightarrow> u64 \<Rightarrow> bool" where
  "hook_authoritative cfg r now =
     (case ar_last_hook_ms r of
        None \<Rightarrow> False | Some h \<Rightarrow> saturating_sub now h < hook_authority_ms cfg)"

definition scrape_gate :: "tracker_config \<Rightarrow> agent_record \<Rightarrow> agent_event \<Rightarrow> agent_record option" where
  "scrape_gate cfg r ev =
     (if hook_authoritative cfg r (ev_ts_ms ev) \<and> \<not> scrape_may_override (ar_state r) (ev_state ev)
      then None else Some r)"

text \<open>The rest of \<open>apply\<close>, from the comparison of the states on.\<close>

definition enter_state ::
    "tracker_config \<Rightarrow> agent_key \<Rightarrow> agent_record \<Rightarrow> agent_event \<Rightarrow> agent_record \<times> alert option" where
  "enter_state cfg key r ev =
     (if ar_state r = ev_state ev then (r, None)
      else
        let r1 = r\<lparr>ar_agent := ev_agent ev, ar_state := ev_state ev, ar_message := ev_message ev,
                   ar_since_ms := ev_ts_ms ev\<rparr>
        in if \<not> is_alerting (ev_state ev) then (r1\<lparr>ar_acknowledged := True\<rparr>, None)
           else
             let r2 = r1\<lparr>ar_acknowledged := False\<rparr>
             in if (case ar_last_alert r2 of
                      None \<Rightarrow> False
                    | Some (s, t) \<Rightarrow>
                        s = ev_state ev \<and> saturating_sub (ev_ts_ms ev) t < alert_dedupe_ms cfg)
                then (r2, None)
                else (r2\<lparr>ar_last_alert := Some (ev_state ev, ev_ts_ms ev)\<rparr>,
                      Some \<lparr>al_key = key, al_agent = ar_agent r2, al_state = ev_state ev,
                            al_message = ar_message r2\<rparr>))"

definition apply_record ::
    "tracker_config \<Rightarrow> agent_key \<Rightarrow> agent_record \<Rightarrow> agent_event \<Rightarrow> agent_record \<times> alert option" where
  "apply_record cfg key r ev =
     (case (case ev_source ev of Hook \<Rightarrow> hook_gate r ev | Scrape \<Rightarrow> scrape_gate cfg r ev) of
        None \<Rightarrow> (r, None)
      | Some r' \<Rightarrow> enter_state cfg key r' ev)"

definition tracker_apply :: "tracker \<Rightarrow> string \<Rightarrow> agent_event \<Rightarrow> tracker \<times> alert option" where
  "tracker_apply t host_id ev =
     (let key = from_event host_id ev;
          r = (case map_of (tr_agents t) key of None \<Rightarrow> new_record key ev | Some r \<Rightarrow> r);
          (r', al) = apply_record (tr_cfg t) key r ev
      in (t\<lparr>tr_agents := AList.update key r' (tr_agents t)\<rparr>, al))"

definition pane_gone :: "tracker \<Rightarrow> agent_key \<Rightarrow> u64 \<Rightarrow> tracker" where
  "pane_gone t key now_ms =
     t\<lparr>tr_agents := modify_dict key
         (\<lambda>r. r\<lparr>ar_state := Exited, ar_since_ms := now_ms, ar_acknowledged := True\<rparr>) (tr_agents t)\<rparr>"

definition tracker_acknowledge :: "tracker \<Rightarrow> agent_key \<Rightarrow> tracker \<times> bool" where
  "tracker_acknowledge t key =
     (case map_of (tr_agents t) key of
        Some r \<Rightarrow> (t\<lparr>tr_agents := AList.update key (r\<lparr>ar_acknowledged := True\<rparr>) (tr_agents t)\<rparr>, True)
      | None \<Rightarrow> (t, False))"

definition tracker_get :: "tracker \<Rightarrow> agent_key \<Rightarrow> agent_record option" where
  "tracker_get t key = map_of (tr_agents t) key"

definition records :: "tracker \<Rightarrow> agent_record list" where
  "records t = map snd (tr_agents t)"

definition pending_key :: "agent_record \<Rightarrow> nat \<times> u64 \<times> string \<times> string \<times> u32" where
  "pending_key r =
     (if ar_state r \<noteq> NeedsInput then 1 else 0, ar_since_ms r, ak_host_id (ar_key r),
      ak_session (ar_key r), ak_pane_id (ar_key r))"

definition pending :: "tracker \<Rightarrow> agent_record list" where
  "pending t = sort_key pending_key
     (filter (\<lambda>r. is_alerting (ar_state r) \<and> \<not> ar_acknowledged r) (records t))"

text \<open>The operations that change a tracker, as inputs of one machine whose outputs are the alerts.\<close>

datatype tracker_op =
    T_Apply string agent_event
  | T_PaneGone agent_key u64
  | T_Acknowledge agent_key

fun tracker_step :: "tracker \<Rightarrow> tracker_op \<Rightarrow> tracker \<times> alert list" where
  "tracker_step t (T_Apply host_id ev) =
     (let (t', al) = tracker_apply t host_id ev in (t', case al of None \<Rightarrow> [] | Some a \<Rightarrow> [a]))"
| "tracker_step t (T_PaneGone key now_ms) = (pane_gone t key now_ms, [])"
| "tracker_step t (T_Acknowledge key) = (fst (tracker_acknowledge t key), [])"

section \<open>The well-formedness invariant\<close>

text \<open>One record under each key, carrying that key; only an alerting state waits for the user; the
  state of the last alert is an alerting one.\<close>

definition record_ok :: "agent_record \<Rightarrow> bool" where
  "record_ok r \<longleftrightarrow> (ar_acknowledged r \<or> is_alerting (ar_state r))
     \<and> (case ar_last_alert r of None \<Rightarrow> True | Some (s, t) \<Rightarrow> is_alerting s)"

definition tracker_inv :: "tracker \<Rightarrow> bool" where
  "tracker_inv t \<longleftrightarrow> distinct (keys (tr_agents t))
     \<and> (\<forall>k r. map_of (tr_agents t) k = Some r \<longrightarrow> ar_key r = k \<and> record_ok r)"

lemmas gate_defs = hook_gate_def scrape_gate_def

lemma gate_frame:
  "(case ev_source ev of Hook \<Rightarrow> hook_gate r ev | Scrape \<Rightarrow> scrape_gate cfg r ev) = Some r' \<Longrightarrow>
   ar_key r' = ar_key r \<and> ar_state r' = ar_state r \<and> ar_acknowledged r' = ar_acknowledged r
     \<and> ar_last_alert r' = ar_last_alert r"
  by (auto simp: gate_defs split: event_source.splits option.splits if_splits)

lemma enter_state_ok:
  "record_ok r \<Longrightarrow> record_ok (fst (enter_state cfg key r ev))
     \<and> ar_key (fst (enter_state cfg key r ev)) = ar_key r"
  by (auto simp: enter_state_def record_ok_def Let_def split: option.splits)

lemma apply_record_ok:
  assumes "record_ok r"
  shows "record_ok (fst (apply_record cfg key r ev)) \<and> ar_key (fst (apply_record cfg key r ev)) = ar_key r"
proof (cases "case ev_source ev of Hook \<Rightarrow> hook_gate r ev | Scrape \<Rightarrow> scrape_gate cfg r ev")
  case None
  with assms show ?thesis by (simp add: apply_record_def)
next
  case (Some r')
  from gate_frame [OF Some] assms have "record_ok r'" "ar_key r' = ar_key r"
    by (auto simp: record_ok_def)
  with Some enter_state_ok [of r' cfg key ev] show ?thesis
    by (simp add: apply_record_def)
qed

lemma new_record_ok: "record_ok (new_record key ev)" "ar_key (new_record key ev) = key"
  by (simp_all add: record_ok_def new_record_def)

text \<open>The record \<open>apply\<close> works on, and the record and alert it produces.\<close>

definition entry_record :: "tracker \<Rightarrow> agent_key \<Rightarrow> agent_event \<Rightarrow> agent_record" where
  "entry_record t key ev = (case tracker_get t key of None \<Rightarrow> new_record key ev | Some r \<Rightarrow> r)"

lemma tracker_apply_get:
  "tracker_get (fst (tracker_apply t h ev)) k =
     (if k = from_event h ev
      then Some (fst (apply_record (tr_cfg t) k (entry_record t k ev) ev))
      else tracker_get t k)"
  by (simp add: tracker_apply_def tracker_get_def entry_record_def Let_def split_beta dict_simps)

lemma tracker_apply_alert:
  "snd (tracker_apply t h ev) =
     snd (apply_record (tr_cfg t) (from_event h ev) (entry_record t (from_event h ev) ev) ev)"
  by (simp add: tracker_apply_def tracker_get_def entry_record_def Let_def split_beta)

lemma pane_gone_get:
  "tracker_get (pane_gone t key now) k =
     (if k = key then map_option
        (\<lambda>r. r\<lparr>ar_state := Exited, ar_since_ms := now, ar_acknowledged := True\<rparr>) (tracker_get t k)
      else tracker_get t k)"
  by (simp add: pane_gone_def tracker_get_def dict_simps)

lemma tracker_acknowledge_get:
  "tracker_get (fst (tracker_acknowledge t key)) k =
     (if k = key then map_option (\<lambda>r. r\<lparr>ar_acknowledged := True\<rparr>) (tracker_get t k)
      else tracker_get t k)"
  by (auto simp: tracker_acknowledge_def tracker_get_def dict_simps split: option.splits)

lemmas tracker_get_simps = tracker_apply_get pane_gone_get tracker_acknowledge_get

lemma tracker_cfg_frame [simp]:
  "tr_cfg (fst (tracker_apply t h ev)) = tr_cfg t"
  "tr_cfg (pane_gone t key now) = tr_cfg t"
  "tr_cfg (fst (tracker_acknowledge t key)) = tr_cfg t"
  by (simp_all add: tracker_apply_def pane_gone_def tracker_acknowledge_def Let_def split_beta
      split: option.splits)

lemma tracker_step_cfg [simp]: "tr_cfg (fst (tracker_step t x)) = tr_cfg t"
  by (cases x) (simp_all add: split_beta)

lemma tracker_keys_distinct:
  "distinct (keys (tr_agents t)) \<Longrightarrow> distinct (keys (tr_agents (fst (tracker_step t x))))"
  by (cases x) (auto simp: tracker_apply_def pane_gone_def tracker_acknowledge_def Let_def split_beta
      distinct_update hm.wf_modify split: option.splits)

lemma tracker_inv_alt:
  "tracker_inv t \<longleftrightarrow> distinct (keys (tr_agents t))
     \<and> (\<forall>k r. tracker_get t k = Some r \<longrightarrow> ar_key r = k \<and> record_ok r)"
  by (simp add: tracker_inv_def tracker_get_def)

lemma entry_record_ok:
  "tracker_inv t \<Longrightarrow> record_ok (entry_record t k ev) \<and> ar_key (entry_record t k ev) = k"
  by (auto simp: tracker_inv_alt entry_record_def new_record_ok split: option.splits)

lemma tracker_step_inv: "tracker_inv t \<Longrightarrow> tracker_inv (fst (tracker_step t x))"
proof (cases x)
  case (T_Apply h ev)
  assume inv: "tracker_inv t"
  with T_Apply show ?thesis
    using entry_record_ok [OF inv, of "from_event h ev" ev] apply_record_ok tracker_keys_distinct [of t x]
    by (auto simp: tracker_inv_alt split_beta tracker_apply_get)
next
  case (T_PaneGone key now)
  assume "tracker_inv t"
  with T_PaneGone show ?thesis using tracker_keys_distinct [of t x]
    by (auto simp: tracker_inv_alt pane_gone_get record_ok_def split: if_splits)
next
  case (T_Acknowledge key)
  assume "tracker_inv t"
  with T_Acknowledge show ?thesis using tracker_keys_distinct [of t x]
    by (auto simp: tracker_inv_alt tracker_acknowledge_get record_ok_def split: if_splits)
qed

interpretation tracker_machine: invariant_machine tracker_step tracker_inv
  by unfold_locales (rule tracker_step_inv)

lemma tracker_inv_new: "tracker_inv (tracker_new cfg)"
  by (simp add: tracker_inv_def tracker_new_def)

section \<open>Redelivered hook events\<close>

text \<open>The newest spool offset applied for an agent never goes down.\<close>

definition offset_seen :: "tracker \<Rightarrow> agent_key \<Rightarrow> u64 \<Rightarrow> bool" where
  "offset_seen t k off \<longleftrightarrow>
     (\<exists>r prev. tracker_get t k = Some r \<and> ar_last_hook_offset r = Some prev \<and> off \<le> prev)"

lemma enter_state_hook_frame [simp]:
  "ar_last_hook_offset (fst (enter_state cfg key r ev)) = ar_last_hook_offset r"
  "ar_last_hook_ms (fst (enter_state cfg key r ev)) = ar_last_hook_ms r"
  by (simp_all add: enter_state_def Let_def split: option.splits)

lemma apply_record_offset:
  "ar_last_hook_offset r = Some prev \<Longrightarrow>
   \<exists>prev'. ar_last_hook_offset (fst (apply_record cfg key r ev)) = Some prev' \<and> prev \<le> prev'"
  by (auto simp: apply_record_def gate_defs split: event_source.splits option.splits)

lemma offset_seen_step: "offset_seen t k off \<Longrightarrow> offset_seen (fst (tracker_step t x)) k off"
proof (cases x)
  case (T_Apply h ev)
  assume "offset_seen t k off"
  then obtain r prev where r: "tracker_get t k = Some r" "ar_last_hook_offset r = Some prev"
    and le: "off \<le> prev"
    by (auto simp: offset_seen_def)
  from r apply_record_offset [OF r(2), of "tr_cfg t" k ev] le show ?thesis
    by (auto simp: T_Apply offset_seen_def split_beta tracker_apply_get entry_record_def
        intro: order_trans)
qed (auto simp: offset_seen_def tracker_get_simps)

interpretation offset_machine: invariant_machine tracker_step "\<lambda>t. offset_seen t k off" for k off
  by unfold_locales (rule offset_seen_step)

lemma offset_seen_after_hook:
  "ev_source ev = Hook \<Longrightarrow> ev_spool_offset ev = Some off \<Longrightarrow>
   offset_seen (fst (tracker_apply t h ev)) (from_event h ev) off"
  by (auto simp: offset_seen_def tracker_apply_get apply_record_def hook_gate_def
      split: option.splits)

lemma tracker_apply_seen:
  assumes "offset_seen t (from_event h ev) prev" and "ev_source ev = Hook"
    and "ev_spool_offset ev = Some off" and "off \<le> prev"
  shows "tracker_apply t h ev = (t, None)"
proof -
  obtain r o' where r: "tracker_get t (from_event h ev) = Some r"
    and o': "ar_last_hook_offset r = Some o'" "prev \<le> o'"
    using assms(1) by (auto simp: offset_seen_def)
  have "off \<le> o'" using assms(4) o'(2) by (rule order_trans)
  with assms(2,3) o'(1) have "apply_record (tr_cfg t) (from_event h ev) r ev = (r, None)"
    by (simp add: apply_record_def hook_gate_def)
  with r show ?thesis
    by (simp add: tracker_apply_def tracker_get_def Let_def update_triv)
qed

text \<open>C2. Redelivery is harmless. Once a hook event with a spool offset has been applied, no later
  delivery of a hook event for the same agent with that or a smaller offset (the probe resends
  everything after the last acknowledged offset when it restarts) changes the tracker or alerts,
  whatever was applied, acknowledged or reported gone in between.\<close>

theorem hook_redelivery_ignored:
  assumes "ev_source ev = Hook" and "ev_spool_offset ev = Some off"
    and "from_event h ev' = from_event h ev"
    and "ev_source ev' = Hook" and "ev_spool_offset ev' = Some off'" and "off' \<le> off"
    and "t' = fst (run_steps tracker_step (fst (tracker_apply t h ev)) ops)"
  shows "tracker_apply t' h ev' = (t', None)"
proof -
  have "offset_seen t' (from_event h ev) off"
    unfolding assms(7)
    by (rule offset_machine.run_inv) (rule offset_seen_after_hook [OF assms(1,2)])
  then show ?thesis
    using tracker_apply_seen [of t' h ev' off off'] assms(3-6) by simp
qed

section \<open>Scrape events under hook authority\<close>

text \<open>While a hook event of an agent is younger than the authority window, a screen scrape never
  alerts and can change the agent's record only by moving an alerting agent back to Working
  (which also counts as acknowledged).\<close>

theorem scrape_under_authority:
  assumes "tracker_get t (from_event h ev) = Some r" and "ev_source ev = Scrape"
    and "ar_last_hook_ms r = Some hook_ms"
    and "saturating_sub (ev_ts_ms ev) hook_ms < hook_authority_ms (tr_cfg t)"
  shows "snd (tracker_apply t h ev) = None
    \<and> (tracker_get (fst (tracker_apply t h ev)) (from_event h ev) = Some r
       \<or> is_alerting (ar_state r) \<and> ev_state ev = Working
         \<and> tracker_get (fst (tracker_apply t h ev)) (from_event h ev) =
             Some (r\<lparr>ar_agent := ev_agent ev, ar_state := Working, ar_message := ev_message ev,
                     ar_since_ms := ev_ts_ms ev, ar_acknowledged := True\<rparr>))"
  using assms
  by (auto simp: tracker_apply_alert tracker_apply_get entry_record_def apply_record_def
      scrape_gate_def hook_authoritative_def scrape_may_override_def enter_state_def
      is_alerting_def Let_def split: option.splits)

section \<open>Alerts\<close>

lemma apply_record_alert:
  assumes "snd (apply_record cfg key r ev) = Some a"
  shows "al_key a = key \<and> al_state a = ev_state ev \<and> is_alerting (ev_state ev)
    \<and> ar_state r \<noteq> ev_state ev
    \<and> ar_last_alert (fst (apply_record cfg key r ev)) = Some (ev_state ev, ev_ts_ms ev)
    \<and> (\<forall>t0. ar_last_alert r = Some (ev_state ev, t0) \<longrightarrow>
          alert_dedupe_ms cfg \<le> saturating_sub (ev_ts_ms ev) t0)"
proof -
  obtain r' where g: "(case ev_source ev of Hook \<Rightarrow> hook_gate r ev | Scrape \<Rightarrow> scrape_gate cfg r ev) = Some r'"
    and e: "snd (enter_state cfg key r' ev) = Some a"
    using assms by (auto simp: apply_record_def split: option.splits)
  from gate_frame [OF g] e show ?thesis
    by (auto simp: apply_record_def g enter_state_def Let_def not_less
        split: if_splits option.splits prod.splits)
qed

lemma apply_record_no_alert:
  "snd (apply_record cfg key r ev) = None \<Longrightarrow>
   ar_last_alert (fst (apply_record cfg key r ev)) = ar_last_alert r"
proof (cases "case ev_source ev of Hook \<Rightarrow> hook_gate r ev | Scrape \<Rightarrow> scrape_gate cfg r ev")
  case (Some r')
  assume "snd (apply_record cfg key r ev) = None"
  with Some gate_frame [OF Some] show ?thesis
    by (auto simp: apply_record_def enter_state_def Let_def split: if_splits option.splits)
qed (simp add: apply_record_def)

definition last_alert_of :: "tracker \<Rightarrow> agent_key \<Rightarrow> (agent_state \<times> u64) option" where
  "last_alert_of t k = Option.bind (tracker_get t k) ar_last_alert"

lemma last_alert_entry:
  "ar_last_alert (entry_record t k ev) = last_alert_of t k"
  by (auto simp: entry_record_def last_alert_of_def new_record_def split: option.splits)

lemma last_alert_step_quiet:
  assumes "\<forall>a \<in> set (snd (tracker_step t x)). al_key a \<noteq> k"
  shows "last_alert_of (fst (tracker_step t x)) k = last_alert_of t k"
proof (cases x)
  case (T_Apply h ev)
  show ?thesis
  proof (cases "k = from_event h ev")
    case True
    have "snd (apply_record (tr_cfg t) k (entry_record t k ev) ev) = None"
    proof (cases "snd (apply_record (tr_cfg t) k (entry_record t k ev) ev)")
      case (Some a)
      with assms T_Apply True have "al_key a \<noteq> k"
        by (simp add: split_beta tracker_apply_alert)
      with apply_record_alert [OF Some] show ?thesis by simp
    qed
    from apply_record_no_alert [OF this] show ?thesis
      by (simp add: T_Apply split_beta True last_alert_of_def [of "fst _"] tracker_apply_get
          last_alert_entry)
  next
    case False
    then show ?thesis by (simp add: T_Apply split_beta last_alert_of_def tracker_apply_get)
  qed
next
  case (T_PaneGone key now)
  then show ?thesis by (cases "tracker_get t k") (auto simp: last_alert_of_def tracker_get_simps)
next
  case (T_Acknowledge key)
  then show ?thesis by (cases "tracker_get t k") (auto simp: last_alert_of_def tracker_get_simps)
qed

lemma last_alert_run_quiet:
  "\<forall>a \<in> set (snd (run_steps tracker_step t ops)). al_key a \<noteq> k \<Longrightarrow>
   last_alert_of (fst (run_steps tracker_step t ops)) k = last_alert_of t k"
  by (induction ops arbitrary: t) (auto simp: last_alert_step_quiet)

lemma run_tracker_cfg [simp]: "tr_cfg (fst (run_steps tracker_step t ops)) = tr_cfg t"
  by (induction ops arbitrary: t) simp_all

text \<open>C3. Alerts are spaced. If an event alerts for an agent, and a later event alerts for the same
  agent and the same state with no other alert for that agent in between, then the two events are
  at least the dedupe window apart; a time stamp that went backwards counts as no time passed.\<close>

theorem alerts_spaced:
  assumes "snd (tracker_apply t h ev1) = Some a1"
    and "\<forall>a \<in> set (snd (run_steps tracker_step (fst (tracker_apply t h ev1)) ops)).
           al_key a \<noteq> from_event h ev1"
    and "snd (tracker_apply (fst (run_steps tracker_step (fst (tracker_apply t h ev1)) ops)) h ev2) = Some a2"
    and "al_key a2 = al_key a1" and "al_state a2 = al_state a1"
  shows "alert_dedupe_ms (tr_cfg t) \<le> saturating_sub (ev_ts_ms ev2) (ev_ts_ms ev1)"
proof -
  let ?k = "from_event h ev1" and ?t1 = "fst (tracker_apply t h ev1)"
  let ?t2 = "fst (run_steps tracker_step ?t1 ops)"
  note a1 = apply_record_alert [OF assms(1) [unfolded tracker_apply_alert]]
  note a2 = apply_record_alert [OF assms(3) [unfolded tracker_apply_alert]]
  have k2: "from_event h ev2 = ?k" using a1 a2 assms(4) by simp
  have "last_alert_of ?t1 ?k = Some (ev_state ev1, ev_ts_ms ev1)"
    using a1 by (simp add: last_alert_of_def tracker_apply_get)
  with last_alert_run_quiet [OF assms(2)]
  have "last_alert_of ?t2 ?k = Some (ev_state ev1, ev_ts_ms ev1)" by simp
  with a1 a2 assms(5) show ?thesis
    by (simp add: k2 last_alert_entry)
qed

section \<open>The pending list\<close>

lemma pending_key_inj:
  "pending_key r = pending_key r' \<Longrightarrow> ar_key r = ar_key r'"
  by (cases "ar_key r"; cases "ar_key r'") (auto simp: pending_key_def)

lemma set_records: "tracker_inv t \<Longrightarrow> r \<in> set (records t) \<longleftrightarrow> tracker_get t (ar_key r) = Some r"
proof -
  assume inv: "tracker_inv t"
  then have d: "distinct (keys (tr_agents t))" by (simp add: tracker_inv_def)
  show ?thesis
  proof
    assume "r \<in> set (records t)"
    then obtain k where "(k, r) \<in> set (tr_agents t)" by (auto simp: records_def)
    then have g: "tracker_get t k = Some r" using d by (simp add: tracker_get_def)
    with inv have "ar_key r = k" by (auto simp: tracker_inv_alt)
    with g show "tracker_get t (ar_key r) = Some r" by simp
  next
    assume "tracker_get t (ar_key r) = Some r"
    then show "r \<in> set (records t)"
      using hm.entry_of_lookup [OF d, of "ar_key r" r] by (simp add: records_def tracker_get_def)
  qed
qed

lemma set_pending:
  "tracker_inv t \<Longrightarrow> r \<in> set (pending t) \<longleftrightarrow>
     tracker_get t (ar_key r) = Some r \<and> is_alerting (ar_state r) \<and> \<not> ar_acknowledged r"
  by (auto simp: pending_def set_records)

lemma records_inj:
  assumes inv: "tracker_inv t"
  shows "inj_on ar_key (set (records t))"
proof (rule inj_onI)
  fix r r' assume r: "r \<in> set (records t)" "r' \<in> set (records t)" and k: "ar_key r = ar_key r'"
  from r have "tracker_get t (ar_key r) = Some r" "tracker_get t (ar_key r') = Some r'"
    by (simp_all only: set_records [OF inv])
  with k show "r = r'" by (metis option.inject)
qed

lemma records_inj_key: "tracker_inv t \<Longrightarrow> inj_on pending_key (set (records t))"
  by (rule inj_onI) (rule inj_onD [OF records_inj pending_key_inj])

lemma distinct_records: "tracker_inv t \<Longrightarrow> distinct (records t)"
proof -
  assume inv: "tracker_inv t"
  have "map ar_key (records t) = keys (tr_agents t)"
    using inv by (auto simp: records_def tracker_inv_def map_of_eq_Some_iff)
  with inv show ?thesis by (metis distinct_map tracker_inv_def)
qed

text \<open>The pending list holds exactly the agents whose alert the user has not seen, each once,
  sorted with NeedsInput before Done, then oldest first (ties by host, session and pane), and it is
  the same list for any two trackers that hold the same records in different iteration orders.\<close>

theorem pending_exact_sorted:
  assumes "tracker_inv t"
  shows "(\<forall>r. r \<in> set (pending t) \<longleftrightarrow>
            tracker_get t (ar_key r) = Some r \<and> is_alerting (ar_state r) \<and> \<not> ar_acknowledged r)
    \<and> distinct (map ar_key (pending t)) \<and> sorted (map pending_key (pending t))
    \<and> (\<forall>t'. tracker_inv t' \<and> tracker_get t' = tracker_get t \<longrightarrow> pending t' = pending t)"
proof (intro conjI allI impI)
  fix r
  show "r \<in> set (pending t) \<longleftrightarrow>
          tracker_get t (ar_key r) = Some r \<and> is_alerting (ar_state r) \<and> \<not> ar_acknowledged r"
    using set_pending [OF assms] .
next
  show "distinct (map ar_key (pending t))"
    using distinct_records [OF assms] records_inj [OF assms]
    by (auto simp: distinct_map pending_def intro: inj_on_subset)
next
  show "sorted (map pending_key (pending t))" by (simp add: pending_def)
next
  fix t' assume t': "tracker_inv t' \<and> tracker_get t' = tracker_get t"
  then have same: "set (records t') = set (records t)"
    using set_records [OF assms] set_records [of t'] by auto
  let ?unseen = "filter (\<lambda>r. is_alerting (ar_state r) \<and> \<not> ar_acknowledged r)"
  have "mset (records t') = mset (records t)"
    using same distinct_records [OF assms] distinct_records [of t'] t'
    by (simp add: set_eq_iff_mset_eq_distinct)
  then have "mset (?unseen (records t')) = mset (pending t)" by (simp add: pending_def)
  moreover have "inj_on pending_key (set (?unseen (records t')))"
    using records_inj_key [OF assms] same by (simp add: inj_on_def)
  moreover have "sorted (map pending_key (pending t))" by (simp add: pending_def)
  ultimately show "pending t' = pending t"
    unfolding pending_def [of t'] by (rule sort_key_inj_key_eq)
qed

text \<open>C21. Every state a tracker can reach from an empty one by applying events, losing panes and
  acknowledging satisfies the invariant: one record per agent, stored under its own key, only an
  alerting agent is unacknowledged, and every recorded alert was for an alerting state.\<close>

theorem tracker_invariant_run:
  "tracker_inv (fst (run_steps tracker_step (tracker_new cfg) ops))"
  by (rule tracker_machine.run_inv [OF tracker_inv_new])

text \<open>No alert is lost by deduplication: whenever an event moves an agent into an alerting
  state, the agent is in the pending list afterwards, also when the alert itself was suppressed.\<close>

theorem alerting_change_is_pending:
  assumes "tracker_inv t"
    and "tracker_get (fst (tracker_apply t h ev)) (from_event h ev) = Some r"
    and "ar_state r \<noteq> ar_state (entry_record t (from_event h ev) ev)"
    and "is_alerting (ar_state r)"
  shows "r \<in> set (pending (fst (tracker_apply t h ev)))"
proof -
  have inv: "tracker_inv (fst (tracker_apply t h ev))"
    using tracker_step_inv [OF assms(1), of "T_Apply h ev"] by (simp add: split_beta)
  have "\<not> ar_acknowledged r"
  proof (cases "case ev_source ev of Hook \<Rightarrow> hook_gate (entry_record t (from_event h ev) ev) ev
      | Scrape \<Rightarrow> scrape_gate (tr_cfg t) (entry_record t (from_event h ev) ev) ev")
    case None
    with assms(2,3) show ?thesis by (simp add: tracker_apply_get apply_record_def)
  next
    case (Some r')
    with assms(2-4) gate_frame [OF Some] show ?thesis
      by (auto simp: tracker_apply_get apply_record_def enter_state_def Let_def
          split: if_splits option.splits)
  qed
  moreover have "ar_key r = from_event h ev" using inv assms(2) by (auto simp: tracker_inv_alt)
  ultimately show ?thesis using assms(2,4) by (simp add: set_pending [OF inv])
qed

section \<open>Witnesses\<close>

text \<open>An event of one pane, and the definitions a concrete run unfolds.\<close>

definition ex_event :: "event_source \<Rightarrow> agent_state \<Rightarrow> u64 \<Rightarrow> u64 option \<Rightarrow> agent_event" where
  "ex_event src st ts off =
     \<lparr>ev_pane = \<lparr>pr_session = ''main'', pr_pane_id = 3\<rparr>, ev_agent = ''claude'', ev_source = src,
      ev_state = st, ev_message = None, ev_ts_ms = ts, ev_spool_offset = off\<rparr>"

lemmas tracker_eval = tracker_apply_def apply_record_def hook_gate_def scrape_gate_def
  hook_authoritative_def scrape_may_override_def enter_state_def is_alerting_def new_record_def
  from_event_def tracker_new_def default_tracker_config_def saturating_sub_def tracker_get_def
  pane_gone_def tracker_acknowledge_def modify_def ex_event_def run_steps.simps Let_def

theorem hook_redelivery_ignored_witness:
  "tracker_apply
     (fst (run_steps tracker_step
        (fst (tracker_apply (tracker_new default_tracker_config) ''h'' (ex_event Hook NeedsInput 1000 (Some 40))))
        [T_Apply ''h'' (ex_event Scrape Working 2000 None)]))
     ''h'' (ex_event Hook NeedsInput 1000 (Some 40))
   = (fst (run_steps tracker_step
        (fst (tracker_apply (tracker_new default_tracker_config) ''h'' (ex_event Hook NeedsInput 1000 (Some 40))))
        [T_Apply ''h'' (ex_event Scrape Working 2000 None)]), None)"
  by (rule hook_redelivery_ignored [where ev = "ex_event Hook NeedsInput 1000 (Some 40)" and off = 40
        and off' = 40 and t = "tracker_new default_tracker_config"
        and ops = "[T_Apply ''h'' (ex_event Scrape Working 2000 None)]"])
    (simp_all only: ex_event_def agent_event.simps order_refl)

theorem scrape_under_authority_witness:
  "snd (tracker_apply
     (fst (tracker_apply (tracker_new default_tracker_config) ''h'' (ex_event Hook Working 1000 (Some 40))))
     ''h'' (ex_event Scrape Done 2000 None)) = None"
proof -
  let ?t = "fst (tracker_apply (tracker_new default_tracker_config) ''h'' (ex_event Hook Working 1000 (Some 40)))"
  obtain r where r: "tracker_get ?t (from_event ''h'' (ex_event Scrape Done 2000 None)) = Some r"
    and ms: "ar_last_hook_ms r = Some 1000"
    by (simp add: tracker_eval)
  have "saturating_sub (ev_ts_ms (ex_event Scrape Done 2000 None)) 1000 < hook_authority_ms (tr_cfg ?t)"
    by (simp add: tracker_eval)
  with scrape_under_authority [OF r _ ms] show ?thesis by (simp add: ex_event_def)
qed

theorem alerts_spaced_witness:
  "alert_dedupe_ms (tr_cfg (tracker_new default_tracker_config)) \<le> saturating_sub 40000 1000"
proof -
  let ?t1 = "fst (tracker_apply (tracker_new default_tracker_config) ''h'' (ex_event Hook Done 1000 None))"
  let ?ops = "[T_Apply ''h'' (ex_event Hook Working 2000 None)]"
  obtain a1 where a1: "snd (tracker_apply (tracker_new default_tracker_config) ''h'' (ex_event Hook Done 1000 None)) = Some a1"
    by (simp add: tracker_eval)
  have quiet: "\<forall>a \<in> set (snd (run_steps tracker_step ?t1 ?ops)).
      al_key a \<noteq> from_event ''h'' (ex_event Hook Done 1000 None)"
    by (simp add: tracker_eval)
  obtain a2 where a2: "snd (tracker_apply (fst (run_steps tracker_step ?t1 ?ops)) ''h'' (ex_event Hook Done 40000 None)) = Some a2"
    by (simp add: tracker_eval)
  have "al_key a2 = al_key a1" "al_state a2 = al_state a1"
    using a1 a2 by (auto simp: tracker_eval)
  from alerts_spaced [OF a1 quiet a2 this] show ?thesis by (simp add: ex_event_def)
qed

theorem pending_exact_sorted_witness:
  "sorted (map pending_key (pending (fst (run_steps tracker_step (tracker_new default_tracker_config)
     [T_Apply ''h'' (ex_event Hook Done 1000 None), T_Apply ''g'' (ex_event Hook NeedsInput 2000 None)]))))"
  using pending_exact_sorted [OF tracker_machine.run_inv [OF tracker_inv_new]] by blast

theorem alerting_change_is_pending_witness:
  "\<exists>r. ar_state r = Done \<and> r \<in> set (pending (fst (tracker_apply (tracker_new default_tracker_config)
     ''h'' (ex_event Hook Done 1000 None))))"
proof -
  obtain r where r: "tracker_get (fst (tracker_apply (tracker_new default_tracker_config) ''h'' (ex_event Hook Done 1000 None)))
      (from_event ''h'' (ex_event Hook Done 1000 None)) = Some r" and d: "ar_state r = Done"
    by (simp add: tracker_eval)
  have "ar_state r \<noteq> ar_state (entry_record (tracker_new default_tracker_config)
      (from_event ''h'' (ex_event Hook Done 1000 None)) (ex_event Hook Done 1000 None))"
    by (simp add: d entry_record_def tracker_eval)
  from alerting_change_is_pending [OF tracker_inv_new r this] d show ?thesis
    by (auto simp: is_alerting_def)
qed

end
