(* ===== verification/Monitor.thy ===== *)
theory Monitor
  imports Tracker Mai_Types
begin

text \<open>
  The monitor (\<open>crates/mai-core/src/monitor.rs\<close>) merges the events of every host into one view and
  turns them into updates for the user interface: host states, zellij sessions and panes, agent
  states (through the tracker), alerts and metrics.

  The main result is that the stream of updates is a faithful replica: an interface that only keeps
  the last \<open>Update::Agent\<close> of each agent sees exactly the tracker's records.
\<close>

section \<open>State\<close>

datatype update =
    U_Host string host_status conn_state "conn_state option"
  | U_Hello string hello_info
  | U_Hooks string "string + hook_result list"
  | U_Sessions string "session_info list"
  | U_Panes string string "pane_info list"
  | U_Agent agent_record
  | U_Alert alert
  | U_Metrics string metrics
  | U_ProbeError string string string
  | U_Notes string "string list"
  | U_Dropped string app_msg

record host_view =
  hv_probe :: "conn_state option"
  hv_term :: "conn_state option"
  hv_hello :: "hello_info option"
  hv_sessions :: "session_info list"
  hv_panes :: "(string, pane_info list) dict"
  hv_metrics :: "metrics option"

definition default_view :: host_view where
  "default_view = \<lparr>hv_probe = None, hv_term = None, hv_hello = None, hv_sessions = [],
                   hv_panes = [], hv_metrics = None\<rparr>"

record monitor =
  mo_tracker :: tracker
  mo_hosts :: "(string, host_view) dict"

section \<open>Operations\<close>

definition monitor_new :: "tracker_config \<Rightarrow> monitor" where
  "monitor_new cfg = \<lparr>mo_tracker = tracker_new cfg, mo_hosts = []\<rparr>"

definition monitor_acknowledge :: "monitor \<Rightarrow> agent_key \<Rightarrow> monitor \<times> update list" where
  "monitor_acknowledge m key =
     (case tracker_get (mo_tracker m) key of
        None \<Rightarrow> (m, [])
      | Some r \<Rightarrow>
          let was = ar_acknowledged r;
              t' = fst (tracker_acknowledge (mo_tracker m) key)
          in (m\<lparr>mo_tracker := t'\<rparr>,
              case tracker_get t' key of
                None \<Rightarrow> []
              | Some r' \<Rightarrow> if was then [] else [U_Agent r']))"

definition monitor_remove_host :: "monitor \<Rightarrow> string \<Rightarrow> monitor" where
  "monitor_remove_host m i = m\<lparr>mo_hosts := AList.delete i (mo_hosts m)\<rparr>"

definition host_update :: "string \<Rightarrow> host_view \<Rightarrow> update" where
  "host_update i view =
     (let probe = (case hv_probe view of None \<Rightarrow> CS_Connecting | Some p \<Rightarrow> p)
      in U_Host i (host_state probe (hv_term view)) probe (hv_term view))"

text \<open>\<open>self.hosts.entry(id).or_default()\<close>, and storing the view back.\<close>

definition view_of :: "monitor \<Rightarrow> string \<Rightarrow> host_view" where
  "view_of m i = (case map_of (mo_hosts m) i of None \<Rightarrow> default_view | Some v \<Rightarrow> v)"

definition set_view :: "monitor \<Rightarrow> string \<Rightarrow> host_view \<Rightarrow> monitor" where
  "set_view m i v = m\<lparr>mo_hosts := AList.update i v (mo_hosts m)\<rparr>"

fun gone_loop :: "tracker \<Rightarrow> agent_key list \<Rightarrow> u64 \<Rightarrow> tracker \<times> update list" where
  "gone_loop t [] now_ms = (t, [])"
| "gone_loop t (key # ks) now_ms =
     (let t1 = pane_gone t key now_ms;
          u = (case tracker_get t1 key of None \<Rightarrow> [] | Some r \<Rightarrow> [U_Agent r]);
          (t2, us) = gone_loop t1 ks now_ms
      in (t2, u @ us))"

definition gone_keys ::
    "tracker \<Rightarrow> string \<Rightarrow> string option \<Rightarrow> (string \<Rightarrow> u32 \<Rightarrow> bool) \<Rightarrow> agent_key list" where
  "gone_keys t i session live =
     map ar_key (filter (\<lambda>r. ak_host_id (ar_key r) = i
         \<and> (case session of None \<Rightarrow> True | Some s \<Rightarrow> ak_session (ar_key r) = s)
         \<and> ar_state r \<noteq> Exited
         \<and> \<not> live (ak_session (ar_key r)) (ak_pane_id (ar_key r))) (records t))"

definition agents_gone ::
    "monitor \<Rightarrow> string \<Rightarrow> string option \<Rightarrow> (string \<Rightarrow> u32 \<Rightarrow> bool) \<Rightarrow> u64 \<Rightarrow> monitor \<times> update list" where
  "agents_gone m i session live now_ms =
     (let (t, us) = gone_loop (mo_tracker m) (gone_keys (mo_tracker m) i session live) now_ms
      in (m\<lparr>mo_tracker := t\<rparr>, us))"

definition session_live :: "session_info list \<Rightarrow> string \<Rightarrow> bool" where
  "session_live ss name \<longleftrightarrow> (\<exists>s \<in> set ss. si_name s = name \<and> \<not> si_exited s)"

definition pane_live :: "pane_info list \<Rightarrow> u32 \<Rightarrow> bool" where
  "pane_live ps pane \<longleftrightarrow> (\<exists>p \<in> set ps. pi_id p = pane \<and> \<not> pi_exited p)"

definition summary :: "agent_record \<Rightarrow> agent_state \<times> bool" where
  "summary r = (ar_state r, ar_acknowledged r)"

definition apply_agent_event :: "monitor \<Rightarrow> string \<Rightarrow> agent_event \<Rightarrow> monitor \<times> update list" where
  "apply_agent_event m i ev =
     (let key = from_event i ev;
          before = map_option summary (tracker_get (mo_tracker m) key);
          (t', al) = tracker_apply (mo_tracker m) i ev;
          out = (case tracker_get t' key of
                   None \<Rightarrow> []
                 | Some r \<Rightarrow> if before \<noteq> Some (summary r) then [U_Agent r] else [])
      in (m\<lparr>mo_tracker := t'\<rparr>, out @ (case al of None \<Rightarrow> [] | Some a \<Rightarrow> [U_Alert a])))"

fun apply_msg :: "monitor \<Rightarrow> string \<Rightarrow> probe_msg \<Rightarrow> u64 \<Rightarrow> monitor \<times> update list" where
  "apply_msg m i (PM_Sessions sessions) now_ms =
     (let view = view_of m i;
          m1 = set_view m i (view\<lparr>hv_panes := retain (\<lambda>name _. session_live sessions name) (hv_panes view),
                                 hv_sessions := sessions\<rparr>);
          (m2, us) = agents_gone m1 i None (\<lambda>session _. session_live sessions session) now_ms
      in (m2, U_Sessions i sessions # us))"
| "apply_msg m i (PM_Panes session panes) now_ms =
     (let view = view_of m i;
          m1 = set_view m i (view\<lparr>hv_panes := AList.update session panes (hv_panes view)\<rparr>);
          (m2, us) = agents_gone m1 i (Some session) (\<lambda>_ pane. pane_live panes pane) now_ms
      in (m2, U_Panes i session panes # us))"
| "apply_msg m i (PM_AgentEvent ev) now_ms = apply_agent_event (set_view m i (view_of m i)) i ev"
| "apply_msg m i (PM_Metrics metrics) now_ms =
     (set_view m i ((view_of m i)\<lparr>hv_metrics := Some metrics\<rparr>), [U_Metrics i metrics])"
| "apply_msg m i (PM_Error code message) now_ms =
     (set_view m i (view_of m i), [U_ProbeError i code message])"
| "apply_msg m i (PM_Hello v pv os arch zp zv) now_ms = (set_view m i (view_of m i), [])"
| "apply_msg m i (PM_Heartbeat ts) now_ms = (set_view m i (view_of m i), [])"

fun monitor_apply :: "monitor \<Rightarrow> string \<Rightarrow> host_event \<Rightarrow> u64 \<Rightarrow> monitor \<times> update list" where
  "monitor_apply m i (HE_Probe probe) now_ms =
     (let view = (view_of m i)\<lparr>hv_probe := Some probe\<rparr> in (set_view m i view, [host_update i view]))"
| "monitor_apply m i (HE_Term term) now_ms =
     (let view = (view_of m i)\<lparr>hv_term := term\<rparr> in (set_view m i view, [host_update i view]))"
| "monitor_apply m i (HE_Hello info) now_ms =
     (set_view m i ((view_of m i)\<lparr>hv_hello := Some info\<rparr>), [U_Hello i info])"
| "monitor_apply m i (HE_Hooks result) now_ms = (set_view m i (view_of m i), [U_Hooks i result])"
| "monitor_apply m i (HE_Notes notes) now_ms = (set_view m i (view_of m i), [U_Notes i notes])"
| "monitor_apply m i (HE_Dropped msg) now_ms = (set_view m i (view_of m i), [U_Dropped i msg])"
| "monitor_apply m i (HE_Msg msg) now_ms = apply_msg m i msg now_ms"

text \<open>What the manager task feeds the monitor with.\<close>

datatype monitor_in =
    MI_Event string host_event u64
  | MI_Acknowledge agent_key
  | MI_RemoveHost string

fun monitor_step :: "monitor \<Rightarrow> monitor_in \<Rightarrow> monitor \<times> update list" where
  "monitor_step m (MI_Event i ev now_ms) = monitor_apply m i ev now_ms"
| "monitor_step m (MI_Acknowledge key) = monitor_acknowledge m key"
| "monitor_step m (MI_RemoveHost i) = (monitor_remove_host m i, [])"

section \<open>The loop that marks agents as exited\<close>

definition exited_at :: "u64 \<Rightarrow> agent_record \<Rightarrow> agent_record" where
  "exited_at now_ms r = r\<lparr>ar_state := Exited, ar_since_ms := now_ms, ar_acknowledged := True\<rparr>"

lemma pane_gone_agents:
  "tr_agents (pane_gone t k now) = modify_dict k (exited_at now) (tr_agents t)"
  by (simp add: pane_gone_def exited_at_def [abs_def])

lemma gone_loop_agents:
  "tr_agents (fst (gone_loop t ks now)) = fold (\<lambda>k. modify_dict k (exited_at now)) ks (tr_agents t)"
  by (induction ks arbitrary: t) (simp_all add: split_beta Let_def pane_gone_agents)

lemma gone_loop_get:
  "distinct ks \<Longrightarrow> tracker_get (fst (gone_loop t ks now)) k =
     (if k \<in> set ks then map_option (exited_at now) (tracker_get t k) else tracker_get t k)"
  by (simp add: tracker_get_def gone_loop_agents hm.lookup_modify_all)

lemma gone_loop_updates:
  "distinct ks \<Longrightarrow> \<forall>k \<in> set ks. tracker_get t k \<noteq> None \<Longrightarrow>
   snd (gone_loop t ks now) = map (\<lambda>k. U_Agent (exited_at now (the (tracker_get t k)))) ks"
proof (induction ks arbitrary: t)
  case (Cons k ks)
  have "map (\<lambda>k'. U_Agent (exited_at now (the (tracker_get (pane_gone t k now) k')))) ks
      = map (\<lambda>k'. U_Agent (exited_at now (the (tracker_get t k')))) ks"
    using Cons.prems(1) by (auto simp: pane_gone_get)
  moreover have "\<forall>k' \<in> set ks. tracker_get (pane_gone t k now) k' \<noteq> None"
    using Cons.prems by (auto simp: pane_gone_get)
  ultimately show ?case
    using Cons.prems Cons.IH [of "pane_gone t k now"]
    by (auto simp: split_beta Let_def pane_gone_get exited_at_def)
qed simp

lemma gone_loop_inv: "tracker_inv t \<Longrightarrow> tracker_inv (fst (gone_loop t ks now))"
proof (induction ks arbitrary: t)
  case (Cons k ks)
  then show ?case using tracker_step_inv [of t "T_PaneGone k now"] by (simp add: split_beta Let_def)
qed simp

lemma gone_loop_cfg [simp]: "tr_cfg (fst (gone_loop t ks now)) = tr_cfg t"
  by (induction ks arbitrary: t) (simp_all add: split_beta Let_def)

definition is_gone ::
    "tracker \<Rightarrow> string \<Rightarrow> string option \<Rightarrow> (string \<Rightarrow> u32 \<Rightarrow> bool) \<Rightarrow> agent_key \<Rightarrow> bool" where
  "is_gone t i session live k \<longleftrightarrow>
     (\<exists>r. tracker_get t k = Some r \<and> ar_state r \<noteq> Exited) \<and> ak_host_id k = i
     \<and> (case session of None \<Rightarrow> True | Some s \<Rightarrow> ak_session k = s) \<and> \<not> live (ak_session k) (ak_pane_id k)"

lemma gone_keys_set:
  assumes inv: "tracker_inv t"
  shows "k \<in> set (gone_keys t i session live) \<longleftrightarrow> is_gone t i session live k"
proof
  assume "k \<in> set (gone_keys t i session live)"
  then obtain r where "r \<in> set (records t)" and k: "k = ar_key r"
    and p: "ak_host_id k = i" "case session of None \<Rightarrow> True | Some s \<Rightarrow> ak_session k = s"
      "ar_state r \<noteq> Exited" "\<not> live (ak_session k) (ak_pane_id k)"
    by (auto simp: gone_keys_def)
  then have "tracker_get t k = Some r" by (simp only: set_records [OF inv])
  with p show "is_gone t i session live k" by (auto simp: is_gone_def)
next
  assume g: "is_gone t i session live k"
  then obtain r where r: "tracker_get t k = Some r" "ar_state r \<noteq> Exited" by (auto simp: is_gone_def)
  then have k: "ar_key r = k" using inv by (auto simp: tracker_inv_alt)
  with r have "r \<in> set (records t)" by (simp add: set_records [OF inv])
  with g r k show "k \<in> set (gone_keys t i session live)"
    by (auto simp: gone_keys_def is_gone_def intro!: image_eqI [of k ar_key r])
qed

lemma gone_keys_distinct: "tracker_inv t \<Longrightarrow> distinct (gone_keys t i session live)"
  using records_inj [of t] distinct_records [of t]
  by (auto simp: gone_keys_def distinct_map intro: inj_on_subset)

lemma agents_gone_get:
  assumes "tracker_inv (mo_tracker m)"
  shows "tracker_get (mo_tracker (fst (agents_gone m i session live now))) k =
    (if is_gone (mo_tracker m) i session live k
     then map_option (exited_at now) (tracker_get (mo_tracker m) k)
     else tracker_get (mo_tracker m) k)"
  using assms
  by (simp add: agents_gone_def split_beta gone_loop_get gone_keys_distinct gone_keys_set)

lemma agents_gone_updates:
  assumes "tracker_inv (mo_tracker m)"
  shows "snd (agents_gone m i session live now) =
    map (\<lambda>k. U_Agent (exited_at now (the (tracker_get (mo_tracker m) k))))
      (gone_keys (mo_tracker m) i session live)"
  using assms gone_keys_set [OF assms]
  by (simp add: agents_gone_def split_beta)
    (rule gone_loop_updates, auto simp: gone_keys_distinct is_gone_def)

lemma agents_gone_frame [simp]:
  "mo_hosts (fst (agents_gone m i session live now)) = mo_hosts m"
  by (simp add: agents_gone_def split_beta)

section \<open>The invariant of the monitor\<close>

definition monitor_inv :: "monitor \<Rightarrow> bool" where
  "monitor_inv m \<longleftrightarrow> tracker_inv (mo_tracker m) \<and> distinct (keys (mo_hosts m))
     \<and> (\<forall>i v. map_of (mo_hosts m) i = Some v \<longrightarrow> distinct (keys (hv_panes v)))"

lemma mo_frames [simp]:
  "mo_tracker (set_view m i v) = mo_tracker m"
  "mo_tracker (monitor_remove_host m i) = mo_tracker m"
  by (simp_all add: set_view_def monitor_remove_host_def)

lemma apply_agent_event_tracker:
  "mo_tracker (fst (apply_agent_event m i ev)) = fst (tracker_apply (mo_tracker m) i ev)"
  "mo_hosts (fst (apply_agent_event m i ev)) = mo_hosts m"
  by (simp_all add: apply_agent_event_def Let_def split_beta)

lemma monitor_acknowledge_tracker:
  "mo_tracker (fst (monitor_acknowledge m key)) = fst (tracker_acknowledge (mo_tracker m) key)"
  "mo_hosts (fst (monitor_acknowledge m key)) = mo_hosts m"
  by (auto simp: monitor_acknowledge_def tracker_acknowledge_def tracker_get_def Let_def
      split: option.splits)

lemma set_view_get:
  "map_of (mo_hosts (set_view m i v)) j = (if j = i then Some v else map_of (mo_hosts m) j)"
  by (simp add: set_view_def dict_simps)

lemma view_of_panes: "monitor_inv m \<Longrightarrow> distinct (keys (hv_panes (view_of m i)))"
  by (auto simp: view_of_def monitor_inv_def default_view_def split: option.splits)

lemma set_view_inv:
  "monitor_inv m \<Longrightarrow> distinct (keys (hv_panes v)) \<Longrightarrow> monitor_inv (set_view m i v)"
  by (auto simp: monitor_inv_def set_view_get) (simp add: set_view_def distinct_update)

lemma with_tracker_inv:
  "monitor_inv m \<Longrightarrow> tracker_inv (mo_tracker m') \<Longrightarrow> mo_hosts m' = mo_hosts m \<Longrightarrow> monitor_inv m'"
  by (simp add: monitor_inv_def)

lemma agents_gone_inv: "monitor_inv m \<Longrightarrow> monitor_inv (fst (agents_gone m i session live now))"
  by (rule with_tracker_inv) (simp_all add: monitor_inv_def agents_gone_def split_beta gone_loop_inv)

lemma apply_agent_event_inv: "monitor_inv m \<Longrightarrow> monitor_inv (fst (apply_agent_event m i ev))"
  using tracker_step_inv [of "mo_tracker m" "T_Apply i ev"]
  by (auto simp: monitor_inv_def apply_agent_event_tracker split_beta)

lemma monitor_acknowledge_inv: "monitor_inv m \<Longrightarrow> monitor_inv (fst (monitor_acknowledge m key))"
  using tracker_step_inv [of "mo_tracker m" "T_Acknowledge key"]
  by (auto simp: monitor_inv_def monitor_acknowledge_tracker)

lemma apply_msg_inv: "monitor_inv m \<Longrightarrow> monitor_inv (fst (apply_msg m i msg now))"
  by (cases msg) (simp_all add: split_beta Let_def agents_gone_inv set_view_inv view_of_panes
      distinct_retain distinct_update apply_agent_event_inv)

lemma monitor_apply_inv: "monitor_inv m \<Longrightarrow> monitor_inv (fst (monitor_apply m i ev now))"
  by (cases ev) (simp_all add: Let_def set_view_inv view_of_panes apply_msg_inv)

lemma monitor_remove_host_inv: "monitor_inv m \<Longrightarrow> monitor_inv (monitor_remove_host m i)"
  by (auto simp: monitor_inv_def monitor_remove_host_def dict_simps distinct_delete split: if_splits)

lemma monitor_step_inv: "monitor_inv m \<Longrightarrow> monitor_inv (fst (monitor_step m x))"
  by (cases x) (simp_all add: monitor_apply_inv monitor_acknowledge_inv monitor_remove_host_inv)

interpretation monitor_machine: invariant_machine monitor_step monitor_inv
  by unfold_locales (rule monitor_step_inv)

lemma monitor_inv_new: "monitor_inv (monitor_new cfg)"
  by (simp add: monitor_inv_def monitor_new_def tracker_inv_new)

lemma monitor_inv_tracker: "monitor_inv m \<Longrightarrow> tracker_inv (mo_tracker m)"
  by (simp add: monitor_inv_def)

section \<open>The updates are a replica of the tracker\<close>

text \<open>What an interface keeps that remembers the last \<open>Update::Agent\<close> of every agent, and the part of
  a record it can show.\<close>

fun ui_apply :: "update \<Rightarrow> (agent_key \<rightharpoonup> agent_record) \<Rightarrow> (agent_key \<rightharpoonup> agent_record)" where
  "ui_apply (U_Agent r) ui = ui(ar_key r \<mapsto> r)"
| "ui_apply u ui = ui"

definition visible ::
    "agent_record \<Rightarrow> agent_key \<times> string \<times> agent_state \<times> string option \<times> bool \<times> u64" where
  "visible r = (ar_key r, ar_agent r, ar_state r, ar_message r, ar_acknowledged r, ar_since_ms r)"

definition in_sync :: "(agent_key \<rightharpoonup> agent_record) \<Rightarrow> monitor \<Rightarrow> bool" where
  "in_sync ui m \<longleftrightarrow> (\<forall>k. map_option visible (ui k) = map_option visible (tracker_get (mo_tracker m) k))"

lemma fold_ui_agents:
  "\<forall>k \<in> set ks. ar_key (f k) = k \<Longrightarrow>
   fold ui_apply (map (\<lambda>k. U_Agent (f k)) ks) ui k = (if k \<in> set ks then Some (f k) else ui k)"
  by (induction ks arbitrary: ui) auto

lemma agents_gone_sync:
  assumes inv: "tracker_inv (mo_tracker m)" and sync: "in_sync ui m"
  shows "in_sync (fold ui_apply (snd (agents_gone m i session live now)) ui)
           (fst (agents_gone m i session live now))"
proof -
  let ?t = "mo_tracker m" and ?ks = "gone_keys (mo_tracker m) i session live"
  have key: "\<forall>k \<in> set ?ks. ar_key (exited_at now (the (tracker_get ?t k))) = k"
    using inv by (auto simp: gone_keys_set is_gone_def tracker_inv_alt exited_at_def)
  have some: "map_option f (tracker_get ?t k) = Some (f (the (tracker_get ?t k)))"
    if "k \<in> set ?ks" for k and f :: "agent_record \<Rightarrow> agent_record"
    using that inv by (auto simp: gone_keys_set is_gone_def)
  show ?thesis
    using sync
    by (auto simp: some in_sync_def agents_gone_updates [OF inv] agents_gone_get [OF inv]
        fold_ui_agents [OF key] gone_keys_set [OF inv, symmetric])
qed

lemma enter_state_state: "ar_state (fst (enter_state cfg key r ev)) = ev_state ev"
  by (simp add: enter_state_def Let_def split: option.splits)

lemma apply_record_visible:
  assumes "summary (fst (apply_record cfg key r ev)) = summary r"
  shows "visible (fst (apply_record cfg key r ev)) = visible r"
proof (cases "case ev_source ev of Hook \<Rightarrow> hook_gate r ev | Scrape \<Rightarrow> scrape_gate cfg r ev")
  case None
  then show ?thesis by (simp add: apply_record_def)
next
  case (Some r')
  then have "visible r' = visible r"
    by (auto simp: gate_defs visible_def split: event_source.splits option.splits if_splits)
  moreover have "ar_state r' = ev_state ev"
    using assms Some gate_frame [OF Some] by (simp add: apply_record_def summary_def enter_state_state)
  ultimately show ?thesis using Some by (simp add: apply_record_def enter_state_def)
qed

lemma apply_agent_event_sync:
  assumes "tracker_inv (mo_tracker m)" and "in_sync ui m"
  shows "in_sync (fold ui_apply (snd (apply_agent_event m i ev)) ui) (fst (apply_agent_event m i ev))"
proof -
  let ?k = "from_event i ev" and ?t = "mo_tracker m"
  let ?r = "fst (apply_record (tr_cfg ?t) ?k (entry_record ?t ?k ev) ev)"
  have key: "ar_key ?r = ?k"
    using apply_record_ok entry_record_ok [OF assms(1)] by simp
  have same: "visible ?r = visible r" if "tracker_get ?t ?k = Some r" "summary ?r = summary r" for r
    using that apply_record_visible [of "tr_cfg ?t" ?k r ev] by (simp add: entry_record_def)
  have "fold ui_apply (snd (apply_agent_event m i ev)) ui =
      (if map_option summary (tracker_get ?t ?k) \<noteq> Some (summary ?r) then ui(?k \<mapsto> ?r) else ui)"
    using key by (auto simp: apply_agent_event_def Let_def split_beta tracker_apply_get split: option.splits)
  with assms(2) same show ?thesis
    by (auto simp: in_sync_def apply_agent_event_tracker tracker_apply_get)
qed

lemma monitor_acknowledge_sync:
  assumes "tracker_inv (mo_tracker m)" and "in_sync ui m"
  shows "in_sync (fold ui_apply (snd (monitor_acknowledge m key)) ui) (fst (monitor_acknowledge m key))"
proof (cases "tracker_get (mo_tracker m) key")
  case None
  with assms show ?thesis by (simp add: monitor_acknowledge_def)
next
  case (Some r)
  then have key: "ar_key r = key" using assms(1) by (auto simp: tracker_inv_alt)
  have "fold ui_apply (snd (monitor_acknowledge m key)) ui =
      (if ar_acknowledged r then ui else ui(key \<mapsto> r\<lparr>ar_acknowledged := True\<rparr>))"
    using key Some by (simp add: monitor_acknowledge_def tracker_acknowledge_get)
  with assms(2) Some show ?thesis
    by (auto simp: in_sync_def monitor_acknowledge_tracker tracker_acknowledge_get visible_def
        split: if_splits)
qed

lemma set_view_sync [simp]: "in_sync ui (set_view m i v) = in_sync ui m"
  by (simp add: in_sync_def)

lemma apply_msg_sync:
  assumes "tracker_inv (mo_tracker m)" and "in_sync ui m"
  shows "in_sync (fold ui_apply (snd (apply_msg m i msg now)) ui) (fst (apply_msg m i msg now))"
  using assms by (cases msg) (simp_all add: split_beta Let_def agents_gone_sync apply_agent_event_sync)

lemma monitor_step_sync:
  assumes "monitor_inv m" and "in_sync ui m"
  shows "in_sync (fold ui_apply (snd (monitor_step m x)) ui) (fst (monitor_step m x))"
proof (cases x)
  case (MI_Event i ev now)
  with assms show ?thesis
    by (cases ev) (simp_all add: Let_def host_update_def apply_msg_sync monitor_inv_tracker)
next
  case (MI_Acknowledge key)
  with assms show ?thesis by (simp add: monitor_acknowledge_sync monitor_inv_tracker)
next
  case (MI_RemoveHost i)
  with assms show ?thesis by (simp add: in_sync_def)
qed

lemma monitor_run_sync:
  "monitor_inv m \<Longrightarrow> in_sync ui m \<Longrightarrow>
   in_sync (fold ui_apply (snd (run_steps monitor_step m xs)) ui) (fst (run_steps monitor_step m xs))"
  by (induction xs arbitrary: m ui) (simp_all add: monitor_step_sync monitor_step_inv)

text \<open>C1. The update stream replicates the tracker. After any sequence of host events,
  acknowledgements and host removals, an interface that kept only the last \<open>Update::Agent\<close> of every
  agent shows, for every agent, exactly the agent name, state, message, acknowledgement and time of
  the tracker's record, and no other agents.\<close>

theorem updates_replicate_tracker:
  "map_option visible (fold ui_apply (snd (run_steps monitor_step (monitor_new cfg) xs)) Map.empty k)
   = map_option visible (tracker_get (mo_tracker (fst (run_steps monitor_step (monitor_new cfg) xs))) k)"
proof -
  have "in_sync Map.empty (monitor_new cfg)"
    by (simp add: in_sync_def monitor_new_def tracker_new_def tracker_get_def)
  from monitor_run_sync [OF monitor_inv_new this] show ?thesis by (simp add: in_sync_def)
qed

section \<open>Sessions and panes that disappear\<close>

text \<open>The agents \<open>agents_gone\<close> reports are exactly those whose record it changed, each once.\<close>

lemma agents_gone_report:
  assumes inv: "tracker_inv (mo_tracker m)"
  shows "\<exists>rs. snd (agents_gone m i session live now) = map U_Agent rs \<and> distinct (map ar_key rs)
    \<and> (\<forall>r. r \<in> set rs \<longleftrightarrow>
          tracker_get (mo_tracker (fst (agents_gone m i session live now))) (ar_key r) = Some r
          \<and> tracker_get (mo_tracker m) (ar_key r) \<noteq> Some r)"
proof (intro exI conjI allI)
  let ?t = "mo_tracker m"
  let ?ks = "gone_keys ?t i session live"
  let ?rs = "map (\<lambda>k. exited_at now (the (tracker_get ?t k))) ?ks"
  show "snd (agents_gone m i session live now) = map U_Agent ?rs"
    by (simp add: agents_gone_updates [OF inv])
  have key: "ar_key (exited_at now (the (tracker_get ?t k))) = k" if "k \<in> set ?ks" for k
    using that inv by (auto simp: gone_keys_set is_gone_def tracker_inv_alt exited_at_def)
  then have "map ar_key ?rs = ?ks" by (auto intro!: map_idI)
  then show "distinct (map ar_key ?rs)" using gone_keys_distinct [OF inv] by simp
  fix r
  have "r \<in> set ?rs \<longleftrightarrow> ar_key r \<in> set ?ks \<and> r = exited_at now (the (tracker_get ?t (ar_key r)))"
    using key by auto
  also have "\<dots> \<longleftrightarrow> is_gone ?t i session live (ar_key r)
      \<and> map_option (exited_at now) (tracker_get ?t (ar_key r)) = Some r"
    by (auto simp: gone_keys_set [OF inv] is_gone_def)
  finally have mem: "r \<in> set ?rs \<longleftrightarrow> is_gone ?t i session live (ar_key r)
      \<and> map_option (exited_at now) (tracker_get ?t (ar_key r)) = Some r" .
  have "r0 \<noteq> exited_at now r0" if "ar_state r0 \<noteq> Exited" for r0
    using that by (auto simp: exited_at_def dest: arg_cong [of _ _ ar_state])
  then show "r \<in> set ?rs \<longleftrightarrow>
      tracker_get (mo_tracker (fst (agents_gone m i session live now))) (ar_key r) = Some r
      \<and> tracker_get ?t (ar_key r) \<noteq> Some r"
    unfolding mem agents_gone_get [OF inv] by (auto simp: is_gone_def)
qed

lemma agents_gone_ended:
  "tracker_inv (mo_tracker m) \<Longrightarrow>
   tracker_get (mo_tracker (fst (agents_gone m i session live now))) k =
     (case tracker_get (mo_tracker m) k of
        None \<Rightarrow> None
      | Some r \<Rightarrow> if ar_state r \<noteq> Exited \<and> ak_host_id k = i
                    \<and> (case session of None \<Rightarrow> True | Some s \<Rightarrow> ak_session k = s)
                    \<and> \<not> live (ak_session k) (ak_pane_id k)
                 then Some (exited_at now r) else Some r)"
  by (auto simp: agents_gone_get is_gone_def split: option.splits)

text \<open>C4. A session list ends exactly the agents it no longer covers: an agent of that host that had
  not exited and whose session is absent or exited becomes Exited, acknowledged, since now, and is
  reported once; every other agent (of this or another host) keeps its record; and the view keeps
  panes only of sessions that are live.\<close>

theorem sessions_end_agents:
  assumes "monitor_inv m"
    and "monitor_apply m i (HE_Msg (PM_Sessions ss)) now = (m', out)"
  shows "(\<forall>k. tracker_get (mo_tracker m') k =
            (case tracker_get (mo_tracker m) k of
               None \<Rightarrow> None
             | Some r \<Rightarrow> if ar_state r \<noteq> Exited \<and> ak_host_id k = i \<and> \<not> session_live ss (ak_session k)
                        then Some (exited_at now r) else Some r))
    \<and> (\<exists>rs. out = U_Sessions i ss # map U_Agent rs \<and> distinct (map ar_key rs)
          \<and> (\<forall>r. r \<in> set rs \<longleftrightarrow> tracker_get (mo_tracker m') (ar_key r) = Some r
                \<and> tracker_get (mo_tracker m) (ar_key r) \<noteq> Some r))
    \<and> (\<forall>name. map_of (hv_panes (view_of m' i)) name \<noteq> None \<longrightarrow> session_live ss name)"
proof -
  define m1 where "m1 = set_view m i ((view_of m i)\<lparr>hv_panes :=
      retain (\<lambda>name _. session_live ss name) (hv_panes (view_of m i)), hv_sessions := ss\<rparr>)"
  define g where "g = agents_gone m1 i None (\<lambda>session _. session_live ss session) now"
  have t: "mo_tracker m1 = mo_tracker m" by (simp add: m1_def)
  have inv: "tracker_inv (mo_tracker m1)" using assms(1) by (simp add: t monitor_inv_tracker)
  have m': "m' = fst g" and out: "out = U_Sessions i ss # snd g"
    using assms(2) by (auto simp: g_def m1_def Let_def split_beta)
  have panes: "session_live ss name" if "map_of (hv_panes (view_of m' i)) name \<noteq> None" for name
    using that by (auto simp: m' g_def view_of_def [of "fst _"] m1_def set_view_get map_of_retain
        view_of_panes [OF assms(1)] split: option.splits if_splits)
  obtain rs where "snd g = map U_Agent rs" "distinct (map ar_key rs)"
    "\<forall>r. r \<in> set rs \<longleftrightarrow> tracker_get (mo_tracker (fst g)) (ar_key r) = Some r
        \<and> tracker_get (mo_tracker m) (ar_key r) \<noteq> Some r"
    using agents_gone_report [OF inv] unfolding g_def t by blast
  note rs = this
  note ended = agents_gone_ended [OF inv, of i None "\<lambda>session _. session_live ss session" now,
      folded g_def, unfolded t option.case simp_thms]
  show ?thesis
  proof (intro conjI)
    show "\<forall>name. map_of (hv_panes (view_of m' i)) name \<noteq> None \<longrightarrow> session_live ss name"
      using panes by blast
  qed (use rs ended in \<open>simp_all only: m' out list.inject, blast+\<close>)
qed

text \<open>A pane list of one session ends exactly the agents of that session whose pane is absent or
  exited, reports each once, leaves all other agents alone, and is what the view then holds for
  that session.\<close>

theorem panes_end_agents:
  assumes "monitor_inv m"
    and "monitor_apply m i (HE_Msg (PM_Panes session ps)) now = (m', out)"
  shows "(\<forall>k. tracker_get (mo_tracker m') k =
            (case tracker_get (mo_tracker m) k of
               None \<Rightarrow> None
             | Some r \<Rightarrow> if ar_state r \<noteq> Exited \<and> ak_host_id k = i \<and> ak_session k = session
                          \<and> \<not> pane_live ps (ak_pane_id k)
                        then Some (exited_at now r) else Some r))
    \<and> (\<exists>rs. out = U_Panes i session ps # map U_Agent rs \<and> distinct (map ar_key rs)
          \<and> (\<forall>r. r \<in> set rs \<longleftrightarrow> tracker_get (mo_tracker m') (ar_key r) = Some r
                \<and> tracker_get (mo_tracker m) (ar_key r) \<noteq> Some r))
    \<and> map_of (hv_panes (view_of m' i)) = (map_of (hv_panes (view_of m i)))(session \<mapsto> ps)"
proof -
  define m1 where "m1 = set_view m i ((view_of m i)\<lparr>hv_panes :=
      AList.update session ps (hv_panes (view_of m i))\<rparr>)"
  define g where "g = agents_gone m1 i (Some session) (\<lambda>_ pane. pane_live ps pane) now"
  have t: "mo_tracker m1 = mo_tracker m" by (simp add: m1_def)
  have inv: "tracker_inv (mo_tracker m1)" using assms(1) by (simp add: t monitor_inv_tracker)
  have m': "m' = fst g" and out: "out = U_Panes i session ps # snd g"
    using assms(2) by (auto simp: g_def m1_def Let_def split_beta)
  have panes: "map_of (hv_panes (view_of m' i)) = (map_of (hv_panes (view_of m i)))(session \<mapsto> ps)"
    by (simp add: m' g_def view_of_def [of "fst _"] m1_def set_view_get update_conv')
  obtain rs where "snd g = map U_Agent rs" "distinct (map ar_key rs)"
    "\<forall>r. r \<in> set rs \<longleftrightarrow> tracker_get (mo_tracker (fst g)) (ar_key r) = Some r
        \<and> tracker_get (mo_tracker m) (ar_key r) \<noteq> Some r"
    using agents_gone_report [OF inv] unfolding g_def t by blast
  note rs = this
  note ended = agents_gone_ended [OF inv, of i "Some session" "\<lambda>_ pane. pane_live ps pane" now,
      folded g_def, unfolded t option.case simp_thms]
  show ?thesis
  proof (intro conjI)
    show "map_of (hv_panes (view_of m' i)) = (map_of (hv_panes (view_of m i)))(session \<mapsto> ps)"
      by (rule panes)
  qed (use rs ended in \<open>simp_all only: m' out list.inject, blast+\<close>)
qed

section \<open>Alerts and isolation\<close>

lemma gone_loop_no_alert: "U_Alert a \<notin> set (snd (gone_loop t ks now))"
  by (induction ks arbitrary: t) (auto simp: split_beta Let_def split: option.splits)

lemma agents_gone_no_alert: "U_Alert a \<notin> set (snd (agents_gone m i session live now))"
  by (simp add: agents_gone_def split_beta gone_loop_no_alert)

lemma apply_agent_event_alert:
  assumes "tracker_inv (mo_tracker m)" and "U_Alert a \<in> set (snd (apply_agent_event m i ev))"
  shows "\<exists>r. snd (apply_agent_event m i ev) = [U_Agent r, U_Alert a] \<and> ar_key r = al_key a
    \<and> ar_state r = al_state a \<and> \<not> ar_acknowledged r \<and> is_alerting (al_state a)"
proof -
  let ?t = "mo_tracker m" and ?k = "from_event i ev"
  let ?e = "entry_record ?t ?k ev"
  let ?r = "fst (apply_record (tr_cfg ?t) ?k ?e ev)"
  have al: "snd (tracker_apply ?t i ev) = Some a"
    using assms(2)
    by (auto simp: apply_agent_event_def Let_def split_beta split: option.splits if_splits)
  note a = apply_record_alert [OF al [unfolded tracker_apply_alert]]
  have r: "tracker_get (fst (tracker_apply ?t i ev)) ?k = Some ?r" by (simp add: tracker_apply_get)
  have key: "ar_key ?r = ?k" using apply_record_ok entry_record_ok [OF assms(1)] by simp
  have st: "ar_state ?r = ev_state ev \<and> \<not> ar_acknowledged ?r"
    using al by (auto simp: tracker_apply_alert apply_record_def enter_state_def Let_def
        split: option.splits if_splits prod.splits)
  have "map_option summary (tracker_get ?t ?k) \<noteq> Some (summary ?r)"
    using a st by (auto simp: summary_def entry_record_def)
  then have "snd (apply_agent_event m i ev) = [U_Agent ?r, U_Alert a]"
    using al r by (simp add: apply_agent_event_def Let_def split_beta)
  with a key st show ?thesis by auto
qed

lemma alert_only_from_event:
  assumes "U_Alert a \<in> set (snd (monitor_step m x))"
  obtains i ev now where "x = MI_Event i (HE_Msg (PM_AgentEvent ev)) now"
proof (cases x)
  case (MI_Event i hev now)
  show ?thesis
  proof (cases hev)
    case (HE_Msg msg)
    with assms MI_Event that show ?thesis
      by (cases msg) (simp_all add: agents_gone_no_alert split_beta Let_def)
  qed (use assms MI_Event in \<open>simp_all add: Let_def host_update_def\<close>)
next
  case (MI_Acknowledge key)
  with assms show ?thesis
    by (simp add: monitor_acknowledge_def Let_def split: option.splits if_splits)
qed (use assms in simp)

text \<open>Every alert reaches the interface right after the agent update it belongs to: a step of
  the monitor that alerts produces exactly the update of that agent, in the alerted state and not
  acknowledged, followed by the alert.\<close>

theorem alert_after_agent_update:
  assumes "monitor_inv m" and "U_Alert a \<in> set (snd (monitor_step m x))"
  shows "\<exists>r. snd (monitor_step m x) = [U_Agent r, U_Alert a] \<and> ar_key r = al_key a
    \<and> ar_state r = al_state a \<and> \<not> ar_acknowledged r \<and> is_alerting (al_state a)"
proof -
  obtain i ev now where x: "x = MI_Event i (HE_Msg (PM_AgentEvent ev)) now"
    using assms(2) by (rule alert_only_from_event)
  with assms show ?thesis
    using apply_agent_event_alert [of "set_view m i (view_of m i)" a i ev] by (simp add: monitor_inv_tracker)
qed

text \<open>The host an input of the monitor is about.\<close>

fun input_host :: "monitor_in \<Rightarrow> string" where
  "input_host (MI_Event i ev now_ms) = i"
| "input_host (MI_Acknowledge key) = ak_host_id key"
| "input_host (MI_RemoveHost i) = i"

definition same_host :: "string \<Rightarrow> monitor \<Rightarrow> monitor \<Rightarrow> bool" where
  "same_host i m m' \<longleftrightarrow> map_of (mo_hosts m') i = map_of (mo_hosts m) i
     \<and> (\<forall>k. ak_host_id k = i \<longrightarrow> tracker_get (mo_tracker m') k = tracker_get (mo_tracker m) k)"

lemma set_view_same_host [simp]: "j \<noteq> i \<Longrightarrow> same_host i m (set_view m j v)"
  by (simp add: same_host_def set_view_get)

lemma agents_gone_same_host:
  "tracker_inv (mo_tracker m) \<Longrightarrow> j \<noteq> i \<Longrightarrow> same_host i m (fst (agents_gone m j session live now))"
  by (auto simp: same_host_def agents_gone_get is_gone_def)

lemma apply_agent_event_same_host: "j \<noteq> i \<Longrightarrow> same_host i m (fst (apply_agent_event m j ev))"
  by (auto simp: same_host_def apply_agent_event_tracker tracker_apply_get from_event_def)

lemma same_host_trans: "same_host i m m1 \<Longrightarrow> same_host i m1 m2 \<Longrightarrow> same_host i m m2"
  by (simp add: same_host_def)

lemma apply_msg_same_host:
  assumes "tracker_inv (mo_tracker m)" and "j \<noteq> i"
  shows "same_host i m (fst (apply_msg m j msg now))"
  using assms
  by (cases msg) (auto simp: split_beta Let_def
      intro: same_host_trans [OF set_view_same_host agents_gone_same_host]
        same_host_trans [OF set_view_same_host apply_agent_event_same_host])

lemma monitor_step_same_host:
  assumes "monitor_inv m" and "input_host x \<noteq> i"
  shows "same_host i m (fst (monitor_step m x))"
proof (cases x)
  case (MI_Event j ev now)
  with assms show ?thesis
    by (cases ev) (simp_all add: Let_def apply_msg_same_host monitor_inv_tracker)
next
  case (MI_Acknowledge key)
  with assms show ?thesis
    by (auto simp: same_host_def monitor_acknowledge_tracker tracker_acknowledge_get)
next
  case (MI_RemoveHost j)
  with assms show ?thesis by (simp add: same_host_def monitor_remove_host_def dict_simps)
qed

text \<open>C22. Hosts do not interfere: a sequence of events, acknowledgements and removals of other hosts
  leaves the view of a host and the records of all its agents as they were.\<close>

theorem hosts_isolated:
  assumes "monitor_inv m" and "\<forall>x \<in> set xs. input_host x \<noteq> i"
  shows "map_of (mo_hosts (fst (run_steps monitor_step m xs))) i = map_of (mo_hosts m) i
    \<and> (\<forall>k. ak_host_id k = i \<longrightarrow>
          tracker_get (mo_tracker (fst (run_steps monitor_step m xs))) k = tracker_get (mo_tracker m) k)"
proof -
  have "same_host i m (fst (run_steps monitor_step m xs))"
    using assms
  proof (induction xs arbitrary: m)
    case (Cons x xs)
    then show ?case
      using monitor_step_same_host [of m x i] monitor_step_inv [of m x] by (auto intro: same_host_trans)
  qed (simp add: same_host_def)
  then show ?thesis by (simp add: same_host_def)
qed

section \<open>Witnesses\<close>

text \<open>A monitor in which one agent of host \<open>h\<close> is done.\<close>

definition ex_monitor :: monitor where
  "ex_monitor = fst (run_steps monitor_step (monitor_new default_tracker_config)
     [MI_Event ''h'' (HE_Msg (PM_AgentEvent (ex_event Hook Done 1000 None))) 1000])"

lemma ex_monitor_inv: "monitor_inv ex_monitor"
  unfolding ex_monitor_def by (rule monitor_machine.run_inv [OF monitor_inv_new])

lemmas monitor_eval = ex_monitor_def monitor_new_def apply_agent_event_def set_view_def view_of_def
  default_view_def summary_def tracker_eval

lemma ex_monitor_agent:
  "\<exists>r. tracker_get (mo_tracker ex_monitor) (from_event ''h'' (ex_event Hook Done 1000 None)) = Some r
     \<and> ar_state r = Done"
  by (simp add: monitor_eval)

theorem sessions_end_agents_witness:
  "\<exists>r. tracker_get (mo_tracker (fst (monitor_apply ex_monitor ''h'' (HE_Msg (PM_Sessions [])) 5000)))
     (from_event ''h'' (ex_event Hook Done 1000 None)) = Some r \<and> ar_state r = Exited"
  using sessions_end_agents [OF ex_monitor_inv prod.collapse [symmetric], of "''h''" "[]" 5000]
    ex_monitor_agent
  by (auto simp: from_event_def session_live_def exited_at_def)

theorem panes_end_agents_witness:
  "\<exists>r. tracker_get (mo_tracker (fst (monitor_apply ex_monitor ''h'' (HE_Msg (PM_Panes ''main'' [])) 5000)))
     (from_event ''h'' (ex_event Hook Done 1000 None)) = Some r \<and> ar_state r = Exited"
  using panes_end_agents [OF ex_monitor_inv prod.collapse [symmetric], of "''h''" "''main''" "[]" 5000]
    ex_monitor_agent
  by (auto simp: from_event_def pane_live_def exited_at_def ex_event_def)

theorem alert_after_agent_update_witness:
  "\<exists>r a. snd (monitor_step (monitor_new default_tracker_config)
       (MI_Event ''h'' (HE_Msg (PM_AgentEvent (ex_event Hook Done 1000 None))) 1000)) = [U_Agent r, U_Alert a]
     \<and> al_state a = Done"
proof -
  let ?x = "MI_Event ''h'' (HE_Msg (PM_AgentEvent (ex_event Hook Done 1000 None))) 1000"
  obtain a where a: "U_Alert a \<in> set (snd (monitor_step (monitor_new default_tracker_config) ?x))"
    and d: "al_state a = Done"
    by (simp add: monitor_eval)
  from alert_after_agent_update [OF monitor_inv_new a] d show ?thesis by blast
qed

theorem hosts_isolated_witness:
  "map_of (mo_hosts (fst (run_steps monitor_step ex_monitor
     [MI_Event ''g'' (HE_Msg (PM_Sessions [])) 5000, MI_RemoveHost ''g'']))) ''h'' = map_of (mo_hosts ex_monitor) ''h''"
  using hosts_isolated [OF ex_monitor_inv, of "[MI_Event ''g'' (HE_Msg (PM_Sessions [])) 5000, MI_RemoveHost ''g'']" "''h''"]
  by simp

end
