(* ===== verification/Manager.thy ===== *)
theory Manager
  imports Monitor
begin

text \<open>
  The host manager and its monitor task (\<open>crates/mai-core/src/manager.rs\<close>).

  The state holds both sides and the channels between them: the manager's table of hosts, the
  control queue to the monitor task, the queue of host events, and the monitor task's own state.
  A host added to the manager gets a generation number; its tasks, the senders of their command
  channels and the events they produce are named by it. One step is one call of a manager
  operation, one event forwarded from a host's tasks, or one iteration of the monitor task, so a
  run is any interleaving of them.
\<close>

section \<open>State\<close>

datatype ctl = C_Added string u64 | C_Removed string | C_Acknowledge agent_key

type_synonym tagged_event = "string \<times> u64 \<times> host_event"

record monitor_task =
  mt_monitor :: monitor
  mt_current :: "(string, u64) dict"
  mt_zellij :: "(string, string) dict"
  mt_ctl_open :: bool
  mt_done :: bool

text \<open>\<open>sy_hosts\<close> is \<open>HostManager.hosts\<close>, with the two senders of a host named by its generation.
  \<open>sy_tasks\<close> lists the hosts whose tasks still hold an event sender; \<open>sy_dropped\<close> says that the
  manager was dropped, \<open>sy_reading\<close> that the app still reads the updates.\<close>

record manager =
  sy_hosts :: "(string, u64) dict"
  sy_generation :: u64
  sy_ctl :: "ctl list"
  sy_events :: "tagged_event list"
  sy_tasks :: "(u64 \<times> string) list"
  sy_dropped :: bool
  sy_reading :: bool
  sy_task :: monitor_task

datatype manager_out =
    M_Update update
  | M_Probe u64 host_command
  | M_Term u64 term_cmd
  | M_Spawn u64 host_config

record terminal =
  tm_host :: string
  tm_id :: u64
  tm_cmds :: u64

section \<open>The monitor task\<close>

fun monitor_ctl :: "monitor_task \<Rightarrow> ctl \<Rightarrow> monitor_task \<times> update list" where
  "monitor_ctl t (C_Added i g) = (t\<lparr>mt_current := AList.update i g (mt_current t)\<rparr>, [])"
| "monitor_ctl t (C_Removed i) =
     (t\<lparr>mt_monitor := monitor_remove_host (mt_monitor t) i,
        mt_zellij := AList.delete i (mt_zellij t),
        mt_current := AList.delete i (mt_current t)\<rparr>, [])"
| "monitor_ctl t (C_Acknowledge key) =
     (let (m, us) = monitor_acknowledge (mt_monitor t) key in (t\<lparr>mt_monitor := m\<rparr>, us))"

definition note_zellij :: "string \<Rightarrow> host_event \<Rightarrow> (string, string) dict \<Rightarrow> (string, string) dict" where
  "note_zellij i ev paths =
     (case ev of
        HE_Hello info \<Rightarrow>
          (case hi_zellij_path info of
             Some p \<Rightarrow> AList.update i p paths
           | None \<Rightarrow> AList.delete i paths)
      | _ \<Rightarrow> paths)"

definition monitor_event :: "monitor_task \<Rightarrow> tagged_event \<Rightarrow> u64 \<Rightarrow> monitor_task \<times> update list" where
  "monitor_event t e now_ms =
     (case e of (i, generation, ev) \<Rightarrow>
        if map_of (mt_current t) i \<noteq> Some generation then (t, [])
        else
          let (m, us) = monitor_apply (mt_monitor t) i ev now_ms
          in (t\<lparr>mt_zellij := note_zellij i ev (mt_zellij t), mt_monitor := m\<rparr>, us))"

text \<open>The loop that sends the updates: the task ends at the first one nobody reads.\<close>

definition send_updates :: "bool \<Rightarrow> monitor_task \<Rightarrow> update list \<Rightarrow> monitor_task \<times> manager_out list" where
  "send_updates reading t us =
     (if us \<noteq> [] \<and> \<not> reading then (t\<lparr>mt_done := True\<rparr>, []) else (t, map M_Update us))"

text \<open>One iteration of \<open>run_monitor\<close>. The \<open>select!\<close> is biased: while the control queue has a message,
  no event is taken. A closed empty control queue is noted once; a closed empty event queue ends
  the task.\<close>

definition run_monitor_step :: "manager \<Rightarrow> u64 \<Rightarrow> manager \<times> manager_out list" where
  "run_monitor_step s now_ms =
     (let t = sy_task s
      in if mt_done t then (s, [])
         else case sy_ctl s of
           c # cs \<Rightarrow>
             (let (t1, us) = monitor_ctl t c; (t2, outs) = send_updates (sy_reading s) t1 us
              in (s\<lparr>sy_ctl := cs, sy_task := t2\<rparr>, outs))
         | [] \<Rightarrow>
             if sy_dropped s \<and> mt_ctl_open t then (s\<lparr>sy_task := t\<lparr>mt_ctl_open := False\<rparr>\<rparr>, [])
             else case sy_events s of
               e # es \<Rightarrow>
                 (let (t1, us) = monitor_event t e now_ms; (t2, outs) = send_updates (sy_reading s) t1 us
                  in (s\<lparr>sy_events := es, sy_task := t2\<rparr>, outs))
             | [] \<Rightarrow>
                 if sy_dropped s \<and> sy_tasks s = [] then (s\<lparr>sy_task := t\<lparr>mt_done := True\<rparr>\<rparr>, [])
                 else (s, []))"

section \<open>The manager's operations\<close>

definition manager_start :: "tracker_config \<Rightarrow> manager" where
  "manager_start cfg =
     \<lparr>sy_hosts = [], sy_generation = 0, sy_ctl = [], sy_events = [], sy_tasks = [],
      sy_dropped = False, sy_reading = True,
      sy_task = \<lparr>mt_monitor = monitor_new cfg, mt_current = [], mt_zellij = [], mt_ctl_open = True,
                 mt_done = False\<rparr>\<rparr>"

definition add_host :: "manager \<Rightarrow> host_config \<Rightarrow> manager \<times> manager_out list \<times> bool" where
  "add_host s cfg =
     (if map_of (sy_hosts s) (hc_id cfg) \<noteq> None then (s, [], False)
      else
        let g = sy_generation s + 1
        in (s\<lparr>sy_generation := g,
              sy_ctl := sy_ctl s @ [C_Added (hc_id cfg) g],
              sy_hosts := AList.update (hc_id cfg) g (sy_hosts s),
              sy_tasks := (g, hc_id cfg) # sy_tasks s\<rparr>,
            [M_Spawn g cfg], True))"

definition remove_host :: "manager \<Rightarrow> string \<Rightarrow> manager \<times> manager_out list \<times> bool" where
  "remove_host s i =
     (case map_of (sy_hosts s) i of
        None \<Rightarrow> (s, [], False)
      | Some g \<Rightarrow>
          (s\<lparr>sy_hosts := AList.delete i (sy_hosts s), sy_ctl := sy_ctl s @ [C_Removed i]\<rparr>,
           [M_Probe g HC_Stop, M_Term g TC_Stop], True))"

text \<open>\<open>alive g\<close>: the tasks of generation \<open>g\<close> still receive commands.\<close>

definition manager_retry :: "(u64 \<Rightarrow> bool) \<Rightarrow> manager \<Rightarrow> string \<Rightarrow> manager_out list \<times> bool" where
  "manager_retry alive s i =
     (case map_of (sy_hosts s) i of
        None \<Rightarrow> ([], False)
      | Some g \<Rightarrow> ([M_Term g TC_Retry, M_Probe g HC_Retry], alive g))"

definition manager_send :: "(u64 \<Rightarrow> bool) \<Rightarrow> manager \<Rightarrow> string \<Rightarrow> app_msg \<Rightarrow> manager_out list \<times> bool" where
  "manager_send alive s i msg =
     (case map_of (sy_hosts s) i of
        None \<Rightarrow> ([], False)
      | Some g \<Rightarrow> ([M_Probe g (HC_Send msg)], alive g))"

definition manager_acknowledge :: "manager \<Rightarrow> agent_key \<Rightarrow> manager" where
  "manager_acknowledge s key = s\<lparr>sy_ctl := sy_ctl s @ [C_Acknowledge key]\<rparr>"

text \<open>\<open>reply\<close> names the new answer channel; \<open>answer\<close> is what the terminal task sends on it, \<open>None\<close>
  when it drops the channel.\<close>

definition open_terminal ::
    "(u64 \<Rightarrow> bool) \<Rightarrow> manager \<Rightarrow> string \<Rightarrow> string \<Rightarrow> bool \<Rightarrow> term_size \<Rightarrow> nat
      \<Rightarrow> (term_error + u64) option \<Rightarrow> manager_out list \<times> (term_error + terminal)" where
  "open_terminal alive s host session create sz reply answer =
     (case check_session session of
        Err e \<Rightarrow> ([], Err e)
      | Ok _ \<Rightarrow>
          (case map_of (sy_hosts s) host of
             None \<Rightarrow> ([], Err TE_NoHost)
           | Some g \<Rightarrow>
               if \<not> alive g then ([], Err TE_Stopped)
               else
                 ([M_Term g (TC_Open \<lparr>as_session = session, as_create = create, as_size = sz\<rparr> reply)],
                  case answer of
                    None \<Rightarrow> Err TE_Stopped
                  | Some (Err e) \<Rightarrow> Err e
                  | Some (Ok i) \<Rightarrow> Ok \<lparr>tm_host = host, tm_id = i, tm_cmds = g\<rparr>)))"

definition terminal_write :: "terminal \<Rightarrow> char list \<Rightarrow> manager_out" where
  "terminal_write t data = M_Term (tm_cmds t) (TC_Input (tm_id t) data)"

definition terminal_resize :: "terminal \<Rightarrow> term_size \<Rightarrow> manager_out" where
  "terminal_resize t sz = M_Term (tm_cmds t) (TC_Resize (tm_id t) sz)"

definition terminal_drop :: "terminal \<Rightarrow> manager_out" where
  "terminal_drop t = M_Term (tm_cmds t) (TC_Close (tm_id t))"

definition host_ids :: "manager \<Rightarrow> string list" where
  "host_ids s = sort (keys (sy_hosts s))"

definition manager_drop :: "manager \<Rightarrow> manager \<times> manager_out list" where
  "manager_drop s =
     (s\<lparr>sy_dropped := True\<rparr>,
      concat (map (\<lambda>g. [M_Probe g HC_Stop, M_Term g TC_Stop]) (map snd (sy_hosts s))))"

section \<open>Runs\<close>

text \<open>Calls need a manager that was not dropped; an event comes from a host whose tasks were started
  and have not ended.\<close>

datatype manager_in =
    S_Add host_config
  | S_Remove string
  | S_Acknowledge agent_key
  | S_Drop
  | S_Event u64 string host_event
  | S_TasksEnd u64 string
  | S_StopReading
  | S_Monitor u64

fun manager_step :: "manager \<Rightarrow> manager_in \<Rightarrow> manager \<times> manager_out list" where
  "manager_step s (S_Add cfg) =
     (if sy_dropped s then (s, []) else let (s', outs, _) = add_host s cfg in (s', outs))"
| "manager_step s (S_Remove i) =
     (if sy_dropped s then (s, []) else let (s', outs, _) = remove_host s i in (s', outs))"
| "manager_step s (S_Acknowledge key) =
     (if sy_dropped s then (s, []) else (manager_acknowledge s key, []))"
| "manager_step s S_Drop = (if sy_dropped s then (s, []) else manager_drop s)"
| "manager_step s (S_Event g i ev) =
     (if (g, i) \<in> set (sy_tasks s) then (s\<lparr>sy_events := sy_events s @ [(i, g, ev)]\<rparr>, []) else (s, []))"
| "manager_step s (S_TasksEnd g i) = (s\<lparr>sy_tasks := removeAll (g, i) (sy_tasks s)\<rparr>, [])"
| "manager_step s S_StopReading = (s\<lparr>sy_reading := False\<rparr>, [])"
| "manager_step s (S_Monitor now_ms) = run_monitor_step s now_ms"

section \<open>The control queue carries the table of hosts\<close>

text \<open>Replaying the queued control messages on the monitor task's generations gives the manager's
  table of hosts; the views and zellij paths the task keeps are those of its current hosts.\<close>

fun replay :: "ctl \<Rightarrow> (string \<rightharpoonup> u64) \<Rightarrow> (string \<rightharpoonup> u64)" where
  "replay (C_Added i g) m = m(i \<mapsto> g)"
| "replay (C_Removed i) m = m(i := None)"
| "replay (C_Acknowledge key) m = m"

definition kept_hosts :: "monitor_task \<Rightarrow> bool" where
  "kept_hosts t \<longleftrightarrow> (\<forall>i. map_of (mt_current t) i = None \<longrightarrow>
     map_of (mo_hosts (mt_monitor t)) i = None \<and> map_of (mt_zellij t) i = None)"

definition manager_inv :: "manager \<Rightarrow> bool" where
  "manager_inv s \<longleftrightarrow>
     fold replay (sy_ctl s) (map_of (mt_current (sy_task s))) = map_of (sy_hosts s)
     \<and> kept_hosts (sy_task s)"

lemma map_of_update_fun: "map_of (AList.update k v d) = (map_of d)(k \<mapsto> v)"
  by (rule ext) (simp add: dict_simps)

lemma map_of_delete_fun: "map_of (AList.delete k d) = (map_of d)(k := None)"
  by (rule ext) (simp add: dict_simps)

lemmas map_of_fun = map_of_update_fun map_of_delete_fun

lemma monitor_ctl_current:
  "map_of (mt_current (fst (monitor_ctl t c))) = replay c (map_of (mt_current t))"
  by (cases c) (simp_all add: map_of_fun split_beta)

lemma monitor_apply_hosts:
  "j \<noteq> i \<Longrightarrow> map_of (mo_hosts (fst (monitor_apply m i ev now))) j = map_of (mo_hosts m) j"
proof -
  have gone: "mo_hosts (fst (agents_gone m' i session live now)) = mo_hosts m'" for m' session live
    by (simp add: agents_gone_def split_beta)
  assume j: "j \<noteq> i"
  then have "map_of (mo_hosts (fst (apply_msg m i msg now))) j = map_of (mo_hosts m) j" for msg
    by (cases msg) (simp_all add: Let_def split_beta gone set_view_get apply_agent_event_tracker)
  with j show ?thesis by (cases ev) (simp_all add: Let_def set_view_get)
qed

lemma monitor_ctl_kept: "kept_hosts t \<Longrightarrow> kept_hosts (fst (monitor_ctl t c))"
  by (cases c)
    (auto simp: kept_hosts_def dict_simps monitor_remove_host_def monitor_acknowledge_tracker
      split_beta split: if_splits)

lemma note_zellij_other: "j \<noteq> i \<Longrightarrow> map_of (note_zellij i ev ps) j = map_of ps j"
  by (auto simp: note_zellij_def dict_simps split: host_event.splits option.splits)

lemma monitor_event_current [simp]: "mt_current (fst (monitor_event t e now)) = mt_current t"
  by (auto simp: monitor_event_def Let_def split_beta split: prod.splits)

lemma monitor_event_kept:
  assumes "kept_hosts t" shows "kept_hosts (fst (monitor_event t e now))"
proof (cases e)
  case (fields i g ev)
  show ?thesis
  proof (cases "map_of (mt_current t) i = Some g")
    case True
    then have "j \<noteq> i" if "map_of (mt_current t) j = None" for j using that by auto
    with True assms fields show ?thesis
      by (auto simp: kept_hosts_def monitor_event_def split_beta monitor_apply_hosts note_zellij_other)
  qed (use assms fields in \<open>simp add: monitor_event_def\<close>)
qed

lemma send_updates_frame [simp]:
  "mt_current (fst (send_updates b t us)) = mt_current t"
  "kept_hosts (fst (send_updates b t us)) = kept_hosts t"
  "mt_monitor (fst (send_updates b t us)) = mt_monitor t"
  by (simp_all add: send_updates_def kept_hosts_def)

lemma run_monitor_step_inv: "manager_inv s \<Longrightarrow> manager_inv (fst (run_monitor_step s now))"
  by (cases "sy_ctl s"; cases "sy_events s")
    (auto simp: manager_inv_def run_monitor_step_def Let_def split_beta monitor_ctl_kept
      monitor_event_kept monitor_ctl_current kept_hosts_def [of "_\<lparr>mt_ctl_open := _\<rparr>"]
      kept_hosts_def [of "_\<lparr>mt_done := _\<rparr>"] kept_hosts_def [of "sy_task s"])

lemma manager_step_inv: "manager_inv s \<Longrightarrow> manager_inv (fst (manager_step s x))"
proof (cases x)
  case (S_Monitor now)
  assume "manager_inv s"
  with S_Monitor run_monitor_step_inv show ?thesis by simp
qed (auto simp: manager_inv_def add_host_def remove_host_def manager_acknowledge_def manager_drop_def
      Let_def split_beta map_of_fun split: option.splits)

interpretation manager_machine: invariant_machine manager_step manager_inv
  by unfold_locales (rule manager_step_inv)

lemma manager_inv_start: "manager_inv (manager_start cfg)"
  by (simp add: manager_inv_def manager_start_def kept_hosts_def monitor_new_def)

abbreviation manager_state :: "tracker_config \<Rightarrow> manager_in list \<Rightarrow> manager" where
  "manager_state cfg ins \<equiv> fst (run_steps manager_step (manager_start cfg) ins)"

lemma manager_state_inv: "manager_inv (manager_state cfg ins)"
  by (rule manager_machine.run_inv [OF manager_inv_start])

lemma current_is_hosts:
  "manager_inv s \<Longrightarrow> sy_ctl s = [] \<Longrightarrow> map_of (mt_current (sy_task s)) = map_of (sy_hosts s)"
  by (simp add: manager_inv_def)

text \<open>A removed host is forgotten: in every reachable state in which the monitor task has caught up
  with the control messages, it keeps neither a view nor a zellij path of a host that is not in the
  manager's table.\<close>

theorem removed_host_forgotten:
  assumes "sy_ctl (manager_state cfg ins) = []" and "map_of (sy_hosts (manager_state cfg ins)) i = None"
  shows "map_of (mo_hosts (mt_monitor (sy_task (manager_state cfg ins)))) i = None
    \<and> map_of (mt_zellij (sy_task (manager_state cfg ins))) i = None"
  using manager_state_inv [of cfg ins] current_is_hosts [OF manager_state_inv assms(1)] assms(2)
  by (simp add: manager_inv_def kept_hosts_def)

section \<open>What reaches the monitor\<close>

text \<open>What one iteration of the monitor task hands to the monitor, said with the manager's table of
  hosts: an event only of the incarnation in the table.\<close>

definition fed_step :: "manager \<Rightarrow> u64 \<Rightarrow> monitor_in list" where
  "fed_step s now =
     (if mt_done (sy_task s) then []
      else case sy_ctl s of
        C_Added i g # cs \<Rightarrow> []
      | C_Removed i # cs \<Rightarrow> [MI_RemoveHost i]
      | C_Acknowledge key # cs \<Rightarrow> [MI_Acknowledge key]
      | [] \<Rightarrow>
          if sy_dropped s \<and> mt_ctl_open (sy_task s) then []
          else case sy_events s of
            [] \<Rightarrow> []
          | (i, g, ev) # es \<Rightarrow> if map_of (sy_hosts s) i = Some g then [MI_Event i ev now] else [])"

fun fed :: "manager \<Rightarrow> manager_in list \<Rightarrow> monitor_in list" where
  "fed s [] = []"
| "fed s (x # xs) =
     (case x of S_Monitor now \<Rightarrow> fed_step s now | _ \<Rightarrow> []) @ fed (fst (manager_step s x)) xs"

fun update_of :: "manager_out \<Rightarrow> update list" where
  "update_of (M_Update u) = [u]"
| "update_of _ = []"

definition updates_of :: "manager_out list \<Rightarrow> update list" where
  "updates_of outs = concat (map update_of outs)"

lemma updates_of_simps [simp]:
  "updates_of [] = []" "updates_of (map M_Update us) = us"
  "updates_of (xs @ ys) = updates_of xs @ updates_of ys"
  by (simp_all add: updates_of_def comp_def)

lemma send_updates_reading [simp]: "send_updates True t us = (t, map M_Update us)"
  by (simp add: send_updates_def)

lemma run_monitor_step_fed:
  assumes "manager_inv s" "sy_reading s"
  shows "run_steps monitor_step (mt_monitor (sy_task s)) (fed_step s now)
    = (mt_monitor (sy_task (fst (run_monitor_step s now))), updates_of (snd (run_monitor_step s now)))"
proof (cases "sy_ctl s")
  case Nil
  with current_is_hosts [OF assms(1) Nil] assms(2) show ?thesis
    by (cases "sy_events s")
      (auto simp: fed_step_def run_monitor_step_def monitor_event_def Let_def split_beta
        run_steps.simps split: prod.splits)
next
  case (Cons c cs)
  with assms(2) show ?thesis
    by (cases c) (auto simp: fed_step_def run_monitor_step_def Let_def split_beta run_steps.simps)
qed

lemma other_steps_fed:
  "(\<And>now. x \<noteq> S_Monitor now) \<Longrightarrow> sy_task (fst (manager_step s x)) = sy_task s
     \<and> updates_of (snd (manager_step s x)) = []"
proof -
  have "updates_of (concat (map (\<lambda>g. [M_Probe g HC_Stop, M_Term g TC_Stop]) gs)) = []" for gs
    by (induction gs) (simp_all add: updates_of_def)
  then show "(\<And>now. x \<noteq> S_Monitor now) \<Longrightarrow> ?thesis"
    by (cases x) (auto simp: add_host_def remove_host_def manager_acknowledge_def manager_drop_def
        Let_def updates_of_def split: option.splits)
qed

lemma manager_run_fed:
  "manager_inv s \<Longrightarrow> sy_reading s \<Longrightarrow> S_StopReading \<notin> set ins \<Longrightarrow>
   run_steps monitor_step (mt_monitor (sy_task s)) (fed s ins)
   = (mt_monitor (sy_task (fst (run_steps manager_step s ins))), updates_of (snd (run_steps manager_step s ins)))"
proof (induction ins arbitrary: s)
  case (Cons x ins)
  let ?s = "fst (manager_step s x)"
  have reading: "sy_reading ?s"
    using Cons.prems(2,3)
    by (cases x) (auto simp: add_host_def remove_host_def manager_acknowledge_def manager_drop_def
        run_monitor_step_def Let_def split_beta split: option.split list.split)
  note IH = Cons.IH [OF manager_step_inv [OF Cons.prems(1)] reading]
  show ?case
  proof (cases "\<exists>now. x = S_Monitor now")
    case True
    then obtain now where "x = S_Monitor now" ..
    with run_monitor_step_fed [OF Cons.prems(1,2), of now] IH Cons.prems(3) show ?thesis
      by (simp add: run_steps_append)
  next
    case False
    then have fed: "fed s (x # ins) = fed ?s ins" by (cases x) auto
    from False other_steps_fed [of x s] IH Cons.prems(3) show ?thesis by (simp only: fed) simp
  qed
qed simp


section \<open>Generations\<close>

fun spawn_of :: "manager_out \<Rightarrow> (u64 \<times> string) list" where
  "spawn_of (M_Spawn g cfg) = [(g, hc_id cfg)]"
| "spawn_of _ = []"

definition spawned :: "manager_out list \<Rightarrow> (u64 \<times> string) list" where
  "spawned outs = concat (map spawn_of outs)"

lemma spawned_simps [simp]:
  "spawned [] = []" "spawned (xs @ ys) = spawned xs @ spawned ys" "spawned (map M_Update us) = []"
  by (simp_all add: spawned_def)

lemma spawned_stop: "spawned (concat (map (\<lambda>g. [M_Probe g HC_Stop, M_Term g TC_Stop]) gs)) = []"
  by (induction gs) (simp_all add: spawned_def)

lemma send_updates_spawned [simp]: "spawned (snd (send_updates b t us)) = []"
  by (simp add: send_updates_def)

lemma manager_step_spawned:
  "sy_hosts (fst (manager_step s x)) = sy_hosts s \<and> sy_generation (fst (manager_step s x)) = sy_generation s
     \<and> spawned (snd (manager_step s x)) = []
   \<or> (\<exists>i. x = S_Remove i \<and> map_of (sy_hosts (fst (manager_step s x))) = (map_of (sy_hosts s))(i := None)
        \<and> sy_generation (fst (manager_step s x)) = sy_generation s \<and> spawned (snd (manager_step s x)) = [])
   \<or> (\<exists>cfg. x = S_Add cfg
        \<and> map_of (sy_hosts (fst (manager_step s x))) = (map_of (sy_hosts s))(hc_id cfg \<mapsto> sy_generation s + 1)
        \<and> sy_generation (fst (manager_step s x)) = sy_generation s + 1
        \<and> spawned (snd (manager_step s x)) = [(sy_generation s + 1, hc_id cfg)])"
proof (cases x)
  case (S_Monitor now)
  then show ?thesis
    by (auto simp: run_monitor_step_def Let_def split_beta split: list.split)
qed (auto simp: add_host_def remove_host_def manager_acknowledge_def manager_drop_def Let_def
      split_beta map_of_fun spawned_def spawned_stop [unfolded spawned_def] split: option.splits)

fun is_add :: "manager_in \<Rightarrow> bool" where
  "is_add (S_Add cfg) = True"
| "is_add _ = False"

lemma manager_run_spawned:
  "sy_generation s = of_nat n \<Longrightarrow>
   \<exists>k \<le> length (filter is_add ins).
     sy_generation (fst (run_steps manager_step s ins)) = of_nat (n + k)
     \<and> map fst (spawned (snd (run_steps manager_step s ins))) = map of_nat [Suc n..<Suc (n + k)]"
proof (induction ins arbitrary: s n)
  case (Cons x ins)
  let ?s = "fst (manager_step s x)"
  show ?case
  proof (cases "spawned (snd (manager_step s x)) = []")
    case True
    with manager_step_spawned [of s x] have "sy_generation ?s = of_nat n"
      using Cons.prems by auto
    from Cons.IH [OF this] obtain k where k: "k \<le> length (filter is_add ins)"
      "sy_generation (fst (run_steps manager_step ?s ins)) = of_nat (n + k)"
      "map fst (spawned (snd (run_steps manager_step ?s ins))) = map of_nat [Suc n..<Suc (n + k)]" by blast
    then have "k \<le> length (filter is_add (x # ins))" by simp
    with k(2,3) True show ?thesis
      by (intro exI [of _ k]) (simp only: run_steps_Cons spawned_simps append_Nil simp_thms)
  next
    case False
    with manager_step_spawned [of s x] Cons.prems obtain cfg where x: "x = S_Add cfg"
      "sy_generation ?s = of_nat (Suc n)" "map fst (spawned (snd (manager_step s x))) = [of_nat (Suc n)]"
      by (auto simp: add.commute)
    from Cons.IH [OF x(2)] obtain k where k: "k \<le> length (filter is_add ins)"
      "sy_generation (fst (run_steps manager_step ?s ins)) = of_nat (Suc n + k)"
      "map fst (spawned (snd (run_steps manager_step ?s ins))) = map of_nat [Suc (Suc n)..<Suc (Suc n + k)]"
      by blast
    have "[Suc n..<Suc (n + Suc k)] = Suc n # [Suc (Suc n)..<Suc (Suc n + k)]"
      by (simp add: upt_conv_Cons)
    with k(2,3) x have "map fst (spawned (snd (run_steps manager_step s (x # ins))))
        = map of_nat [Suc n..<Suc (n + Suc k)]"
      "sy_generation (fst (run_steps manager_step s (x # ins))) = of_nat (n + Suc k)"
      by (simp_all only: run_steps_Cons spawned_simps map_append append_Cons append_Nil list.map
          add_Suc add_Suc_right)
    moreover have "Suc k \<le> length (filter is_add (x # ins))" using k(1) x(1) by simp
    ultimately show ?thesis by blast
  qed
qed simp

lemma manager_run_hosts:
  "(\<And>i g. map_of (sy_hosts s) i = Some g \<Longrightarrow> (g, i) \<in> G) \<Longrightarrow>
   map_of (sy_hosts (fst (run_steps manager_step s ins))) i = Some g \<Longrightarrow>
   (g, i) \<in> G \<union> set (spawned (snd (run_steps manager_step s ins)))"
proof (induction ins arbitrary: s G)
  case (Cons x ins)
  let ?G = "G \<union> set (spawned (snd (manager_step s x)))"
  have "(g, i) \<in> ?G" if "map_of (sy_hosts (fst (manager_step s x))) i = Some g" for i g
    using that Cons.prems(1) manager_step_spawned [of s x] by (auto split: if_splits)
  from Cons.IH [of "fst (manager_step s x)" ?G] this Cons.prems(2) show ?case by (simp add: Un_assoc)
qed simp

lemma distinct_of_nat_word:
  assumes "n + k < 2 ^ LENGTH('a)"
  shows "distinct (map of_nat [Suc n..<Suc (n + k)] :: 'a::len word list)"
proof -
  have "inj_on (of_nat :: nat \<Rightarrow> 'a word) {Suc n..<Suc (n + k)}"
  proof (rule inj_onI)
    fix x y assume xy: "x \<in> {Suc n..<Suc (n + k)}" "y \<in> {Suc n..<Suc (n + k)}"
      and eq: "(of_nat x :: 'a word) = of_nat y"
    from xy assms have "x < 2 ^ LENGTH('a)" "y < 2 ^ LENGTH('a)" by auto
    then have "unat (of_nat y :: 'a word) = x" "unat (of_nat y :: 'a word) = y"
      using of_nat_inverse [OF eq] of_nat_inverse [OF refl] by blast+
    then show "x = y" by (rule subst)
  qed
  then show ?thesis by (simp add: distinct_map del: upt_Suc)
qed

text \<open>Incarnations are told apart: in every run with fewer than \<open>2^64\<close> calls of \<open>add_host\<close>, all
  incarnations started have different generations, and the table names for each host one that was
  started for this host.\<close>

theorem generations_unique:
  assumes "length (filter is_add ins) < 2 ^ 64"
  shows "distinct (map fst (spawned (snd (run_steps manager_step (manager_start cfg) ins))))
    \<and> (\<forall>i g. map_of (sy_hosts (manager_state cfg ins)) i = Some g \<longrightarrow>
         (g, i) \<in> set (spawned (snd (run_steps manager_step (manager_start cfg) ins))))"
proof -
  obtain k where "k \<le> length (filter is_add ins)"
    "map fst (spawned (snd (run_steps manager_step (manager_start cfg) ins))) = map of_nat [Suc 0..<Suc (0 + k)]"
    using manager_run_spawned [of "manager_start cfg" 0 ins] by (auto simp: manager_start_def)
  with assms distinct_of_nat_word [of 0 k, where ?'a = 64]
  have "distinct (map fst (spawned (snd (run_steps manager_step (manager_start cfg) ins))))"
    by simp
  with manager_run_hosts [of "manager_start cfg" "{}" ins] show ?thesis
    by (auto simp: manager_start_def)
qed

section \<open>The monitor task keeps up and ends\<close>

definition work :: "manager \<Rightarrow> nat" where
  "work s = length (sy_ctl s) + length (sy_events s)
     + (if sy_dropped s \<and> mt_ctl_open (sy_task s) then 1 else 0)"

lemma monitor_ctl_flags [simp]:
  "mt_ctl_open (fst (monitor_ctl t c)) = mt_ctl_open t" "mt_done (fst (monitor_ctl t c)) = mt_done t"
  by (cases c; simp add: split_beta)+

lemma monitor_event_flags [simp]:
  "mt_ctl_open (fst (monitor_event t e now)) = mt_ctl_open t"
  "mt_done (fst (monitor_event t e now)) = mt_done t"
  by (auto simp: monitor_event_def Let_def split_beta split: prod.splits)

lemma send_updates_open [simp]: "mt_ctl_open (fst (send_updates b t us)) = mt_ctl_open t"
  by (simp add: send_updates_def)

lemma run_monitor_step_frame:
  "sy_dropped (fst (run_monitor_step s now)) = sy_dropped s"
  "sy_tasks (fst (run_monitor_step s now)) = sy_tasks s"
  "mt_done (sy_task s) \<Longrightarrow> run_monitor_step s now = (s, [])"
  by (auto simp: run_monitor_step_def Let_def split_beta split: list.split)

lemma run_monitor_step_work:
  assumes "\<not> mt_done (sy_task s)"
  shows "work s = 0 \<Longrightarrow> fst (run_monitor_step s now) =
      (if sy_dropped s \<and> sy_tasks s = [] then s\<lparr>sy_task := (sy_task s)\<lparr>mt_done := True\<rparr>\<rparr> else s)"
    and "0 < work s \<Longrightarrow> Suc (work (fst (run_monitor_step s now))) = work s"
  using assms
  by (auto simp: work_def run_monitor_step_def Let_def split_beta split: list.split if_splits)

lemma monitor_done_stays:
  "mt_done (sy_task s) \<Longrightarrow> fst (run_steps manager_step s (map S_Monitor nows)) = s"
  by (induction nows) (simp_all add: run_monitor_step_frame)

lemma monitor_run_work:
  "mt_done (sy_task (fst (run_steps manager_step s (map S_Monitor nows))))
   \<or> work (fst (run_steps manager_step s (map S_Monitor nows))) = work s - length nows
     \<and> (sy_dropped s \<and> sy_tasks s = [] \<longrightarrow> length nows \<le> work s)"
proof (induction nows arbitrary: s)
  case (Cons now nows)
  let ?s = "fst (run_monitor_step s now)"
  show ?case
  proof (cases "mt_done (sy_task s)")
    case True
    then show ?thesis using monitor_done_stays [of s "now # nows"] by simp
  next
    case False
    show ?thesis
    proof (cases "work s")
      case 0
      from run_monitor_step_work(1) [OF False 0, of now] Cons.IH [of ?s] 0 show ?thesis
      proof (cases "sy_dropped s \<and> sy_tasks s = []")
        case True
        with run_monitor_step_work(1) [OF False 0, of now] have d: "mt_done (sy_task ?s)" by simp
        then show ?thesis by (simp add: monitor_done_stays)
      qed (use 0 in auto)
    next
      case (Suc n)
      with run_monitor_step_work(2) [OF False, of now] Cons.IH [of ?s] show ?thesis
        by (auto simp: run_monitor_step_frame)
    qed
  qed
qed simp


section \<open>Witnesses\<close>

definition ex_host :: host_config where
  "ex_host = \<lparr>hc_id = ''h'', hc_kind = HK_Local, hc_zellij = None\<rparr>"

definition ex_manager_run :: "manager_in list" where
  "ex_manager_run =
     [S_Add ex_host, S_Monitor 0, S_Event 1 ''h'' (HE_Msg (PM_AgentEvent (ex_event Hook Done 5 None))), S_Monitor 6,
      S_Remove ''h'', S_Monitor 7]"

lemmas manager_eval = manager_start_def add_host_def remove_host_def run_monitor_step_def
  monitor_event_def send_updates_def note_zellij_def ex_host_def ex_manager_run_def monitor_new_def
  monitor_remove_host_def view_of_def set_view_def apply_agent_event_def summary_def tracker_eval

theorem removed_host_forgotten_witness:
  "map_of (mo_hosts (mt_monitor (sy_task (manager_state default_tracker_config ex_manager_run)))) ''h'' = None"
  by (rule removed_host_forgotten [THEN conjunct1]) (simp_all add: manager_eval)


theorem generations_unique_witness:
  "distinct (map fst (spawned (snd (run_steps manager_step (manager_start default_tracker_config) ex_manager_run))))"
  by (rule generations_unique [THEN conjunct1]) (simp add: ex_manager_run_def)


text \<open>The agents of a removed host stay in the tracker: an unseen alert is still pending after the host
  is gone.\<close>

lemma removed_host_still_pending:
  "map ar_key (pending (mo_tracker (mt_monitor (sy_task (manager_state default_tracker_config ex_manager_run)))))
   = [\<lparr>ak_host_id = ''h'', ak_session = ''main'', ak_pane_id = 3\<rparr>]"
  by (simp add: manager_eval pending_def records_def)

end
