(* ===== verification/Mai_Json.thy ===== *)
theory Mai_Json
  imports Mai_Prelude
begin

text \<open>
  JSON values as \<open>serde_json::Value\<close> has them. The probe builds it with \<open>preserve_order\<close>, so an object
  is its list of entries in insertion order, with distinct keys. A number is kept as its text.
\<close>

datatype json =
    JNull
  | JBool bool
  | JNum string
  | JStr string
  | JArr "json list"
  | JObj "(string \<times> json) list"

text \<open>\<open>Value::get\<close>, \<open>as_str\<close>, \<open>as_array\<close>, \<open>as_object\<close>.\<close>

fun get_field :: "json \<Rightarrow> string \<Rightarrow> json option" where
  "get_field (JObj fs) key = map_of fs key"
| "get_field _ key = None"

fun as_str :: "json \<Rightarrow> string option" where
  "as_str (JStr s) = Some s"
| "as_str _ = None"

fun as_array :: "json \<Rightarrow> json list option" where
  "as_array (JArr xs) = Some xs"
| "as_array _ = None"

fun as_object :: "json \<Rightarrow> (string \<times> json) list option" where
  "as_object (JObj fs) = Some fs"
| "as_object _ = None"

text \<open>Every object has distinct keys.\<close>

fun json_wf :: "json \<Rightarrow> bool" where
  "json_wf (JArr xs) = list_all json_wf xs"
| "json_wf (JObj fs) = (distinct (map fst fs) \<and> list_all (\<lambda>f. json_wf (snd f)) fs)"
| "json_wf _ = True"

end
