(* ===== verification/Spool.thy ===== *)
theory Spool
  imports Mai_Protocol Mai_Json
begin

text \<open>
  The spool (\<open>crates/mai-probe/src/spool.rs\<close>): the append-only log that hook processes write and
  \<open>serve\<close> reads back.

  The spool directory is a dictionary from file names to contents, in the order \<open>read_dir\<close> lists them.
  Every file operation may fail: the argument \<open>io\<close> gives, for each operation, the error it fails with
  (for a write, after how many bytes). The JSON parser and printer are arguments. Arithmetic on
  cursors and days is on 64-bit words and wraps, as in a release build.
\<close>

unbundle bit_operations_syntax

section \<open>Cursors\<close>

definition DAY_MS :: u64 where "DAY_MS = 86400000"
definition DAY_GRACE_MS :: u64 where "DAY_GRACE_MS = 10000"
definition OFFSET_BITS :: nat where "OFFSET_BITS = 40"
definition OFFSET_MASK :: u64 where "OFFSET_MASK = push_bit OFFSET_BITS 1 - 1"

definition make_cursor :: "u64 \<Rightarrow> u64 \<Rightarrow> u64" where
  "make_cursor day end_offset = push_bit OFFSET_BITS day OR (end_offset AND OFFSET_MASK)"

definition split_cursor :: "u64 \<Rightarrow> u64 \<times> u64" where
  "split_cursor cursor = (drop_bit OFFSET_BITS cursor, cursor AND OFFSET_MASK)"

section \<open>Files\<close>

record spool_record =
  sp_ts_ms :: u64
  sp_agent :: string
  sp_session :: string
  sp_pane_id :: u32
  sp_payload :: json

record read_result =
  rr_records :: "(u64 \<times> spool_record) list"
  rr_bad_lines :: nat
  rr_end_cursor :: u64

text \<open>A spool is its directory's contents and the name of the file with the acknowledged cursor.\<close>

record spool =
  so_exists :: bool
  so_files :: "(string, string) dict"
  so_ack_file :: string

datatype fs_op = F_CreateDir | F_ReadDir | F_Open string | F_Read string | F_Write string
  | F_Rename string | F_Remove string

type_synonym io = "fs_op \<Rightarrow> (nat \<times> string) option"

definition content :: "spool \<Rightarrow> string \<Rightarrow> string" where
  "content s name = (case map_of (so_files s) name of None \<Rightarrow> [] | Some c \<Rightarrow> c)"

definition spool_new :: "bool \<Rightarrow> (string, string) dict \<Rightarrow> spool" where
  "spool_new ex files = \<lparr>so_exists = ex, so_files = files, so_ack_file = ''ack''\<rparr>"

definition for_client :: "bool \<Rightarrow> (string, string) dict \<Rightarrow> string \<Rightarrow> spool" where
  "for_client ex files client =
     (let client = sanitize_client client
      in if client = [] then spool_new ex files
         else \<lparr>so_exists = ex, so_files = files, so_ack_file = ''ack-'' @ client\<rparr>)"

definition day_file :: "u64 \<Rightarrow> string" where
  "day_file day = show_u64 day @ ''.jsonl''"

section \<open>Operations\<close>

definition create_dir_all :: "io \<Rightarrow> spool \<Rightarrow> string + spool" where
  "create_dir_all io s =
     (case io F_CreateDir of Some (_, e) \<Rightarrow> Err e | None \<Rightarrow> Ok (s\<lparr>so_exists := True\<rparr>))"

text \<open>\<open>ser\<close> is \<open>serde_json::to_vec\<close>. A write that fails may have appended some of its bytes.\<close>

definition append_record ::
    "io \<Rightarrow> (spool_record \<Rightarrow> string + string) \<Rightarrow> spool \<Rightarrow> spool_record \<Rightarrow> spool \<times> (string + unit)" where
  "append_record io ser s rec =
     (case create_dir_all io s of
        Err e \<Rightarrow> (s, Err e)
      | Ok s1 \<Rightarrow>
          (case ser rec of
             Err e \<Rightarrow> (s1, Err e)
           | Ok text \<Rightarrow>
               (let line = text @ [newline]; name = day_file (sp_ts_ms rec div DAY_MS)
                in case io (F_Open name) of
                     Some (_, e) \<Rightarrow> (s1, Err e)
                   | None \<Rightarrow>
                       (case io (F_Write name) of
                          Some (n, e) \<Rightarrow>
                            (s1\<lparr>so_files := AList.update name (content s1 name @ take n line) (so_files s1)\<rparr>,
                             Err e)
                        | None \<Rightarrow>
                            (s1\<lparr>so_files := AList.update name (content s1 name @ line) (so_files s1)\<rparr>,
                             Ok ())))))"

definition file_day :: "string \<Rightarrow> u64 option" where
  "file_day name = Option.bind (strip_suffix name ''.jsonl'') parse_u64"

definition days :: "io \<Rightarrow> spool \<Rightarrow> string + u64 list" where
  "days io s =
     (if \<not> so_exists s then Ok []
      else case io F_ReadDir of
        Some (_, e) \<Rightarrow> Err e
      | None \<Rightarrow> Ok (sort (List.map_filter file_day (keys (so_files s)))))"

text \<open>The loop over the pieces of one file. \<open>de\<close> is \<open>serde_json::from_slice\<close>.\<close>

fun read_chunks ::
    "(string \<Rightarrow> spool_record option) \<Rightarrow> u64 \<Rightarrow> u64 \<Rightarrow> string list \<Rightarrow> read_result \<Rightarrow> read_result" where
  "read_chunks de day offset [] out = out"
| "read_chunks de day offset (chunk # chunks) out =
     (if chunk = [] \<or> last chunk \<noteq> newline then out
      else
        let offset = offset + of_nat (length chunk);
            at = make_cursor day offset;
            out1 = (case de (butlast chunk) of
                      Some rec \<Rightarrow> out\<lparr>rr_records := rr_records out @ [(at, rec)]\<rparr>
                    | None \<Rightarrow> out\<lparr>rr_bad_lines := rr_bad_lines out + 1\<rparr>)
        in read_chunks de day offset chunks (out1\<lparr>rr_end_cursor := at\<rparr>))"

definition read_day ::
    "io \<Rightarrow> (string \<Rightarrow> spool_record option) \<Rightarrow> spool \<Rightarrow> u64 \<Rightarrow> u64 \<Rightarrow> read_result \<Rightarrow> string + read_result" where
  "read_day io de s day start out =
     (let name = day_file day
      in case map_of (so_files s) name of
           None \<Rightarrow> Err ''not found''
         | Some text \<Rightarrow>
             (case io (F_Open name) of
                Some (_, e) \<Rightarrow> Err e
              | None \<Rightarrow>
                  (case io (F_Read name) of
                     Some (_, e) \<Rightarrow> Err e
                   | None \<Rightarrow>
                       Ok (read_chunks de day start (split_inclusive newline (drop (unat start) text)) out))))"

fun read_days ::
    "io \<Rightarrow> (string \<Rightarrow> spool_record option) \<Rightarrow> spool \<Rightarrow> u64 \<times> u64 \<Rightarrow> u64 \<Rightarrow> u64 list \<Rightarrow> read_result
      \<Rightarrow> string + read_result" where
  "read_days io de s cur now_ms [] out = Ok out"
| "read_days io de s cur now_ms (day # rest) out =
     (if fst cur < day \<and> now_ms < saturating_add (day * DAY_MS) DAY_GRACE_MS then Ok out
      else case read_day io de s day (if day = fst cur then snd cur else 0) out of
             Err e \<Rightarrow> Err e
           | Ok out' \<Rightarrow> read_days io de s cur now_ms rest out')"

definition read_after ::
    "io \<Rightarrow> (string \<Rightarrow> spool_record option) \<Rightarrow> spool \<Rightarrow> u64 \<Rightarrow> u64 \<Rightarrow> string + read_result" where
  "read_after io de s cursor now_ms =
     (case days io s of
        Err e \<Rightarrow> Err e
      | Ok ds \<Rightarrow>
          read_days io de s (split_cursor cursor) now_ms
            (filter (\<lambda>d. fst (split_cursor cursor) \<le> d) ds)
            \<lparr>rr_records = [], rr_bad_lines = 0, rr_end_cursor = cursor\<rparr>)"

definition load_ack :: "io \<Rightarrow> spool \<Rightarrow> u64" where
  "load_ack io s =
     (case map_of (so_files s) (so_ack_file s) of
        None \<Rightarrow> 0
      | Some text \<Rightarrow>
          (case io (F_Read (so_ack_file s)) of
             Some _ \<Rightarrow> 0
           | None \<Rightarrow> (case parse_u64 (trim text) of None \<Rightarrow> 0 | Some c \<Rightarrow> c)))"

definition ack_tmp :: "u32 \<Rightarrow> spool \<Rightarrow> string" where
  "ack_tmp pid s = so_ack_file s @ ''.'' @ show_u32 pid @ ''.tmp''"

definition store_ack :: "io \<Rightarrow> u32 \<Rightarrow> spool \<Rightarrow> u64 \<Rightarrow> spool \<times> (string + unit)" where
  "store_ack io pid s cursor =
     (case create_dir_all io s of
        Err e \<Rightarrow> (s, Err e)
      | Ok s1 \<Rightarrow>
          (let tmp = ack_tmp pid s
           in case io (F_Write tmp) of
                Some (n, e) \<Rightarrow>
                  (s1\<lparr>so_files := AList.update tmp (take n (show_u64 cursor)) (so_files s1)\<rparr>, Err e)
              | None \<Rightarrow>
                  (let s2 = s1\<lparr>so_files := AList.update tmp (show_u64 cursor) (so_files s1)\<rparr>
                   in case io (F_Rename tmp) of
                        Some (_, e) \<Rightarrow> (s2, Err e)
                      | None \<Rightarrow>
                          (s2\<lparr>so_files := AList.update (so_ack_file s) (content s2 tmp)
                                (AList.delete tmp (so_files s2))\<rparr>, Ok ()))))"

fun cleanup_days :: "io \<Rightarrow> u64 \<Rightarrow> u64 \<Rightarrow> spool \<Rightarrow> u64 list \<Rightarrow> nat \<Rightarrow> spool \<times> (string + nat)" where
  "cleanup_days io today keep_days s [] removed = (s, Ok removed)"
| "cleanup_days io today keep_days s (day # rest) removed =
     (if day + keep_days < today then
        (case io (F_Remove (day_file day)) of
           Some (_, e) \<Rightarrow> (s, Err e)
         | None \<Rightarrow>
             (if map_of (so_files s) (day_file day) = None then (s, Err ''not found'')
              else cleanup_days io today keep_days
                     (s\<lparr>so_files := AList.delete (day_file day) (so_files s)\<rparr>) rest (removed + 1)))
      else cleanup_days io today keep_days s rest removed)"

definition cleanup :: "io \<Rightarrow> spool \<Rightarrow> u64 \<Rightarrow> u64 \<Rightarrow> spool \<times> (string + nat)" where
  "cleanup io s now_ms keep_days =
     (case days io s of
        Err e \<Rightarrow> (s, Err e)
      | Ok ds \<Rightarrow> cleanup_days io (now_ms div DAY_MS) keep_days s ds 0)"

section \<open>Cursors are ordered pairs\<close>

abbreviation cursor_day :: "u64 \<Rightarrow> u64" where "cursor_day c \<equiv> fst (split_cursor c)"
abbreviation cursor_offset :: "u64 \<Rightarrow> u64" where "cursor_offset c \<equiv> snd (split_cursor c)"

lemma OFFSET_MASK_mask: "OFFSET_MASK = mask 40"
  by (simp add: OFFSET_MASK_def OFFSET_BITS_def mask_eq_exp_minus_1 push_bit_eq_mult)

lemma unat_cursor_day: "unat (cursor_day c) = unat c div 2 ^ 40"
  by (simp only: split_cursor_def OFFSET_BITS_def fst_conv unat_drop_bit_eq drop_bit_eq_div [where 'a = nat])

lemma and_OFFSET_MASK: "w AND OFFSET_MASK = take_bit 40 w"
  by (simp only: OFFSET_MASK_mask take_bit_eq_mask)

lemma unat_cursor_offset: "unat (cursor_offset c) = unat c mod 2 ^ 40"
  by (simp only: split_cursor_def snd_conv and_OFFSET_MASK unsigned_take_bit_eq
      take_bit_eq_mod [where 'a = nat])

lemma unat_make_cursor:
  assumes "unat day < 2 ^ 24" "unat off < 2 ^ 40"
  shows "unat (make_cursor day off) = unat day * 2 ^ 40 + unat off"
proof -
  have off: "take_bit 40 off = off"
    using assms(2)
    by (simp only: word_unat_eq_iff unsigned_take_bit_eq take_bit_nat_eq_self)
  have "push_bit 40 day AND off = 0"
  proof (rule bit_eqI)
    fix n
    have "bit off n \<Longrightarrow> n < 40"
      using off by (metis bit_take_bit_iff)
    then show "bit (push_bit 40 day AND off) n = bit (0 :: u64) n"
      by (auto simp: bit_and_iff bit_push_bit_iff)
  qed
  then have plus: "make_cursor day off = push_bit 40 day + off"
    by (simp only: make_cursor_def OFFSET_BITS_def and_OFFSET_MASK off disjunctive_add_eq_or)
  have len64: "LENGTH(64) = 64" by simp
  have small: "unat day * 2 ^ 40 < 2 ^ 64" using assms(1) by simp
  then have "unat (push_bit 40 day) = unat day * 2 ^ 40"
    by (simp only: unsigned_push_bit_eq push_bit_eq_mult [where 'a = nat]
        take_bit_eq_mod [where 'a = nat] mod_less len64)
  moreover have "unat day * 2 ^ 40 + unat off < 2 ^ 64" using assms by simp
  ultimately show ?thesis
    by (simp only: plus unat_word_ariths(1) len64 mod_less)
qed

lemma cursor_less_iff:
  "c < c' \<longleftrightarrow> cursor_day c < cursor_day c' \<or> cursor_day c = cursor_day c' \<and> cursor_offset c < cursor_offset c'"
proof -
  have "unat c = unat (cursor_day c) * 2 ^ 40 + unat (cursor_offset c)" for c
    using div_mult_mod_eq [of "unat c" "2 ^ 40"] by (simp only: unat_cursor_day unat_cursor_offset)
  moreover have "unat (cursor_offset c) < 2 ^ 40" for c
    by (simp add: unat_cursor_offset)
  moreover have "x * 2 ^ 40 + y < x' * 2 ^ 40 + y' \<longleftrightarrow> x < x' \<or> x = x' \<and> y < y'"
    if "y < 2 ^ 40" "y' < 2 ^ 40" for x y x' y' :: nat
    using that by (cases x x' rule: linorder_cases) auto
  ultimately show ?thesis
    by (metis word_less_nat_alt word_unat_eq_iff)
qed

lemma split_make_cursor:
  assumes "unat d < 2 ^ 24" "unat f < 2 ^ 40"
  shows "split_cursor (make_cursor d f) = (d, f)"
proof (rule prod_eqI)
  show "cursor_day (make_cursor d f) = fst (d, f)"
    using assms by (simp only: word_unat_eq_iff unat_cursor_day unat_make_cursor) simp
  show "cursor_offset (make_cursor d f) = snd (d, f)"
    using assms by (simp only: word_unat_eq_iff unat_cursor_offset unat_make_cursor) simp
qed

text \<open>A cursor is a day and an offset: within 24 bits of day and 40 bits of offset, splitting a
  cursor gives back what it was made from, and cursors are ordered by day and then by offset, so
  that they grow along the whole log, across files.\<close>

theorem cursor_roundtrip:
  assumes "unat day < 2 ^ 24" "unat off < 2 ^ 40" "unat day' < 2 ^ 24" "unat off' < 2 ^ 40"
  shows "split_cursor (make_cursor day off) = (day, off)
    \<and> (make_cursor day off < make_cursor day' off' \<longleftrightarrow> day < day' \<or> day = day' \<and> off < off')"
  using split_make_cursor [OF assms(1,2)] split_make_cursor [OF assms(3,4)]
    cursor_less_iff [of "make_cursor day off" "make_cursor day' off'"] by simp

section \<open>The log a directory holds\<close>

text \<open>The complete lines of a file with their cursors, and what reading entries adds to a result.\<close>

definition complete :: "string \<Rightarrow> bool" where
  "complete chunk \<longleftrightarrow> chunk \<noteq> [] \<and> last chunk = newline"

fun chunk_log :: "u64 \<Rightarrow> nat \<Rightarrow> string list \<Rightarrow> (u64 \<times> string) list" where
  "chunk_log day offset [] = []"
| "chunk_log day offset (chunk # chunks) =
     (if complete chunk
      then (make_cursor day (of_nat (offset + length chunk)), butlast chunk)
             # chunk_log day (offset + length chunk) chunks
      else [])"

definition day_log :: "spool \<Rightarrow> u64 \<Rightarrow> (u64 \<times> string) list" where
  "day_log s day = chunk_log day 0 (split_inclusive newline (content s (day_file day)))"

definition spool_days :: "spool \<Rightarrow> u64 list" where
  "spool_days s = sort (List.map_filter file_day (keys (so_files s)))"

definition log :: "spool \<Rightarrow> (u64 \<times> string) list" where
  "log s = concat (map (day_log s) (spool_days s))"

definition absorb ::
    "(string \<Rightarrow> spool_record option) \<Rightarrow> (u64 \<times> string) list \<Rightarrow> read_result \<Rightarrow> read_result" where
  "absorb de es out =
     \<lparr>rr_records = rr_records out @ List.map_filter (\<lambda>(c, l). map_option (Pair c) (de l)) es,
      rr_bad_lines = rr_bad_lines out + length (filter (\<lambda>(c, l). de l = None) es),
      rr_end_cursor = last (rr_end_cursor out # map fst es)\<rparr>"

lemma absorb_Nil [simp]: "absorb de [] out = out"
  by (simp add: absorb_def List.map_filter_def)

lemma absorb_append: "absorb de (es @ fs) out = absorb de fs (absorb de es out)"
  by (simp add: absorb_def List.map_filter_def)

lemma read_chunks_absorb:
  "read_chunks de day (of_nat offset) chunks out = absorb de (chunk_log day offset chunks) out"
proof (induction chunks arbitrary: offset out)
  case (Cons chunk chunks)
  show ?case
  proof (cases "complete chunk")
    case True
    then have c: "\<not> (chunk = [] \<or> last chunk \<noteq> newline)" by (simp add: complete_def)
    have "chunk_log day offset (chunk # chunks) =
        [(make_cursor day (of_nat (offset + length chunk)), butlast chunk)]
          @ chunk_log day (offset + length chunk) chunks"
      using True by simp
    then show ?thesis
      using Cons.IH [of "offset + length chunk"]
      by (simp only: read_chunks.simps c if_False Let_def absorb_append of_nat_add [symmetric])
        (simp add: absorb_def List.map_filter_def split: option.splits)
  qed (auto simp: complete_def)
qed simp

lemma split_inclusive_single: "d \<notin> set t \<Longrightarrow> split_inclusive d (t @ [d]) = [t @ [d]]"
  by (induction t) auto

lemma split_inclusive_complete:
  "a = [] \<or> last a = newline \<Longrightarrow> list_all complete (split_inclusive newline a)"
proof (induction a)
  case (Cons c cs)
  show ?case
  proof (cases "c = newline")
    case True
    with Cons show ?thesis by (auto simp: complete_def split: if_splits)
  next
    case False
    with Cons.prems have cs: "cs \<noteq> []" "last cs = newline" by (auto split: if_splits)
    then obtain w ws where ws: "split_inclusive newline cs = w # ws"
      by (meson neq_Nil_conv split_inclusive_Nil_iff)
    with Cons.IH cs False show ?thesis by (simp add: complete_def)
  qed
qed simp

lemma chunk_log_append:
  "list_all complete xs \<Longrightarrow>
   chunk_log day offset (xs @ ys) = chunk_log day offset xs @ chunk_log day (offset + length (concat xs)) ys"
  by (induction xs arbitrary: offset) (simp_all add: add.assoc)

lemma chunk_log_cursors:
  "(c, l) \<in> set (chunk_log day offset chunks) \<Longrightarrow>
   \<exists>e. c = make_cursor day (of_nat e) \<and> offset < e \<and> e \<le> offset + length (concat chunks)"
proof (induction chunks arbitrary: offset)
  case (Cons chunk chunks)
  show ?case
  proof (cases "c = make_cursor day (of_nat (offset + length chunk)) \<and> complete chunk")
    case True
    then show ?thesis by (intro exI [of _ "offset + length chunk"]) (auto simp: complete_def)
  next
    case False
    with Cons.prems have "(c, l) \<in> set (chunk_log day (offset + length chunk) chunks)"
      by (auto split: if_splits)
    from Cons.IH [OF this] show ?thesis by fastforce
  qed
qed simp

lemma split_cursor_of_nat:
  assumes "unat day < 2 ^ 24" "e < 2 ^ 40"
  shows "split_cursor (make_cursor day (of_nat e)) = (day, of_nat e)" "unat (of_nat e :: u64) = e"
proof -
  from assms(2) have "e < 2 ^ LENGTH(64)" by simp
  then show u: "unat (of_nat e :: u64) = e" by (rule of_nat_inverse [OF refl])
  show "split_cursor (make_cursor day (of_nat e)) = (day, of_nat e)"
    by (rule split_make_cursor) (simp_all only: u assms)
qed

lemma make_cursor_less:
  assumes "unat day < 2 ^ 24" "e < 2 ^ 40" "f < 2 ^ 40"
  shows "make_cursor day (of_nat e) < make_cursor day (of_nat f) \<longleftrightarrow> e < f"
  by (subst cursor_less_iff)
    (simp only: word_less_nat_alt split_cursor_of_nat [OF assms(1,2)]
      split_cursor_of_nat [OF assms(1,3)] fst_conv snd_conv less_irrefl simp_thms)

lemma chunk_log_sorted:
  "unat day < 2 ^ 24 \<Longrightarrow> offset + length (concat chunks) < 2 ^ 40 \<Longrightarrow>
   sorted_wrt (<) (map fst (chunk_log day offset chunks))"
proof (induction chunks arbitrary: offset)
  case (Cons chunk chunks)
  have "make_cursor day (of_nat (offset + length chunk)) < c"
    if "(c, l) \<in> set (chunk_log day (offset + length chunk) chunks)" for c l
  proof -
    from chunk_log_cursors [OF that] obtain e where
      e: "c = make_cursor day (of_nat e)" "offset + length chunk < e"
      "e \<le> offset + length chunk + length (concat chunks)" by blast
    with Cons.prems make_cursor_less [of day "offset + length chunk" e] show ?thesis by simp
  qed
  with Cons.IH [of "offset + length chunk"] Cons.prems show ?case by auto
qed simp

section \<open>Well-formed directories\<close>

text \<open>What the program's own writes keep: each day has one file, named as \<open>day_file\<close> names it; days
  fit 24 bits (until the year 47900) and a day's file 40 bits (1 TiB).\<close>

definition wf_spool :: "spool \<Rightarrow> bool" where
  "wf_spool s \<longleftrightarrow> distinct (keys (so_files s)) \<and> (so_files s \<noteq> [] \<longrightarrow> so_exists s)
     \<and> (\<forall>name d. map_of (so_files s) name \<noteq> None \<and> file_day name = Some d \<longrightarrow>
          name = day_file d \<and> unat d < 2 ^ 24 \<and> length (content s name) < 2 ^ 40)"

text \<open>A cursor stands at a line boundary of its day's file (or that file is gone).\<close>

definition aligned :: "spool \<Rightarrow> u64 \<Rightarrow> bool" where
  "aligned s c \<longleftrightarrow>
     (case map_of (so_files s) (day_file (cursor_day c)) of
        None \<Rightarrow> True
      | Some text \<Rightarrow>
          unat (cursor_offset c) \<le> length text
          \<and> (take (unat (cursor_offset c)) text = [] \<or> last (take (unat (cursor_offset c)) text) = newline))"

lemma file_day_day_file [simp]: "file_day (day_file d) = Some d"
  by (simp add: file_day_def day_file_def)

lemma day_file_inj [simp]: "day_file d = day_file d' \<longleftrightarrow> d = d'"
  by (metis file_day_day_file option.inject)

lemma set_spool_days:
  "wf_spool s \<Longrightarrow> d \<in> set (spool_days s) \<longleftrightarrow> map_of (so_files s) (day_file d) \<noteq> None"
proof -
  assume wf: "wf_spool s"
  have "d \<in> set (spool_days s) \<longleftrightarrow> (\<exists>name \<in> fst ` set (so_files s). file_day name = Some d)"
    by (force simp: spool_days_def List.map_filter_def)
  also have "\<dots> \<longleftrightarrow> (\<exists>name. map_of (so_files s) name \<noteq> None \<and> file_day name = Some d)"
    by (auto simp: map_of_eq_None_iff)
  also have "\<dots> \<longleftrightarrow> map_of (so_files s) (day_file d) \<noteq> None"
    using wf file_day_day_file [of d] unfolding wf_spool_def by metis
  finally show ?thesis .
qed

lemma spool_days_bound: "wf_spool s \<Longrightarrow> d \<in> set (spool_days s) \<Longrightarrow>
  unat d < 2 ^ 24 \<and> length (content s (day_file d)) < 2 ^ 40"
  using set_spool_days file_day_day_file [of d] unfolding wf_spool_def by metis

lemma spool_days_sorted: "wf_spool s \<Longrightarrow> sorted_wrt (<) (spool_days s)"
proof -
  assume wf: "wf_spool s"
  then have d: "distinct (keys (so_files s))" by (simp add: wf_spool_def)
  have "inj_on (the \<circ> file_day) (set (filter (\<lambda>name. file_day name \<noteq> None) (keys (so_files s))))"
  proof (rule inj_onI)
    fix x y
    assume "x \<in> set (filter (\<lambda>name. file_day name \<noteq> None) (keys (so_files s)))"
      "y \<in> set (filter (\<lambda>name. file_day name \<noteq> None) (keys (so_files s)))"
      "(the \<circ> file_day) x = (the \<circ> file_day) y"
    then obtain d where "map_of (so_files s) x \<noteq> None" "map_of (so_files s) y \<noteq> None"
      "file_day x = Some d" "file_day y = Some d"
      by (fastforce simp: map_of_eq_None_iff)
    with wf have "x = day_file d" "y = day_file d" unfolding wf_spool_def by blast+
    then show "x = y" by simp
  qed
  then have "distinct (List.map_filter file_day (keys (so_files s)))"
    using d by (simp add: List.map_filter_def distinct_map)
  then show ?thesis
    by (simp add: spool_days_def strict_sorted_iff)
qed

lemma day_log_day:
  assumes "wf_spool s" "d \<in> set (spool_days s)" "(k, l) \<in> set (day_log s d)"
  shows "cursor_day k = d"
proof -
  note b = spool_days_bound [OF assms(1,2)]
  from chunk_log_cursors [OF assms(3) [unfolded day_log_def]] obtain e where
    e: "k = make_cursor d (of_nat e)" "e \<le> length (content s (day_file d))"
    by (auto simp: concat_split_inclusive)
  with b have "e < 2 ^ 40" by linarith
  with b show ?thesis by (simp only: e split_cursor_of_nat fst_conv)
qed

lemma day_log_sorted:
  assumes "wf_spool s" "d \<in> set (spool_days s)"
  shows "sorted_wrt (<) (map fst (day_log s d))"
  using spool_days_bound [OF assms] unfolding day_log_def
  by (intro chunk_log_sorted) (simp_all add: concat_split_inclusive)

lemma log_sorted: "wf_spool s \<Longrightarrow> sorted_wrt (<) (map fst (log s))"
proof -
  assume wf: "wf_spool s"
  have "sorted_wrt (<) (map fst (concat (map (day_log s) ds)))"
    if "sorted_wrt (<) ds" "set ds \<subseteq> set (spool_days s)" for ds
    using that
  proof (induction ds)
    case (Cons d ds)
    have "k < k'" if k: "(k, l) \<in> set (day_log s d)" and k': "d' \<in> set ds" "(k', l') \<in> set (day_log s d')"
      for k l k' l' d'
    proof -
      from Cons.prems k' have "cursor_day k = d" "cursor_day k' = d'" "d < d'"
        using day_log_day [OF wf] k by auto
      then show ?thesis by (subst cursor_less_iff) simp
    qed
    with Cons day_log_sorted [OF wf, of d] show ?case by (fastforce simp: sorted_wrt_append)
  qed simp
  with spool_days_sorted [OF wf] show ?thesis by (simp add: log_def)
qed

interpretation spool_log: cursor_log log wf_spool
  by unfold_locales (rule log_sorted)

section \<open>Reading\<close>

text \<open>A day after the cursor's is read once its grace period is over.\<close>

definition day_open :: "u64 \<Rightarrow> u64 \<Rightarrow> bool" where
  "day_open now d \<longleftrightarrow> unat d * 86400000 + 10000 \<le> unat now"

lemma day_open_iff:
  assumes "unat d < 2 ^ 24"
  shows "now < saturating_add (d * DAY_MS) DAY_GRACE_MS \<longleftrightarrow> \<not> day_open now d"
proof -
  have "unat d * 86400000 < 2 ^ LENGTH(64)" using assms by simp
  then have u: "unat (d * DAY_MS) = unat d * 86400000"
    by (simp add: DAY_MS_def unat_word_ariths(2))
  have small: "unat d * 86400000 + 10000 < 2 ^ LENGTH(64)" using assms by simp
  have g: "unat DAY_GRACE_MS = 10000" by (simp add: DAY_GRACE_MS_def)
  have "saturating_add (d * DAY_MS) DAY_GRACE_MS = d * DAY_MS + DAY_GRACE_MS"
    using small by (simp only: saturating_add_def u g if_True)
  moreover have "unat (d * DAY_MS + DAY_GRACE_MS) = unat d * 86400000 + 10000"
    using small by (simp only: unat_word_ariths(1) u g mod_less)
  ultimately show ?thesis
    by (simp add: word_less_nat_alt day_open_def not_le)
qed

lemma day_open_mono: "day_open now d \<Longrightarrow> d' \<le> d \<Longrightarrow> day_open now d'"
  by (simp add: day_open_def word_le_nat_alt)

text \<open>The entries a read from \<open>c\<close> at \<open>now\<close> returns.\<close>

definition unread :: "spool \<Rightarrow> u64 \<Rightarrow> u64 \<Rightarrow> (u64 \<times> string) list" where
  "unread s c now =
     filter (\<lambda>(k, l). c < k \<and> (cursor_day k = cursor_day c \<or> day_open now (cursor_day k))) (log s)"

text \<open>A cursor at a line boundary splits its day's log.\<close>

lemma day_log_split:
  assumes "wf_spool s" "aligned s c" "cursor_day c \<in> set (spool_days s)"
  defines "off \<equiv> unat (cursor_offset c)" and "text \<equiv> content s (day_file (cursor_day c))"
  shows "day_log s (cursor_day c) = chunk_log (cursor_day c) 0 (split_inclusive newline (take off text))
      @ chunk_log (cursor_day c) off (split_inclusive newline (drop off text))"
    and "(k, l) \<in> set (chunk_log (cursor_day c) 0 (split_inclusive newline (take off text))) \<Longrightarrow> \<not> c < k"
    and "(k, l) \<in> set (chunk_log (cursor_day c) off (split_inclusive newline (drop off text))) \<Longrightarrow> c < k"
proof -
  let ?d = "cursor_day c"
  note b = spool_days_bound [OF assms(1,3)]
  have a: "off \<le> length text" "take off text = [] \<or> last (take off text) = newline"
    using assms(2) set_spool_days [OF assms(1), of ?d] assms(3)
    by (auto simp: aligned_def content_def off_def text_def split: option.splits)
  have "day_log s ?d = chunk_log ?d 0 (split_inclusive newline (take off text @ drop off text))"
    by (simp add: day_log_def text_def)
  also have "\<dots> = chunk_log ?d 0 (split_inclusive newline (take off text))
      @ chunk_log ?d off (split_inclusive newline (drop off text))"
    using a by (simp only: split_inclusive_append chunk_log_append split_inclusive_complete
        concat_split_inclusive) simp
  finally show "day_log s ?d = chunk_log ?d 0 (split_inclusive newline (take off text))
      @ chunk_log ?d off (split_inclusive newline (drop off text))" .
  have k: "c < make_cursor ?d (of_nat e) \<longleftrightarrow> off < e" if "e \<le> length text" for e
  proof -
    from b that have "e < 2 ^ 40" unfolding text_def by linarith
    with b have "split_cursor (make_cursor ?d (of_nat e)) = (?d, of_nat e)" "unat (of_nat e :: u64) = e"
      using split_cursor_of_nat [of ?d e] by blast+
    then show ?thesis by (subst cursor_less_iff) (simp add: word_less_nat_alt off_def)
  qed
  show "\<not> c < k" if "(k, l) \<in> set (chunk_log ?d 0 (split_inclusive newline (take off text)))"
    using chunk_log_cursors [OF that] k a(1) by (auto simp: concat_split_inclusive)
  show "c < k" if "(k, l) \<in> set (chunk_log ?d off (split_inclusive newline (drop off text)))"
    using chunk_log_cursors [OF that] k a(1) by (auto simp: concat_split_inclusive)
qed

text \<open>Reading one file from the cursor on gives the entries of the day's log after the cursor.\<close>

lemma day_from_cursor:
  assumes "wf_spool s" "aligned s c" "d \<in> set (spool_days s)" "cursor_day c \<le> d"
  shows "chunk_log d (unat (if d = cursor_day c then cursor_offset c else 0))
      (split_inclusive newline (drop (unat (if d = cursor_day c then cursor_offset c else 0)) (content s (day_file d))))
    = filter (\<lambda>(k, l). c < k) (day_log s d)"
proof (cases "d = cursor_day c")
  case False
  with assms(4) have "cursor_day c < d" by simp
  then have "c < k" if "(k, l) \<in> set (day_log s d)" for k l
    using day_log_day [OF assms(1,3) that] by (subst cursor_less_iff) simp
  with False show ?thesis
    by (fastforce simp: day_log_def intro!: filter_True [symmetric])
next
  case True
  note split = day_log_split [OF assms(1,2) assms(3) [unfolded True]]
  show ?thesis
    unfolding True split(1) filter_append if_P [OF refl]
    by (subst filter_False, use split(2) in blast, subst filter_True) (use split(3) in auto)
qed

text \<open>What \<open>read_day\<close> and \<open>read_days\<close> return when no operation fails; a failing one gives its error.\<close>

lemma read_day_log:
  assumes "map_of (so_files s) (day_file d) \<noteq> None"
  shows "read_day io de s d start out
      = Ok (absorb de (chunk_log d (unat start) (split_inclusive newline (drop (unat start) (content s (day_file d))))) out)
    \<or> (\<exists>e. read_day io de s d start out = Err e \<and> io \<noteq> (\<lambda>_. None))"
  using assms read_chunks_absorb [of de d "unat start"]
  by (auto simp: read_day_def content_def Let_def split: option.splits)

lemma takeWhile_sorted:
  "sorted_wrt (<) ds \<Longrightarrow> (\<And>d d'. P d \<Longrightarrow> d' < d \<Longrightarrow> P d') \<Longrightarrow> takeWhile P ds = filter P ds"
  by (induction ds) (fastforce intro!: filter_False [symmetric])+

definition entries_of :: "spool \<Rightarrow> u64 \<Rightarrow> u64 \<Rightarrow> u64 list \<Rightarrow> (u64 \<times> string) list" where
  "entries_of s c now ds = concat (map (\<lambda>d. filter (\<lambda>(k, l). c < k) (day_log s d))
     (filter (\<lambda>d. d = cursor_day c \<or> day_open now d) ds))"

lemma read_days_log:
  assumes "wf_spool s" "aligned s c"
  shows "set ds \<subseteq> set (spool_days s) \<Longrightarrow> sorted_wrt (<) ds \<Longrightarrow> \<forall>d \<in> set ds. cursor_day c \<le> d \<Longrightarrow>
     read_days io de s (split_cursor c) now ds out = Ok (absorb de (entries_of s c now ds) out)
     \<or> (\<exists>e. read_days io de s (split_cursor c) now ds out = Err e \<and> io \<noteq> (\<lambda>_. None))"
proof (induction ds arbitrary: out)
  case (Cons d ds)
  have d: "d \<in> set (spool_days s)" "cursor_day c \<le> d" using Cons.prems by auto
  note bound = spool_days_bound [OF assms(1) d(1)]
  show ?case
  proof (cases "cursor_day c < d \<and> \<not> day_open now d")
    case True
    then have "\<forall>d' \<in> set ds. \<not> (d' = cursor_day c \<or> day_open now d')"
      using Cons.prems(2) day_open_mono [of now] by fastforce
    moreover from True have "d \<noteq> cursor_day c" by auto
    ultimately show ?thesis using True bound by (simp add: entries_of_def day_open_iff)
  next
    case False
    with d(2) have ok: "d = cursor_day c \<or> day_open now d" by auto
    then have es: "entries_of s c now (d # ds) = filter (\<lambda>(k, l). c < k) (day_log s d) @ entries_of s c now ds"
      by (simp add: entries_of_def)
    have skip: "\<not> (fst (split_cursor c) < d \<and> now < saturating_add (d * DAY_MS) DAY_GRACE_MS)"
      using False bound by (simp add: day_open_iff)
    let ?start = "if d = cursor_day c then cursor_offset c else 0"
    have f: "map_of (so_files s) (day_file d) \<noteq> None" using set_spool_days [OF assms(1)] d(1) by simp
    have IH: "read_days io de s (split_cursor c) now ds out' = Ok (absorb de (entries_of s c now ds) out')
      \<or> (\<exists>e. read_days io de s (split_cursor c) now ds out' = Err e \<and> io \<noteq> (\<lambda>_. None))" for out'
      using Cons.prems by (intro Cons.IH) auto
    from read_day_log [OF f, of io de ?start out] show ?thesis
    proof
      assume "read_day io de s d ?start out = Ok (absorb de (chunk_log d (unat ?start)
        (split_inclusive newline (drop (unat ?start) (content s (day_file d))))) out)"
      then have "read_days io de s (split_cursor c) now (d # ds) out
          = read_days io de s (split_cursor c) now ds (absorb de (filter (\<lambda>(k, l). c < k) (day_log s d)) out)"
        by (simp only: read_days.simps skip if_False day_from_cursor [OF assms d] sum.case)
      then show ?thesis using IH [of "absorb de (filter (\<lambda>(k, l). c < k) (day_log s d)) out"]
        by (simp only: es absorb_append)
    next
      assume "\<exists>e. read_day io de s d ?start out = Err e \<and> io \<noteq> (\<lambda>_. None)"
      then show ?thesis by (auto simp only: read_days.simps skip if_False sum.case)
    qed
  qed
qed (simp add: entries_of_def)

lemma unread_entries:
  assumes "wf_spool s"
  shows "entries_of s c now (filter (\<lambda>d. cursor_day c \<le> d) (spool_days s)) = unread s c now"
proof -
  have "concat (map (\<lambda>d. filter (\<lambda>(k, l). c < k) (day_log s d))
      (filter (\<lambda>d. d = cursor_day c \<or> day_open now d) (filter (\<lambda>d. cursor_day c \<le> d) ds)))
    = filter (\<lambda>(k, l). c < k \<and> (cursor_day k = cursor_day c \<or> day_open now (cursor_day k)))
        (concat (map (day_log s) ds))"
    if "set ds \<subseteq> set (spool_days s)" for ds
    using that
  proof (induction ds)
    case (Cons d ds)
    have k: "cursor_day k = d" if "(k, l) \<in> set (day_log s d)" for k l
      using day_log_day [OF assms _ that] Cons.prems by simp
    let ?es = "filter (\<lambda>(k, l). c < k \<and> (cursor_day k = cursor_day c \<or> day_open now (cursor_day k))) (day_log s d)"
    have "?es = (if cursor_day c \<le> d \<and> (d = cursor_day c \<or> day_open now d)
        then filter (\<lambda>(k, l). c < k) (day_log s d) else [])"
    proof (cases "cursor_day c \<le> d")
      case True
      then show ?thesis using k by (auto simp: filter_empty_conv intro!: filter_cong)
    next
      case False
      have "\<not> c < x" if "(x, l) \<in> set (day_log s d)" for x l
        using k [OF that] False by (subst cursor_less_iff) auto
      with False show ?thesis by (auto simp: filter_empty_conv)
    qed
    with Cons show ?case by simp
  qed simp
  then show ?thesis by (simp add: entries_of_def unread_def log_def)
qed

lemma days_spool_days:
  "wf_spool s \<Longrightarrow> days io s = Ok (spool_days s) \<or> (\<exists>e. days io s = Err e \<and> io \<noteq> (\<lambda>_. None))"
  by (auto simp: days_def spool_days_def wf_spool_def List.map_filter_def split: option.splits)

lemma read_after_unread:
  assumes "wf_spool s" "aligned s c"
  shows "read_after io de s c now
      = Ok (absorb de (unread s c now) \<lparr>rr_records = [], rr_bad_lines = 0, rr_end_cursor = c\<rparr>)
    \<or> (\<exists>e. read_after io de s c now = Err e \<and> io \<noteq> (\<lambda>_. None))"
proof -
  let ?ds = "filter (\<lambda>d. cursor_day c \<le> d) (spool_days s)"
  have "set ?ds \<subseteq> set (spool_days s)" "sorted_wrt (<) ?ds" "\<forall>d \<in> set ?ds. cursor_day c \<le> d"
    using spool_days_sorted [OF assms(1)] by (auto intro: sorted_wrt_filter)
  from read_days_log [OF assms this, of io de now
      "\<lparr>rr_records = [], rr_bad_lines = 0, rr_end_cursor = c\<rparr>"] unread_entries [OF assms(1), of c now]
    days_spool_days [OF assms(1), of io]
  show ?thesis by (elim disjE exE) (simp_all add: read_after_def)
qed

text \<open>C18. Reading refines the log. Of the log (the complete lines of the day files in order, each under
  its cursor, which grow strictly), a read from a cursor at a line boundary returns exactly the
  entries after the cursor whose day is the cursor's or past its grace period: the parsable ones
  as records under their cursors, the others counted, and the cursor of the last one as the new
  position. It fails only if a file operation fails.\<close>

theorem read_after_refines_log:
  assumes "wf_spool s" "aligned s c"
  shows "(\<forall>r. read_after io de s c now = Ok r \<longrightarrow>
        r = absorb de (unread s c now) \<lparr>rr_records = [], rr_bad_lines = 0, rr_end_cursor = c\<rparr>)
    \<and> (\<exists>r. read_after (\<lambda>_. None) de s c now = Ok r)
    \<and> sorted_wrt (<) (map fst (log s))"
  using read_after_unread [OF assms, of io de now] read_after_unread [OF assms, of "\<lambda>_. None" de now]
    log_sorted [OF assms(1)]
  by auto

section \<open>Successive reads\<close>

text \<open>How a spool may change between two reads of the same client: files before day \<open>d\<close> stay as they
  are, later ones only grow at the end. Appending is such a change.\<close>

definition grows :: "spool \<Rightarrow> spool \<Rightarrow> u64 \<Rightarrow> bool" where
  "grows s s' d \<longleftrightarrow>
     (\<forall>d' < d. map_of (so_files s') (day_file d') = map_of (so_files s) (day_file d'))
     \<and> (\<forall>d' text. d \<le> d' \<and> map_of (so_files s) (day_file d') = Some text \<longrightarrow>
          (\<exists>more. map_of (so_files s') (day_file d') = Some (text @ more)))"

lemma chunk_log_boundary:
  "(k, l) \<in> set (chunk_log d offset chunks) \<Longrightarrow>
   \<exists>xs ys. chunks = xs @ ys \<and> xs \<noteq> [] \<and> complete (last xs)
     \<and> k = make_cursor d (of_nat (offset + length (concat xs)))"
proof (induction chunks arbitrary: offset)
  case (Cons chunk chunks)
  show ?case
  proof (cases "k = make_cursor d (of_nat (offset + length chunk)) \<and> complete chunk")
    case True
    then show ?thesis by (intro exI [of _ "[chunk]"] exI [of _ chunks]) simp
  next
    case False
    with Cons.prems have "(k, l) \<in> set (chunk_log d (offset + length chunk) chunks)"
      by (auto split: if_splits)
    from Cons.IH [OF this] obtain xs ys where "chunks = xs @ ys" "xs \<noteq> []" "complete (last xs)"
      "k = make_cursor d (of_nat (offset + length chunk + length (concat xs)))" by blast
    then show ?thesis by (intro exI [of _ "chunk # xs"] exI [of _ ys]) (simp add: add.assoc)
  qed
qed simp

lemma set_log: "wf_spool s \<Longrightarrow>
  (k, l) \<in> set (log s) \<longleftrightarrow> cursor_day k \<in> set (spool_days s) \<and> (k, l) \<in> set (day_log s (cursor_day k))"
  using day_log_day by (fastforce simp: log_def)

lemma log_entry_boundary:
  assumes "wf_spool s" "(k, l) \<in> set (log s)"
  shows "\<exists>text. map_of (so_files s) (day_file (cursor_day k)) = Some text
    \<and> unat (cursor_offset k) \<le> length text \<and> last (take (unat (cursor_offset k)) text) = newline"
proof -
  let ?d = "cursor_day k"
  from assms have d: "?d \<in> set (spool_days s)" and kl: "(k, l) \<in> set (day_log s ?d)" by (simp_all add: set_log)
  note b = spool_days_bound [OF assms(1) d]
  obtain bytes where t: "map_of (so_files s) (day_file ?d) = Some bytes"
    using set_spool_days [OF assms(1)] d by auto
  then have c: "content s (day_file ?d) = bytes" by (simp add: content_def)
  from chunk_log_boundary [OF kl [unfolded day_log_def c]] obtain xs ys where
    xs: "split_inclusive newline bytes = xs @ ys" "xs \<noteq> []" "complete (last xs)"
    "k = make_cursor ?d (of_nat (length (concat xs)))" by auto
  from xs(1) have "bytes = concat xs @ concat ys"
    by (metis concat_append concat_split_inclusive)
  moreover from xs(2,3) have "concat xs \<noteq> []" "last (concat xs) = newline"
    by (cases xs rule: rev_cases; simp add: complete_def)+
  moreover from calculation(1) b c have "length (concat xs) < 2 ^ 40" by simp
  then have "unat (cursor_offset k) = length (concat xs)"
    using split_cursor_of_nat [of ?d "length (concat xs)"] b xs(4) by (metis snd_conv)
  ultimately show ?thesis using t by simp
qed

lemma log_upto:
  assumes "wf_spool s" "wf_spool s'" "grows s s' (cursor_day e)" "(e, le) \<in> set (log s)" "k \<le> e"
  shows "(k, l) \<in> set (log s') \<longleftrightarrow> (k, l) \<in> set (log s)"
proof -
  let ?d = "cursor_day k"
  have "?d \<le> cursor_day e" using assms(5) by (metis cursor_less_iff leD not_le_imp_less)
  show ?thesis
  proof (cases "?d = cursor_day e")
    case False
    with \<open>?d \<le> cursor_day e\<close> have "map_of (so_files s') (day_file ?d) = map_of (so_files s) (day_file ?d)"
      using assms(3) by (simp add: grows_def)
    then show ?thesis
      by (simp add: set_log assms(1,2) set_spool_days day_log_def content_def)
  next
    case True
    let ?off = "unat (cursor_offset e)"
    from log_entry_boundary [OF assms(1,4)] obtain bytes where
      t: "map_of (so_files s) (day_file ?d) = Some bytes" "?off \<le> length bytes" "last (take ?off bytes) = newline"
      using True by metis
    with assms(3) True obtain more where t': "map_of (so_files s') (day_file ?d) = Some (bytes @ more)"
      unfolding grows_def by (metis order_refl)
    have al: "aligned s e" "aligned s' e" using t t' True by (auto simp: aligned_def)
    have days: "cursor_day e \<in> set (spool_days s)" "cursor_day e \<in> set (spool_days s')"
      using t t' True by (simp_all add: set_spool_days assms(1,2))
    have cs: "content s (day_file (cursor_day e)) = bytes" "content s' (day_file (cursor_day e)) = bytes @ more"
      using t t' True by (simp_all add: content_def)
    note split = day_log_split [OF assms(1) al(1) days(1)] and split' = day_log_split [OF assms(2) al(2) days(2)]
    have "\<not> e < k" using assms(5) by simp
    with split(1,3) split'(1,3) t(2) show ?thesis
      by (simp add: set_log assms(1,2) True days cs) blast
  qed
qed

text \<open>The end of a read: the cursor of the last entry, or the cursor it started from.\<close>

definition read_end :: "spool \<Rightarrow> u64 \<Rightarrow> u64 \<Rightarrow> u64" where
  "read_end s c now = last (c # map fst (unread s c now))"

lemma unread_upto:
  assumes "wf_spool s" "x \<in> set (unread s c now)"
  shows "c < fst x \<and> fst x \<le> read_end s c now"
proof -
  from assms(2) have ne: "unread s c now \<noteq> []" by auto
  have "fst x \<le> last (map fst (unread s c now))"
    using spool_log.last_is_greatest [OF assms(1)] assms(2) unfolding unread_def by blast
  with ne assms(2) show ?thesis by (auto simp: read_end_def) (auto simp: unread_def)
qed

lemma read_end_entry:
  "unread s c now \<noteq> [] \<Longrightarrow> \<exists>l. (read_end s c now, l) \<in> set (unread s c now)"
proof -
  assume ne: "unread s c now \<noteq> []"
  then have "read_end s c now = fst (last (unread s c now))"
    by (simp add: read_end_def last_map)
  with last_in_set [OF ne] show ?thesis by (metis prod.collapse)
qed

lemma cursor_day_mono: "k \<le> k' \<Longrightarrow> cursor_day k \<le> cursor_day k'"
  using cursor_less_iff [of k' k] by (metis leD not_le_imp_less)

text \<open>Reading on from where an earlier read ended gives what a single read would have given.\<close>

lemma unread_reach:
  assumes "unread s c now \<noteq> []"
  shows "\<exists>l. (read_end s c now, l) \<in> set (log s)" "c < read_end s c now"
    "cursor_day (read_end s c now) = cursor_day c \<or> day_open now (cursor_day (read_end s c now))"
  using read_end_entry [OF assms] by (auto simp: unread_def)

lemma unread_low:
  assumes "unread s c now \<noteq> []" "k \<le> read_end s c now"
  shows "(k, l) \<in> set (unread s c now) \<longleftrightarrow> (k, l) \<in> set (log s) \<and> c < k"
  using unread_reach(3) [OF assms(1)] cursor_day_mono [OF assms(2)] cursor_day_mono [of c k] day_open_mono [of now]
  by (fastforce simp: unread_def)

lemma unread_compose:
  assumes "wf_spool s" "wf_spool s'" "now1 \<le> now2" "grows s s' (cursor_day (read_end s c now1))"
  shows "unread s' c now2 = unread s c now1 @ unread s' (read_end s c now1) now2"
proof (cases "unread s c now1 = []")
  case True
  then show ?thesis by (simp add: read_end_def)
next
  case False
  let ?e = "read_end s c now1"
  note r = unread_reach [OF False] and low = unread_low [OF False]
  obtain le where el: "(?e, le) \<in> set (log s)" using r(1) by blast
  have later: "day_open now1 d \<Longrightarrow> day_open now2 d" for d
    using assms(3) by (simp add: day_open_def word_le_nat_alt)
  have "(k, l) \<in> set (unread s' c now2) \<longleftrightarrow> (k, l) \<in> set (unread s c now1 @ unread s' ?e now2)" for k l
  proof (cases "k \<le> ?e")
    case True
    have "(k, l) \<in> set (unread s' c now2) \<longleftrightarrow> (k, l) \<in> set (unread s c now1)"
      using low [OF True] later log_upto [OF assms(1,2,4) el True] by (auto simp: unread_def)
    then show ?thesis using True by (auto simp: unread_def)
  next
    case False
    then have "cursor_day k = cursor_day c \<or> day_open now2 (cursor_day k)
        \<longleftrightarrow> cursor_day k = cursor_day ?e \<or> day_open now2 (cursor_day k)"
      using r(2,3) later cursor_day_mono [of ?e k] cursor_day_mono [of c ?e] by fastforce
    with False r(2) unread_upto [OF assms(1), of "(k, l)" c now1] show ?thesis by (auto simp: unread_def)
  qed
  then have "set (unread s' c now2) = set (unread s c now1 @ unread s' ?e now2)" by auto
  then show ?thesis unfolding unread_def
    by (intro spool_log.part_append [OF assms(1,2), where e = ?e])
       (use unread_upto [OF assms(1), of _ c now1] in \<open>auto simp: unread_def\<close>)
qed

text \<open>No event is lost or read twice across reads: when the spool has only grown since (files before
  the position unchanged, later ones appended to), reading up to now and then on from the returned
  position gives, record by record, what one read from the old position gives at the later time.\<close>

theorem reads_compose:
  assumes "wf_spool s" "wf_spool s'" "aligned s c" "aligned s' c"
    and "now1 \<le> now2"
    and "read_after io1 de s c now1 = Ok r1" and "grows s s' (cursor_day (rr_end_cursor r1))"
    and "read_after io2 de s' (rr_end_cursor r1) now2 = Ok r2"
    and "read_after io3 de s' c now2 = Ok r"
  shows "rr_records r = rr_records r1 @ rr_records r2
    \<and> rr_bad_lines r = rr_bad_lines r1 + rr_bad_lines r2 \<and> rr_end_cursor r = rr_end_cursor r2"
proof -
  let ?out = "\<lambda>c. \<lparr>rr_records = [], rr_bad_lines = 0, rr_end_cursor = c\<rparr>"
  have r1: "r1 = absorb de (unread s c now1) (?out c)"
    using read_after_unread [OF assms(1,3), of io1 de now1] assms(6) by auto
  then have e: "rr_end_cursor r1 = read_end s c now1" by (simp add: absorb_def read_end_def)
  have al: "aligned s' (rr_end_cursor r1)"
  proof (cases "unread s c now1 = []")
    case True
    with assms(4) show ?thesis by (simp add: e read_end_def)
  next
    case False
    then obtain l where "(read_end s c now1, l) \<in> set (log s)"
      using read_end_entry by (fastforce simp: unread_def)
    with log_upto [OF assms(1,2) assms(7) [unfolded e]]
    have "(read_end s c now1, l) \<in> set (log s')" by blast
    from log_entry_boundary [OF assms(2) this] show ?thesis by (auto simp: e aligned_def)
  qed
  have r2: "r2 = absorb de (unread s' (read_end s c now1) now2) (?out (read_end s c now1))"
    using read_after_unread [OF assms(2) al, of io2 de now2] assms(8) by (auto simp: e)
  have r: "r = absorb de (unread s' c now2) (?out c)"
    using read_after_unread [OF assms(2,4), of io3 de now2] assms(9) by auto
  show ?thesis
    unfolding r unread_compose [OF assms(1,2,5) assms(7) [unfolded e]] absorb_append r1 [symmetric] r2
    by (auto simp: absorb_def e)
qed

section \<open>Appending\<close>

lemma map_of_files_update:
  "map_of (AList.update name t fs) n = (if n = name then Some t else map_of fs n)"
  by (simp add: dict_simps)

text \<open>The spool after the line \<open>t\<close> was appended to day \<open>d\<close>, the cursor of that line, and when the
  append is well behaved: the day's file ends with a complete line and stays within its bound, and
  the line has no line end of its own.\<close>

definition appended :: "spool \<Rightarrow> u64 \<Rightarrow> string \<Rightarrow> spool" where
  "appended s d t = s\<lparr>so_exists := True,
     so_files := AList.update (day_file d) (content s (day_file d) @ t @ [newline]) (so_files s)\<rparr>"

definition new_cursor :: "spool \<Rightarrow> u64 \<Rightarrow> string \<Rightarrow> u64" where
  "new_cursor s d t = make_cursor d (of_nat (length (content s (day_file d)) + Suc (length t)))"

definition appendable :: "spool \<Rightarrow> u64 \<Rightarrow> string \<Rightarrow> bool" where
  "appendable s d t \<longleftrightarrow> wf_spool s \<and> unat d < 2 ^ 24
     \<and> length (content s (day_file d)) + Suc (length t) < 2 ^ 40
     \<and> (content s (day_file d) = [] \<or> last (content s (day_file d)) = newline)
     \<and> newline \<notin> set t"

lemma append_record_ok:
  "ser rec = Ok t \<Longrightarrow>
   append_record (\<lambda>_. None) ser s rec = (appended s (sp_ts_ms rec div DAY_MS) t, Ok ())"
  by (simp add: append_record_def create_dir_all_def content_def Let_def appended_def)

lemma appended_files:
  "map_of (so_files (appended s d t)) name
   = (if name = day_file d then Some (content s name @ t @ [newline]) else map_of (so_files s) name)"
  by (simp add: appended_def map_of_files_update)

lemma appended_content:
  "content (appended s d t) name = (if name = day_file d then content s name @ t @ [newline] else content s name)"
  by (simp add: content_def appended_files)

lemma appended_wf: "appendable s d t \<Longrightarrow> wf_spool (appended s d t)"
proof -
  assume ok: "appendable s d t"
  have "name = day_file d' \<and> unat d' < 2 ^ 24 \<and> length (content (appended s d t) name) < 2 ^ 40"
    if "map_of (so_files (appended s d t)) name \<noteq> None" "file_day name = Some d'" for name d'
  proof (cases "name = day_file d")
    case True
    with that(2) ok show ?thesis by (simp add: appended_content appendable_def)
  next
    case False
    with that(1) have "map_of (so_files s) name \<noteq> None" by (simp add: appended_files)
    with ok that(2) False show ?thesis unfolding appendable_def wf_spool_def by (simp add: appended_content)
  qed
  moreover have "distinct (keys (so_files s))" using ok by (simp add: appendable_def wf_spool_def)
  then have "distinct (keys (so_files (appended s d t)))" "so_exists (appended s d t)"
    by (simp_all add: appended_def distinct_update)
  ultimately show ?thesis unfolding wf_spool_def by blast
qed

lemma new_cursor_split:
  assumes "appendable s d t"
  shows "cursor_day (new_cursor s d t) = d"
    "unat (cursor_offset (new_cursor s d t)) = length (content s (day_file d)) + Suc (length t)"
proof -
  from assms have b: "unat d < 2 ^ 24" "length (content s (day_file d)) + Suc (length t) < 2 ^ 40"
    by (simp_all only: appendable_def)
  show "cursor_day (new_cursor s d t) = d"
    "unat (cursor_offset (new_cursor s d t)) = length (content s (day_file d)) + Suc (length t)"
    unfolding new_cursor_def split_cursor_of_nat(1) [OF b] fst_conv snd_conv
    by (rule refl, rule split_cursor_of_nat(2) [OF b])
qed

lemma appended_day_log:
  assumes "appendable s d t"
  shows "day_log (appended s d t) d' = day_log s d' @ (if d' = d then [(new_cursor s d t, t)] else [])"
proof (cases "d' = d")
  case True
  have "split_inclusive newline (t @ [newline]) = [t @ [newline]]"
    using assms split_inclusive_single [of newline t] by (simp add: appendable_def)
  then show ?thesis
    using True assms unfolding appendable_def
    by (simp add: day_log_def appended_content split_inclusive_append chunk_log_append new_cursor_def
        split_inclusive_complete concat_split_inclusive complete_def del: of_nat_add of_nat_Suc)
qed (simp add: day_log_def appended_content)

lemma appended_log:
  assumes "appendable s d t"
  shows "set (log (appended s d t)) = insert (new_cursor s d t, t) (set (log s))"
proof (rule set_eqI)
  fix x :: "u64 \<times> string"
  obtain k l where x: "x = (k, l)" by fastforce
  have wf: "wf_spool s" using assms by (simp add: appendable_def)
  note wf' = appended_wf [OF assms]
  have days: "d' \<in> set (spool_days (appended s d t)) \<longleftrightarrow> d' = d \<or> d' \<in> set (spool_days s)" for d'
    by (simp add: set_spool_days [OF wf] set_spool_days [OF wf'] appended_files)
  have "day_log s d = []" if "d \<notin> set (spool_days s)"
    using that set_spool_days [OF wf, of d] by (simp add: day_log_def content_def)
  then show "x \<in> set (log (appended s d t)) \<longleftrightarrow> x \<in> insert (new_cursor s d t, t) (set (log s))"
    by (cases "cursor_day k = d")
      (auto simp: x set_log [OF wf] set_log [OF wf'] days appended_day_log [OF assms]
        new_cursor_split [OF assms])
qed

text \<open>The cursor a read starts from is one of the spool's, not past the end of the day's file.\<close>

definition within :: "spool \<Rightarrow> u64 \<Rightarrow> bool" where
  "within s c \<longleftrightarrow> aligned s c \<and> unat (cursor_offset c) \<le> length (content s (day_file (cursor_day c)))"

lemma appended_unread:
  assumes "appendable s d t" "within s c" "cursor_day c = d \<or> cursor_day c < d \<and> day_open now d"
  shows "set (unread (appended s d t) c now) = insert (new_cursor s d t, t) (set (unread s c now))"
    "c < new_cursor s d t"
proof -
  note n = new_cursor_split [OF assms(1)]
  show c: "c < new_cursor s d t"
    using assms(2,3) by (subst cursor_less_iff) (auto simp: n word_less_nat_alt within_def)
  have "cursor_day (new_cursor s d t) = cursor_day c \<or> day_open now (cursor_day (new_cursor s d t))"
    using assms(3) n(1) by auto
  with c show "set (unread (appended s d t) c now) = insert (new_cursor s d t, t) (set (unread s c now))"
    by (auto simp: unread_def appended_log [OF assms(1)])
qed

lemma appended_aligned: "within s c \<Longrightarrow> aligned (appended s d t) c"
  by (cases "cursor_day c = d"; cases "map_of (so_files s) (day_file d)")
    (auto simp: aligned_def within_def appended_files content_def)

lemma absorb_records:
  "set (rr_records (absorb de es \<lparr>rr_records = [], rr_bad_lines = b, rr_end_cursor = c\<rparr>))
   = {(k, r). \<exists>l. (k, l) \<in> set es \<and> de l = Some r}"
  by (force simp: absorb_def List.map_filter_def)

text \<open>What a hook appends is read: after a successful append of a record to a spool whose last line
  is complete, a read from any position of the client up to then, once the record's day is the
  position's or past its grace period, returns the old unread records and the new one, under a
  cursor greater than the position, and nothing else.\<close>

theorem append_then_read:
  assumes "appendable s (sp_ts_ms rec div DAY_MS) t" and "within s c"
    and "ser rec = Ok t" and "de t = Some rec"
    and "cursor_day c = sp_ts_ms rec div DAY_MS
      \<or> cursor_day c < sp_ts_ms rec div DAY_MS \<and> day_open now (sp_ts_ms rec div DAY_MS)"
    and "read_after (\<lambda>_. None) de s c now = Ok r0"
  shows "\<exists>s' r k. append_record (\<lambda>_. None) ser s rec = (s', Ok ())
    \<and> read_after (\<lambda>_. None) de s' c now = Ok r
    \<and> set (rr_records r) = insert (k, rec) (set (rr_records r0)) \<and> c < k"
proof -
  let ?d = "sp_ts_ms rec div DAY_MS"
  let ?s = "appended s ?d t" and ?k = "new_cursor s ?d t"
  have wf: "wf_spool s" "aligned s c" using assms(1,2) by (simp_all add: appendable_def within_def)
  have r0: "r0 = absorb de (unread s c now) \<lparr>rr_records = [], rr_bad_lines = 0, rr_end_cursor = c\<rparr>"
    using read_after_unread [OF wf, of "\<lambda>_. None" de now] assms(6) by simp
  let ?r = "absorb de (unread ?s c now) \<lparr>rr_records = [], rr_bad_lines = 0, rr_end_cursor = c\<rparr>"
  have "read_after (\<lambda>_. None) de ?s c now = Ok ?r"
    using read_after_unread [OF appended_wf [OF assms(1)] appended_aligned [OF assms(2)], of "\<lambda>_. None" de now]
    by simp
  moreover have "set (rr_records ?r) = insert (?k, rec) (set (rr_records r0))"
    unfolding r0 absorb_records appended_unread(1) [OF assms(1,2,5)] using assms(4) by auto
  ultimately show ?thesis
    using append_record_ok [of ser rec t s, OF assms(3)] appended_unread(2) [OF assms(1,2,5)] by blast
qed

section \<open>Acknowledged cursors\<close>

text \<open>The names of the files a client's acknowledgement touches: they have no dot, or end in \<open>.tmp\<close>.\<close>

definition ack_name :: "string \<Rightarrow> string" where
  "ack_name client = so_ack_file (for_client True [] client)"

lemma for_client_ack: "so_ack_file (for_client ex files client) = ack_name client"
  by (simp add: ack_name_def for_client_def spool_new_def Let_def)

lemma for_client_frame [simp]:
  "so_files (for_client ex files client) = files" "so_exists (for_client ex files client) = ex"
  by (simp_all add: for_client_def spool_new_def Let_def)

lemma ack_name_no_dot: "CHR ''.'' \<notin> set (ack_name client)"
  by (auto simp: ack_name_def for_client_def spool_new_def Let_def is_ascii_alphanumeric_def
      is_ascii_digit_def byte_def dest: sanitize_client_safe)

lemma ack_name_inj: "ack_name c1 = ack_name c2 \<longleftrightarrow> sanitize_client c1 = sanitize_client c2"
  by (auto simp: ack_name_def for_client_def spool_new_def Let_def)

lemma ack_tmp_not_ack: "ack_tmp pid s \<noteq> ack_name client"
proof -
  have "CHR ''.'' \<in> set (ack_tmp pid s)" by (simp add: ack_tmp_def)
  with ack_name_no_dot show ?thesis by metis
qed

lemma day_file_not_ack: "day_file d \<noteq> ack_name client" "day_file d \<noteq> ack_tmp pid s"
proof -
  have "CHR ''.'' \<in> set (day_file d)" by (simp add: day_file_def)
  with ack_name_no_dot show "day_file d \<noteq> ack_name client" by metis
  have "last (day_file d) \<noteq> last (ack_tmp pid s)" by (simp add: day_file_def ack_tmp_def)
  then show "day_file d \<noteq> ack_tmp pid s" by metis
qed

lemma store_ack_files:
  "store_ack io pid s cursor = (s', res) \<Longrightarrow>
   name \<noteq> ack_tmp pid s \<Longrightarrow> name \<noteq> so_ack_file s \<Longrightarrow> map_of (so_files s') name = map_of (so_files s) name"
  by (auto simp: store_ack_def create_dir_all_def Let_def dict_simps split: option.splits prod.splits)

lemma store_ack_own:
  assumes "store_ack io pid s cursor = (s', res)" "so_ack_file s = ack_name client"
  shows "so_ack_file s' = so_ack_file s"
    "res = Ok () \<Longrightarrow> map_of (so_files s') (so_ack_file s) = Some (show_u64 cursor)"
    "res \<noteq> Ok () \<Longrightarrow> map_of (so_files s') (so_ack_file s) = map_of (so_files s) (so_ack_file s)"
  using assms ack_tmp_not_ack [of pid s client]
  by (auto simp: store_ack_def create_dir_all_def content_def Let_def dict_simps
      split: option.splits prod.splits)

text \<open>Acknowledgements are atomic and private: after a client stores a cursor, it reads back that
  cursor if the store succeeded, and the previous one if any step of it failed; another client's
  cursor and all day files are as before either way.\<close>

theorem ack_store_load:
  assumes "store_ack io pid (for_client ex files client) cursor = (s', res)"
  shows "load_ack (\<lambda>_. None) s'
      = (if res = Ok () then cursor else load_ack (\<lambda>_. None) (for_client ex files client))
    \<and> (\<forall>other. sanitize_client other \<noteq> sanitize_client client \<longrightarrow>
         load_ack io' (for_client (so_exists s') (so_files s') other) = load_ack io' (for_client ex files other))
    \<and> map_of (so_files s') (day_file d) = map_of files (day_file d)"
proof (intro conjI allI impI)
  let ?s = "for_client ex files client"
  note own = store_ack_own [OF assms for_client_ack]
  show "load_ack (\<lambda>_. None) s' = (if res = Ok () then cursor else load_ack (\<lambda>_. None) ?s)"
    using own by (auto simp: load_ack_def split: option.splits)
  show "map_of (so_files s') (day_file d) = map_of files (day_file d)"
    using store_ack_files [OF assms] day_file_not_ack by (simp add: for_client_ack)
  fix other assume "sanitize_client other \<noteq> sanitize_client client"
  then have "ack_name other \<noteq> ack_name client" by (simp add: ack_name_inj)
  then have "map_of (so_files s') (ack_name other) = map_of files (ack_name other)"
    using store_ack_files [OF assms, of "ack_name other"] ack_tmp_not_ack [of pid ?s other]
    by (simp add: for_client_ack eq_commute)
  then show "load_ack io' (for_client (so_exists s') (so_files s') other) = load_ack io' (for_client ex files other)"
    by (cases "map_of files (ack_name other)") (simp_all add: load_ack_def for_client_ack)
qed

text \<open>Storing an acknowledgement leaves the log as it is.\<close>

lemma ack_files_no_day: "file_day (ack_name client) = None" "file_day (ack_tmp pid s) = None"
proof -
  have "strip_suffix (ack_name client) ''.jsonl'' = None"
    using ack_name_no_dot [of client] by (auto simp: strip_suffix_def suffix_def)
  then show "file_day (ack_name client) = None" by (simp add: file_day_def)
  have "\<not> suffix ''.jsonl'' (ack_tmp pid s)"
    by (simp add: ack_tmp_def suffix_to_prefix)
  then show "file_day (ack_tmp pid s) = None" by (simp add: file_day_def strip_suffix_def)
qed

lemma store_ack_wf:
  assumes "store_ack io pid s cursor = (s', res)" "so_ack_file s = ack_name client" "wf_spool s"
  shows "wf_spool s'" "map_of (so_files s') (day_file d) = map_of (so_files s) (day_file d)"
proof -
  have same: "map_of (so_files s') name = map_of (so_files s) name" if "file_day name \<noteq> None" for name
    using store_ack_files [OF assms(1), of name] that ack_files_no_day assms(2) by metis
  then show "map_of (so_files s') (day_file d) = map_of (so_files s) (day_file d)" by simp
  have "distinct (keys (so_files s))" using assms(3) by (simp add: wf_spool_def)
  then have "distinct (keys (so_files s')) \<and> (so_files s' \<noteq> [] \<longrightarrow> so_exists s')"
    using assms(1,3)
    by (auto simp: store_ack_def create_dir_all_def Let_def distinct_update distinct_delete wf_spool_def
        split: option.splits)
  moreover have "name = day_file d \<and> unat d < 2 ^ 24 \<and> length (content s' name) < 2 ^ 40"
    if "map_of (so_files s') name \<noteq> None" "file_day name = Some d" for name d
  proof -
    from same [of name] that have "map_of (so_files s) name \<noteq> None" "content s' name = content s name"
      by (simp_all add: content_def)
    with assms(3) that(2) show ?thesis unfolding wf_spool_def by metis
  qed
  ultimately show "wf_spool s'" unfolding wf_spool_def by blast
qed

lemma log_cong:
  assumes "wf_spool s" "wf_spool s'" "\<And>d. map_of (so_files s') (day_file d) = map_of (so_files s) (day_file d)"
  shows "log s' = log s"
proof (rule strict_fst_unique [OF log_sorted [OF assms(2)] log_sorted [OF assms(1)]])
  show "set (log s') = set (log s)"
    using assms(3) by (auto simp: set_log [OF assms(1)] set_log [OF assms(2)] set_spool_days [OF assms(1)]
        set_spool_days [OF assms(2)] day_log_def content_def)
qed

section \<open>Cleaning up\<close>

definition outdated :: "u64 \<Rightarrow> u64 \<Rightarrow> u64 \<Rightarrow> bool" where
  "outdated now keep d \<longleftrightarrow> unat d + unat keep < unat now div 86400000"

lemma outdated_iff:
  assumes "unat d < 2 ^ 24" "unat keep < 2 ^ 63"
  shows "d + keep < now div DAY_MS \<longleftrightarrow> outdated now keep d"
proof -
  have "unat d + unat keep < 2 ^ LENGTH(64)" using assms by simp
  then have "unat (d + keep) = unat d + unat keep"
    by (simp only: unat_word_ariths(1) mod_less)
  moreover have "unat (now div DAY_MS) = unat now div 86400000"
    by (simp add: unat_div DAY_MS_def)
  ultimately show ?thesis by (simp add: word_less_nat_alt outdated_def)
qed

lemma cleanup_days_files:
  assumes "unat keep < 2 ^ 63"
  shows "\<forall>d \<in> set ds. unat d < 2 ^ 24 \<and> map_of (so_files s) (day_file d) \<noteq> None \<Longrightarrow> distinct ds \<Longrightarrow>
    cleanup_days io (now div DAY_MS) keep s ds n = (s', res) \<Longrightarrow>
    (\<forall>name. map_of (so_files s') name = map_of (so_files s) name
       \<or> (\<exists>d \<in> set ds. name = day_file d \<and> outdated now keep d \<and> map_of (so_files s') name = None))
    \<and> (io = (\<lambda>_. None) \<longrightarrow> res = Ok (n + length (filter (outdated now keep) ds))
       \<and> (\<forall>d \<in> set ds. outdated now keep d \<longrightarrow> map_of (so_files s') (day_file d) = None))"
proof (induction ds arbitrary: s n)
  case (Cons d ds)
  have o: "d + keep < now div DAY_MS \<longleftrightarrow> outdated now keep d"
    using Cons.prems(1) by (intro outdated_iff [OF _ assms]) simp
  show ?case
  proof (cases "outdated now keep d \<and> io (F_Remove (day_file d)) = None")
    case True
    let ?s = "s\<lparr>so_files := AList.delete (day_file d) (so_files s)\<rparr>"
    have run: "cleanup_days io (now div DAY_MS) keep ?s ds (n + 1) = (s', res)"
      using Cons.prems(1,3) True o by (simp split: if_splits)
    have other: "\<forall>d' \<in> set ds. unat d' < 2 ^ 24 \<and> map_of (so_files ?s) (day_file d') \<noteq> None"
      using Cons.prems(1,2) by (auto simp: dict_simps)
    have dist: "distinct ds" using Cons.prems(2) by simp
    from Cons.IH [OF other dist run] show ?thesis
      using True by (auto simp: dict_simps split: if_splits)
  next
    case False
    then have "cleanup_days io (now div DAY_MS) keep s ds n = (s', res)
      \<or> (s' = s \<and> (\<exists>e. res = Err e) \<and> io \<noteq> (\<lambda>_. None))"
      using Cons.prems(3) o by (auto split: option.splits)
    with Cons.IH [of s n] Cons.prems(1,2) False show ?thesis by auto
  qed
qed simp

text \<open>Cleaning up deletes old days only: whatever fails, every file that is not a day file more than
  \<open>keep\<close> days before today keeps its content, and when nothing fails all the older ones are gone and
  counted.\<close>

theorem cleanup_exact:
  assumes "wf_spool s" "unat keep < 2 ^ 63" "cleanup io s now keep = (s', res)"
  shows "(\<forall>name. map_of (so_files s') name = map_of (so_files s) name
       \<or> (\<exists>d. name = day_file d \<and> outdated now keep d \<and> map_of (so_files s') name = None))
    \<and> (io = (\<lambda>_. None) \<longrightarrow> res = Ok (length (filter (outdated now keep) (spool_days s)))
       \<and> (\<forall>d. outdated now keep d \<longrightarrow> map_of (so_files s') (day_file d) = None))"
proof -
  have ds: "\<forall>d \<in> set (spool_days s). unat d < 2 ^ 24 \<and> map_of (so_files s) (day_file d) \<noteq> None"
    "distinct (spool_days s)"
    using spool_days_bound [OF assms(1)] set_spool_days [OF assms(1)] spool_days_sorted [OF assms(1)]
    by (auto simp: strict_sorted_iff)
  from days_spool_days [OF assms(1), of io] show ?thesis
  proof
    assume d: "days io s = Ok (spool_days s)"
    have run: "cleanup_days io (now div DAY_MS) keep s (spool_days s) 0 = (s', res)"
      using assms(3) by (simp add: cleanup_def d)
    have "map_of (so_files s') (day_file d) = None"
      if "io = (\<lambda>_. None)" "outdated now keep d" for d
      using cleanup_days_files [OF assms(2) ds run] set_spool_days [OF assms(1), of d] that by metis
    with cleanup_days_files [OF assms(2) ds run] show ?thesis by (metis add_0)
  next
    assume "\<exists>e. days io s = Err e \<and> io \<noteq> (\<lambda>_. None)"
    with assms(3) show ?thesis by (auto simp: cleanup_def)
  qed
qed

section \<open>Witnesses\<close>

definition ex_payload :: spool_record where
  "ex_payload = \<lparr>sp_ts_ms = 86400005, sp_agent = ''claude'', sp_session = ''main'', sp_pane_id = 3,
     sp_payload = JNull\<rparr>"

definition ex_parse :: "string \<Rightarrow> spool_record option" where
  "ex_parse l = (if l = ''rec'' then Some ex_payload else None)"

definition ex_spool :: spool where
  "ex_spool = for_client True [(day_file 1, ''rec'' @ [newline])] ''app1''"

theorem cursor_roundtrip_witness:
  "split_cursor (make_cursor 20000 512) = (20000, 512) \<and> make_cursor 20000 512 < make_cursor 20001 3"
  using cursor_roundtrip [of 20000 512 20001 3] by simp

lemma ex_spool_wf: "wf_spool ex_spool"
proof -
  have "map_of (so_files ex_spool) name = (if name = day_file 1 then Some (''rec'' @ [newline]) else None)" for name
    by (simp add: ex_spool_def)
  then show ?thesis by (auto simp: wf_spool_def content_def ex_spool_def split: if_splits)
qed

lemma ex_spool_start: "cursor_day 0 = 0" "cursor_offset 0 = 0"
  by (simp_all add: split_cursor_def)

lemma ex_spool_aligned: "aligned s 0"
  by (simp add: aligned_def ex_spool_start split: option.splits)

theorem read_after_refines_log_witness:
  "\<exists>r. read_after (\<lambda>_. None) ex_parse ex_spool 0 200000000 = Ok r"
  using read_after_refines_log [OF ex_spool_wf ex_spool_aligned, of "\<lambda>_. None" ex_parse 200000000] by blast

theorem reads_compose_witness:
  "\<exists>r1 r2 r. read_after (\<lambda>_. None) ex_parse ex_spool 0 100 = Ok r1
     \<and> read_after (\<lambda>_. None) ex_parse ex_spool (rr_end_cursor r1) 200000000 = Ok r2
     \<and> read_after (\<lambda>_. None) ex_parse ex_spool 0 200000000 = Ok r
     \<and> rr_records r = rr_records r1 @ rr_records r2"
proof -
  note read = read_after_unread [OF ex_spool_wf ex_spool_aligned, of "\<lambda>_. None" ex_parse]
  obtain r1 r where r1: "read_after (\<lambda>_. None) ex_parse ex_spool 0 100 = Ok r1"
    and r: "read_after (\<lambda>_. None) ex_parse ex_spool 0 200000000 = Ok r"
    using read [of 100] read [of 200000000] by blast
  have "unread ex_spool 0 100 = []"
  proof -
    have "\<not> (0 < k \<and> (cursor_day k = cursor_day 0 \<or> day_open 100 (cursor_day k)))"
      if "(k, l) \<in> set (log ex_spool)" for k l
    proof -
      from that have "cursor_day k \<in> set (spool_days ex_spool)" by (simp add: set_log [OF ex_spool_wf])
      then have "cursor_day k = 1"
        by (auto simp: set_spool_days [OF ex_spool_wf]) (simp add: ex_spool_def split: if_splits)
      then show ?thesis by (simp add: ex_spool_start day_open_def)
    qed
    then show ?thesis by (auto simp: unread_def filter_empty_conv)
  qed
  then have e: "rr_end_cursor r1 = 0" using read [of 100] r1 by (auto simp: absorb_def)
  have g: "grows ex_spool ex_spool (cursor_day (rr_end_cursor r1))"
    by (auto simp: grows_def intro: exI [of _ "[]"])
  have r2: "read_after (\<lambda>_. None) ex_parse ex_spool (rr_end_cursor r1) 200000000 = Ok r"
    using r by (simp only: e)
  from reads_compose [OF ex_spool_wf ex_spool_wf ex_spool_aligned ex_spool_aligned _ r1 g r2 r]
  have "rr_records r = rr_records r1 @ rr_records r" by simp
  with r1 r2 r show ?thesis by blast
qed

theorem append_then_read_witness:
  "\<exists>s' r k. append_record (\<lambda>_. None) (\<lambda>_. Ok ''rec'') ex_spool ex_payload = (s', Ok ())
     \<and> read_after (\<lambda>_. None) ex_parse s' 0 200000000 = Ok r \<and> (k, ex_payload) \<in> set (rr_records r)"
proof -
  have d: "sp_ts_ms ex_payload div DAY_MS = 1"
    by (simp add: ex_payload_def DAY_MS_def)
  have c: "content ex_spool (day_file 1) = ''rec'' @ [newline]"
    by (simp add: content_def ex_spool_def)
  have app: "appendable ex_spool (sp_ts_ms ex_payload div DAY_MS) ''rec''"
    using ex_spool_wf by (simp add: appendable_def d c)
  have "within ex_spool 0" by (simp add: within_def ex_spool_aligned ex_spool_start)
  moreover have "cursor_day 0 < sp_ts_ms ex_payload div DAY_MS \<and> day_open 200000000 (sp_ts_ms ex_payload div DAY_MS)"
    by (simp add: d ex_spool_start day_open_def)
  moreover obtain r0 where "read_after (\<lambda>_. None) ex_parse ex_spool 0 200000000 = Ok r0"
    using read_after_unread [OF ex_spool_wf ex_spool_aligned, of "\<lambda>_. None" ex_parse 200000000] by blast
  ultimately show ?thesis
    using append_then_read [OF app, of 0 "\<lambda>_. Ok ''rec''" ex_parse 200000000 r0]
    by (auto simp: ex_parse_def)
qed

theorem ack_store_load_witness:
  "load_ack (\<lambda>_. None) (fst (store_ack (\<lambda>_. None) 77 (for_client True [] ''app1'') 4711)) = 4711"
proof -
  obtain s' res where s: "store_ack (\<lambda>_. None) 77 (for_client True [] ''app1'') 4711 = (s', res)" by fastforce
  then have "res = Ok ()" by (auto simp: store_ack_def create_dir_all_def Let_def)
  with ack_store_load [OF s] s show ?thesis by simp
qed

theorem cleanup_exact_witness:
  "map_of (so_files (fst (cleanup (\<lambda>_. None) ex_spool 1728000000 7))) (day_file 1) = None"
proof -
  obtain s' res where s: "cleanup (\<lambda>_. None) ex_spool 1728000000 7 = (s', res)" by fastforce
  have "outdated 1728000000 7 1" by (simp add: outdated_def)
  with cleanup_exact [OF ex_spool_wf _ s] s show ?thesis by simp
qed

text \<open>A file whose name parses as a day but is not the name \<open>day_file\<close> gives that day makes every read
  fail: the reader looks for the canonical name.\<close>

lemma stray_day_file_fails:
  "read_after (\<lambda>_. None) de (for_client True [(''007.jsonl'', [])] client) 0 900000000 = Err ''not found''"
proof -
  have "strip_suffix ''007.jsonl'' ''.jsonl'' = Some ''007''"
    by (simp add: strip_suffix_def suffix_to_prefix)
  then have f: "file_day ''007.jsonl'' = Some 7"
    by (simp add: file_day_def parse_u64_def parse_nat_def is_ascii_digit_def byte_def)
  have "digit_char 7 = CHR ''7''" by code_simp
  then have d: "day_file 7 = ''7.jsonl''"
    by (simp add: day_file_def show_u64_def show_nat.simps)
  have days: "days (\<lambda>_. None) (for_client True [(''007.jsonl'', [])] client) = Ok [7]"
    by (simp add: days_def List.map_filter_def f)
  have "\<not> (900000000 :: u64) < saturating_add (7 * DAY_MS) DAY_GRACE_MS"
    by (subst day_open_iff) (simp_all add: day_open_def)
  then show ?thesis
    by (simp add: read_after_def days ex_spool_start read_day_def d Let_def)
qed

end
