(* ===== verification/Hookmap.thy ===== *)
theory Hookmap
  imports Mai_Protocol Mai_Json
begin

text \<open>
  From raw hook payloads to agent states (\<open>crates/mai-probe/src/hookmap.rs\<close>). \<open>de_state\<close> is
  \<open>serde_json::from_value::<AgentState>\<close>.
\<close>

definition MAX_MESSAGE_CHARS :: nat where "MAX_MESSAGE_CHARS = 120"

record mapped =
  ma_state :: agent_state
  ma_message :: "string option"

definition str_field :: "json \<Rightarrow> string \<Rightarrow> string option" where
  "str_field v key = Option.bind (get_field v key) as_str"

definition short :: "string option \<Rightarrow> string option" where
  "short t = Option.bind t (\<lambda>t.
     map_option (take_chars MAX_MESSAGE_CHARS) (find (\<lambda>l. l \<noteq> []) (map trim (lines t))))"

definition map_claude :: "json \<Rightarrow> mapped option" where
  "map_claude p = Option.bind (str_field p ''hook_event_name'') (\<lambda>ev.
     if ev = ''SessionStart'' then Some \<lparr>ma_state = Unknown, ma_message = None\<rparr>
     else if ev = ''UserPromptSubmit'' \<or> ev = ''PreToolUse'' \<or> ev = ''PostToolUse''
       then Some \<lparr>ma_state = Working, ma_message = None\<rparr>
     else if ev = ''Notification'' then
       Option.bind (str_field p ''notification_type'') (\<lambda>n.
         if n = ''permission_prompt''
           then Some \<lparr>ma_state = NeedsInput, ma_message = short (str_field p ''message'')\<rparr>
         else if n = ''idle_prompt'' then Some \<lparr>ma_state = Done, ma_message = None\<rparr>
         else None)
     else if ev = ''Stop''
       then Some \<lparr>ma_state = Done, ma_message = short (str_field p ''last_assistant_message'')\<rparr>
     else if ev = ''SessionEnd'' then Some \<lparr>ma_state = Exited, ma_message = None\<rparr>
     else None)"

definition map_codex :: "json \<Rightarrow> mapped option" where
  "map_codex p = Option.bind (str_field p ''hook_event_name'') (\<lambda>ev.
     if ev = ''SessionStart'' then Some \<lparr>ma_state = Unknown, ma_message = None\<rparr>
     else if ev = ''UserPromptSubmit'' \<or> ev = ''PreToolUse'' \<or> ev = ''PostToolUse''
       then Some \<lparr>ma_state = Working, ma_message = None\<rparr>
     else if ev = ''PermissionRequest'' then
       (let input = (case get_field p ''tool_input'' of None \<Rightarrow> JNull | Some v \<Rightarrow> v);
            msg = (case str_field input ''description'' of
                     Some d \<Rightarrow> Some d
                   | None \<Rightarrow> str_field p ''tool_name'')
        in Some \<lparr>ma_state = NeedsInput, ma_message = short msg\<rparr>)
     else if ev = ''Stop''
       then Some \<lparr>ma_state = Done, ma_message = short (str_field p ''last_assistant_message'')\<rparr>
     else if ev = ''Interrupt'' then Some \<lparr>ma_state = Done, ma_message = None\<rparr>
     else if ev = ''SessionEnd'' then Some \<lparr>ma_state = Exited, ma_message = None\<rparr>
     else None)"

definition map_generic :: "(json \<Rightarrow> agent_state option) \<Rightarrow> json \<Rightarrow> mapped option" where
  "map_generic de_state p =
     Option.bind (get_field p ''state'') (\<lambda>v.
       Option.bind (de_state v) (\<lambda>st.
         Some \<lparr>ma_state = st, ma_message = short (str_field p ''message'')\<rparr>))"

definition map_hook :: "(json \<Rightarrow> agent_state option) \<Rightarrow> string \<Rightarrow> json \<Rightarrow> mapped option" where
  "map_hook de_state agent payload =
     (if agent = ''claude'' then map_claude payload
      else if agent = ''codex'' then map_codex payload
      else map_generic de_state payload)"

section \<open>The message is short\<close>

text \<open>The number of characters of a UTF-8 string: its bytes that start one.\<close>

definition char_count :: "string \<Rightarrow> nat" where
  "char_count s = length (filter (\<lambda>c. \<not> is_cont c) s)"

lemma take_chars_count: "char_count (take_chars n s) \<le> n"
proof (induction n s rule: take_chars.induct)
  case (3 n c cs)
  have "filter (\<lambda>c. \<not> is_cont c) (takeWhile is_cont cs) = []"
    by (auto simp: filter_empty_conv dest: set_takeWhileD)
  with 3 show ?case by (simp add: char_count_def)
qed (simp_all add: char_count_def)

lemma short_message: "short t = Some m \<Longrightarrow> char_count m \<le> 120 \<and> (\<exists>s l. t = Some s \<and> l \<in> set (lines s) \<and> prefix m (trim l))"
proof -
  assume "short t = Some m"
  then obtain s l where "t = Some s" "find (\<lambda>l. l \<noteq> []) (map trim (lines s)) = Some l" "m = take_chars 120 l"
    by (auto simp: short_def MAX_MESSAGE_CHARS_def split: Option.bind_splits)
  moreover from this(2) have "l \<in> trim ` set (lines s)"
    by (metis find_Some_iff list.set_map nth_mem)
  ultimately show ?thesis using take_chars_count take_chars_prefix by blast
qed

lemma map_hook_message:
  "map_hook de_state agent p = Some m \<Longrightarrow> ma_message m = Some t \<Longrightarrow> \<exists>x. short x = Some t"
  by (auto simp: map_hook_def map_claude_def map_codex_def map_generic_def Let_def
      split: if_splits Option.bind_splits)

end
