(* ===== verification/Scrape.thy ===== *)
theory Scrape
  imports Mai_Protocol
begin

text \<open>
  The screen-scrape fallback (\<open>crates/mai-probe/src/scrape.rs\<close>): which agent a pane shows, and its
  state from the changes and the patterns of the screen.

  The \<open>regex\<close> crate is an argument: \<open>rx_new\<close> compiles a pattern, \<open>rx_match\<close> is \<open>is_match\<close>, \<open>rx_remove\<close> is
  \<open>replace_all\<close> with the empty string. \<open>hash\<close> is the standard library's \<open>DefaultHasher\<close> on a screen.
\<close>

record 'r regex_lib =
  rx_new :: "string \<Rightarrow> string + 'r"
  rx_match :: "'r \<Rightarrow> string \<Rightarrow> bool"
  rx_remove :: "'r \<Rightarrow> string \<Rightarrow> string"

record rule_error =
  re_agent :: string
  re_pattern :: string
  re_source :: string

definition show_rule_error :: "rule_error \<Rightarrow> string" where
  "show_rule_error e =
     ''agent '' @ [CHR 39] @ re_agent e @ [CHR 39] @ '': bad pattern '' @ [CHR 39] @ re_pattern e
     @ [CHR 39] @ '': '' @ re_source e"

record 'r compiled_rule =
  cr_name :: string
  cr_stable_ms :: u64
  cr_title :: "'r list"
  cr_screen :: "'r list"
  cr_needs_input :: "'r list"
  cr_done :: "'r list"
  cr_ignore :: "'r list"

fun compile_all :: "'r regex_lib \<Rightarrow> string \<Rightarrow> string list \<Rightarrow> rule_error + 'r list" where
  "compile_all rx agent [] = Ok []"
| "compile_all rx agent (p # ps) =
     (case rx_new rx p of
        Err e \<Rightarrow> Err \<lparr>re_agent = agent, re_pattern = p, re_source = e\<rparr>
      | Ok r \<Rightarrow> (case compile_all rx agent ps of Err e \<Rightarrow> Err e | Ok rs \<Rightarrow> Ok (r # rs)))"

definition any_match :: "'r regex_lib \<Rightarrow> 'r list \<Rightarrow> string \<Rightarrow> bool" where
  "any_match rx res s = list_ex (\<lambda>r. rx_match rx r s) res"

definition compile_rule :: "'r regex_lib \<Rightarrow> agent_rule \<Rightarrow> rule_error + 'r compiled_rule" where
  "compile_rule rx r =
     (case compile_all rx (ru_name r) (ru_title_patterns r) of Err e \<Rightarrow> Err e | Ok t \<Rightarrow>
     (case compile_all rx (ru_name r) (ru_screen_patterns r) of Err e \<Rightarrow> Err e | Ok s \<Rightarrow>
     (case compile_all rx (ru_name r) (ru_needs_input_patterns r) of Err e \<Rightarrow> Err e | Ok n \<Rightarrow>
     (case compile_all rx (ru_name r) (ru_done_patterns r) of Err e \<Rightarrow> Err e | Ok d \<Rightarrow>
     (case compile_all rx (ru_name r) (ru_ignore_patterns r) of Err e \<Rightarrow> Err e | Ok i \<Rightarrow>
       Ok \<lparr>cr_name = ru_name r, cr_stable_ms = ru_stable_ms r, cr_title = t, cr_screen = s,
           cr_needs_input = n, cr_done = d, cr_ignore = i\<rparr>)))))"

definition clean :: "'r regex_lib \<Rightarrow> 'r compiled_rule \<Rightarrow> string \<Rightarrow> string" where
  "clean rx r screen =
     fold (\<lambda>re out. if rx_match rx re out then rx_remove rx re out else out) (cr_ignore r) screen"

type_synonym 'r compiled_rules = "'r compiled_rule list"

fun compile_rules :: "'r regex_lib \<Rightarrow> agent_rule list \<Rightarrow> rule_error + 'r compiled_rules" where
  "compile_rules rx [] = Ok []"
| "compile_rules rx (r # rs) =
     (case compile_rule rx r of
        Err e \<Rightarrow> Err e
      | Ok c \<Rightarrow> (case compile_rules rx rs of Err e \<Rightarrow> Err e | Ok cs \<Rightarrow> Ok (c # cs)))"

definition title_matches :: "'r regex_lib \<Rightarrow> 'r compiled_rule \<Rightarrow> string \<Rightarrow> string option \<Rightarrow> bool" where
  "title_matches rx r title command \<longleftrightarrow>
     any_match rx (cr_title r) title
     \<or> (case command of None \<Rightarrow> False | Some c \<Rightarrow> any_match rx (cr_title r) c)"

definition identify_by_title ::
    "'r regex_lib \<Rightarrow> 'r compiled_rules \<Rightarrow> string \<Rightarrow> string option \<Rightarrow> string option" where
  "identify_by_title rx rules title command =
     map_option cr_name (find (\<lambda>r. title_matches rx r title command) rules)"

definition identify ::
    "'r regex_lib \<Rightarrow> 'r compiled_rules \<Rightarrow> string \<Rightarrow> string option \<Rightarrow> string \<Rightarrow> string option" where
  "identify rx rules title command screen =
     (case identify_by_title rx rules title command of
        Some a \<Rightarrow> Some a
      | None \<Rightarrow> map_option cr_name (find (\<lambda>r. any_match rx (cr_screen r) screen) rules))"

definition rule_named :: "'r compiled_rules \<Rightarrow> string \<Rightarrow> 'r compiled_rule option" where
  "rule_named rules name = find (\<lambda>r. cr_name r = name) rules"

definition still_matches ::
    "'r regex_lib \<Rightarrow> 'r compiled_rules \<Rightarrow> string \<Rightarrow> string \<Rightarrow> string option \<Rightarrow> string \<Rightarrow> bool" where
  "still_matches rx rules agent title command screen =
     (case rule_named rules agent of
        None \<Rightarrow> False
      | Some r \<Rightarrow>
          title_matches rx r title command
          \<or> (let screen = clean rx r screen
             in any_match rx (cr_screen r) screen \<or> any_match rx (cr_needs_input r) screen
                \<or> any_match rx (cr_done r) screen))"

section \<open>Per-pane history\<close>

record pane_scrape =
  ps_hash :: u64
  ps_stable_since_ms :: u64
  ps_emitted :: "agent_state option"

type_synonym scrape_tracker = "(pane_ref, pane_scrape) dict"

text \<open>The state inferred for a pane already known, with its history updated.\<close>

definition observe_pane ::
    "'r regex_lib \<Rightarrow> 'r compiled_rule \<Rightarrow> u64 \<Rightarrow> pane_scrape \<Rightarrow> string \<Rightarrow> u64
      \<Rightarrow> pane_scrape \<times> agent_state option" where
  "observe_pane rx rule h p screen now_ms =
     (let (p1, next) =
        (if ps_hash p \<noteq> h
         then (p\<lparr>ps_hash := h, ps_stable_since_ms := now_ms\<rparr>, Some Working)
         else if saturating_sub now_ms (ps_stable_since_ms p) < cr_stable_ms rule then (p, None)
         else if any_match rx (cr_needs_input rule) screen then (p, Some NeedsInput)
         else if any_match rx (cr_done rule) screen then (p, Some Done)
         else (p\<lparr>ps_emitted := None\<rparr>, None))
      in case next of
           None \<Rightarrow> (p1, None)
         | Some st \<Rightarrow>
             if ps_emitted p1 = Some st then (p1, None)
             else (p1\<lparr>ps_emitted := Some st\<rparr>, Some st))"

definition observe ::
    "'r regex_lib \<Rightarrow> (string \<Rightarrow> u64) \<Rightarrow> 'r compiled_rules \<Rightarrow> scrape_tracker \<Rightarrow> string \<Rightarrow> pane_ref
      \<Rightarrow> string \<Rightarrow> u64 \<Rightarrow> scrape_tracker \<times> agent_state option" where
  "observe rx hash rules t agent pane screen now_ms =
     (case rule_named rules agent of
        None \<Rightarrow> (t, None)
      | Some rule \<Rightarrow>
          (let screen = clean rx rule screen; h = hash screen
           in case map_of t pane of
                None \<Rightarrow>
                  (AList.update pane
                     \<lparr>ps_hash = h, ps_stable_since_ms = now_ms, ps_emitted = None\<rparr> t, None)
              | Some p \<Rightarrow>
                  (let (p', st) = observe_pane rx rule h p screen now_ms
                   in (AList.update pane p' t, st))))"

definition scrape_forget :: "scrape_tracker \<Rightarrow> pane_ref \<Rightarrow> scrape_tracker" where
  "scrape_forget t pane = AList.delete pane t"

definition scrape_reset :: "scrape_tracker \<Rightarrow> scrape_tracker" where
  "scrape_reset t = []"

section \<open>Alerts need a stable screen\<close>

text \<open>The observations of one pane, as inputs of a machine whose outputs are the states returned.\<close>

definition observe_step ::
    "'r regex_lib \<Rightarrow> (string \<Rightarrow> u64) \<Rightarrow> 'r compiled_rules \<Rightarrow> string \<Rightarrow> pane_ref \<Rightarrow> scrape_tracker
      \<Rightarrow> string \<times> u64 \<Rightarrow> scrape_tracker \<times> agent_state list" where
  "observe_step rx hash rules agent pane t ob =
     (let (t', st) = observe rx hash rules t agent pane (fst ob) (snd ob)
      in (t', case st of None \<Rightarrow> [] | Some a \<Rightarrow> [a]))"

definition stable_block ::
    "(string \<Rightarrow> u64) \<Rightarrow> (string \<times> u64) list \<Rightarrow> pane_scrape \<Rightarrow> bool" where
  "stable_block h obs p \<longleftrightarrow>
     (\<exists>xs block. obs = xs @ block \<and> block \<noteq> [] \<and> (\<forall>ob \<in> set block. h (fst ob) = ps_hash p)
        \<and> ps_stable_since_ms p = snd (hd block))"

lemma observe_pane_block:
  assumes "stable_block h obs p" "observe_pane rx rule (h (fst ob)) p screen (snd ob) = (p', st)"
  shows "stable_block h (obs @ [ob]) p'"
proof (cases "ps_hash p = h (fst ob)")
  case True
  with assms(2) have "ps_hash p' = ps_hash p" "ps_stable_since_ms p' = ps_stable_since_ms p"
    by (auto simp: observe_pane_def Let_def split: if_splits option.splits)
  moreover from assms(1) obtain xs block where "obs = xs @ block" "block \<noteq> []"
    "\<forall>ob \<in> set block. h (fst ob) = ps_hash p" "ps_stable_since_ms p = snd (hd block)"
    unfolding stable_block_def by blast
  ultimately show ?thesis
    using True unfolding stable_block_def by (intro exI [of _ xs] exI [of _ "block @ [ob]"]) auto
next
  case False
  with assms(2) have "ps_hash p' = h (fst ob)" "ps_stable_since_ms p' = snd ob"
    by (auto simp: observe_pane_def Let_def split: if_splits option.splits)
  then show ?thesis unfolding stable_block_def by (intro exI [of _ obs] exI [of _ "[ob]"]) simp
qed

lemma observe_step_known:
  "rule_named rules agent = Some rule \<Longrightarrow> map_of t pane = Some p \<Longrightarrow>
   observe_pane rx rule (hash (clean rx rule (fst ob))) p (clean rx rule (fst ob)) (snd ob) = (p', st) \<Longrightarrow>
   map_of (fst (observe_step rx hash rules agent pane t ob)) pane = Some p'"
  by (simp add: observe_step_def observe_def Let_def dict_simps)

lemma observe_run_block:
  assumes "rule_named rules agent = Some rule" "map_of t pane = None" "obs \<noteq> []"
  shows "\<exists>p. map_of (fst (run_steps (observe_step rx hash rules agent pane) t obs)) pane = Some p
    \<and> stable_block (\<lambda>screen. hash (clean rx rule screen)) obs p"
  using assms(3)
proof (induction obs rule: rev_induct)
  case (snoc ob obs)
  let ?t = "fst (run_steps (observe_step rx hash rules agent pane) t obs)"
  have last: "fst (run_steps (observe_step rx hash rules agent pane) t (obs @ [ob]))
      = fst (observe_step rx hash rules agent pane ?t ob)"
    by (simp add: run_steps_append split_beta run_steps.simps)
  show ?case
  proof (cases "obs = []")
    case True
    with assms(1,2) show ?thesis
      by (simp add: last observe_step_def observe_def Let_def split_beta dict_simps stable_block_def)
        (intro exI [of _ "[]"] exI [of _ "[ob]"], simp)
  next
    case False
    with snoc.IH obtain p where p: "map_of ?t pane = Some p"
      "stable_block (\<lambda>screen. hash (clean rx rule screen)) obs p" by blast
    obtain p' st where o: "observe_pane rx rule (hash (clean rx rule (fst ob))) p (clean rx rule (fst ob)) (snd ob) = (p', st)"
      by fastforce
    from observe_pane_block [OF p(2), of rx rule ob "clean rx rule (fst ob)"] o
    have "stable_block (\<lambda>screen. hash (clean rx rule screen)) (obs @ [ob]) p'" by simp
    with observe_step_known [OF assms(1) p(1), of rx hash ob p' st] o show ?thesis by (simp only: last) blast
  qed
qed simp

text \<open>Scraping alerts only for a screen at rest: when an observation of a pane makes the scraper
  report NeedsInput or Done, the pane's cleaned screen has hashed the same in an unbroken series of
  observations up to now whose first lies at least the rule's stable time back, and it matches a
  pattern of that state (NeedsInput taking precedence).\<close>

theorem scrape_alert_is_stable:
  assumes "rule_named rules agent = Some rule" and "map_of t pane = None"
    and "snd (observe rx hash rules (fst (run_steps (observe_step rx hash rules agent pane) t obs))
           agent pane screen now) = Some st"
    and "st \<noteq> Working"
  shows "\<exists>xs block. obs = xs @ block \<and> block \<noteq> []
      \<and> (\<forall>ob \<in> set block. hash (clean rx rule (fst ob)) = hash (clean rx rule screen))
      \<and> cr_stable_ms rule \<le> saturating_sub now (snd (hd block))
    \<and> (st = NeedsInput \<and> any_match rx (cr_needs_input rule) (clean rx rule screen)
       \<or> st = Done \<and> any_match rx (cr_done rule) (clean rx rule screen)
         \<and> \<not> any_match rx (cr_needs_input rule) (clean rx rule screen))"
proof -
  let ?t = "fst (run_steps (observe_step rx hash rules agent pane) t obs)"
  have "obs \<noteq> []"
  proof
    assume "obs = []"
    with assms show False by (simp add: observe_def Let_def)
  qed
  from observe_run_block [OF assms(1,2) this] obtain p where p: "map_of ?t pane = Some p"
    "stable_block (\<lambda>screen. hash (clean rx rule screen)) obs p" by blast
  with assms(1,3) have "snd (observe_pane rx rule (hash (clean rx rule screen)) p (clean rx rule screen) now) = Some st"
    by (simp add: observe_def Let_def split_beta)
  with assms(4) have "ps_hash p = hash (clean rx rule screen)"
    "cr_stable_ms rule \<le> saturating_sub now (ps_stable_since_ms p)"
    "st = NeedsInput \<and> any_match rx (cr_needs_input rule) (clean rx rule screen)
      \<or> st = Done \<and> any_match rx (cr_done rule) (clean rx rule screen)
        \<and> \<not> any_match rx (cr_needs_input rule) (clean rx rule screen)"
    by (auto simp: observe_pane_def Let_def not_less split: if_splits option.splits)
  with p(2) show ?thesis unfolding stable_block_def by metis
qed

section \<open>Witness\<close>

text \<open>A pattern library in which a pattern matches the screens that contain it.\<close>

definition ex_rx :: "string regex_lib" where
  "ex_rx = \<lparr>rx_new = Ok, rx_match = (\<lambda>p s. p = s), rx_remove = (\<lambda>p s. s)\<rparr>"

definition ex_rule :: "string compiled_rule" where
  "ex_rule = \<lparr>cr_name = ''claude'', cr_stable_ms = 500, cr_title = [], cr_screen = [],
     cr_needs_input = [''ok?''], cr_done = [], cr_ignore = []\<rparr>"

lemmas scrape_eval = observe_step_def observe_def observe_pane_def rule_named_def clean_def
  any_match_def ex_rx_def ex_rule_def saturating_sub_def run_steps.simps Let_def

theorem scrape_alert_is_stable_witness:
  "\<exists>xs block. [(''ok?'', 1000)] = xs @ block \<and> block \<noteq> []
     \<and> cr_stable_ms ex_rule \<le> saturating_sub 2000 (snd (hd block))"
proof -
  let ?pane = "\<lparr>pr_session = ''main'', pr_pane_id = 3\<rparr>"
  have r: "rule_named [ex_rule] ''claude'' = Some ex_rule" by (simp add: rule_named_def ex_rule_def)
  have "snd (observe ex_rx (\<lambda>s. of_nat (length s)) [ex_rule]
      (fst (run_steps (observe_step ex_rx (\<lambda>s. of_nat (length s)) [ex_rule] ''claude'' ?pane) [] [(''ok?'', 1000)]))
      ''claude'' ?pane ''ok?'' 2000) = Some NeedsInput"
    by (simp add: scrape_eval)
  from scrape_alert_is_stable [OF r _ this] show ?thesis by auto
qed

end
