(* ===== verification/Serve.thy ===== *)
theory Serve
  imports Spool Hookmap Scrape
begin

text \<open>
  The core of \<open>mai-probe serve\<close> (\<open>crates/mai-probe/src/serve.rs\<close>): spool records, zellij's sessions and
  panes and screen dumps become \<open>ProbeMsg\<close>s, and \<open>AppMsg\<close>s are applied.

  What is outside is an argument: \<open>lib\<close> holds the JSON parsers, the regular expressions and the screen
  hash; \<open>io\<close> the failures of the spool's files; \<open>z\<close> the answers of zellij during one call. A \<open>HashSet\<close>
  is a list without repetitions; a \<open>BTreeMap\<close> is iterated in the order of its keys.
\<close>

section \<open>State\<close>

type_synonym u8 = "8 word"

definition MIN_INTERVAL_MS :: u64 where "MIN_INTERVAL_MS = 250"
definition SPOOL_KEEP_DAYS :: u64 where "SPOOL_KEEP_DAYS = 7"
definition CLEANUP_EVERY_MS :: u64 where "CLEANUP_EVERY_MS = 3600000"
definition MISSES_TO_EXIT :: u8 where "MISSES_TO_EXIT = 2"

record intervals =
  in_pane_poll_ms :: u64
  in_scrape_ms :: u64
  in_metrics_ms :: u64

definition default_intervals :: intervals where
  "default_intervals = \<lparr>in_pane_poll_ms = 2000, in_scrape_ms = 3000, in_metrics_ms = 2000\<rparr>"

record binding =
  bi_agent :: string
  bi_from_hook :: bool
  bi_misses :: u8

datatype scope = Sc_Sessions | Sc_Panes string | Sc_Dump pane_ref | Sc_Cleanup

record 'r serve_lib =
  sl_rx :: "'r regex_lib"
  sl_hash :: "string \<Rightarrow> u64"
  sl_de :: "string \<Rightarrow> spool_record option"
  sl_de_state :: "json \<Rightarrow> agent_state option"
  sl_de_app :: "string \<Rightarrow> string + app_msg"

text \<open>zellij's answers, each a result or an error text.\<close>

record zellij =
  zj_sessions :: "string + session_info list"
  zj_panes :: "string \<Rightarrow> string + pane_info list"
  zj_dump_screen :: "string \<Rightarrow> u32 \<Rightarrow> string + string"
  zj_paste :: "string \<Rightarrow> u32 \<Rightarrow> string \<Rightarrow> string + unit"
  zj_focus :: "string \<Rightarrow> u32 \<Rightarrow> u32 \<Rightarrow> string + unit"

text \<open>\<open>sv_zellij\<close> says whether the binary was found.\<close>

record 'r server =
  sv_zellij :: bool
  sv_spool :: spool
  sv_rules :: "'r compiled_rules"
  sv_scrape :: scrape_tracker
  sv_intervals :: intervals
  sv_read_cursor :: u64
  sv_last_pane_poll :: "u64 option"
  sv_last_scrape :: "u64 option"
  sv_last_cleanup :: "u64 option"
  sv_sessions :: "session_info list option"
  sv_panes :: "(string, pane_info list) dict"
  sv_agents :: "(pane_ref, binding) dict"
  sv_exit_hold :: "pane_ref list"
  sv_failing :: "scope list"
  sv_spool_failing :: bool

section \<open>Helpers\<close>

definition probe_error :: "string \<Rightarrow> string \<Rightarrow> probe_msg" where
  "probe_error code e = PM_Error code e"

definition due :: "u64 option \<Rightarrow> u64 \<Rightarrow> u64 \<Rightarrow> bool" where
  "due prev every_ms now_ms =
     (case prev of None \<Rightarrow> True | Some t \<Rightarrow> every_ms \<le> saturating_sub now_ms t)"

definition report :: "scope list \<Rightarrow> scope \<Rightarrow> probe_msg \<Rightarrow> scope list \<times> probe_msg list" where
  "report failing scope msg =
     (if scope \<in> set failing then (failing, []) else (scope # failing, [msg]))"

definition scrape_event :: "pane_ref \<Rightarrow> string \<Rightarrow> agent_state \<Rightarrow> u64 \<Rightarrow> probe_msg" where
  "scrape_event pane agent st now_ms =
     PM_AgentEvent \<lparr>ev_pane = pane, ev_agent = agent, ev_source = Scrape, ev_state = st,
       ev_message = None, ev_ts_ms = now_ms, ev_spool_offset = None\<rparr>"

definition sorted_items :: "('k::linorder, 'v) dict \<Rightarrow> ('k \<times> 'v) list" where
  "sorted_items d = map (\<lambda>k. (k, the (map_of d k))) (sort (keys d))"

definition hash_insert :: "'a \<Rightarrow> 'a list \<Rightarrow> 'a list" where
  "hash_insert x xs = (if x \<in> set xs then xs else x # xs)"

section \<open>Starting\<close>

definition server_new ::
    "'r serve_lib \<Rightarrow> io \<Rightarrow> bool \<Rightarrow> spool \<Rightarrow> scrape_rules \<Rightarrow> rule_error + 'r server" where
  "server_new lib io has_zellij spool rules =
     (case compile_rules (sl_rx lib) (sr_agents rules) of
        Err e \<Rightarrow> Err e
      | Ok compiled \<Rightarrow>
          Ok \<lparr>sv_zellij = has_zellij, sv_spool = spool, sv_rules = compiled, sv_scrape = [],
              sv_intervals = default_intervals, sv_read_cursor = load_ack io spool,
              sv_last_pane_poll = None, sv_last_scrape = None, sv_last_cleanup = None,
              sv_sessions = None, sv_panes = [], sv_agents = [], sv_exit_hold = [],
              sv_failing = [], sv_spool_failing = False\<rparr>)"

section \<open>The spool\<close>

definition hook_event :: "u64 \<Rightarrow> spool_record \<Rightarrow> mapped \<Rightarrow> probe_msg" where
  "hook_event cursor rec m =
     PM_AgentEvent \<lparr>ev_pane = \<lparr>pr_session = sp_session rec, pr_pane_id = sp_pane_id rec\<rparr>,
       ev_agent = sp_agent rec, ev_source = Hook, ev_state = ma_state m, ev_message = ma_message m,
       ev_ts_ms = sp_ts_ms rec, ev_spool_offset = Some cursor\<rparr>"

text \<open>One turn of the loop over the records read.\<close>

definition drain_record ::
    "'r serve_lib \<Rightarrow> 'r server \<Rightarrow> u64 \<times> spool_record \<Rightarrow> 'r server \<times> probe_msg list" where
  "drain_record lib sv cr =
     (let (cursor, rec) = cr;
          pane = \<lparr>pr_session = sp_session rec, pr_pane_id = sp_pane_id rec\<rparr>;
          mapped = map_hook (sl_de_state lib) (sp_agent rec) (sp_payload rec);
          sv1 =
            (if \<not> sv_zellij sv then sv
             else if (case mapped of None \<Rightarrow> False | Some m \<Rightarrow> ma_state m = Exited)
             then sv\<lparr>sv_agents := AList.delete pane (sv_agents sv),
                     sv_scrape := scrape_forget (sv_scrape sv) pane,
                     sv_exit_hold := hash_insert pane (sv_exit_hold sv)\<rparr>
             else sv\<lparr>sv_agents := AList.update pane
                       \<lparr>bi_agent = sp_agent rec, bi_from_hook = True, bi_misses = 0\<rparr> (sv_agents sv),
                     sv_exit_hold := removeAll pane (sv_exit_hold sv)\<rparr>)
      in (sv1, case mapped of None \<Rightarrow> [] | Some m \<Rightarrow> [hook_event cursor rec m]))"

definition drain_spool ::
    "'r serve_lib \<Rightarrow> io \<Rightarrow> 'r server \<Rightarrow> u64 \<Rightarrow> 'r server \<times> probe_msg list" where
  "drain_spool lib io sv now_ms =
     (case read_after io (sl_de lib) (sv_spool sv) (sv_read_cursor sv) now_ms of
        Err e \<Rightarrow>
          if sv_spool_failing sv then (sv, [])
          else (sv\<lparr>sv_spool_failing := True\<rparr>, [probe_error ''spool_read'' e])
      | Ok rd \<Rightarrow>
          (let sv1 = sv\<lparr>sv_spool_failing := False, sv_read_cursor := rr_end_cursor rd\<rparr>;
               bad = (if 0 < rr_bad_lines rd
                      then [probe_error ''spool_bad_line''
                              (''skipped '' @ show_nat (rr_bad_lines rd) @ '' unparsable spool line(s)'')]
                      else []);
               (sv2, msgs) = run_steps (drain_record lib) sv1 (rr_records rd)
           in (sv2, bad @ msgs)))"

section \<open>Sessions and panes\<close>

text \<open>The loop over the live sessions: the failing scopes, the fresh panes and the messages.\<close>

fun poll_live ::
    "zellij \<Rightarrow> (string, pane_info list) dict \<Rightarrow> session_info list
      \<Rightarrow> scope list \<times> (string, pane_info list) dict
      \<Rightarrow> (scope list \<times> (string, pane_info list) dict) \<times> probe_msg list" where
  "poll_live z old [] st = (st, [])"
| "poll_live z old (s # ss) (failing, fresh) =
     (let name = si_name s;
          (st, out) =
            (case zj_panes z name of
               Ok panes \<Rightarrow>
                 ((removeAll (Sc_Panes name) failing, AList.update name panes fresh),
                  if map_of old name \<noteq> Some panes then [PM_Panes name panes] else [])
             | Err e \<Rightarrow>
                 (let (failing', out) = report failing (Sc_Panes name) (probe_error ''zellij'' e)
                  in ((failing',
                       case map_of old name of Some o1 \<Rightarrow> AList.update name o1 fresh | None \<Rightarrow> fresh),
                      out)));
          (st', out') = poll_live z old ss st
      in (st', out @ out'))"

definition pane_exists :: "(string, pane_info list) dict \<Rightarrow> pane_ref \<Rightarrow> bool" where
  "pane_exists fresh p =
     (case map_of fresh (pr_session p) of
        None \<Rightarrow> False
      | Some ps \<Rightarrow> list_ex (\<lambda>q. pi_id q = pr_pane_id p) ps)"

definition known_panes :: "(string, pane_info list) dict \<Rightarrow> pane_ref list" where
  "known_panes d =
     concat (map (\<lambda>(session, ps). map (\<lambda>p. \<lparr>pr_session = session, pr_pane_id = pi_id p\<rparr>) ps) (sorted_items d))"

definition live_scope ::
    "session_info list \<Rightarrow> (string, pane_info list) dict \<Rightarrow> scope \<Rightarrow> bool" where
  "live_scope sessions fresh s =
     (case s of
        Sc_Panes name \<Rightarrow> list_ex (\<lambda>l. \<not> si_exited l \<and> si_name l = name) sessions
      | Sc_Dump p \<Rightarrow> pane_exists fresh p
      | Sc_Sessions \<Rightarrow> True
      | Sc_Cleanup \<Rightarrow> True)"

definition poll_panes :: "zellij \<Rightarrow> 'r server \<Rightarrow> 'r server \<times> probe_msg list" where
  "poll_panes z sv =
     (case zj_sessions z of
        Err e \<Rightarrow>
          (let (failing, out) = report (sv_failing sv) Sc_Sessions (probe_error ''zellij'' e)
           in (sv\<lparr>sv_failing := failing\<rparr>, out))
      | Ok sessions \<Rightarrow>
          (let out = (if sv_sessions sv \<noteq> Some sessions then [PM_Sessions sessions] else []);
               ((failing, fresh), out') =
                 poll_live z (sv_panes sv) (filter (\<lambda>s. \<not> si_exited s) sessions)
                   (removeAll Sc_Sessions (sv_failing sv), []);
               gone = filter (\<lambda>p. \<not> pane_exists fresh p) (known_panes (sv_panes sv))
           in (sv\<lparr>sv_sessions := Some sessions,
                  sv_scrape := foldl scrape_forget (sv_scrape sv) gone,
                  sv_agents := retain (\<lambda>k _. pane_exists fresh k) (sv_agents sv),
                  sv_exit_hold := filter (pane_exists fresh) (sv_exit_hold sv),
                  sv_failing := filter (live_scope sessions fresh) failing,
                  sv_panes := fresh\<rparr>, out @ out')))"

section \<open>Screens\<close>

text \<open>What \<open>scrape_panes\<close> does for a pane once its agent is known.\<close>

definition scrape_observe ::
    "'r serve_lib \<Rightarrow> 'r server \<Rightarrow> string \<Rightarrow> pane_ref \<Rightarrow> string \<Rightarrow> u64 \<Rightarrow> 'r server \<times> probe_msg list" where
  "scrape_observe lib sv agent pane screen now_ms =
     (let (t, st) = observe (sl_rx lib) (sl_hash lib) (sv_rules sv) (sv_scrape sv) agent pane screen now_ms
      in (sv\<lparr>sv_scrape := t\<rparr>,
          case st of None \<Rightarrow> [] | Some a \<Rightarrow> [scrape_event pane agent a now_ms]))"

definition scrape_pane ::
    "'r serve_lib \<Rightarrow> zellij \<Rightarrow> u64 \<Rightarrow> 'r server \<Rightarrow> string \<times> pane_info \<Rightarrow> 'r server \<times> probe_msg list" where
  "scrape_pane lib z now_ms sv sp =
     (let (session, p) = sp; pane = \<lparr>pr_session = session, pr_pane_id = pi_id p\<rparr>
      in case zj_dump_screen z session (pi_id p) of
           Err e \<Rightarrow>
             (let (failing, out) = report (sv_failing sv) (Sc_Dump pane) (probe_error ''zellij'' e)
              in (sv\<lparr>sv_failing := failing\<rparr>, out))
         | Ok screen \<Rightarrow>
             (let sv = sv\<lparr>sv_failing := removeAll (Sc_Dump pane) (sv_failing sv)\<rparr>;
                  command = pi_command p;
                  found = identify (sl_rx lib) (sv_rules sv) (pi_title p) command screen
              in case map_of (sv_agents sv) pane of
                   Some b \<Rightarrow>
                     if bi_from_hook b then scrape_observe lib sv (bi_agent b) pane screen now_ms
                     else if found = Some (bi_agent b)
                       \<or> still_matches (sl_rx lib) (sv_rules sv) (bi_agent b) (pi_title p) command screen
                     then scrape_observe lib
                            (sv\<lparr>sv_agents := AList.update pane (b\<lparr>bi_misses := 0\<rparr>) (sv_agents sv)\<rparr>)
                            (bi_agent b) pane screen now_ms
                     else
                       (let b' = b\<lparr>bi_misses := bi_misses b + 1\<rparr>
                        in if bi_misses b' < MISSES_TO_EXIT
                           then (sv\<lparr>sv_agents := AList.update pane b' (sv_agents sv)\<rparr>, [])
                           else (sv\<lparr>sv_agents := AList.delete pane (sv_agents sv),
                                    sv_scrape := scrape_forget (sv_scrape sv) pane\<rparr>,
                                 [scrape_event pane (bi_agent b) Exited now_ms]))
                 | None \<Rightarrow>
                     (case found of
                        None \<Rightarrow> (sv\<lparr>sv_exit_hold := removeAll pane (sv_exit_hold sv)\<rparr>, [])
                      | Some a \<Rightarrow>
                          if pane \<in> set (sv_exit_hold sv) then (sv, [])
                          else
                            (let (sv', out) =
                               scrape_observe lib
                                 (sv\<lparr>sv_agents := AList.update pane
                                       \<lparr>bi_agent = a, bi_from_hook = False, bi_misses = 0\<rparr> (sv_agents sv)\<rparr>)
                                 a pane screen now_ms
                             in (sv', scrape_event pane a Unknown now_ms # out)))))"

definition live_panes :: "(string, pane_info list) dict \<Rightarrow> (string \<times> pane_info) list" where
  "live_panes d = concat (map (\<lambda>(session, ps). map (Pair session) (filter (\<lambda>p. \<not> pi_exited p) ps)) (sorted_items d))"

definition scrape_panes ::
    "'r serve_lib \<Rightarrow> zellij \<Rightarrow> 'r server \<Rightarrow> u64 \<Rightarrow> 'r server \<times> probe_msg list" where
  "scrape_panes lib z sv now_ms = run_steps (scrape_pane lib z now_ms) sv (live_panes (sv_panes sv))"

section \<open>Ticks and messages\<close>

definition tick_cleanup :: "io \<Rightarrow> 'r server \<Rightarrow> u64 \<Rightarrow> 'r server \<times> probe_msg list" where
  "tick_cleanup io sv now_ms =
     (if \<not> due (sv_last_cleanup sv) CLEANUP_EVERY_MS now_ms then (sv, [])
      else
        let sv1 = sv\<lparr>sv_last_cleanup := Some now_ms\<rparr>;
            (spool, res) = cleanup io (sv_spool sv1) now_ms SPOOL_KEEP_DAYS;
            sv2 = sv1\<lparr>sv_spool := spool\<rparr>
        in case res of
             Ok _ \<Rightarrow> (sv2\<lparr>sv_failing := removeAll Sc_Cleanup (sv_failing sv2)\<rparr>, [])
           | Err e \<Rightarrow>
               (let (failing, out) = report (sv_failing sv2) Sc_Cleanup (probe_error ''spool_cleanup'' e)
                in (sv2\<lparr>sv_failing := failing\<rparr>, out)))"

definition tick ::
    "'r serve_lib \<Rightarrow> io \<Rightarrow> zellij \<Rightarrow> 'r server \<Rightarrow> u64 \<Rightarrow> 'r server \<times> probe_msg list" where
  "tick lib io z sv now_ms =
     (let (sv1, out1) = tick_cleanup io sv now_ms;
          (sv2, out2) = drain_spool lib io sv1 now_ms
      in if \<not> sv_zellij sv2 then (sv2, out1 @ out2)
         else
           let (sv3, out3) =
                 (if due (sv_last_pane_poll sv2) (in_pane_poll_ms (sv_intervals sv2)) now_ms
                  then poll_panes z (sv2\<lparr>sv_last_pane_poll := Some now_ms\<rparr>) else (sv2, []));
               (sv4, out4) =
                 (if due (sv_last_scrape sv3) (in_scrape_ms (sv_intervals sv3)) now_ms
                  then scrape_panes lib z (sv3\<lparr>sv_last_scrape := Some now_ms\<rparr>) now_ms else (sv3, []))
           in (sv4, out1 @ out2 @ out3 @ out4))"

definition with_zellij :: "'r server \<Rightarrow> string + unit \<Rightarrow> probe_msg list" where
  "with_zellij sv r =
     (if \<not> sv_zellij sv then [probe_error ''zellij_missing'' ''zellij not found on this host'']
      else case r of Err e \<Rightarrow> [probe_error ''zellij'' e] | Ok _ \<Rightarrow> [])"

fun handle ::
    "'r serve_lib \<Rightarrow> io \<Rightarrow> u32 \<Rightarrow> zellij \<Rightarrow> 'r server \<Rightarrow> app_msg \<Rightarrow> 'r server \<times> probe_msg list" where
  "handle lib io pid z sv (AM_Ack spool_offset) =
     (let (spool, res) = store_ack io pid (sv_spool sv) spool_offset
      in (sv\<lparr>sv_spool := spool\<rparr>, case res of Err e \<Rightarrow> [probe_error ''spool_ack'' e] | Ok _ \<Rightarrow> []))"
| "handle lib io pid z sv (AM_SendText session pane_id t) =
     (sv, with_zellij sv (zj_paste z session pane_id t))"
| "handle lib io pid z sv (AM_Focus session pane_id tab_id) =
     (sv, with_zellij sv (zj_focus z session tab_id pane_id))"
| "handle lib io pid z sv (AM_SetInterval pane_poll_ms scrape_ms metrics_ms) =
     (sv\<lparr>sv_intervals := \<lparr>in_pane_poll_ms = max pane_poll_ms MIN_INTERVAL_MS,
                           in_scrape_ms = max scrape_ms MIN_INTERVAL_MS,
                           in_metrics_ms = max metrics_ms MIN_INTERVAL_MS\<rparr>\<rparr>, [])"
| "handle lib io pid z sv (AM_SetRules rules) =
     (case compile_rules (sl_rx lib) (sr_agents rules) of
        Ok compiled \<Rightarrow>
          (sv\<lparr>sv_rules := compiled, sv_scrape := scrape_reset (sv_scrape sv)\<rparr>, [])
      | Err e \<Rightarrow> (sv, [probe_error ''bad_rules'' (show_rule_error e)]))"

definition handle_line ::
    "'r serve_lib \<Rightarrow> io \<Rightarrow> u32 \<Rightarrow> zellij \<Rightarrow> 'r server \<Rightarrow> string \<Rightarrow> 'r server \<times> probe_msg list" where
  "handle_line lib io pid z sv line =
     (if trim line = [] then (sv, [])
      else case decode_line (sl_de_app lib) line of
             Ok msg \<Rightarrow> handle lib io pid z sv msg
           | Err e \<Rightarrow> (sv, [probe_error ''bad_message'' (e @ '': '' @ take_chars 80 line)]))"

section \<open>Hook events are relayed exactly once\<close>

fun is_hook :: "probe_msg \<Rightarrow> bool" where
  "is_hook (PM_AgentEvent ev) \<longleftrightarrow> ev_source ev = Hook"
| "is_hook _ \<longleftrightarrow> False"

text \<open>The messages for the records of a part of the log.\<close>

definition hook_msg :: "'r serve_lib \<Rightarrow> u64 \<times> spool_record \<Rightarrow> probe_msg list" where
  "hook_msg lib cr =
     (case map_hook (sl_de_state lib) (sp_agent (snd cr)) (sp_payload (snd cr)) of
        None \<Rightarrow> [] | Some m \<Rightarrow> [hook_event (fst cr) (snd cr) m])"

definition log_msgs :: "'r serve_lib \<Rightarrow> (u64 \<times> string) list \<Rightarrow> probe_msg list" where
  "log_msgs lib es =
     concat (map (hook_msg lib) (List.map_filter (\<lambda>(c, l). map_option (Pair c) (sl_de lib l)) es))"

lemma log_msgs_append [simp]: "log_msgs lib (xs @ ys) = log_msgs lib xs @ log_msgs lib ys"
  by (simp add: log_msgs_def List.map_filter_def)

lemma log_msgs_Nil [simp]: "log_msgs lib [] = []"
  by (simp add: log_msgs_def List.map_filter_def)

lemma drain_record_out: "snd (drain_record lib sv cr) = hook_msg lib cr"
  by (cases cr) (simp add: drain_record_def hook_msg_def Let_def split: option.split)

lemma drain_record_frame [simp]:
  "sv_spool (fst (drain_record lib sv cr)) = sv_spool sv"
  "sv_read_cursor (fst (drain_record lib sv cr)) = sv_read_cursor sv"
  by (cases cr; simp add: drain_record_def Let_def)+

lemma drain_records_run:
  "snd (run_steps (drain_record lib) sv rs) = concat (map (hook_msg lib) rs)
   \<and> sv_spool (fst (run_steps (drain_record lib) sv rs)) = sv_spool sv
   \<and> sv_read_cursor (fst (run_steps (drain_record lib) sv rs)) = sv_read_cursor sv"
  by (induction rs arbitrary: sv) (simp_all add: drain_record_out)

text \<open>The part of the log between two cursors.\<close>

definition between :: "spool \<Rightarrow> u64 \<Rightarrow> u64 \<Rightarrow> (u64 \<times> string) list" where
  "between s c c' = filter (\<lambda>(k, l). c < k \<and> k \<le> c') (log s)"

lemma between_self [simp]: "between s c c = []"
  by (auto simp: between_def intro!: filter_False)

lemma between_split:
  assumes "wf_spool s" "c \<le> c'" "c' \<le> c''"
  shows "between s c c'' = between s c c' @ between s c' c''"
  unfolding between_def by (rule spool_log.part_split [OF assms])

lemma unread_between:
  assumes "wf_spool s" shows "unread s c now = between s c (read_end s c now)"
proof (cases "unread s c now = []")
  case True
  then show ?thesis by (auto simp: between_def read_end_def intro!: filter_False [symmetric])
next
  case False
  let ?e = "read_end s c now"
  obtain l where "(?e, l) \<in> set (unread s c now)" using read_end_entry [OF False] by blast
  then have e: "cursor_day ?e = cursor_day c \<or> day_open now (cursor_day ?e)" by (auto simp: unread_def)
  have "c < k \<and> (cursor_day k = cursor_day c \<or> day_open now (cursor_day k)) \<longleftrightarrow> c < k \<and> k \<le> ?e"
    if "(k, x) \<in> set (log s)" for k x
  proof (cases "c < k \<and> k \<le> ?e")
    case True
    then show ?thesis
      using e cursor_day_mono [of k ?e] cursor_day_mono [of c k] day_open_mono [of now] by fastforce
  next
    case False
    then show ?thesis using unread_upto [OF assms, of "(k, x)" c now] that by (auto simp: unread_def)
  qed
  then show ?thesis unfolding unread_def between_def by (intro filter_cong) auto
qed

text \<open>How the spool may change beside the server: it grows, and the position stays at a line boundary.\<close>

definition spool_change :: "'r server \<Rightarrow> spool \<Rightarrow> bool" where
  "spool_change sv s' \<longleftrightarrow> wf_spool s' \<and> grows (sv_spool sv) s' (cursor_day (sv_read_cursor sv))
     \<and> aligned s' (sv_read_cursor sv) \<and> so_ack_file s' = so_ack_file (sv_spool sv)"

text \<open>Runs of a server: the spool grows, records are drained, panes polled, screens scraped and input
  lines handled, in any order.\<close>

inductive relay :: "'r serve_lib \<Rightarrow> 'r server \<Rightarrow> probe_msg list \<Rightarrow> 'r server \<Rightarrow> bool"
  for lib sv where
  relay_start: "relay lib sv [] sv"
| relay_grow: "relay lib sv out sv' \<Longrightarrow> spool_change sv' s' \<Longrightarrow> relay lib sv out (sv'\<lparr>sv_spool := s'\<rparr>)"
| relay_drain: "relay lib sv out sv' \<Longrightarrow> drain_spool lib io sv' now = (sv'', out') \<Longrightarrow>
    relay lib sv (out @ out') sv''"
| relay_poll: "relay lib sv out sv' \<Longrightarrow> poll_panes z sv' = (sv'', out') \<Longrightarrow> relay lib sv (out @ out') sv''"
| relay_scrape: "relay lib sv out sv' \<Longrightarrow> scrape_panes lib z sv' now = (sv'', out') \<Longrightarrow>
    relay lib sv (out @ out') sv''"
| relay_line: "relay lib sv out sv' \<Longrightarrow> handle_line lib io pid z sv' line = (sv'', out') \<Longrightarrow>
    relay lib sv (out @ out') sv''"

text \<open>The steps other than draining send no hook events and leave the position alone.\<close>

lemma report_no_hook: "filter is_hook (snd (report failing scope (probe_error code e))) = []"
  by (simp add: report_def probe_error_def)

lemma poll_live_no_hook: "filter is_hook (snd (poll_live z old ss st)) = []"
proof (induction ss arbitrary: st)
  case (Cons s ss)
  obtain failing fresh where st: "st = (failing, fresh)" by fastforce
  show ?case
    by (cases "zj_panes z (si_name s)")
      (simp_all add: st Let_def split_beta Cons.IH report_no_hook)
qed simp

lemma poll_panes_no_hook:
  "filter is_hook (snd (poll_panes z sv)) = []" "sv_spool (fst (poll_panes z sv)) = sv_spool sv"
  "sv_read_cursor (fst (poll_panes z sv)) = sv_read_cursor sv"
  by (cases "zj_sessions z"; simp add: poll_panes_def Let_def split_beta report_no_hook poll_live_no_hook)+

lemma scrape_pane_no_hook:
  "filter is_hook (snd (scrape_pane lib z now sv sp)) = []"
  "sv_spool (fst (scrape_pane lib z now sv sp)) = sv_spool sv"
  "sv_read_cursor (fst (scrape_pane lib z now sv sp)) = sv_read_cursor sv"
  by (auto simp: scrape_pane_def scrape_observe_def Let_def split_beta report_no_hook scrape_event_def
      split: sum.split option.split)

lemma scrape_panes_no_hook:
  "filter is_hook (snd (scrape_panes lib z sv now)) = []"
  "sv_spool (fst (scrape_panes lib z sv now)) = sv_spool sv"
  "sv_read_cursor (fst (scrape_panes lib z sv now)) = sv_read_cursor sv"
proof -
  have "filter is_hook (snd (run_steps (scrape_pane lib z now) sv ps)) = []
    \<and> sv_spool (fst (run_steps (scrape_pane lib z now) sv ps)) = sv_spool sv
    \<and> sv_read_cursor (fst (run_steps (scrape_pane lib z now) sv ps)) = sv_read_cursor sv" for ps
    by (induction ps arbitrary: sv) (simp_all add: scrape_pane_no_hook)
  then show "filter is_hook (snd (scrape_panes lib z sv now)) = []"
    "sv_spool (fst (scrape_panes lib z sv now)) = sv_spool sv"
    "sv_read_cursor (fst (scrape_panes lib z sv now)) = sv_read_cursor sv"
    by (simp_all add: scrape_panes_def)
qed

lemma handle_no_hook:
  "filter is_hook (snd (handle lib io pid z sv msg)) = []"
  "sv_read_cursor (fst (handle lib io pid z sv msg)) = sv_read_cursor sv"
  "sv_spool (fst (handle lib io pid z sv msg)) = sv_spool sv
   \<or> (\<exists>cur. sv_spool (fst (handle lib io pid z sv msg)) = fst (store_ack io pid (sv_spool sv) cur))"
  by (cases msg; auto simp: with_zellij_def probe_error_def Let_def split_beta split: sum.split)+

lemma handle_line_no_hook:
  "filter is_hook (snd (handle_line lib io pid z sv line)) = []"
  "sv_read_cursor (fst (handle_line lib io pid z sv line)) = sv_read_cursor sv"
  "sv_spool (fst (handle_line lib io pid z sv line)) = sv_spool sv
   \<or> (\<exists>cur. sv_spool (fst (handle_line lib io pid z sv line)) = fst (store_ack io pid (sv_spool sv) cur))"
  using handle_no_hook [of lib io pid z sv]
  by (auto simp: handle_line_def probe_error_def split: sum.split)

text \<open>What every state of a run satisfies, relative to the position it started from.\<close>

definition relayed :: "'r serve_lib \<Rightarrow> u64 \<Rightarrow> probe_msg list \<Rightarrow> 'r server \<Rightarrow> bool" where
  "relayed lib c0 out sv \<longleftrightarrow>
     wf_spool (sv_spool sv) \<and> aligned (sv_spool sv) (sv_read_cursor sv) \<and> c0 \<le> sv_read_cursor sv
     \<and> (sv_read_cursor sv = c0 \<or> (\<exists>l. (sv_read_cursor sv, l) \<in> set (log (sv_spool sv))))
     \<and> filter is_hook out = log_msgs lib (between (sv_spool sv) c0 (sv_read_cursor sv))"

lemma relayed_quiet:
  "relayed lib c0 out sv \<Longrightarrow> filter is_hook out' = [] \<Longrightarrow> sv_spool sv' = sv_spool sv \<Longrightarrow>
   sv_read_cursor sv' = sv_read_cursor sv \<Longrightarrow> relayed lib c0 (out @ out') sv'"
  by (simp add: relayed_def)

lemma relayed_grow:
  assumes "relayed lib c0 out sv" "spool_change sv s'"
  shows "relayed lib c0 out (sv\<lparr>sv_spool := s'\<rparr>)"
proof -
  let ?c = "sv_read_cursor sv" and ?s = "sv_spool sv"
  have wf: "wf_spool ?s" "wf_spool s'" and g: "grows ?s s' (cursor_day ?c)"
    using assms by (simp_all add: relayed_def spool_change_def)
  show ?thesis
  proof (cases "?c = c0")
    case True
    with assms show ?thesis by (simp add: relayed_def spool_change_def)
  next
    case False
    then obtain l where l: "(?c, l) \<in> set (log ?s)" using assms(1) by (auto simp: relayed_def)
    note upto = log_upto [OF wf g l]
    have "between s' c0 ?c = between ?s c0 ?c"
      unfolding between_def by (rule spool_log.parts_equal) (use upto wf in auto)
    with assms l upto [of ?c l] show ?thesis by (auto simp: relayed_def spool_change_def)
  qed
qed

lemma hook_msg_hooks: "filter is_hook (hook_msg lib cr) = hook_msg lib cr"
  by (simp add: hook_msg_def hook_event_def split: option.split)

lemma log_msgs_hooks: "filter is_hook (log_msgs lib es) = log_msgs lib es"
proof -
  have "filter is_hook (concat (map (hook_msg lib) rs)) = concat (map (hook_msg lib) rs)" for rs
    by (induction rs) (simp_all add: hook_msg_hooks)
  then show ?thesis by (simp add: log_msgs_def)
qed

lemma relayed_drain:
  assumes "relayed lib c0 out sv"
  shows "relayed lib c0 (out @ snd (drain_spool lib io sv now)) (fst (drain_spool lib io sv now))"
proof -
  let ?c = "sv_read_cursor sv" and ?s = "sv_spool sv"
  have wf: "wf_spool ?s" "aligned ?s ?c" and c0: "c0 \<le> ?c" using assms by (simp_all add: relayed_def)
  from read_after_unread [OF wf, of io "sl_de lib" now] show ?thesis
  proof
    assume r: "read_after io (sl_de lib) ?s ?c now
      = Ok (absorb (sl_de lib) (unread ?s ?c now) \<lparr>rr_records = [], rr_bad_lines = 0, rr_end_cursor = ?c\<rparr>)"
    let ?e = "read_end ?s ?c now" and ?sv = "fst (drain_spool lib io sv now)"
    have e: "?c \<le> ?e" "?e = ?c \<or> (\<exists>l. (?e, l) \<in> set (log ?s))"
      using read_end_entry [of ?s ?c now] unread_upto [OF wf(1), of _ ?c now]
      by (cases "unread ?s ?c now = []"; fastforce simp: read_end_def unread_def)+
    have sv: "sv_spool ?sv = ?s" "sv_read_cursor ?sv = ?e"
      using drain_records_run [of lib] by (simp_all add: drain_spool_def r Let_def split_beta absorb_def read_end_def)
    have "filter is_hook (snd (drain_spool lib io sv now)) = log_msgs lib (unread ?s ?c now)"
      using drain_records_run [of lib] log_msgs_hooks [of lib "unread ?s ?c now"]
      by (simp add: drain_spool_def r Let_def split_beta absorb_def log_msgs_def probe_error_def)
    then have "filter is_hook (out @ snd (drain_spool lib io sv now)) = log_msgs lib (between ?s c0 ?e)"
      using assms by (simp add: relayed_def unread_between [OF wf(1)] between_split [OF wf(1) c0 e(1)])
    moreover have "aligned ?s ?e"
    proof (cases "?e = ?c")
      case False
      with e(2) obtain l where "(?e, l) \<in> set (log ?s)" by blast
      from log_entry_boundary [OF wf(1) this] show ?thesis by (auto simp: aligned_def)
    qed (use wf in simp)
    ultimately show ?thesis
      using sv wf c0 e assms by (auto simp: relayed_def)
  next
    assume "\<exists>e. read_after io (sl_de lib) ?s ?c now = Err e \<and> io \<noteq> (\<lambda>_. None)"
    then have "filter is_hook (snd (drain_spool lib io sv now)) = []"
      "sv_spool (fst (drain_spool lib io sv now)) = ?s" "sv_read_cursor (fst (drain_spool lib io sv now)) = ?c"
      by (auto simp: drain_spool_def probe_error_def)
    then show ?thesis by (intro relayed_quiet [OF assms])
  qed
qed

lemma store_ack_relayed:
  assumes "relayed lib c0 out sv" "so_ack_file (sv_spool sv) = ack_name client"
    and "sv_spool sv' = fst (store_ack io pid (sv_spool sv) cur)" "sv_read_cursor sv' = sv_read_cursor sv"
    and "filter is_hook out' = []"
  shows "relayed lib c0 (out @ out') sv'" "so_ack_file (sv_spool sv') = so_ack_file (sv_spool sv)"
proof -
  obtain s' res where st: "store_ack io pid (sv_spool sv) cur = (s', res)" by fastforce
  have wf: "wf_spool (sv_spool sv)" using assms(1) by (simp add: relayed_def)
  note k = store_ack_wf [OF st assms(2) wf]
  have "log s' = log (sv_spool sv)" by (rule log_cong [OF wf k(1) k(2)])
  moreover have "aligned s' c = aligned (sv_spool sv) c" for c by (simp add: aligned_def k(2))
  ultimately show "relayed lib c0 (out @ out') sv'"
    using assms st k(1) by (simp add: relayed_def between_def)
  show "so_ack_file (sv_spool sv') = so_ack_file (sv_spool sv)"
    using store_ack_own(1) [OF st assms(2)] assms(3) st by simp
qed

lemma drain_spool_ack_file: "so_ack_file (sv_spool (fst (drain_spool lib io sv now))) = so_ack_file (sv_spool sv)"
  using drain_records_run [of lib]
  by (auto simp: drain_spool_def Let_def split_beta split: sum.split)

lemma relay_relayed:
  assumes "relay lib sv out sv'" "so_ack_file (sv_spool sv) = ack_name client"
    and "wf_spool (sv_spool sv)" "aligned (sv_spool sv) (sv_read_cursor sv)"
  shows "relayed lib (sv_read_cursor sv) out sv' \<and> so_ack_file (sv_spool sv') = ack_name client"
  using assms(1)
proof induction
  case relay_start
  with assms show ?case by (simp add: relayed_def)
next
  case (relay_grow out sv' s')
  from relay_grow.IH have "relayed lib (sv_read_cursor sv) out sv'" by simp
  from relayed_grow [OF this relay_grow.hyps(2)] relay_grow show ?case by (simp add: spool_change_def)
next
  case (relay_drain out sv' io now sv'' out')
  then show ?case
    using relayed_drain [of lib "sv_read_cursor sv" out sv' io now] drain_spool_ack_file [of lib io sv' now]
    by simp
next
  case (relay_poll out sv' z sv'' out')
  then show ?case using relayed_quiet poll_panes_no_hook [of z sv'] by auto
next
  case (relay_scrape out sv' z now sv'' out')
  then show ?case using relayed_quiet scrape_panes_no_hook [of lib z sv' now] by auto
next
  case (relay_line out sv' io pid z line sv'' out')
  note h = handle_line_no_hook [of lib io pid z sv' line, unfolded relay_line(2) fst_conv snd_conv]
  from h(3) show ?case
  proof
    assume "sv_spool sv'' = sv_spool sv'"
    then show ?thesis using relay_line.IH relayed_quiet h by auto
  next
    assume "\<exists>cur. sv_spool sv'' = fst (store_ack io pid (sv_spool sv') cur)"
    then show ?thesis using store_ack_relayed [of lib "sv_read_cursor sv" out sv' client sv''] relay_line.IH h(1,2)
      by auto
  qed
qed


section \<open>The invariant of the server\<close>

text \<open>The calls that change a server.\<close>

datatype serve_in = SI_Tick io zellij u64 | SI_Line io u32 zellij string

fun serve_step :: "'r serve_lib \<Rightarrow> 'r server \<Rightarrow> serve_in \<Rightarrow> 'r server \<times> probe_msg list" where
  "serve_step lib sv (SI_Tick io z now_ms) = tick lib io z sv now_ms"
| "serve_step lib sv (SI_Line io pid z line) = handle_line lib io pid z sv line"

text \<open>No interval is below one tick; a pane has an agent or is held after an exit, never both; a binding
  has missed less often than would end it, and one made by a hook never; a scope fails once.\<close>

definition binding_ok :: "binding \<Rightarrow> bool" where
  "binding_ok b \<longleftrightarrow> bi_misses b < MISSES_TO_EXIT \<and> (bi_from_hook b \<longrightarrow> bi_misses b = 0)"

definition bindings_ok :: "(pane_ref, binding) dict \<Rightarrow> pane_ref list \<Rightarrow> bool" where
  "bindings_ok agents hold \<longleftrightarrow>
     (\<forall>p b. map_of agents p = Some b \<longrightarrow> binding_ok b \<and> p \<notin> set hold)"

definition agents_ok :: "'r server \<Rightarrow> bool" where
  "agents_ok sv \<longleftrightarrow> distinct (keys (sv_agents sv)) \<and> bindings_ok (sv_agents sv) (sv_exit_hold sv)
     \<and> distinct (sv_failing sv)"

definition server_inv :: "'r server \<Rightarrow> bool" where
  "server_inv sv \<longleftrightarrow> agents_ok sv
     \<and> MIN_INTERVAL_MS \<le> in_pane_poll_ms (sv_intervals sv)
     \<and> MIN_INTERVAL_MS \<le> in_scrape_ms (sv_intervals sv)
     \<and> MIN_INTERVAL_MS \<le> in_metrics_ms (sv_intervals sv)"

lemma bindings_ok_simps:
  "bindings_ok A H \<Longrightarrow> binding_ok b \<Longrightarrow> bindings_ok (AList.update p b A) (removeAll p H)"
  "bindings_ok A H \<Longrightarrow> binding_ok b \<Longrightarrow> p \<notin> set H \<Longrightarrow> bindings_ok (AList.update p b A) H"
  "bindings_ok A H \<Longrightarrow> bindings_ok (AList.delete p A) (hash_insert p H)"
  "bindings_ok A H \<Longrightarrow> bindings_ok (AList.delete p A) H"
  "bindings_ok A H \<Longrightarrow> bindings_ok A (removeAll p H)"
  by (auto simp: bindings_ok_def dict_simps hash_insert_def split: if_splits)

lemma bindings_ok_retain:
  "distinct (keys A) \<Longrightarrow> bindings_ok A H \<Longrightarrow> bindings_ok (retain P A) (filter Q H)"
  unfolding bindings_ok_def by (auto simp: map_of_retain simp del: map_of_eq_Some_iff split: option.splits if_splits)

lemma binding_ok_fresh: "binding_ok \<lparr>bi_agent = a, bi_from_hook = h, bi_misses = 0\<rparr>"
  by (simp add: binding_ok_def MISSES_TO_EXIT_def)

lemma report_distinct: "distinct failing \<Longrightarrow> distinct (fst (report failing scope msg))"
  by (simp add: report_def)

lemma drain_record_agents:
  assumes "agents_ok sv" shows "agents_ok (fst (drain_record lib sv cr))"
  using assms
  by (cases cr)
    (simp add: drain_record_def Let_def agents_ok_def distinct_update distinct_delete
      binding_ok_fresh bindings_ok_simps)

lemma drain_record_intervals [simp]: "sv_intervals (fst (drain_record lib sv cr)) = sv_intervals sv"
  by (cases cr) (simp add: drain_record_def Let_def)

lemma drain_run_inv: "server_inv sv \<Longrightarrow> server_inv (fst (run_steps (drain_record lib) sv rs))"
  by (induction rs arbitrary: sv) (simp_all add: server_inv_def drain_record_agents)

lemma drain_spool_inv: "server_inv sv \<Longrightarrow> server_inv (fst (drain_spool lib io sv now))"
proof -
  assume inv: "server_inv sv"
  then have "server_inv (sv\<lparr>sv_spool_failing := b, sv_read_cursor := c\<rparr>)" "server_inv (sv\<lparr>sv_spool_failing := b\<rparr>)"
    for b c by (simp_all add: server_inv_def agents_ok_def)
  with inv show ?thesis
    by (auto simp: drain_spool_def Let_def split_beta intro!: drain_run_inv split: sum.split)
qed

lemma poll_live_distinct: "distinct (fst st) \<Longrightarrow> distinct (fst (fst (poll_live z old ss st)))"
proof (induction ss arbitrary: st)
  case (Cons s ss)
  obtain failing fresh where st: "st = (failing, fresh)" by fastforce
  with Cons.prems have "distinct failing" by simp
  then show ?case
    by (cases "zj_panes z (si_name s)")
      (simp_all add: st Let_def split_beta Cons.IH report_distinct distinct_removeAll)
qed simp

lemma poll_panes_inv:
  assumes "server_inv sv" shows "server_inv (fst (poll_panes z sv))"
proof (cases "zj_sessions z")
  case (Inl e)
  with assms show ?thesis
    by (simp add: poll_panes_def Let_def split_beta server_inv_def agents_ok_def report_distinct)
next
  case (Inr sessions)
  let ?p = "poll_live z (sv_panes sv) (filter (\<lambda>s. \<not> si_exited s) sessions) (removeAll Sc_Sessions (sv_failing sv), [])"
  have "distinct (fst (fst ?p))"
    using assms by (intro poll_live_distinct) (simp add: server_inv_def agents_ok_def distinct_removeAll)
  with Inr assms show ?thesis
    by (simp add: poll_panes_def Let_def split_beta server_inv_def agents_ok_def distinct_retain
        bindings_ok_retain)
qed

lemma miss_next: "bi_misses b + 1 < MISSES_TO_EXIT \<Longrightarrow> \<not> bi_from_hook b \<Longrightarrow> binding_ok (b\<lparr>bi_misses := bi_misses b + 1\<rparr>)"
  by (simp add: binding_ok_def)

lemma scrape_observe_agents:
  "agents_ok (fst (scrape_observe lib sv a pane screen now)) = agents_ok sv"
  "sv_intervals (fst (scrape_observe lib sv a pane screen now)) = sv_intervals sv"
  by (simp_all add: scrape_observe_def split_beta agents_ok_def)

lemma agents_ok_update:
  "agents_ok sv \<Longrightarrow> binding_ok b \<Longrightarrow> pane \<notin> set (sv_exit_hold sv) \<Longrightarrow>
   agents_ok (sv\<lparr>sv_agents := AList.update pane b (sv_agents sv)\<rparr>)"
  by (simp add: agents_ok_def distinct_update bindings_ok_simps)

lemma scrape_pane_inv:
  assumes "server_inv sv" shows "server_inv (fst (scrape_pane lib z now sv sp))"
proof -
  obtain session p where sp: "sp = (session, p)" by fastforce
  let ?pane = "\<lparr>pr_session = session, pr_pane_id = pi_id p\<rparr>"
  have "agents_ok (fst (scrape_pane lib z now sv sp)) \<and> sv_intervals (fst (scrape_pane lib z now sv sp)) = sv_intervals sv"
  proof (cases "zj_dump_screen z session (pi_id p)")
    case (Inl e)
    with assms show ?thesis
      by (simp add: scrape_pane_def sp Let_def split_beta server_inv_def agents_ok_def report_distinct)
  next
    case (Inr screen)
    let ?sv = "sv\<lparr>sv_failing := removeAll (Sc_Dump ?pane) (sv_failing sv)\<rparr>"
    have ok: "agents_ok ?sv" using assms by (simp add: server_inv_def agents_ok_def distinct_removeAll)
    show ?thesis
    proof (cases "map_of (sv_agents sv) ?pane")
      case None
      have "agents_ok (?sv\<lparr>sv_exit_hold := removeAll ?pane (sv_exit_hold sv)\<rparr>)"
        using ok by (simp add: agents_ok_def bindings_ok_simps)
      moreover have "agents_ok (?sv\<lparr>sv_agents := AList.update ?pane \<lparr>bi_agent = a, bi_from_hook = False, bi_misses = 0\<rparr> (sv_agents sv)\<rparr>)"
        if "?pane \<notin> set (sv_exit_hold sv)" for a
        using agents_ok_update [OF ok binding_ok_fresh] that by simp
      ultimately show ?thesis
        using Inr None ok
        by (auto simp: scrape_pane_def sp Let_def split_beta scrape_observe_agents split: option.split)
    next
      case (Some b)
      have b: "binding_ok b" "?pane \<notin> set (sv_exit_hold sv)" using ok Some by (auto simp: agents_ok_def bindings_ok_def)
      have zero: "binding_ok (b\<lparr>bi_misses := 0\<rparr>)" by (simp add: binding_ok_def MISSES_TO_EXIT_def)
      have gone: "agents_ok (?sv\<lparr>sv_agents := AList.delete ?pane (sv_agents sv), sv_scrape := t\<rparr>)" for t
        using ok by (simp add: agents_ok_def distinct_delete bindings_ok_simps)
      show ?thesis
        using Inr Some ok b gone agents_ok_update [OF ok zero] agents_ok_update [OF ok miss_next]
        by (auto simp: scrape_pane_def sp Let_def split_beta scrape_observe_agents)
    qed
  qed
  with assms show ?thesis by (simp add: server_inv_def)
qed

lemma scrape_panes_inv: "server_inv sv \<Longrightarrow> server_inv (fst (scrape_panes lib z sv now))"
proof -
  have "server_inv sv \<Longrightarrow> server_inv (fst (run_steps (scrape_pane lib z now) sv ps))" for ps
    by (induction ps arbitrary: sv) (simp_all add: scrape_pane_inv)
  then show "server_inv sv \<Longrightarrow> ?thesis" by (simp add: scrape_panes_def)
qed

lemma tick_cleanup_inv: "server_inv sv \<Longrightarrow> server_inv (fst (tick_cleanup io sv now))"
  by (auto simp: tick_cleanup_def Let_def split_beta server_inv_def agents_ok_def report_distinct
      distinct_removeAll split: sum.split)

lemma tick_inv: "server_inv sv \<Longrightarrow> server_inv (fst (tick lib io z sv now))"
proof -
  have set: "server_inv sv \<Longrightarrow> server_inv (sv\<lparr>sv_last_pane_poll := x\<rparr>)"
    "server_inv sv \<Longrightarrow> server_inv (sv\<lparr>sv_last_scrape := x\<rparr>)" for sv :: "'a server" and x
    by (simp_all add: server_inv_def agents_ok_def)
  assume "server_inv sv"
  then show ?thesis
    by (simp add: tick_def Let_def split_beta tick_cleanup_inv drain_spool_inv poll_panes_inv
        scrape_panes_inv set)
qed

lemma handle_inv: "server_inv sv \<Longrightarrow> server_inv (fst (handle lib io pid z sv msg))"
  by (cases msg) (auto simp: server_inv_def agents_ok_def split_beta split: sum.split)

lemma serve_step_inv: "server_inv sv \<Longrightarrow> server_inv (fst (serve_step lib sv x))"
  by (cases x) (auto simp: tick_inv handle_line_def handle_inv split: sum.split)

interpretation serve_machine: invariant_machine "serve_step lib" server_inv
  by unfold_locales (rule serve_step_inv)

lemma server_new_inv: "server_new lib io has spool rules = Ok sv \<Longrightarrow> server_inv sv"
  by (auto simp: server_new_def server_inv_def agents_ok_def bindings_ok_def default_intervals_def MIN_INTERVAL_MS_def
      split: sum.splits)

text \<open>C23. The server keeps its invariant from start on, over any ticks and input lines: its intervals
  never fall below the tick, a pane never has an agent while it is held after a reported exit, no
  binding has missed as often as ends it, and each failing scope is listed once.\<close>

theorem server_invariant:
  assumes "server_new lib io has_zellij spool rules = Ok sv"
  shows "server_inv (fst (run_steps (serve_step lib) sv ins))"
  by (rule serve_machine.run_inv [OF server_new_inv [OF assms]])

section \<open>Exits and failures\<close>

fun event_pane :: "probe_msg \<Rightarrow> pane_ref option" where
  "event_pane (PM_AgentEvent ev) = Some (ev_pane ev)"
| "event_pane _ = None"

text \<open>The screens of a pane in one scrape all show an agent.\<close>

definition shows_agent :: "'r serve_lib \<Rightarrow> zellij \<Rightarrow> 'r compiled_rules \<Rightarrow> pane_ref \<Rightarrow> string \<times> pane_info \<Rightarrow> bool" where
  "shows_agent lib z rules pane sp \<longleftrightarrow>
     (\<lparr>pr_session = fst sp, pr_pane_id = pi_id (snd sp)\<rparr> = pane \<longrightarrow>
      (\<forall>screen. zj_dump_screen z (fst sp) (pi_id (snd sp)) = Ok screen \<longrightarrow>
         identify (sl_rx lib) rules (pi_title (snd sp)) (pi_command (snd sp)) screen \<noteq> None))"

lemma scrape_observe_pane:
  "\<forall>m \<in> set (snd (scrape_observe lib sv a pane screen now)). event_pane m = Some pane"
  "sv_exit_hold (fst (scrape_observe lib sv a pane screen now)) = sv_exit_hold sv"
  "sv_rules (fst (scrape_observe lib sv a pane screen now)) = sv_rules sv"
  by (auto simp: scrape_observe_def split_beta scrape_event_def split: option.split)

lemma scrape_pane_events:
  assumes "m \<in> set (snd (scrape_pane lib z now sv (session, p)))"
  shows "event_pane m = None \<or> event_pane m = Some \<lparr>pr_session = session, pr_pane_id = pi_id p\<rparr>"
  using assms scrape_observe_pane(1)
  by (fastforce simp: scrape_pane_def Let_def split_beta report_def probe_error_def scrape_event_def
      split: sum.splits option.splits if_splits)

lemma scrape_pane_rules: "sv_rules (fst (scrape_pane lib z now sv sp)) = sv_rules sv"
  by (cases sp) (auto simp: scrape_pane_def Let_def split_beta scrape_observe_pane split: sum.split option.split)

lemma scrape_pane_held:
  assumes "server_inv sv" "pane \<in> set (sv_exit_hold sv)" "shows_agent lib z (sv_rules sv) pane sp"
  shows "pane \<in> set (sv_exit_hold (fst (scrape_pane lib z now sv sp)))
    \<and> (\<forall>m \<in> set (snd (scrape_pane lib z now sv sp)). event_pane m \<noteq> Some pane)"
proof -
  obtain session p where sp: "sp = (session, p)" by fastforce
  let ?pane = "\<lparr>pr_session = session, pr_pane_id = pi_id p\<rparr>"
  show ?thesis
  proof (cases "?pane = pane")
    case True
    have "map_of (sv_agents sv) pane = None"
      using assms(1,2) by (cases "map_of (sv_agents sv) pane") (auto simp: server_inv_def agents_ok_def bindings_ok_def)
    with True assms(2,3) show ?thesis
      by (auto simp: sp scrape_pane_def Let_def split_beta report_def probe_error_def shows_agent_def
          split: sum.split option.split)
  next
    case False
    then have "pane \<in> set (sv_exit_hold (fst (scrape_pane lib z now sv sp)))"
      using assms(2)
      by (auto simp: sp scrape_pane_def Let_def split_beta scrape_observe_pane split: sum.split option.split)
    with False scrape_pane_events [of _ lib z now sv session p] show ?thesis by (fastforce simp: sp)
  qed
qed

text \<open>A reported exit is not undone by a leftover screen: while a pane is held after a hook reported
  its agent's exit, a scrape in which every dump of the pane still shows an agent sends no event
  for the pane and keeps it held.\<close>

theorem exit_hold_blocks_scrape:
  assumes "server_inv sv" and "pane \<in> set (sv_exit_hold sv)"
    and "\<forall>sp \<in> set (live_panes (sv_panes sv)). shows_agent lib z (sv_rules sv) pane sp"
  shows "pane \<in> set (sv_exit_hold (fst (scrape_panes lib z sv now)))
    \<and> (\<forall>m \<in> set (snd (scrape_panes lib z sv now)). event_pane m \<noteq> Some pane)"
proof -
  have "pane \<in> set (sv_exit_hold (fst (run_steps (scrape_pane lib z now) sv ps)))
    \<and> (\<forall>m \<in> set (snd (run_steps (scrape_pane lib z now) sv ps)). event_pane m \<noteq> Some pane)"
    if "\<forall>sp \<in> set ps. shows_agent lib z (sv_rules sv) pane sp" for ps
    using assms(1,2) that
  proof (induction ps arbitrary: sv)
    case (Cons sp ps)
    have "shows_agent lib z (sv_rules sv) pane sp" using Cons.prems(3) by simp
    note h = scrape_pane_held [OF Cons.prems(1,2) this, of now]
    have "\<forall>sp' \<in> set ps. shows_agent lib z (sv_rules (fst (scrape_pane lib z now sv sp))) pane sp'"
      using Cons.prems(3) by (simp add: scrape_pane_rules)
    from Cons.IH [OF scrape_pane_inv [OF Cons.prems(1)] conjunct1 [OF h] this] h show ?case by auto
  qed simp
  from this [OF assms(3)] show ?thesis by (simp add: scrape_panes_def)
qed

text \<open>A lasting failure is reported once: over any number of consecutive polls in which listing the
  sessions fails, one error is sent if the failure is new and none if it was reported before.\<close>

theorem failure_reported_once:
  assumes "zs \<noteq> []" and "\<forall>z \<in> set zs. \<exists>e. zj_sessions z = Err e"
  shows "length (snd (run_steps (\<lambda>sv z. poll_panes z sv) sv zs))
    = (if Sc_Sessions \<in> set (sv_failing sv) then 0 else 1)"
proof -
  have held: "Sc_Sessions \<in> set (sv_failing sv) \<Longrightarrow> \<forall>z \<in> set zs. \<exists>e. zj_sessions z = Err e \<Longrightarrow>
      length (snd (run_steps (\<lambda>sv z. poll_panes z sv) sv zs)) = 0" for zs and sv :: "'a server"
  proof (induction zs arbitrary: sv)
    case (Cons z zs)
    then obtain e where "zj_sessions z = Err e" by auto
    with Cons show ?case by (simp add: poll_panes_def report_def)
  qed simp
  obtain z zs' where z: "zs = z # zs'" using assms(1) by (meson neq_Nil_conv)
  with assms(2) obtain e where "zj_sessions z = Err e" by auto
  with held [of "fst (poll_panes z sv)" zs'] held [of sv zs] assms(2) z show ?thesis
    by (simp add: poll_panes_def report_def)
qed

section \<open>Witnesses\<close>

definition ex_lib :: "string serve_lib" where
  "ex_lib = \<lparr>sl_rx = ex_rx, sl_hash = (\<lambda>s. of_nat (length s)), sl_de = ex_parse,
     sl_de_state = (\<lambda>_. None), sl_de_app = (\<lambda>_. Err ''expected value'')\<rparr>"

definition ex_zellij :: zellij where
  "ex_zellij = \<lparr>zj_sessions = Err ''no server'', zj_panes = (\<lambda>_. Ok []), zj_dump_screen = (\<lambda>_ _. Ok []),
     zj_paste = (\<lambda>_ _ _. Ok ()), zj_focus = (\<lambda>_ _ _. Ok ())\<rparr>"

definition ex_server :: "string server" where
  "ex_server = \<lparr>sv_zellij = True, sv_spool = ex_spool, sv_rules = [ex_rule\<lparr>cr_title := [''claude'']\<rparr>], sv_scrape = [],
     sv_intervals = default_intervals, sv_read_cursor = 0, sv_last_pane_poll = None,
     sv_last_scrape = None, sv_last_cleanup = None, sv_sessions = None,
     sv_panes = [(''main'', [\<lparr>pi_id = 3, pi_tab_id = 0, pi_tab_name = [], pi_title = ''claude'',
                              pi_command = None, pi_exited = False\<rparr>])], sv_agents = [],
     sv_exit_hold = [\<lparr>pr_session = ''main'', pr_pane_id = 3\<rparr>], sv_failing = [], sv_spool_failing = False\<rparr>"


theorem server_invariant_witness:
  "\<exists>sv. server_new ex_lib (\<lambda>_. None) True ex_spool \<lparr>sr_agents = []\<rparr> = Ok sv
     \<and> server_inv (fst (run_steps (serve_step ex_lib) sv [SI_Tick (\<lambda>_. None) ex_zellij 5]))"
proof -
  obtain sv where sv: "server_new ex_lib (\<lambda>_. None) True ex_spool \<lparr>sr_agents = []\<rparr> = Ok sv"
    by (simp add: server_new_def)
  with server_invariant [OF sv] show ?thesis by blast
qed

theorem exit_hold_blocks_scrape_witness:
  "\<lparr>pr_session = ''main'', pr_pane_id = 3\<rparr> \<in> set (sv_exit_hold (fst (scrape_panes ex_lib ex_zellij ex_server 9)))"
proof -
  have inv: "server_inv ex_server"
    by (simp add: server_inv_def agents_ok_def bindings_ok_def ex_server_def default_intervals_def MIN_INTERVAL_MS_def)
  have held: "\<lparr>pr_session = ''main'', pr_pane_id = 3\<rparr> \<in> set (sv_exit_hold ex_server)"
    by (simp add: ex_server_def)
  have "\<forall>sp \<in> set (live_panes (sv_panes ex_server)).
      shows_agent ex_lib ex_zellij (sv_rules ex_server) \<lparr>pr_session = ''main'', pr_pane_id = 3\<rparr> sp"
    by (simp add: live_panes_def sorted_items_def ex_server_def shows_agent_def identify_def
        identify_by_title_def title_matches_def any_match_def ex_lib_def ex_rx_def)
  from exit_hold_blocks_scrape [OF inv held this, of 9] show ?thesis by simp
qed

theorem failure_reported_once_witness:
  "length (snd (run_steps (\<lambda>sv z. poll_panes z sv) ex_server [ex_zellij, ex_zellij])) = 1"
  using failure_reported_once [of "[ex_zellij, ex_zellij]" ex_server]
  by (simp add: ex_zellij_def ex_server_def)

end
