(* ===== verification/Replica.thy ===== *)
theory Replica
  imports Serve Monitor
begin

text \<open>
  The probe's server and the app's monitor together: the sessions and panes the monitor shows for a host
  are those the host's probe last saw, because \<open>poll_panes\<close> reports every change and \<open>Monitor::apply_msg\<close>
  keeps exactly what is reported.
\<close>

declare map_of_eq_Some_iff [simp del]

section \<open>What a probe message does to a host's view\<close>

lemma view_set_view [simp]: "view_of (set_view m i v) i = v"
  by (simp add: view_of_def set_view_get)

lemma view_same_hosts: "mo_hosts m' = mo_hosts m \<Longrightarrow> view_of m' i = view_of m i"
  by (simp add: view_of_def)

lemma agents_gone_view [simp]: "view_of (fst (agents_gone m i session live now)) j = view_of m j"
  by (rule view_same_hosts) (simp add: agents_gone_def split_beta)

lemma apply_agent_event_view [simp]: "view_of (fst (apply_agent_event m i ev)) j = view_of m j"
  by (rule view_same_hosts) (simp add: apply_agent_event_tracker)

text \<open>The sessions and panes of a view after a message.\<close>

fun view_after :: "probe_msg \<Rightarrow> session_info list \<times> (string, pane_info list) dict
    \<Rightarrow> session_info list \<times> (string, pane_info list) dict" where
  "view_after (PM_Sessions ss) (_, panes) = (ss, retain (\<lambda>name _. session_live ss name) panes)"
| "view_after (PM_Panes session ps) (ss, panes) = (ss, AList.update session ps panes)"
| "view_after _ v = v"

abbreviation seen :: "monitor \<Rightarrow> string \<Rightarrow> session_info list \<times> (string, pane_info list) dict" where
  "seen m i \<equiv> (hv_sessions (view_of m i), hv_panes (view_of m i))"

lemma apply_msg_seen: "seen (fst (apply_msg m i msg now)) i = view_after msg (seen m i)"
  by (cases msg) (simp_all add: Let_def split_beta)

text \<open>A monitor fed with the messages of one host, each with its time of arrival.\<close>

definition feed :: "monitor \<Rightarrow> string \<Rightarrow> (probe_msg \<times> u64) list \<Rightarrow> monitor" where
  "feed m i msgs = foldl (\<lambda>m (msg, now). fst (apply_msg m i msg now)) m msgs"

lemma feed_seen: "seen (feed m i msgs) i = fold view_after (map fst msgs) (seen m i)"
proof (induction msgs arbitrary: m)
  case (Cons x msgs)
  obtain msg now where x: "x = (msg, now)" by fastforce
  with Cons.IH [of "fst (apply_msg m i msg now)"] apply_msg_seen [of m i msg now] show ?case
    by (simp add: feed_def)
qed (simp add: feed_def)

section \<open>In step\<close>

text \<open>Once the sessions were reported, the view has them and the server's panes, and panes of live
  sessions only; before, it may hold more, but nothing else for what the server knows.\<close>

definition in_step :: "'r server \<Rightarrow> session_info list \<times> (string, pane_info list) dict \<Rightarrow> bool" where
  "in_step sv v \<longleftrightarrow> distinct (keys (snd v))
     \<and> (\<forall>s ps. map_of (sv_panes sv) s = Some ps \<longrightarrow> map_of (snd v) s = Some ps)
     \<and> (\<forall>ss. sv_sessions sv = Some ss \<longrightarrow> fst v = ss
          \<and> (\<forall>s ps. map_of (snd v) s = Some ps \<longrightarrow> session_live ss s))
     \<and> (\<forall>s. sv_sessions sv = None \<longrightarrow> map_of (sv_panes sv) s = None)"

definition quiet :: "probe_msg \<Rightarrow> bool" where
  "quiet m \<longleftrightarrow> (\<forall>v. view_after m v = v)"

lemma quiet_simps [simp]:
  "quiet (PM_AgentEvent ev)" "quiet (probe_error code e)"
  by (simp_all add: quiet_def probe_error_def)

lemma quiet_fold: "list_all quiet msgs \<Longrightarrow> fold view_after msgs v = v"
  by (induction msgs arbitrary: v) (auto simp: quiet_def)

text \<open>The loop over the live sessions.\<close>

definition poll_ok ::
    "zellij \<Rightarrow> (string, pane_info list) dict \<Rightarrow> session_info list
      \<Rightarrow> (string, pane_info list) dict \<Rightarrow> (string, pane_info list) dict \<Rightarrow> bool" where
  "poll_ok z old ss fresh panes \<longleftrightarrow> distinct (keys panes)
     \<and> (\<forall>s ps. map_of fresh s = Some ps \<longrightarrow> map_of panes s = Some ps)
     \<and> (\<forall>s ps. map_of old s = Some ps \<and> session_live ss s \<longrightarrow>
          (map_of panes s = Some ps \<or> (\<exists>ps'. zj_panes z s = Ok ps' \<and> map_of panes s = Some ps')))
     \<and> (\<forall>s ps. map_of panes s = Some ps \<longrightarrow> session_live ss s)"

lemma report_quiet: "list_all quiet (snd (report failing scope (probe_error code e)))"
  by (simp add: report_def)

lemma poll_live_step:
  assumes "poll_ok z old ss fresh panes" "session_live ss (si_name s)"
    and "poll_live z old [s] (failing, fresh) = ((failing', fresh'), out)"
  shows "\<exists>panes'. fold view_after out (ss, panes) = (ss, panes') \<and> poll_ok z old ss fresh' panes'"
proof (cases "zj_panes z (si_name s)")
  case (Inl e)
  with assms(3) have "list_all quiet out"
    using report_quiet [of failing "Sc_Panes (si_name s)" "''zellij''" e] by (simp add: Let_def split_beta)
  moreover have "map_of panes (si_name s) = Some ps" if "map_of old (si_name s) = Some ps" for ps
    using that Inl assms(1,2) unfolding poll_ok_def by (metis sum.distinct(1))
  then have "poll_ok z old ss fresh' panes"
    using Inl assms unfolding poll_ok_def
    by (cases "map_of old (si_name s)") (auto simp: Let_def split_beta dict_simps split: if_splits)
  ultimately show ?thesis by (simp add: quiet_fold)
next
  case (Inr ps)
  then have f: "fresh' = AList.update (si_name s) ps fresh"
    and o: "out = (if map_of old (si_name s) \<noteq> Some ps then [PM_Panes (si_name s) ps] else [])"
    using assms(3) by (auto simp: Let_def)
  show ?thesis
  proof (cases "map_of old (si_name s) = Some ps")
    case True
    with assms(1,2) Inr have "map_of panes (si_name s) = Some ps" unfolding poll_ok_def by fastforce
    with True assms(1) o show ?thesis unfolding poll_ok_def by (simp add: f dict_simps)
  next
    case False
    let ?p = "AList.update (si_name s) ps panes"
    have "poll_ok z old ss fresh' ?p"
      using assms(1,2) Inr unfolding poll_ok_def by (simp add: f dict_simps distinct_update)
    with False o show ?thesis by simp
  qed
qed

lemma poll_live_ok:
  "poll_ok z old ss fresh panes \<Longrightarrow> \<forall>s \<in> set xs. session_live ss (si_name s) \<Longrightarrow>
   poll_live z old xs (failing, fresh) = ((failing', fresh'), out) \<Longrightarrow>
   \<exists>panes'. fold view_after out (ss, panes) = (ss, panes') \<and> poll_ok z old ss fresh' panes'"
proof (induction xs arbitrary: fresh panes failing out)
  case (Cons s xs)
  obtain f1 r1 o1 where one: "poll_live z old [s] (failing, fresh) = ((f1, r1), o1)" by (metis prod.collapse)
  obtain f2 r2 o2 where rest: "poll_live z old xs (f1, r1) = ((f2, r2), o2)" by (metis prod.collapse)
  have "failing' = f2" "fresh' = r2" "out = o1 @ o2"
    using Cons.prems(3) one rest by (auto simp: Let_def split_beta split: sum.splits)
  moreover from poll_live_step [OF Cons.prems(1) _ one] Cons.prems(2) obtain p1 where
    p1: "fold view_after o1 (ss, panes) = (ss, p1)" "poll_ok z old ss r1 p1" by auto
  moreover from Cons.IH [OF p1(2) _ rest [unfolded calculation(1,2) [symmetric]]] Cons.prems(2) obtain p2 where
    "fold view_after o2 (ss, p1) = (ss, p2)" "poll_ok z old ss fresh' p2" by auto
  ultimately show ?case by auto
qed simp

lemma live_session: "s \<in> set (filter (\<lambda>s. \<not> si_exited s) ss) \<Longrightarrow> session_live ss (si_name s)"
  by (auto simp: session_live_def)

lemma poll_panes_in_step:
  assumes "in_step sv v" "poll_panes z sv = (sv', out)"
  shows "in_step sv' (fold view_after out v)"
proof (cases "zj_sessions z")
  case (Inl e)
  with assms(2) have "list_all quiet out" "sv_panes sv' = sv_panes sv" "sv_sessions sv' = sv_sessions sv"
    using report_quiet [of "sv_failing sv" Sc_Sessions "''zellij''" e] by (auto simp: poll_panes_def split_beta)
  with assms(1) show ?thesis by (simp add: quiet_fold in_step_def)
next
  case (Inr ss)
  obtain v1 panes where v: "v = (v1, panes)" by fastforce
  let ?live = "filter (\<lambda>s. \<not> si_exited s) ss"
  obtain failing fresh out2 where
    p: "poll_live z (sv_panes sv) ?live (removeAll Sc_Sessions (sv_failing sv), []) = ((failing, fresh), out2)"
    by (metis prod.collapse)
  let ?out1 = "if sv_sessions sv \<noteq> Some ss then [PM_Sessions ss] else []"
  have sv': "sv_panes sv' = fresh" "sv_sessions sv' = Some ss" "out = ?out1 @ out2"
    using assms(2) by (auto simp: poll_panes_def Inr p Let_def)
  have "\<exists>p1. fold view_after ?out1 v = (ss, p1) \<and> poll_ok z (sv_panes sv) ss [] p1"
  proof (cases "sv_sessions sv = Some ss")
    case True
    with assms(1) v show ?thesis by (auto simp: in_step_def poll_ok_def)
  next
    case False
    let ?p1 = "retain (\<lambda>name _. session_live ss name) panes"
    have d: "distinct (keys panes)" using assms(1) v by (simp add: in_step_def)
    have "poll_ok z (sv_panes sv) ss [] ?p1"
      using assms(1) d unfolding poll_ok_def in_step_def v snd_conv
      by (auto simp: map_of_retain distinct_retain simp del: map_of_eq_Some_iff split: option.splits if_splits)
    with False v show ?thesis by simp
  qed
  then obtain p1 where p1: "fold view_after ?out1 v = (ss, p1)" "poll_ok z (sv_panes sv) ss [] p1" by blast
  from poll_live_ok [OF p1(2) _ p] live_session obtain p2 where
    "fold view_after out2 (ss, p1) = (ss, p2)" "poll_ok z (sv_panes sv) ss fresh p2" by blast
  then show ?thesis
    using p1(1) sv' unfolding in_step_def poll_ok_def by simp
qed

text \<open>The other steps send nothing about sessions and panes.\<close>

lemma in_step_quiet:
  fixes sv sv' :: "'r server"
  assumes "in_step sv v" "list_all quiet out" "sv_panes sv' = sv_panes sv" "sv_sessions sv' = sv_sessions sv"
  shows "in_step sv' (fold view_after out v)"
  using assms by (simp add: quiet_fold in_step_def)

lemma hook_msg_quiet: "list_all quiet (hook_msg lib cr)"
  by (simp add: hook_msg_def hook_event_def split: option.split)

lemma drain_record_views [simp]:
  "sv_panes (fst (drain_record lib sv cr)) = sv_panes sv"
  "sv_sessions (fst (drain_record lib sv cr)) = sv_sessions sv"
  by (cases cr; simp add: drain_record_def Let_def)+

lemma drain_run_quiet:
  "list_all quiet (snd (run_steps (drain_record lib) sv rs))
   \<and> sv_panes (fst (run_steps (drain_record lib) sv rs)) = sv_panes sv
   \<and> sv_sessions (fst (run_steps (drain_record lib) sv rs)) = sv_sessions sv"
  by (induction rs arbitrary: sv) (simp_all add: drain_record_out hook_msg_quiet)

lemma drain_spool_quiet:
  "list_all quiet (snd (drain_spool lib io sv now))"
  "sv_panes (fst (drain_spool lib io sv now)) = sv_panes sv"
  "sv_sessions (fst (drain_spool lib io sv now)) = sv_sessions sv"
  using drain_run_quiet [of lib]
  by (auto simp: drain_spool_def Let_def split_beta split: sum.split)

lemma scrape_pane_quiet:
  "list_all quiet (snd (scrape_pane lib z now sv sp))"
  "sv_panes (fst (scrape_pane lib z now sv sp)) = sv_panes sv"
  "sv_sessions (fst (scrape_pane lib z now sv sp)) = sv_sessions sv"
  by (auto simp: scrape_pane_def scrape_observe_def Let_def split_beta report_quiet scrape_event_def
      split: sum.split option.split)

lemma scrape_panes_quiet:
  "list_all quiet (snd (scrape_panes lib z sv now)) \<and> sv_panes (fst (scrape_panes lib z sv now)) = sv_panes sv
   \<and> sv_sessions (fst (scrape_panes lib z sv now)) = sv_sessions sv"
proof -
  have "list_all quiet (snd (run_steps (scrape_pane lib z now) sv ps))
    \<and> sv_panes (fst (run_steps (scrape_pane lib z now) sv ps)) = sv_panes sv
    \<and> sv_sessions (fst (run_steps (scrape_pane lib z now) sv ps)) = sv_sessions sv" for ps
    by (induction ps arbitrary: sv) (simp_all add: scrape_pane_quiet)
  then show ?thesis by (simp add: scrape_panes_def)
qed

lemma tick_cleanup_quiet:
  "list_all quiet (snd (tick_cleanup io sv now)) \<and> sv_panes (fst (tick_cleanup io sv now)) = sv_panes sv
   \<and> sv_sessions (fst (tick_cleanup io sv now)) = sv_sessions sv"
  by (auto simp: tick_cleanup_def Let_def split_beta report_quiet split: sum.split)

lemma tick_in_step:
  assumes "in_step sv v" shows "in_step (fst (tick lib io z sv now)) (fold view_after (snd (tick lib io z sv now)) v)"
proof -
  let ?s1 = "tick_cleanup io sv now"
  let ?s2 = "drain_spool lib io (fst ?s1) now"
  let ?s3 = "if due (sv_last_pane_poll (fst ?s2)) (in_pane_poll_ms (sv_intervals (fst ?s2))) now
    then poll_panes z ((fst ?s2)\<lparr>sv_last_pane_poll := Some now\<rparr>) else (fst ?s2, [])"
  let ?s4 = "if due (sv_last_scrape (fst ?s3)) (in_scrape_ms (sv_intervals (fst ?s3))) now
    then scrape_panes lib z ((fst ?s3)\<lparr>sv_last_scrape := Some now\<rparr>) now else (fst ?s3, [])"
  have 1: "in_step (fst ?s1) (fold view_after (snd ?s1) v)"
    using tick_cleanup_quiet [of io sv now] by (intro in_step_quiet [OF assms]) auto
  have 2: "in_step (fst ?s2) (fold view_after (snd ?s1 @ snd ?s2) v)"
    using in_step_quiet [OF 1 drain_spool_quiet(1)] drain_spool_quiet [of lib io "fst ?s1" now] by simp
  have "in_step ((fst ?s2)\<lparr>sv_last_pane_poll := Some now\<rparr>) (fold view_after (snd ?s1 @ snd ?s2) v)"
    using 2 by (simp add: in_step_def)
  then have 3: "in_step (fst ?s3) (fold view_after (snd ?s1 @ snd ?s2 @ snd ?s3) v)"
    using 2 poll_panes_in_step [OF _ surjective_pairing] by fastforce
  then have "in_step ((fst ?s3)\<lparr>sv_last_scrape := Some now\<rparr>) (fold view_after (snd ?s1 @ snd ?s2 @ snd ?s3) v)"
    by (simp add: in_step_def)
  then have 4: "in_step (fst ?s4) (fold view_after (snd ?s1 @ snd ?s2 @ snd ?s3 @ snd ?s4) v)"
    using 3 scrape_panes_quiet [of lib z "(fst ?s3)\<lparr>sv_last_scrape := Some now\<rparr>" now]
      in_step_quiet [of "(fst ?s3)\<lparr>sv_last_scrape := Some now\<rparr>" "fold view_after (snd ?s1 @ snd ?s2 @ snd ?s3) v"]
    by simp
  show ?thesis
    using 2 4 by (simp add: tick_def Let_def split_beta)
qed

lemma handle_quiet:
  "list_all quiet (snd (handle lib io pid z sv msg)) \<and> sv_panes (fst (handle lib io pid z sv msg)) = sv_panes sv
   \<and> sv_sessions (fst (handle lib io pid z sv msg)) = sv_sessions sv"
  by (cases msg) (auto simp: with_zellij_def split_beta split: sum.split)

lemma serve_step_in_step:
  assumes "in_step sv v" shows "in_step (fst (serve_step lib sv x)) (fold view_after (snd (serve_step lib sv x)) v)"
proof (cases x)
  case (SI_Line io pid z line)
  have "list_all quiet (snd (handle_line lib io pid z sv line)) \<and> sv_panes (fst (handle_line lib io pid z sv line)) = sv_panes sv
   \<and> sv_sessions (fst (handle_line lib io pid z sv line)) = sv_sessions sv"
    using handle_quiet [of lib io pid z sv] by (auto simp: handle_line_def split: sum.split)
  with SI_Line in_step_quiet [OF assms] show ?thesis by simp
qed (simp add: tick_in_step [OF assms])

lemma serve_run_in_step:
  "in_step sv v \<Longrightarrow> in_step (fst (run_steps (serve_step lib) sv xs)) (fold view_after (snd (run_steps (serve_step lib) sv xs)) v)"
  by (induction xs arbitrary: sv v) (simp_all add: serve_step_in_step)

lemma server_new_in_step:
  "server_new lib io has spool rules = Ok sv \<Longrightarrow> distinct (keys (snd v)) \<Longrightarrow> in_step sv v"
  by (auto simp: server_new_def in_step_def split: sum.splits)

text \<open>C6. The app sees what the probe sees. Start a server (after a first connect or a reconnect, with
  whatever the monitor remembered of the host), run it over any ticks and input lines and apply its
  messages to the monitor in order: once the server has listed the sessions, the monitor's view
  has exactly that list, panes of live sessions only, and for every session whose panes the server
  knows exactly those panes.\<close>

theorem monitor_replicates_probe:
  assumes "server_new lib io has_zellij spool rules = Ok sv" and "monitor_inv m"
    and "run_steps (serve_step lib) sv xs = (sv', out)" and "map fst msgs = out"
    and "sv_sessions sv' = Some ss"
  shows "hv_sessions (view_of (feed m i msgs) i) = ss
    \<and> (\<forall>s ps. map_of (sv_panes sv') s = Some ps \<longrightarrow> map_of (hv_panes (view_of (feed m i msgs) i)) s = Some ps)
    \<and> (\<forall>s ps. map_of (hv_panes (view_of (feed m i msgs) i)) s = Some ps \<longrightarrow> session_live ss s)"
proof -
  have "distinct (keys (hv_panes (view_of m i)))" by (rule view_of_panes [OF assms(2)])
  then have "in_step sv (seen m i)" by (intro server_new_in_step [OF assms(1)]) simp
  from serve_run_in_step [OF this, of lib xs] assms(3,4) feed_seen [of m i msgs]
  have "in_step sv' (seen (feed m i msgs) i)" by simp
  with assms(5) show ?thesis by (simp add: in_step_def)
qed

lemma drain_record_flags [simp]:
  "sv_zellij (fst (drain_record lib sv cr)) = sv_zellij sv"
  "sv_last_pane_poll (fst (drain_record lib sv cr)) = sv_last_pane_poll sv"
  by (cases cr; simp add: drain_record_def Let_def)+

lemma drain_spool_flags:
  "sv_zellij (fst (drain_spool lib io sv now)) = sv_zellij sv"
  "sv_last_pane_poll (fst (drain_spool lib io sv now)) = sv_last_pane_poll sv"
proof -
  have "sv_zellij (fst (run_steps (drain_record lib) sv rs)) = sv_zellij sv
    \<and> sv_last_pane_poll (fst (run_steps (drain_record lib) sv rs)) = sv_last_pane_poll sv" for rs and sv :: "'a server"
    by (induction rs arbitrary: sv) simp_all
  then show "sv_zellij (fst (drain_spool lib io sv now)) = sv_zellij sv"
    "sv_last_pane_poll (fst (drain_spool lib io sv now)) = sv_last_pane_poll sv"
    by (simp_all add: drain_spool_def Let_def split_beta split: sum.split)
qed

lemma tick_cleanup_flags:
  "sv_zellij (fst (tick_cleanup io sv now)) = sv_zellij sv"
  "sv_last_pane_poll (fst (tick_cleanup io sv now)) = sv_last_pane_poll sv"
  by (simp_all add: tick_cleanup_def Let_def split_beta split: sum.split)

text \<open>The first tick of a server with zellij lists the sessions.\<close>

lemma first_tick_sessions:
  assumes "sv_zellij sv" "sv_last_pane_poll sv = None" "zj_sessions z = Ok ss"
  shows "sv_sessions (fst (tick lib io z sv now)) = Some ss"
proof -
  have p: "sv_sessions (fst (poll_panes z sv2)) = Some ss" for sv2 :: "'a server"
    by (simp add: poll_panes_def assms(3) Let_def split_beta)
  have s: "sv_sessions (fst (scrape_panes lib z sv3 now)) = sv_sessions sv3" for sv3
    using scrape_panes_quiet [of lib z sv3 now] by simp
  show ?thesis
    by (simp add: tick_def Let_def split_beta drain_spool_flags tick_cleanup_flags assms(1,2) due_def p s)
qed

theorem monitor_replicates_probe_witness:
  "\<exists>sv sv' out. server_new ex_lib (\<lambda>_. None) True ex_spool \<lparr>sr_agents = []\<rparr> = Ok sv
     \<and> run_steps (serve_step ex_lib) sv
         [SI_Tick (\<lambda>_. None) (ex_zellij\<lparr>zj_sessions := Ok [\<lparr>si_name = ''main'', si_exited = False\<rparr>]\<rparr>) 5] = (sv', out)
     \<and> hv_sessions (view_of (feed (monitor_new default_tracker_config) ''h'' (map (\<lambda>m. (m, 7)) out)) ''h'')
       = [\<lparr>si_name = ''main'', si_exited = False\<rparr>]"
proof -
  let ?ss = "[\<lparr>si_name = ''main'', si_exited = False\<rparr>]"
  let ?z = "ex_zellij\<lparr>zj_sessions := Ok ?ss\<rparr>"
  obtain sv where sv: "server_new ex_lib (\<lambda>_. None) True ex_spool \<lparr>sr_agents = []\<rparr> = Ok sv"
    by (simp add: server_new_def)
  obtain sv' out where run: "run_steps (serve_step ex_lib) sv [SI_Tick (\<lambda>_. None) ?z 5] = (sv', out)" by fastforce
  have "sv_zellij sv" "sv_last_pane_poll sv = None" using sv by (auto simp: server_new_def)
  then have "sv_sessions (fst (tick ex_lib (\<lambda>_. None) ?z sv 5)) = Some ?ss"
    by (intro first_tick_sessions) simp_all
  moreover have "sv' = fst (tick ex_lib (\<lambda>_. None) ?z sv 5)"
    using run by (auto simp: run_steps.simps split_beta)
  ultimately have "sv_sessions sv' = Some ?ss" by simp
  from monitor_replicates_probe [OF sv monitor_inv_new run _ this, of "map (\<lambda>m. (m, 7)) out"] sv run
  show ?thesis by (auto simp: comp_def)
qed

end
