(* ===== verification/Term.thy ===== *)
theory Term
  imports Host
begin

text \<open>
  The task that owns one host's terminal connection and its open terminals
  (\<open>crates/mai-core/src/term.rs\<close>, with the channel types of \<open>pty.rs\<close>).

  Each function of \<open>Terms\<close> is a function on the record \<open>terms\<close>. What happens while a connect or an attach
  is awaited comes from \<open>tr_script\<close>: one \<open>await\<close> per awaited future, with the commands that arrive
  meanwhile, the time that passes, the host's entry in the shared table of zellij paths afterwards, and
  the future's result (\<open>None\<close> when the command channel closes first). A script that has run out stands
  for a closed command channel. A result \<open>None\<close> of an operation is the source's \<open>None\<close>: the task was
  told to stop.

  What the task does is recorded in \<open>tr_trace\<close>, in order: requests to open a terminal it receives, their
  answers, the events sent to the owners of terminals, the input sent to PTYs, and the connection
  states sent to the monitor. The PTY started by an attach is named by its terminal and generation.
  The order of \<open>tr_slots\<close> stands for the iteration order of the hash map.
\<close>

section \<open>Types\<close>

definition MAX_QUICK_ENDS :: u32 where "MAX_QUICK_ENDS = 3"

datatype pty_in = PI_Data "char list" | PI_Resize term_size | PI_Close

datatype pty_out = PO_Data "char list" | PO_Exit "u32 option"

datatype term_event =
    TV_Output "char list"
  | TV_Attached
  | TV_Detached string
  | TV_Exited "u32 option"

fun show_term_error :: "(string \<Rightarrow> string) \<Rightarrow> term_error \<Rightarrow> string" where
  "show_term_error dbg TE_NoHost = ''no such host''"
| "show_term_error dbg (TE_BadSession name) =
     ''invalid session name '' @ dbg name @ '': it must not be empty or start with '' @ [CHR 0x27, CHR ''-'', CHR 0x27]"
| "show_term_error dbg (TE_Open (OE_Retry m)) = ''terminal connection failed: '' @ m"
| "show_term_error dbg (TE_Open (OE_NeedsUser p)) = show_problem p"
| "show_term_error dbg TE_Stopped = ''host removed''"

type_synonym pty_name = "u64 \<times> u64"

record slot =
  sl_spec :: attach_spec
  sl_pty :: "pty_name option"
  sl_generation :: u64
  sl_attached_at :: nat
  sl_quick_ends :: u32

datatype term_link =
    TL_Idle
  | TL_Up
  | TL_Busy
  | TL_Down "nat option" open_error

datatype term_action =
    TA_Asked nat
  | TA_Reply nat "term_error + u64"
  | TA_Event u64 term_event
  | TA_Pty pty_name pty_in
  | TA_Report string host_event
  | TA_Connect host_config
  | TA_Attach u64 u64 "string option" attach_spec

record await =
  aw_cmds :: "term_cmd list"
  aw_elapsed :: nat
  aw_zellij :: "string option"
  aw_done :: "(open_error + unit) option"

record terms =
  tr_cfg :: host_config
  tr_zellij :: "string option"
  tr_link :: term_link
  tr_slots :: "(u64, slot) dict"
  tr_pending :: "(attach_spec \<times> nat) list"
  tr_next_id :: u64
  tr_backoff :: backoff
  tr_up_since :: "nat option"
  tr_now :: nat
  tr_script :: "await list"
  tr_trace :: "term_action list"
  tr_done :: bool

section \<open>Operations\<close>

definition reason_of :: "open_error \<Rightarrow> string" where
  "reason_of e = (case e of OE_Retry m \<Rightarrow> m | OE_NeedsUser p \<Rightarrow> show_problem p)"

definition act :: "term_action \<Rightarrow> terms \<Rightarrow> terms" where
  "act a t = t\<lparr>tr_trace := tr_trace t @ [a]\<rparr>"

definition term_emit :: "conn_state option \<Rightarrow> terms \<Rightarrow> terms" where
  "term_emit state t = act (TA_Report (hc_id (tr_cfg t)) (HE_Term state)) t"

definition zellij_path :: "terms \<Rightarrow> string option" where
  "zellij_path t = (case hc_zellij (tr_cfg t) of Some z \<Rightarrow> Some z | None \<Rightarrow> tr_zellij t)"

fun term_local :: "terms \<Rightarrow> term_cmd \<Rightarrow> terms" where
  "term_local t (TC_Input tid data) =
     (case map_of (tr_slots t) tid of
        None \<Rightarrow> t
      | Some s \<Rightarrow> (case sl_pty s of None \<Rightarrow> t | Some pty \<Rightarrow> act (TA_Pty pty (PI_Data data)) t))"
| "term_local t (TC_Resize tid sz) =
     (case map_of (tr_slots t) tid of
        None \<Rightarrow> t
      | Some s \<Rightarrow>
          let t1 = t\<lparr>tr_slots := AList.update tid (s\<lparr>sl_spec := (sl_spec s)\<lparr>as_size := sz\<rparr>\<rparr>) (tr_slots t)\<rparr>
          in (case sl_pty s of None \<Rightarrow> t1 | Some pty \<Rightarrow> act (TA_Pty pty (PI_Resize sz)) t1))"
| "term_local t (TC_Close tid) =
     (case map_of (tr_slots t) tid of
        None \<Rightarrow> t
      | Some s \<Rightarrow>
          let t1 = t\<lparr>tr_slots := AList.delete tid (tr_slots t)\<rparr>
          in (case sl_pty s of None \<Rightarrow> t1 | Some pty \<Rightarrow> act (TA_Pty pty PI_Close) t1))"
| "term_local t (TC_Open spec reply) = act (TA_Asked reply) (t\<lparr>tr_pending := tr_pending t @ [(spec, reply)]\<rparr>)"
| "term_local t TC_Retry = t"
| "term_local t TC_Stop = t"

fun busy_cmds :: "terms \<Rightarrow> term_cmd list \<Rightarrow> terms \<times> bool" where
  "busy_cmds t [] = (t, True)"
| "busy_cmds t (c # cs) = (if c = TC_Stop then (t, False) else busy_cmds (term_local t c) cs)"

definition term_busy :: "terms \<Rightarrow> terms \<times> (open_error + unit) option" where
  "term_busy t =
     (case tr_script t of
        [] \<Rightarrow> (t, None)
      | a # rest \<Rightarrow>
          let (t1, go_on) = busy_cmds (t\<lparr>tr_script := rest\<rparr>) (aw_cmds a)
          in (t1\<lparr>tr_now := tr_now t1 + aw_elapsed a, tr_zellij := aw_zellij a\<rparr>,
              if go_on then aw_done a else None))"

definition term_attach :: "terms \<Rightarrow> u64 \<Rightarrow> u64 \<Rightarrow> attach_spec \<Rightarrow> terms \<times> (open_error + pty_name) option" where
  "term_attach t tid generation spec =
     (case tr_link t of
        TL_Up \<Rightarrow>
          let (t1, r) = term_busy (act (TA_Attach tid generation (zellij_path t) spec) (t\<lparr>tr_link := TL_Busy\<rparr>))
          in (case r of
                None \<Rightarrow> (t1, None)
              | Some (Err e) \<Rightarrow> (t1\<lparr>tr_link := TL_Up\<rparr>, Some (Err e))
              | Some (Ok _) \<Rightarrow> (t1\<lparr>tr_link := TL_Up\<rparr>, Some (Ok (tid, generation))))
      | _ \<Rightarrow> (t, Some (Err (OE_Retry ''terminal connection is down''))))"

definition term_connect :: "terms \<Rightarrow> terms \<times> (open_error + unit) option" where
  "term_connect t =
     (let (t1, r) = term_busy (act (TA_Connect (tr_cfg t)) t)
      in (case r of
            Some (Ok _) \<Rightarrow> (term_emit (Some CS_Up) (t1\<lparr>tr_link := TL_Up, tr_up_since := Some (tr_now t1)\<rparr>), r)
          | _ \<Rightarrow> (t1, r)))"

definition idle_if_empty :: "terms \<Rightarrow> terms" where
  "idle_if_empty t =
     (if tr_slots t = [] \<and> tr_link t \<noteq> TL_Idle \<and> tr_link t \<noteq> TL_Busy
      then term_emit None (t\<lparr>tr_link := TL_Idle, tr_up_since := None, tr_backoff := backoff_reset (tr_backoff t)\<rparr>)
      else t)"

text \<open>The link is down: report it, or drop it when no terminal is left. Shared by \<open>lost\<close> and the failing
  branches of \<open>reconnect\<close>.\<close>

definition link_down :: "nat option \<Rightarrow> open_error \<Rightarrow> conn_state \<Rightarrow> terms \<Rightarrow> terms" where
  "link_down at err state t =
     (let t1 = t\<lparr>tr_link := TL_Down at err\<rparr>
      in if tr_slots t1 = [] then idle_if_empty t1 else term_emit (Some state) t1)"

definition retry_link :: "string \<Rightarrow> terms \<Rightarrow> terms" where
  "retry_link reason t =
     (let (retry_in, b) = next_delay (tr_backoff t)
      in link_down (Some (tr_now t + retry_in)) (OE_Retry reason) (CS_Retrying retry_in reason) (t\<lparr>tr_backoff := b\<rparr>))"

definition detach_all :: "string \<Rightarrow> terms \<Rightarrow> terms" where
  "detach_all reason t =
     t\<lparr>tr_slots := map (\<lambda>(tid, s). (tid, s\<lparr>sl_pty := None\<rparr>)) (tr_slots t),
       tr_trace := tr_trace t @ map (\<lambda>(tid, _). TA_Event tid (TV_Detached reason)) (tr_slots t)\<rparr>"

definition term_lost :: "string \<Rightarrow> terms \<Rightarrow> terms" where
  "term_lost reason t =
     (let t1 = detach_all reason t;
          stable = (case tr_up_since t1 of None \<Rightarrow> False | Some s \<Rightarrow> STABLE_AFTER \<le> tr_now t1 - s);
          t2 = t1\<lparr>tr_up_since := None\<rparr>;
          t3 = (if stable then t2\<lparr>tr_backoff := backoff_reset (tr_backoff t2)\<rparr> else t2)
      in retry_link reason t3)"

definition reattached :: "u64 \<Rightarrow> u64 \<Rightarrow> pty_name \<Rightarrow> terms \<Rightarrow> terms" where
  "reattached tid generation pty t =
     (case map_of (tr_slots t) tid of
        Some s \<Rightarrow>
          act (TA_Event tid TV_Attached)
            (t\<lparr>tr_slots := AList.update tid
                 (s\<lparr>sl_pty := Some pty, sl_generation := generation, sl_attached_at := tr_now t\<rparr>) (tr_slots t)\<rparr>)
      | None \<Rightarrow> act (TA_Pty pty PI_Close) t)"

fun reattach_all :: "terms \<Rightarrow> u64 list \<Rightarrow> terms \<times> bool" where
  "reattach_all t [] = (idle_if_empty t, True)"
| "reattach_all t (tid # ids) =
     (case map_of (tr_slots t) tid of
        None \<Rightarrow> reattach_all t ids
      | Some s \<Rightarrow>
          let generation = sl_generation s + 1; (t1, r) = term_attach t tid generation (sl_spec s)
          in (case r of
                None \<Rightarrow> (t1, False)
              | Some (Ok pty) \<Rightarrow> reattach_all (reattached tid generation pty t1) ids
              | Some (Err e) \<Rightarrow> (term_lost (reason_of e) t1, True)))"

definition reconnect :: "terms \<Rightarrow> terms \<times> bool" where
  "reconnect t =
     (let (t1, r) = term_connect t
      in (case r of
            None \<Rightarrow> (t1, False)
          | Some (Err (OE_Retry reason)) \<Rightarrow> (retry_link reason t1, True)
          | Some (Err (OE_NeedsUser p)) \<Rightarrow> (link_down None (OE_NeedsUser p) (CS_NeedsUser p) t1, True)
          | Some (Ok _) \<Rightarrow> reattach_all t1 (keys (tr_slots t1))))"

text \<open>Connecting for a terminal while none is open: the error branch goes back to idle.\<close>

definition connect_first :: "terms \<Rightarrow> terms \<times> (open_error + unit) option" where
  "connect_first t =
     (let (t1, r) = term_connect t
      in (case r of
            Some (Err e) \<Rightarrow> (term_emit None (t1\<lparr>tr_link := TL_Idle\<rparr>), r)
          | _ \<Rightarrow> (t1, r)))"

definition open_link :: "terms \<Rightarrow> terms \<times> (open_error + unit) option" where
  "open_link t =
     (case tr_link t of
        TL_Down _ _ \<Rightarrow>
          let (t1, go_on) = reconnect t
          in if \<not> go_on then (t1, None)
             else (case tr_link t1 of
                     TL_Down _ err \<Rightarrow> (t1, Some (Err err))
                   | TL_Idle \<Rightarrow> connect_first t1
                   | _ \<Rightarrow> (t1, Some (Ok ())))
      | TL_Idle \<Rightarrow> connect_first t
      | _ \<Rightarrow> (t, Some (Ok ())))"

definition term_open :: "terms \<Rightarrow> attach_spec \<Rightarrow> terms \<times> (term_error + u64) option" where
  "term_open t spec =
     (let (t1, r) = open_link t
      in (case r of
            None \<Rightarrow> (t1, None)
          | Some (Err e) \<Rightarrow> (t1, Some (Err (TE_Open e)))
          | Some (Ok _) \<Rightarrow>
              let tid = tr_next_id t1; (t2, r2) = term_attach (t1\<lparr>tr_next_id := tid + 1\<rparr>) tid 0 spec
              in (case r2 of
                    None \<Rightarrow> (t2, None)
                  | Some (Ok pty) \<Rightarrow>
                      (act (TA_Event tid TV_Attached)
                         (t2\<lparr>tr_slots := AList.update tid
                              \<lparr>sl_spec = spec, sl_pty = Some pty, sl_generation = 0,
                               sl_attached_at = tr_now t2, sl_quick_ends = 0\<rparr> (tr_slots t2)\<rparr>),
                       Some (Ok tid))
                  | Some (Err e) \<Rightarrow> (idle_if_empty t2, Some (Err (TE_Open e))))))"

definition channel_ended :: "terms \<Rightarrow> u64 \<Rightarrow> terms \<times> bool" where
  "channel_ended t tid =
     (case map_of (tr_slots t) tid of
        None \<Rightarrow> (t, True)
      | Some s \<Rightarrow>
          let quick = (if tr_now t - sl_attached_at s < STABLE_AFTER then sl_quick_ends s + 1 else 0);
              t1 = t\<lparr>tr_slots := AList.update tid (s\<lparr>sl_pty := None, sl_quick_ends := quick\<rparr>) (tr_slots t)\<rparr>
          in if MAX_QUICK_ENDS \<le> quick
             then (idle_if_empty
                     ((act (TA_Event tid (TV_Exited None)) t1)\<lparr>tr_slots := AList.delete tid (tr_slots t1)\<rparr>), True)
             else let t2 = act (TA_Event tid (TV_Detached ''terminal channel closed'')) t1;
                      generation = sl_generation s + 1;
                      (t3, r) = term_attach t2 tid generation (sl_spec s)
                  in (case r of
                        None \<Rightarrow> (t3, False)
                      | Some (Ok pty) \<Rightarrow> (idle_if_empty (reattached tid generation pty t3), True)
                      | Some (Err e) \<Rightarrow> (term_lost (reason_of e) t3, True)))"

definition term_output :: "terms \<Rightarrow> bool \<Rightarrow> u64 \<Rightarrow> u64 \<Rightarrow> pty_out option \<Rightarrow> terms \<times> bool" where
  "term_output t alive tid generation out =
     (case map_of (tr_slots t) tid of
        None \<Rightarrow> (t, True)
      | Some s \<Rightarrow>
          if sl_generation s \<noteq> generation \<or> sl_pty s = None then (t, True)
          else (case out of
                  Some (PO_Data d) \<Rightarrow> (act (TA_Event tid (TV_Output d)) t, True)
                | Some (PO_Exit status) \<Rightarrow>
                    (idle_if_empty
                       ((act (TA_Event tid (TV_Exited status)) t)\<lparr>tr_slots := AList.delete tid (tr_slots t)\<rparr>), True)
                | None \<Rightarrow>
                    if tr_link t = TL_Up \<and> alive then channel_ended t tid
                    else (term_lost ''connection lost'' t, True)))"

definition answer :: "nat \<Rightarrow> terms \<times> (term_error + u64) option \<Rightarrow> terms \<times> bool" where
  "answer reply tr = (case snd tr of Some r \<Rightarrow> (act (TA_Reply reply r) (fst tr), True) | None \<Rightarrow> (fst tr, False))"

fun term_command :: "terms \<Rightarrow> term_cmd option \<Rightarrow> terms \<times> bool" where
  "term_command t None = (t, False)"
| "term_command t (Some TC_Stop) = (t, False)"
| "term_command t (Some (TC_Open spec reply)) = answer reply (term_open (act (TA_Asked reply) t) spec)"
| "term_command t (Some TC_Retry) = (case tr_link t of TL_Down _ _ \<Rightarrow> reconnect t | _ \<Rightarrow> (t, True))"
| "term_command t (Some cmd) = (idle_if_empty (term_local t cmd), True)"

definition close_all :: "terms \<Rightarrow> terms" where
  "close_all t =
     t\<lparr>tr_trace := tr_trace t @ map (\<lambda>pty. TA_Pty pty PI_Close) (List.map_filter (\<lambda>(_, s). sl_pty s) (tr_slots t))\<rparr>"

section \<open>The loop\<close>

text \<open>One turn of the loop of \<open>run_terms\<close> with what its \<open>select!\<close> received: the next waiting request when
  there is one, else a command, the output of a PTY (with \<open>alive()\<close> of the transport), or the end of
  the reconnect sleep. A turn the loop cannot take has no effect.\<close>

datatype term_in =
    TI_Pending
  | TI_Cmd "term_cmd option"
  | TI_Out bool u64 u64 "pty_out option"
  | TI_Sleep

record term_turn =
  tt_elapsed :: nat
  tt_zellij :: "string option"
  tt_script :: "await list"
  tt_in :: term_in

definition run_terms :: "host_config \<Rightarrow> terms" where
  "run_terms cfg =
     \<lparr>tr_cfg = cfg, tr_zellij = None, tr_link = TL_Idle, tr_slots = [], tr_pending = [], tr_next_id = 1,
      tr_backoff = backoff_default, tr_up_since = None, tr_now = 0, tr_script = [], tr_trace = [],
      tr_done = False\<rparr>"

definition retry_at :: "terms \<Rightarrow> nat option" where
  "retry_at t = (case tr_link t of TL_Down at _ \<Rightarrow> if tr_slots t = [] then None else at | _ \<Rightarrow> None)"

fun term_iterate :: "terms \<Rightarrow> term_in \<Rightarrow> terms \<times> bool" where
  "term_iterate t TI_Pending =
     (case tr_pending t of
        [] \<Rightarrow> (t, True)
      | (spec, reply) # rest \<Rightarrow> answer reply (term_open (t\<lparr>tr_pending := rest\<rparr>) spec))"
| "term_iterate t (TI_Cmd cmd) = (if tr_pending t = [] then term_command t cmd else (t, True))"
| "term_iterate t (TI_Out alive tid generation out) =
     (if tr_pending t = [] then term_output t alive tid generation out else (t, True))"
| "term_iterate t TI_Sleep =
     (case retry_at t of
        Some at \<Rightarrow> if tr_pending t = [] \<and> at \<le> tr_now t then reconnect t else (t, True)
      | None \<Rightarrow> (t, True))"

definition term_step :: "terms \<Rightarrow> term_turn \<Rightarrow> terms" where
  "term_step t turn =
     (if tr_done t then t
      else let (t1, go_on) =
                 term_iterate (t\<lparr>tr_now := tr_now t + tt_elapsed turn, tr_zellij := tt_zellij turn,
                                 tr_script := tt_script turn\<rparr>) (tt_in turn)
           in if go_on then t1 else (close_all t1)\<lparr>tr_done := True\<rparr>)"

definition term_run :: "host_config \<Rightarrow> term_turn list \<Rightarrow> terms" where
  "term_run cfg turns = fold (\<lambda>turn t. term_step t turn) turns (run_terms cfg)"

section \<open>What a trace says\<close>

text \<open>The life of a terminal as its owner sees it.\<close>

datatype term_phase = TP_New | TP_Attached | TP_Detached | TP_Over

fun phase_step :: "term_phase \<Rightarrow> term_event \<Rightarrow> term_phase option" where
  "phase_step TP_New TV_Attached = Some TP_Attached"
| "phase_step TP_Attached (TV_Output d) = Some TP_Attached"
| "phase_step TP_Attached (TV_Detached r) = Some TP_Detached"
| "phase_step TP_Attached (TV_Exited c) = Some TP_Over"
| "phase_step TP_Detached (TV_Detached r) = Some TP_Detached"
| "phase_step TP_Detached TV_Attached = Some TP_Attached"
| "phase_step p e = None"

fun phase_action :: "u64 \<Rightarrow> term_phase option \<Rightarrow> term_action \<Rightarrow> term_phase option" where
  "phase_action i p (TA_Event j e) = (if j = i then Option.bind p (\<lambda>q. phase_step q e) else p)"
| "phase_action i p a = p"

definition phase_of :: "u64 \<Rightarrow> term_action list \<Rightarrow> term_phase option" where
  "phase_of i = foldl (phase_action i) (Some TP_New)"

text \<open>The connection state last reported to the monitor; nothing counts as \<open>Term(None)\<close>.\<close>

fun report_action :: "conn_state option \<Rightarrow> term_action \<Rightarrow> conn_state option" where
  "report_action r (TA_Report h (HE_Term st)) = st"
| "report_action r a = r"

definition reported :: "term_action list \<Rightarrow> conn_state option" where
  "reported = foldl report_action None"

definition asked :: "term_action list \<Rightarrow> nat list" where
  "asked = List.map_filter (\<lambda>a. case a of TA_Asked n \<Rightarrow> Some n | _ \<Rightarrow> None)"

definition replied :: "term_action list \<Rightarrow> nat list" where
  "replied = List.map_filter (\<lambda>a. case a of TA_Reply n _ \<Rightarrow> Some n | _ \<Rightarrow> None)"

lemma phase_of_snoc [simp]: "phase_of i (tr @ [a]) = phase_action i (phase_of i tr) a"
  by (simp add: phase_of_def)

lemma phase_of_Nil [simp]: "phase_of i [] = Some TP_New"
  by (simp add: phase_of_def)

lemma phase_of_detach:
  "distinct (keys sl) \<Longrightarrow> phase_of i (tr @ map (\<lambda>(j, _). TA_Event j (TV_Detached r)) sl) =
     (if i \<in> set (keys sl) then Option.bind (phase_of i tr) (\<lambda>q. phase_step q (TV_Detached r)) else phase_of i tr)"
proof (induction sl rule: rev_induct)
  case (snoc x sl)
  let ?ev = "\<lambda>sl. map (\<lambda>(j, _). TA_Event j (TV_Detached r)) sl"
  have "phase_of i (tr @ ?ev (sl @ [x])) = phase_action i (phase_of i (tr @ ?ev sl)) (TA_Event (fst x) (TV_Detached r))"
    using phase_of_snoc [of i "tr @ ?ev sl"] by (cases x) simp
  with snoc show ?case by (auto simp: image_iff)
qed simp

lemma reported_snoc [simp]: "reported (tr @ [a]) = report_action (reported tr) a"
  by (simp add: reported_def)

lemma reported_Nil [simp]: "reported [] = None"
  by (simp add: reported_def)

lemma reported_events [simp]: "reported (tr @ map (\<lambda>(j, _). TA_Event j e) sl) = reported tr"
proof (induction sl rule: rev_induct)
  case (snoc x sl)
  then show ?case using reported_snoc [of "tr @ map (\<lambda>(j, _). TA_Event j e) sl"] by (cases x) simp
qed simp

lemma asked_append [simp]: "asked (xs @ ys) = asked xs @ asked ys"
  by (simp add: asked_def map_filter_def)

lemma replied_append [simp]: "replied (xs @ ys) = replied xs @ replied ys"
  by (simp add: replied_def map_filter_def)

lemma asked_one [simp]:
  "asked [] = []" "asked [TA_Asked n] = [n]" "asked [TA_Reply n r] = []" "asked [TA_Event i e] = []"
  "asked [TA_Pty p x] = []" "asked [TA_Report h ev] = []" "asked [TA_Connect c] = []"
  "asked [TA_Attach i g z sp] = []" "asked (map (\<lambda>(j, _). TA_Event j e) js) = []"
  "asked (map (\<lambda>p. TA_Pty p x) ps) = []"
  by (auto simp: asked_def map_filter_def filter_empty_conv)

lemma replied_one [simp]:
  "replied [] = []" "replied [TA_Asked n] = []" "replied [TA_Reply n r] = [n]" "replied [TA_Event i e] = []"
  "replied [TA_Pty p x] = []" "replied [TA_Report h ev] = []" "replied [TA_Connect c] = []"
  "replied [TA_Attach i g z sp] = []" "replied (map (\<lambda>(j, _). TA_Event j e) js) = []"
  "replied (map (\<lambda>p. TA_Pty p x) ps) = []"
  by (auto simp: replied_def map_filter_def filter_empty_conv)

section \<open>Requests flow through the queue\<close>

text \<open>Nothing but the loop itself answers requests; everything else at most queues new requests.
  \<open>flows n\<close> also says that \<open>n\<close> numbers were allotted.\<close>

definition flows :: "u64 \<Rightarrow> terms \<Rightarrow> terms \<Rightarrow> bool" where
  "flows n t t' \<longleftrightarrow> replied (tr_trace t') = replied (tr_trace t)
    \<and> (\<exists>new. tr_pending t' = tr_pending t @ new \<and> asked (tr_trace t') = asked (tr_trace t) @ map snd new)
    \<and> tr_done t' = tr_done t \<and> tr_next_id t' = tr_next_id t + n"

lemma flows_refl [simp]: "flows 0 t t"
  by (simp add: flows_def)

lemma flows_add: "flows m t t1 \<Longrightarrow> flows n t1 t2 \<Longrightarrow> flows (m + n) t t2"
  by (auto simp: flows_def algebra_simps)

lemma flows_trans [trans]: "flows 0 t t1 \<Longrightarrow> flows n t1 t2 \<Longrightarrow> flows n t t2"
  using flows_add [of 0 t t1 n t2] by simp

lemma act_fields [simp]:
  "tr_cfg (act a t) = tr_cfg t" "tr_zellij (act a t) = tr_zellij t" "tr_link (act a t) = tr_link t"
  "tr_slots (act a t) = tr_slots t" "tr_pending (act a t) = tr_pending t" "tr_next_id (act a t) = tr_next_id t"
  "tr_backoff (act a t) = tr_backoff t" "tr_up_since (act a t) = tr_up_since t" "tr_now (act a t) = tr_now t"
  "tr_script (act a t) = tr_script t" "tr_trace (act a t) = tr_trace t @ [a]" "tr_done (act a t) = tr_done t"
  by (simp_all add: act_def)

lemma flows_local: "flows 0 t (term_local t c)"
  by (cases c) (auto simp: flows_def Let_def split: option.splits)

lemma flows_busy_cmds: "flows 0 t (fst (busy_cmds t cs))"
proof (induction cs arbitrary: t)
  case (Cons c cs)
  then show ?case using flows_local [of t c] flows_trans by (auto split: if_splits)
qed simp

lemma flows_busy: "flows 0 t (fst (term_busy t))"
proof (cases "tr_script t")
  case (Cons a rest)
  then show ?thesis using flows_busy_cmds [of "t\<lparr>tr_script := rest\<rparr>" "aw_cmds a"]
    by (simp add: term_busy_def split_beta flows_def)
qed (simp add: term_busy_def)

lemma flows_attach: "flows 0 t (fst (term_attach t tid g spec))"
proof -
  have "flows 0 t (t1\<lparr>tr_link := l\<rparr>)" "flows 0 t t1"
    if "fst (term_busy (act (TA_Attach tid g (zellij_path t) spec) (t\<lparr>tr_link := TL_Busy\<rparr>))) = t1" for t1 l
    using flows_busy [of "act (TA_Attach tid g (zellij_path t) spec) (t\<lparr>tr_link := TL_Busy\<rparr>)"] that
    by (auto simp: flows_def)
  then show ?thesis
    by (auto simp: term_attach_def Let_def split_beta split: term_link.splits option.splits sum.splits)
qed

lemma flows_connect: "flows 0 t (fst (term_connect t))"
  using flows_busy [of "act (TA_Connect (tr_cfg t)) t"]
  by (auto simp: term_connect_def term_emit_def split_beta flows_def split: option.splits sum.splits)

lemma flows_idle: "flows 0 t (idle_if_empty t)"
  by (simp add: idle_if_empty_def term_emit_def flows_def)

lemma flows_link_down: "flows 0 t (link_down at e st t)"
  by (simp add: link_down_def Let_def idle_if_empty_def term_emit_def flows_def)

lemma flows_retry: "flows 0 t (retry_link r t)"
  using flows_link_down [of "t\<lparr>tr_backoff := snd (next_delay (tr_backoff t))\<rparr>"]
  by (simp add: retry_link_def split_beta flows_def)

lemma flows_lost: "flows 0 t (term_lost r t)"
proof -
  have "flows 0 t (retry_link r t3)" if "tr_trace t3 = tr_trace (detach_all r t)" "tr_pending t3 = tr_pending t"
    "tr_done t3 = tr_done t" "tr_next_id t3 = tr_next_id t" for t3
    using flows_retry [of t3 r] that by (simp add: flows_def detach_all_def)
  then show ?thesis by (simp add: term_lost_def Let_def detach_all_def)
qed

lemma flows_reattached: "flows 0 t (reattached tid g p t)"
  by (simp add: reattached_def flows_def split: option.splits)

lemma flows_reattach_all: "flows 0 t (fst (reattach_all t tids))"
proof (induction tids arbitrary: t)
  case (Cons i "tids")
  show ?case
  proof (cases "map_of (tr_slots t) i")
    case (Some s)
    obtain t1 r where a: "term_attach t i (sl_generation s + 1) (sl_spec s) = (t1, r)" by force
    have t1: "flows 0 t t1" using flows_attach [of t i "sl_generation s + 1" "sl_spec s"] a by simp
    show ?thesis
      using t1 Some a flows_trans [OF t1 flows_lost]
        flows_trans [OF t1 flows_trans [OF flows_reattached Cons.IH]]
      by (auto simp: Let_def split: option.splits sum.splits)
  qed (use Cons.IH in simp)
qed (simp add: flows_idle)

lemma flows_reconnect: "flows 0 t (fst (reconnect t))"
  using flows_connect [of t] flows_trans [OF flows_connect flows_retry]
    flows_trans [OF flows_connect flows_link_down] flows_trans [OF flows_connect flows_reattach_all]
  by (auto simp: reconnect_def split_beta split: option.splits sum.splits open_error.splits)

lemma flows_connect_first: "flows 0 t (fst (connect_first t))"
  using flows_connect [of t]
  by (auto simp: connect_first_def term_emit_def split_beta flows_def split: option.splits sum.splits)

lemma flows_open_link: "flows 0 t (fst (open_link t))"
  using flows_reconnect [of t] flows_connect_first [of t] flows_trans [OF flows_reconnect flows_connect_first]
  by (auto simp: open_link_def split_beta split: term_link.splits)

lemma flows_channel_ended: "flows 0 t (fst (channel_ended t tid))"
proof (cases "map_of (tr_slots t) tid")
  case (Some s)
  let ?quick = "if tr_now t - sl_attached_at s < STABLE_AFTER then sl_quick_ends s + 1 else 0"
  let ?t1 = "t\<lparr>tr_slots := AList.update tid (s\<lparr>sl_pty := None, sl_quick_ends := ?quick\<rparr>) (tr_slots t)\<rparr>"
  let ?t2 = "act (TA_Event tid (TV_Detached ''terminal channel closed'')) ?t1"
  obtain t3 r where a: "term_attach ?t2 tid (sl_generation s + 1) (sl_spec s) = (t3, r)" by force
  have "flows 0 t ?t2" by (simp add: flows_def)
  from flows_trans [OF this flows_attach] a have t3: "flows 0 t t3" by (metis fst_conv)
  have e: "flows 0 t (idle_if_empty ((act (TA_Event tid (TV_Exited None)) ?t1)\<lparr>tr_slots := sl\<rparr>))" for sl
    using flows_idle [of "(act (TA_Event tid (TV_Exited None)) ?t1)\<lparr>tr_slots := sl\<rparr>"] by (simp add: flows_def)
  show ?thesis
  proof (cases "MAX_QUICK_ENDS \<le> ?quick")
    case True
    then show ?thesis using e by (simp add: channel_ended_def Some Let_def)
  next
    case False
    then show ?thesis
      using t3 a flows_trans [OF t3 flows_lost] flows_trans [OF t3 flows_trans [OF flows_reattached flows_idle]]
      by (auto simp: channel_ended_def Some Let_def split: option.splits sum.splits)
  qed
qed (simp add: channel_ended_def)

lemma flows_output: "flows 0 t (fst (term_output t alive tid g out))"
proof -
  have "flows 0 t (idle_if_empty ((act (TA_Event tid ev) t)\<lparr>tr_slots := sl\<rparr>))" for ev sl
    using flows_idle [of "(act (TA_Event tid ev) t)\<lparr>tr_slots := sl\<rparr>"] by (simp add: flows_def)
  then show ?thesis
    using flows_channel_ended [of t tid] flows_lost
    by (auto simp: term_output_def flows_def [of 0 t "act a t" for a] split: option.splits pty_out.splits)
qed

section \<open>Invariant\<close>

declare map_of_eq_Some_iff [simp del]

definition slot_ok :: "term_action list \<Rightarrow> u64 \<Rightarrow> slot \<Rightarrow> bool" where
  "slot_ok tr i s \<longleftrightarrow> (sl_pty s = None \<or> sl_pty s = Some (i, sl_generation s))
     \<and> sl_quick_ends s < MAX_QUICK_ENDS
     \<and> phase_of i tr = Some (if sl_pty s = None then TP_Detached else TP_Attached)"

definition detached_all :: "terms \<Rightarrow> bool" where
  "detached_all t \<longleftrightarrow> (\<forall>i s. map_of (tr_slots t) i = Some s \<longrightarrow> sl_pty s = None)"

definition attached_all :: "terms \<Rightarrow> bool" where
  "attached_all t \<longleftrightarrow> (\<forall>i s. map_of (tr_slots t) i = Some s \<longrightarrow> sl_pty s \<noteq> None)"

fun link_reported :: "term_link \<Rightarrow> conn_state option \<Rightarrow> bool" where
  "link_reported TL_Idle r \<longleftrightarrow> r = None"
| "link_reported TL_Up r \<longleftrightarrow> r = Some CS_Up"
| "link_reported TL_Busy r \<longleftrightarrow> r = Some CS_Up"
| "link_reported (TL_Down at (OE_Retry m)) r \<longleftrightarrow> at \<noteq> None \<and> (\<exists>d. r = Some (CS_Retrying d m))"
| "link_reported (TL_Down at (OE_NeedsUser p)) r \<longleftrightarrow> at = None \<and> r = Some (CS_NeedsUser p)"

text \<open>Holds at every \<open>await\<close>.\<close>

definition slots_ok :: "terms \<Rightarrow> bool" where
  "slots_ok t \<longleftrightarrow> distinct (keys (tr_slots t))
     \<and> (\<forall>i s. map_of (tr_slots t) i = Some s \<longrightarrow> unat i < unat (tr_next_id t) \<and> slot_ok (tr_trace t) i s)
     \<and> (\<forall>i. phase_of i (tr_trace t) \<noteq> None)
     \<and> (\<forall>i. unat (tr_next_id t) \<le> unat i \<longrightarrow> phase_of i (tr_trace t) = Some TP_New)"

definition link_ok :: "terms \<Rightarrow> bool" where
  "link_ok t \<longleftrightarrow> link_reported (tr_link t) (reported (tr_trace t))
     \<and> (tr_link t = TL_Idle \<longrightarrow> tr_slots t = [])
     \<and> (\<forall>at e. tr_link t = TL_Down at e \<longrightarrow> detached_all t)"

definition terms_ok :: "terms \<Rightarrow> bool" where
  "terms_ok t \<longleftrightarrow> slots_ok t \<and> link_ok t"

text \<open>Holds whenever the loop waits.\<close>

definition settled :: "terms \<Rightarrow> bool" where
  "settled t \<longleftrightarrow> (case tr_link t of
       TL_Idle \<Rightarrow> True
     | TL_Up \<Rightarrow> tr_slots t \<noteq> [] \<and> attached_all t
     | TL_Busy \<Rightarrow> False
     | TL_Down _ _ \<Rightarrow> tr_slots t \<noteq> [])"

text \<open>What commands may do to the terminals while a future is awaited.\<close>

definition slot_core :: "slot \<Rightarrow> pty_name option \<times> u64 \<times> u32" where
  "slot_core s = (sl_pty s, sl_generation s, sl_quick_ends s)"

definition quiet :: "terms \<Rightarrow> terms \<Rightarrow> bool" where
  "quiet t t' \<longleftrightarrow> (\<forall>i. phase_of i (tr_trace t') = phase_of i (tr_trace t))
     \<and> reported (tr_trace t') = reported (tr_trace t) \<and> tr_link t' = tr_link t \<and> tr_next_id t' = tr_next_id t
     \<and> (distinct (keys (tr_slots t)) \<longrightarrow> distinct (keys (tr_slots t')))
     \<and> (\<forall>i s'. map_of (tr_slots t') i = Some s' \<longrightarrow>
          (\<exists>s. map_of (tr_slots t) i = Some s \<and> slot_core s' = slot_core s))"

lemma quiet_refl [simp]: "quiet t t"
  by (simp add: quiet_def)

lemma quiet_trans: "quiet t t1 \<Longrightarrow> quiet t1 t2 \<Longrightarrow> quiet t t2"
  unfolding quiet_def by metis

lemma quiet_local: "quiet t (term_local t c)"
  by (cases c) (auto simp: quiet_def slot_core_def Let_def update_conv' delete_conv' distinct_update distinct_delete
      split: option.splits if_splits)

lemma quiet_busy_cmds: "quiet t (fst (busy_cmds t cs))"
proof (induction cs arbitrary: t)
  case (Cons c cs)
  then show ?case using quiet_trans [OF quiet_local [of t c], of "fst (busy_cmds (term_local t c) cs)"] by simp
qed simp

lemma quiet_busy: "quiet t (fst (term_busy t))"
proof (cases "tr_script t")
  case (Cons a rest)
  then show ?thesis using quiet_busy_cmds [of "t\<lparr>tr_script := rest\<rparr>" "aw_cmds a"]
    by (simp add: term_busy_def split_beta quiet_def)
qed (simp add: term_busy_def)

lemma quiet_slot:
  "quiet t t' \<Longrightarrow> map_of (tr_slots t') i = Some s' \<Longrightarrow>
   \<exists>s. map_of (tr_slots t) i = Some s \<and> sl_pty s' = sl_pty s \<and> sl_generation s' = sl_generation s
     \<and> sl_quick_ends s' = sl_quick_ends s"
  unfolding quiet_def slot_core_def by (metis prod.inject)

lemma quiet_facts:
  assumes "quiet t t'"
  shows "phase_of i (tr_trace t') = phase_of i (tr_trace t)" "reported (tr_trace t') = reported (tr_trace t)"
    "tr_link t' = tr_link t" "tr_next_id t' = tr_next_id t"
    "distinct (keys (tr_slots t)) \<Longrightarrow> distinct (keys (tr_slots t'))"
  using assms by (simp_all add: quiet_def)

lemma quiet_slots: "quiet t t' \<Longrightarrow> tr_slots t = [] \<Longrightarrow> tr_slots t' = []"
  using quiet_slot [of t t' "fst (hd (tr_slots t'))" "snd (hd (tr_slots t'))"] by (cases "tr_slots t'") auto

lemma quiet_detached: "quiet t t' \<Longrightarrow> detached_all t \<Longrightarrow> detached_all t'"
  using quiet_slot unfolding detached_all_def by metis

lemma quiet_attached: "quiet t t' \<Longrightarrow> attached_all t \<Longrightarrow> attached_all t'"
  using quiet_slot unfolding attached_all_def by metis

lemma quiet_slots_ok:
  assumes "quiet t t'" "slots_ok t"
  shows "slots_ok t'"
proof -
  have "unat i < unat (tr_next_id t') \<and> slot_ok (tr_trace t') i s'" if s': "map_of (tr_slots t') i = Some s'" for i s'
  proof -
    from quiet_slot [OF assms(1) s'] obtain s where "map_of (tr_slots t) i = Some s" "sl_pty s' = sl_pty s"
      "sl_generation s' = sl_generation s" "sl_quick_ends s' = sl_quick_ends s" by blast
    with assms(2) show ?thesis by (simp add: slots_ok_def slot_ok_def quiet_facts [OF assms(1)])
  qed
  with assms(2) show ?thesis by (simp add: slots_ok_def quiet_facts [OF assms(1)])
qed

lemma quiet_link_ok: "quiet t t' \<Longrightarrow> link_ok t \<Longrightarrow> link_ok t'"
  using quiet_slots [of t t'] quiet_detached [of t t'] quiet_facts [of t t'] unfolding link_ok_def by metis

lemma quiet_ok: "quiet t t' \<Longrightarrow> terms_ok t \<Longrightarrow> terms_ok t'"
  using quiet_slots_ok quiet_link_ok by (auto simp: terms_ok_def)

section \<open>The operations keep the invariant\<close>

lemma slots_ok_emit [simp]: "slots_ok (term_emit st t) = slots_ok t"
  by (simp add: slots_ok_def slot_ok_def term_emit_def)

lemma slots_ok_link [simp]:
  "slots_ok (t\<lparr>tr_link := l\<rparr>) = slots_ok t" "slots_ok (t\<lparr>tr_up_since := u\<rparr>) = slots_ok t"
  "slots_ok (t\<lparr>tr_backoff := b\<rparr>) = slots_ok t" "slots_ok (t\<lparr>tr_pending := ps\<rparr>) = slots_ok t"
  "slots_ok (t\<lparr>tr_now := n\<rparr>) = slots_ok t" "slots_ok (t\<lparr>tr_zellij := z\<rparr>) = slots_ok t"
  "slots_ok (t\<lparr>tr_script := sc\<rparr>) = slots_ok t"
  by (simp_all add: slots_ok_def)

lemma attach_ok:
  assumes "term_attach t tid g spec = (t', r)" "tr_link t = TL_Up" "terms_ok t"
  shows "terms_ok t'" "quiet t (t'\<lparr>tr_link := TL_Up\<rparr>)" "r \<noteq> None \<longrightarrow> tr_link t' = TL_Up"
    "r = Some (Ok p) \<longrightarrow> p = (tid, g)"
proof -
  let ?t0 = "act (TA_Attach tid g (zellij_path t) spec) (t\<lparr>tr_link := TL_Busy\<rparr>)"
  obtain tb rb where b: "term_busy ?t0 = (tb, rb)" by force
  have q: "quiet ?t0 tb" using quiet_busy [of ?t0] b by simp
  have "terms_ok ?t0" using assms(2,3) by (simp add: terms_ok_def link_ok_def slots_ok_def slot_ok_def)
  from quiet_ok [OF q this] have ok: "terms_ok tb" .
  have lb: "tr_link tb = TL_Busy" using quiet_facts(3) [OF q] by simp
  have t': "t' = (if rb = None then tb else tb\<lparr>tr_link := TL_Up\<rparr>)"
    and r: "r \<noteq> None \<longleftrightarrow> rb \<noteq> None" "r = Some (Ok p) \<longrightarrow> p = (tid, g)"
    using assms(1,2) b by (auto simp: term_attach_def Let_def split: option.splits sum.splits)
  show "terms_ok t'" using ok lb unfolding t' by (simp add: terms_ok_def link_ok_def)
  show "r \<noteq> None \<longrightarrow> tr_link t' = TL_Up" using r(1) by (simp add: t')
  show "quiet t (t'\<lparr>tr_link := TL_Up\<rparr>)" using q assms(2) unfolding t' by (simp add: quiet_def)
qed (use assms in \<open>auto simp: term_attach_def Let_def split_beta split: option.splits sum.splits\<close>)

lemma connect_ok:
  assumes "term_connect t = (t', r)"
  shows "r = Some (Ok u) \<Longrightarrow> \<exists>tq. quiet t tq \<and> t' = term_emit (Some CS_Up) (tq\<lparr>tr_link := TL_Up, tr_up_since := Some (tr_now tq)\<rparr>)"
    "(\<And>u. r \<noteq> Some (Ok u)) \<Longrightarrow> quiet t t'"
proof -
  let ?t0 = "act (TA_Connect (tr_cfg t)) t"
  have "quiet ?t0 (fst (term_busy ?t0))" by (rule quiet_busy)
  then have q: "quiet t (fst (term_busy ?t0))" by (simp add: quiet_def)
  show "r = Some (Ok u) \<Longrightarrow> \<exists>tq. quiet t tq \<and> t' = term_emit (Some CS_Up) (tq\<lparr>tr_link := TL_Up, tr_up_since := Some (tr_now tq)\<rparr>)"
    using q assms by (intro exI [of _ "fst (term_busy ?t0)"]) (auto simp: term_connect_def split_beta split: option.splits sum.splits)
  show "(\<And>u. r \<noteq> Some (Ok u)) \<Longrightarrow> quiet t t'"
    using q assms by (auto simp: term_connect_def split_beta split: option.splits sum.splits)
qed

lemma idle_ok: "terms_ok t \<Longrightarrow> terms_ok (idle_if_empty t)"
  by (simp add: idle_if_empty_def terms_ok_def link_ok_def term_emit_def slots_ok_def slot_ok_def)

lemma idle_settled:
  "tr_link t \<noteq> TL_Busy \<Longrightarrow> (tr_link t = TL_Up \<longrightarrow> attached_all t) \<Longrightarrow> settled (idle_if_empty t)"
  by (auto simp: idle_if_empty_def settled_def term_emit_def split: term_link.splits)

lemma link_down_ok:
  assumes "slots_ok t" "detached_all t" "link_reported (TL_Down at e) (Some st)"
  shows "terms_ok (link_down at e st t)" "settled (link_down at e st t)"
  using assms
  by (auto simp: link_down_def Let_def idle_if_empty_def term_emit_def terms_ok_def link_ok_def settled_def
      slots_ok_def slot_ok_def detached_all_def)

lemma retry_link_ok:
  assumes "slots_ok t" "detached_all t"
  shows "terms_ok (retry_link r t)" "settled (retry_link r t)"
  using link_down_ok [of "t\<lparr>tr_backoff := snd (next_delay (tr_backoff t))\<rparr>"] assms
  by (simp_all add: retry_link_def split_beta detached_all_def)

lemma map_of_map_snd: "map_of (map (\<lambda>(k, v). (k, f v)) xs) k = map_option f (map_of xs k)"
  by (induction xs) auto

lemma keys_detach [simp]: "map (fst \<circ> (\<lambda>(i, s). (i, f s))) xs = keys xs"
  by (induction xs) auto

lemma detach_all_ok:
  assumes "slots_ok t"
  shows "slots_ok (detach_all r t)" "detached_all (detach_all r t)"
proof -
  let ?tr = "tr_trace t @ map (\<lambda>(i, _). TA_Event i (TV_Detached r)) (tr_slots t)"
  have ph: "phase_of i ?tr = (if map_of (tr_slots t) i = None then phase_of i (tr_trace t) else Some TP_Detached)" for i
  proof (cases "map_of (tr_slots t) i")
    case None
    then show ?thesis using assms by (simp add: phase_of_detach slots_ok_def map_of_eq_None_iff)
  next
    case (Some s)
    then have "slot_ok (tr_trace t) i s" using assms by (simp add: slots_ok_def)
    moreover from Some have "i \<in> set (keys (tr_slots t))" by (force dest: map_of_SomeD)
    ultimately show ?thesis using assms Some by (auto simp: phase_of_detach slots_ok_def slot_ok_def split: if_splits)
  qed
  show "slots_ok (detach_all r t)"
    using assms unfolding slots_ok_def slot_ok_def detach_all_def
    by (auto simp: map_of_map_snd ph) (metis leD)
  show "detached_all (detach_all r t)"
    by (auto simp: detached_all_def detach_all_def map_of_map_snd)
qed

lemma lost_ok:
  assumes "slots_ok t"
  shows "terms_ok (term_lost r t)" "settled (term_lost r t)"
proof -
  have "slots_ok t3 \<and> detached_all t3" if "tr_slots t3 = tr_slots (detach_all r t)" "tr_trace t3 = tr_trace (detach_all r t)"
    "tr_next_id t3 = tr_next_id (detach_all r t)" for t3
    using detach_all_ok [OF assms, of r] that by (simp add: slots_ok_def detached_all_def)
  then have "terms_ok (retry_link r t3) \<and> settled (retry_link r t3)"
    if "tr_slots t3 = tr_slots (detach_all r t)" "tr_trace t3 = tr_trace (detach_all r t)"
    "tr_next_id t3 = tr_next_id (detach_all r t)" for t3
    using retry_link_ok that by metis
  then show "terms_ok (term_lost r t)" "settled (term_lost r t)" by (simp_all add: term_lost_def Let_def)
qed

lemma lookup_slots_update [simp]:
  "map_of (AList.update i v d) j = (if j = i then Some v else map_of d j)"
  by (simp add: update_conv')

lemma lookup_slots_delete [simp]: "map_of (AList.delete i d) j = (if j = i then None else map_of d j)"
  by (simp add: delete_conv')

lemma reattached_ok:
  assumes "terms_ok t" "tr_link t = TL_Up" "\<And>s. map_of (tr_slots t) i = Some s \<Longrightarrow> sl_pty s = None"
  shows "terms_ok (reattached i g (i, g) t)" "tr_link (reattached i g (i, g) t) = TL_Up"
    "\<And>j s. map_of (tr_slots (reattached i g (i, g) t)) j = Some s \<Longrightarrow>
       if j = i then sl_pty s \<noteq> None else map_of (tr_slots t) j = Some s"
proof -
  show "tr_link (reattached i g (i, g) t) = TL_Up" using assms(2) by (simp add: reattached_def split: option.splits)
  show "\<And>j s. map_of (tr_slots (reattached i g (i, g) t)) j = Some s \<Longrightarrow>
       if j = i then sl_pty s \<noteq> None else map_of (tr_slots t) j = Some s"
    by (auto simp: reattached_def split: option.splits if_splits)
  show "terms_ok (reattached i g (i, g) t)"
  proof (cases "map_of (tr_slots t) i")
    case None
    with assms(1) show ?thesis by (simp add: reattached_def terms_ok_def slots_ok_def slot_ok_def link_ok_def detached_all_def)
  next
    case (Some s)
    let ?s = "s\<lparr>sl_pty := Some (i, g), sl_generation := g, sl_attached_at := tr_now t\<rparr>"
    have so: "slot_ok (tr_trace t) i s" "unat i < unat (tr_next_id t)"
      using assms(1) Some by (simp_all add: terms_ok_def slots_ok_def)
    with assms(3) [OF Some] have ph: "phase_of i (tr_trace t) = Some TP_Detached" by (simp add: slot_ok_def)
    have "slots_ok (act (TA_Event i TV_Attached) (t\<lparr>tr_slots := AList.update i ?s (tr_slots t)\<rparr>))"
      using assms(1) so ph unfolding terms_ok_def slots_ok_def
      by (auto simp: slot_ok_def distinct_update)
    moreover have "link_ok (act (TA_Event i TV_Attached) (t\<lparr>tr_slots := AList.update i ?s (tr_slots t)\<rparr>))"
      using assms(1,2) by (simp add: terms_ok_def link_ok_def)
    ultimately show ?thesis using Some by (simp add: reattached_def terms_ok_def)
  qed
qed

text \<open>A call that a stop may interrupt: no result, a failure, or a value.\<close>

lemma result_cases [case_names Stopped Failed Done]:
  assumes "r = None \<Longrightarrow> P" "\<And>e. r = Some (Err e) \<Longrightarrow> P" "\<And>x. r = Some (Ok x) \<Longrightarrow> P"
  shows P
  using assms by (metis option.exhaust sum.exhaust)

text \<open>Reattaching one terminal takes it off the list of those without a PTY.\<close>

lemma reattach_one_ok:
  assumes "term_attach t i g spec = (t1, Some (Ok p))" "terms_ok t" "tr_link t = TL_Up" "distinct (i # tids)"
    and pty: "\<And>j s. map_of (tr_slots t) j = Some s \<Longrightarrow> sl_pty s = None \<longleftrightarrow> j \<in> set (i # tids)"
  defines "t2 \<equiv> reattached i g (i, g) t1"
  shows "p = (i, g)" "terms_ok t2" "tr_link t2 = TL_Up"
    "\<And>j s'. map_of (tr_slots t2) j = Some s' \<Longrightarrow> sl_pty s' = None \<longleftrightarrow> j \<in> set tids"
proof -
  note ok = attach_ok [OF assms(1,3,2)]
  have slot: "\<exists>s0. map_of (tr_slots t) j = Some s0 \<and> sl_pty s' = sl_pty s0" if "map_of (tr_slots t1) j = Some s'" for j s'
    using quiet_slot [OF ok(2), of j s'] that by auto
  have up: "tr_link t1 = TL_Up" and "p = (i, g)" using ok(3,4) by simp_all
  then show "p = (i, g)" by simp
  have det: "sl_pty s' = None" if "map_of (tr_slots t1) i = Some s'" for s'
    using slot [OF that] pty [of i] by auto
  note r2 = reattached_ok [of t1 i g, folded t2_def]
  show "terms_ok t2" "tr_link t2 = TL_Up" using r2 ok(1) up det by blast+
  show "sl_pty s' = None \<longleftrightarrow> j \<in> set tids" if s': "map_of (tr_slots t2) j = Some s'" for j s'
  proof (cases "j = i")
    case True
    have "if j = i then sl_pty s' \<noteq> None else map_of (tr_slots t1) j = Some s'" using r2 ok(1) up det s' by blast
    with True assms(4) show ?thesis by simp
  next
    case False
    have "if j = i then sl_pty s' \<noteq> None else map_of (tr_slots t1) j = Some s'" using r2 ok(1) up det s' by blast
    with False have "map_of (tr_slots t1) j = Some s'" by simp
    from slot [OF this] obtain s0 where "map_of (tr_slots t) j = Some s0" "sl_pty s' = sl_pty s0" by blast
    with pty [of j s0] False show ?thesis by simp
  qed
qed

lemma reattach_all_ok:
  assumes "terms_ok t" "tr_link t = TL_Up" "distinct tids"
    "\<And>i s. map_of (tr_slots t) i = Some s \<Longrightarrow> sl_pty s = None \<longleftrightarrow> i \<in> set tids"
  shows "terms_ok (fst (reattach_all t tids)) \<and> (snd (reattach_all t tids) \<longrightarrow> settled (fst (reattach_all t tids)))"
  using assms
proof (induction tids arbitrary: t)
  case Nil
  then have "attached_all t" by (simp add: attached_all_def)
  with Nil show ?case by (simp add: idle_ok idle_settled)
next
  case (Cons i tids)
  show ?case
  proof (cases "map_of (tr_slots t) i")
    case None
    have "terms_ok (fst (reattach_all t tids)) \<and> (snd (reattach_all t tids) \<longrightarrow> settled (fst (reattach_all t tids)))"
    proof (rule Cons.IH)
      show "sl_pty s = None \<longleftrightarrow> j \<in> set tids" if "map_of (tr_slots t) j = Some s" for j s
        using Cons.prems(4) [OF that] that None by auto
    qed (use Cons.prems in simp_all)
    with None show ?thesis by simp
  next
    case (Some s)
    obtain t1 r where a: "term_attach t i (sl_generation s + 1) (sl_spec s) = (t1, r)" by force
    note ok = attach_ok [OF a Cons.prems(2,1)]
    show ?thesis
    proof (cases r rule: result_cases)
      case Stopped
      then show ?thesis using Some a ok(1) by (simp add: Let_def)
    next
      case (Failed e)
      then show ?thesis using Some a lost_ok [of t1 "reason_of e"] ok(1) by (simp add: Let_def terms_ok_def)
    next
      case (Done p)
      note one = reattach_one_ok [OF a [unfolded Done] Cons.prems]
      from Cons.IH [OF one(2,3) _ one(4)] Cons.prems(3) show ?thesis using Some a Done one(1) by (simp add: Let_def)
    qed
  qed
qed

lemma emit_up_ok:
  assumes "quiet t tq" "slots_ok t"
  defines "t' \<equiv> term_emit (Some CS_Up) (tq\<lparr>tr_link := TL_Up, tr_up_since := Some (tr_now tq)\<rparr>)"
  shows "terms_ok t'" "tr_link t' = TL_Up" "tr_slots t' = tr_slots tq"
  using quiet_slots_ok [OF assms(1,2)]
  by (simp_all add: t'_def terms_ok_def link_ok_def) (simp_all add: term_emit_def)

lemma reconnect_ok:
  assumes "reconnect t = (t', go)" "slots_ok t" "detached_all t"
    "link_ok t"
  shows "terms_ok t' \<and> (go \<longrightarrow> settled t')"
proof -
  obtain t1 r where c: "term_connect t = (t1, r)" by force
  consider "r = None" | m where "r = Some (Err (OE_Retry m))" | p where "r = Some (Err (OE_NeedsUser p))" | u where "r = Some (Ok u)"
    by (metis option.exhaust sum.exhaust open_error.exhaust)
  then show ?thesis
  proof cases
    case 1
    with connect_ok(2) [OF c] have "quiet t t1" by simp
    then have "terms_ok t1" using assms(2,4) quiet_ok by (simp add: terms_ok_def)
    with 1 c assms(1) show ?thesis by (simp add: reconnect_def)
  next
    case 2
    with connect_ok(2) [OF c] have "quiet t t1" by simp
    with assms(2,3) have "slots_ok t1" "detached_all t1" using quiet_slots_ok quiet_detached by blast+
    with 2 c assms(1) show ?thesis using retry_link_ok [of t1] by (auto simp: reconnect_def)
  next
    case 3
    with connect_ok(2) [OF c] have "quiet t t1" by simp
    with assms(2,3) have "slots_ok t1" "detached_all t1" using quiet_slots_ok quiet_detached by blast+
    with 3 c assms(1) show ?thesis
      using link_down_ok [of t1 None "OE_NeedsUser p" "CS_NeedsUser p"] by (auto simp: reconnect_def)
  next
    case 4
    from connect_ok(1) [OF c 4] obtain tq where q: "quiet t tq"
      and t1: "t1 = term_emit (Some CS_Up) (tq\<lparr>tr_link := TL_Up, tr_up_since := Some (tr_now tq)\<rparr>)" by blast
    note up = emit_up_ok [OF q assms(2), folded t1]
    have d: "detached_all tq" by (rule quiet_detached [OF q assms(3)])
    have "terms_ok (fst (reattach_all t1 (keys (tr_slots t1))))
      \<and> (snd (reattach_all t1 (keys (tr_slots t1))) \<longrightarrow> settled (fst (reattach_all t1 (keys (tr_slots t1)))))"
    proof (rule reattach_all_ok [OF up(1,2)])
      show "distinct (keys (tr_slots t1))" using up(1) by (simp add: terms_ok_def slots_ok_def)
      show "sl_pty s = None \<longleftrightarrow> i \<in> set (keys (tr_slots t1))" if "map_of (tr_slots t1) i = Some s" for i s
        using that d up(3) by (force simp: detached_all_def dest: map_of_SomeD)
    qed
    then show ?thesis using 4 c assms(1) by (auto simp: reconnect_def)
  qed
qed

lemma connect_first_ok:
  assumes "connect_first t = (t', r)" "slots_ok t" "link_ok t" "tr_link t = TL_Idle"
  shows "terms_ok t'" "r = Some (Ok u) \<Longrightarrow> tr_link t' = TL_Up \<and> attached_all t'" "r = Some (Err e) \<Longrightarrow> settled t'"
proof -
  obtain t1 r1 where c: "term_connect t = (t1, r1)" by force
  have none: "tr_slots t = []" using assms(3,4) by (simp add: link_ok_def)
  have r: "r = r1" using c assms(1) by (auto simp: connect_first_def split: option.splits sum.splits)
  consider "r = None" | e where "r = Some (Err e)" | u where "r = Some (Ok u)" by (metis option.exhaust sum.exhaust)
  then have "terms_ok t' \<and> (\<forall>u. r = Some (Ok u) \<longrightarrow> tr_link t' = TL_Up \<and> attached_all t') \<and> (\<forall>e. r = Some (Err e) \<longrightarrow> settled t')"
  proof cases
    case 1
    with connect_ok(2) [OF c] r have "quiet t t1" by simp
    with 1 c r assms show ?thesis using quiet_ok [of t t1] by (simp add: connect_first_def terms_ok_def)
  next
    case 2
    have q: "quiet t t1" using connect_ok(2) [OF c] 2 r by auto
    from quiet_slots [OF q none] have "tr_slots t1 = []" .
    with 2 c r assms quiet_slots_ok [OF q assms(2)] show ?thesis
      by (auto simp: connect_first_def terms_ok_def link_ok_def settled_def) (simp_all add: term_emit_def)
  next
    case 3
    with connect_ok(1) [OF c, of u] r obtain tq where q: "quiet t tq"
      and t1: "t1 = term_emit (Some CS_Up) (tq\<lparr>tr_link := TL_Up, tr_up_since := Some (tr_now tq)\<rparr>)" by blast
    note up = emit_up_ok [OF q assms(2), folded t1]
    have "t' = t1" using 3 c r assms(1) by (simp add: connect_first_def)
    with up quiet_slots [OF q none] 3 show ?thesis by (simp add: attached_all_def)
  qed
  then show "terms_ok t'" "r = Some (Ok u) \<Longrightarrow> tr_link t' = TL_Up \<and> attached_all t'" "r = Some (Err e) \<Longrightarrow> settled t'"
    by blast+
qed

lemma open_link_ok:
  assumes "open_link t = (t', r)" "terms_ok t" "settled t"
  shows "terms_ok t' \<and> (\<forall>u. r = Some (Ok u) \<longrightarrow> tr_link t' = TL_Up \<and> attached_all t') \<and> (\<forall>e. r = Some (Err e) \<longrightarrow> settled t')"
proof (cases "tr_link t")
  case TL_Idle
  then show ?thesis using connect_first_ok [of t t' r] assms by (auto simp: open_link_def terms_ok_def)
next
  case TL_Up
  then show ?thesis using assms by (auto simp: open_link_def settled_def)
next
  case TL_Busy
  then show ?thesis using assms(3) by (simp add: settled_def)
next
  case (TL_Down at e)
  obtain t1 go where rc: "reconnect t = (t1, go)" by force
  have "detached_all t" using assms(2) TL_Down by (auto simp: terms_ok_def link_ok_def)
  from reconnect_ok [OF rc _ this] assms(2) have ok: "terms_ok t1" "go \<longrightarrow> settled t1" by (simp_all add: terms_ok_def)
  show ?thesis
  proof (cases go)
    case False
    then show ?thesis using TL_Down rc ok assms(1) by (simp add: open_link_def)
  next
    case True
    with ok have s: "settled t1" by simp
    show ?thesis
    proof (cases "tr_link t1")
      case TL_Idle
      then show ?thesis
        using connect_first_ok [of t1 t' r] TL_Down rc True ok assms(1) by (auto simp: open_link_def terms_ok_def)
    qed (use TL_Down rc True ok s assms(1) in \<open>auto simp: open_link_def settled_def\<close>)
  qed
qed

text \<open>A fresh terminal enters with the number just allotted.\<close>

lemma new_slot_ok:
  fixes spec :: attach_spec
  assumes "terms_ok t" "tr_link t = TL_Up" "attached_all t" "phase_of i (tr_trace t) = Some TP_New"
    "unat i < unat (tr_next_id t)"
  defines "t' \<equiv> act (TA_Event i TV_Attached) (t\<lparr>tr_slots := AList.update i
     \<lparr>sl_spec = spec, sl_pty = Some (i, 0), sl_generation = 0, sl_attached_at = tr_now t, sl_quick_ends = 0\<rparr> (tr_slots t)\<rparr>)"
  shows "terms_ok t'" "settled t'"
proof -
  show "terms_ok t'"
    using assms(1,2,4,5) unfolding t'_def terms_ok_def slots_ok_def link_ok_def
    by (auto simp: slot_ok_def distinct_update MAX_QUICK_ENDS_def)
  show "settled t'" using assms(2,3) by (auto simp: t'_def settled_def attached_all_def)
qed

text \<open>Opening over a connection that is up.\<close>

lemma open_up_ok:
  fixes t1 :: terms
  defines "i \<equiv> tr_next_id t1" and "t0 \<equiv> t1\<lparr>tr_next_id := tr_next_id t1 + 1\<rparr>"
  assumes "terms_ok t1" "tr_link t1 = TL_Up" "attached_all t1" "unat (tr_next_id t1) + 1 < 2 ^ 64"
    and a: "term_attach t0 i 0 spec = (t2, r2)"
  shows "terms_ok t2" "attached_all t2" "unat (tr_next_id t2) = unat i + 1" "phase_of i (tr_trace t2) = Some TP_New"
    "tr_link t0 = TL_Up" "terms_ok t0"
proof -
  have i1: "unat (i + 1) = unat i + 1" using assms(6) by (simp add: unat_word_ariths i_def)
  show ok: "terms_ok t0"
    using assms(3) i1 unfolding terms_ok_def slots_ok_def link_ok_def detached_all_def by (auto simp: less_Suc_eq t0_def i_def)
  show up: "tr_link t0 = TL_Up" using assms(4) by (simp add: t0_def)
  note ok2 = attach_ok [OF a up ok]
  show "terms_ok t2" by (rule ok2(1))
  show "attached_all t2" using quiet_attached [OF ok2(2)] assms(5) by (simp add: attached_all_def t0_def)
  show "unat (tr_next_id t2) = unat i + 1" using quiet_facts(4) [OF ok2(2)] i1 by (simp add: t0_def i_def)
  show "phase_of i (tr_trace t2) = Some TP_New"
    using quiet_facts(1) [OF ok2(2), of i] assms(3) by (simp add: terms_ok_def slots_ok_def t0_def i_def)
qed

lemma open_ok:
  assumes "term_open t spec = (t', r)" "terms_ok t" "settled t" "unat (tr_next_id t) + 1 < 2 ^ 64"
  shows "terms_ok t' \<and> (r \<noteq> None \<longrightarrow> settled t') \<and> unat (tr_next_id t') \<le> unat (tr_next_id t) + 1"
proof -
  obtain t1 r1 where l: "open_link t = (t1, r1)" by force
  note ok1 = open_link_ok [OF l assms(2,3)]
  have n1: "tr_next_id t1 = tr_next_id t" using flows_open_link [of t] l by (simp add: flows_def)
  show ?thesis
  proof (cases r1 rule: result_cases)
    case (Done u)
    let ?i = "tr_next_id t1"
    obtain t2 r2 where a: "term_attach (t1\<lparr>tr_next_id := ?i + 1\<rparr>) ?i 0 spec = (t2, r2)" by force
    from Done ok1 have t1: "terms_ok t1" "tr_link t1 = TL_Up" "attached_all t1" by auto
    note up = open_up_ok [OF t1 assms(4) [folded n1] a]
    note ok2 = attach_ok [OF a up(5,6)]
    show ?thesis
    proof (cases r2 rule: result_cases)
      case Stopped
      then show ?thesis using a l Done up assms(1) n1 by (simp add: term_open_def)
    next
      case (Failed e)
      have "tr_next_id (idle_if_empty t2) = tr_next_id t2" using flows_idle [of t2] by (simp add: flows_def)
      then show ?thesis
        using Failed a l Done ok2(3) up assms(1) n1 idle_ok [of t2] idle_settled [of t2] by (auto simp: term_open_def)
    next
      case p: (Done p)
      then have "p = (?i, 0)" using ok2(4) by simp
      then show ?thesis
        using p a l Done ok2(3) up assms(1) n1 new_slot_ok [of t2 ?i spec] by (auto simp: term_open_def Let_def)
    qed
  qed (use l ok1 n1 assms(1) in \<open>auto simp: term_open_def\<close>)
qed

lemma remove_slot_ok:
  assumes "terms_ok t" "map_of (tr_slots t) i = Some s" "sl_pty s \<noteq> None"
  shows "terms_ok ((act (TA_Event i (TV_Exited c)) t)\<lparr>tr_slots := AList.delete i (tr_slots t)\<rparr>)"
proof -
  have "phase_of i (tr_trace t) = Some TP_Attached" "unat i < unat (tr_next_id t)"
    using assms by (simp_all add: terms_ok_def slots_ok_def slot_ok_def)
  with assms show ?thesis
    unfolding terms_ok_def slots_ok_def link_ok_def
    by (auto simp: slot_ok_def distinct_delete detached_all_def)
qed

lemma settled_remove:
  "settled t \<Longrightarrow> settled (idle_if_empty ((act a t)\<lparr>tr_slots := AList.delete i (tr_slots t)\<rparr>))"
  by (rule idle_settled) (auto simp: settled_def attached_all_def)

lemma settled_attached: "settled t \<Longrightarrow> tr_link t = TL_Up \<Longrightarrow> attached_all t"
  by (simp add: settled_def)

lemma delete_updated: "AList.delete i (AList.update i v d) = AList.delete i d"
  by (induction d) auto

text \<open>A terminal whose channel ended is detached and attached again.\<close>

lemma channel_reattach_ok:
  fixes why why' :: string
  assumes "terms_ok t" "settled t" "tr_link t = TL_Up" "map_of (tr_slots t) i = Some s" "quick < MAX_QUICK_ENDS"
  defines "t2 \<equiv> act (TA_Event i (TV_Detached why)) (t\<lparr>tr_slots := AList.update i (s\<lparr>sl_pty := None, sl_quick_ends := quick\<rparr>) (tr_slots t)\<rparr>)"
  assumes a: "term_attach t2 i g spec = (t3, r)"
  shows "terms_ok t3"
    "r = Some (Err e) \<Longrightarrow> terms_ok (term_lost why' t3) \<and> settled (term_lost why' t3)"
    "r = Some (Ok p) \<Longrightarrow> terms_ok (idle_if_empty (reattached i g p t3)) \<and> settled (idle_if_empty (reattached i g p t3))"
proof -
  have att: "sl_pty s \<noteq> None" using settled_attached [OF assms(2,3)] assms(4) by (simp add: attached_all_def)
  have so: "phase_of i (tr_trace t) = Some TP_Attached" "unat i < unat (tr_next_id t)"
    using assms(1,4) att by (simp_all add: terms_ok_def slots_ok_def slot_ok_def)
  have ok2: "terms_ok t2"
    using assms(1,3,5) so unfolding terms_ok_def slots_ok_def link_ok_def t2_def
    by (auto simp: slot_ok_def distinct_update not_le)
  have up2: "tr_link t2 = TL_Up" using assms(3) by (simp add: t2_def)
  note ok3 = attach_ok [OF a up2 ok2]
  show "terms_ok t3" by (rule ok3(1))
  show "r = Some (Err e) \<Longrightarrow> terms_ok (term_lost why' t3) \<and> settled (term_lost why' t3)"
    using ok3(1) lost_ok [of t3 why'] by (auto simp: terms_ok_def)
  have det: "sl_pty s' = None" if "map_of (tr_slots t3) i = Some s'" for s'
    using quiet_slot [OF ok3(2), of i s'] that by (auto simp: t2_def)
  have other: "sl_pty s' \<noteq> None" if "map_of (tr_slots t3) j = Some s'" "j \<noteq> i" for j s'
    using quiet_slot [OF ok3(2), of j s'] that settled_attached [OF assms(2,3)]
    by (auto simp: t2_def attached_all_def)
  show "terms_ok (idle_if_empty (reattached i g p t3)) \<and> settled (idle_if_empty (reattached i g p t3))" if "r = Some (Ok p)"
  proof -
    have up3: "tr_link t3 = TL_Up" and p: "p = (i, g)" using ok3(3,4) that by simp_all
    have r4: "terms_ok (reattached i g (i, g) t3)" "tr_link (reattached i g (i, g) t3) = TL_Up"
      "\<And>j s'. map_of (tr_slots (reattached i g (i, g) t3)) j = Some s' \<Longrightarrow>
         if j = i then sl_pty s' \<noteq> None else map_of (tr_slots t3) j = Some s'"
      using reattached_ok [of t3 i g] ok3(1) up3 det by blast+
    have "attached_all (reattached i g (i, g) t3)" unfolding attached_all_def using r4(3) other by metis
    then show ?thesis using p idle_ok [OF r4(1)] idle_settled r4(2) by simp
  qed
qed

lemma channel_ended_ok:
  assumes "channel_ended t i = (t', go)" "terms_ok t" "settled t" "tr_link t = TL_Up"
  shows "terms_ok t' \<and> (go \<longrightarrow> settled t')"
proof (cases "map_of (tr_slots t) i")
  case None
  then show ?thesis using assms by (simp add: channel_ended_def)
next
  case (Some s)
  define quick where "quick = (if tr_now t - sl_attached_at s < STABLE_AFTER then sl_quick_ends s + 1 else 0)"
  define t1 where "t1 = t\<lparr>tr_slots := AList.update i (s\<lparr>sl_pty := None, sl_quick_ends := quick\<rparr>) (tr_slots t)\<rparr>"
  have att: "sl_pty s \<noteq> None" using settled_attached [OF assms(3,4)] Some by (simp add: attached_all_def)
  show ?thesis
  proof (cases "MAX_QUICK_ENDS \<le> quick")
    case True
    have "AList.delete i (tr_slots t1) = AList.delete i (tr_slots t)"
      by (simp add: t1_def delete_updated)
    then have "t' = idle_if_empty ((act (TA_Event i (TV_Exited None)) t)\<lparr>tr_slots := AList.delete i (tr_slots t)\<rparr>)" "go"
      using assms(1) Some True by (simp_all add: channel_ended_def Let_def quick_def t1_def act_def)
    then show ?thesis using idle_ok [OF remove_slot_ok [OF assms(2) Some att]] settled_remove [OF assms(3)] by simp
  next
    case False
    obtain t3 r where a: "term_attach (act (TA_Event i (TV_Detached ''terminal channel closed'')) t1) i (sl_generation s + 1) (sl_spec s) = (t3, r)"
      by force
    note ok = channel_reattach_ok [OF assms(2-4) Some _ a [unfolded t1_def]]
    have "channel_ended t i = (case r of None \<Rightarrow> (t3, False)
       | Some (Ok pty) \<Rightarrow> (idle_if_empty (reattached i (sl_generation s + 1) pty t3), True)
       | Some (Err e) \<Rightarrow> (term_lost (reason_of e) t3, True))"
      using Some False a by (simp add: channel_ended_def Let_def quick_def t1_def)
    then show ?thesis using ok False assms(1) by (cases r rule: result_cases) auto
  qed
qed

lemma settled_cong: "tr_link t' = tr_link t \<Longrightarrow> tr_slots t' = tr_slots t \<Longrightarrow> settled t' = settled t"
  by (simp add: settled_def attached_all_def split: term_link.split)

lemma output_data_ok:
  assumes "terms_ok t" "settled t" "phase_of i (tr_trace t) = Some TP_Attached"
  shows "terms_ok (act (TA_Event i (TV_Output d)) t) \<and> settled (act (TA_Event i (TV_Output d)) t)"
proof -
  have "phase_of j (tr_trace t @ [TA_Event i (TV_Output d)]) = phase_of j (tr_trace t)" for j using assms(3) by auto
  then have "quiet t (act (TA_Event i (TV_Output d)) t)" by (simp add: quiet_def del: phase_of_snoc)
  then show ?thesis using quiet_ok assms(1,2) settled_cong [of "act (TA_Event i (TV_Output d)) t" t] by auto
qed

lemma output_ok:
  assumes "term_output t alive i g out = (t', go)" "terms_ok t" "settled t"
  shows "terms_ok t' \<and> (go \<longrightarrow> settled t')"
proof (cases "\<exists>s. map_of (tr_slots t) i = Some s \<and> sl_generation s = g \<and> sl_pty s \<noteq> None")
  case False
  then show ?thesis using assms by (auto simp: term_output_def split: option.splits if_splits)
next
  case True
  then obtain s where Some: "map_of (tr_slots t) i = Some s" and g: "sl_generation s = g" and att: "sl_pty s \<noteq> None" by blast
  have ph: "phase_of i (tr_trace t) = Some TP_Attached"
    using assms(2) Some att by (auto simp: terms_ok_def slots_ok_def slot_ok_def split: if_splits)
  consider d where "out = Some (PO_Data d)" | c where "out = Some (PO_Exit c)" | "out = None"
    by (metis option.exhaust pty_out.exhaust)
  then show ?thesis
  proof cases
    case (1 d)
    then show ?thesis using assms(1) Some g att output_data_ok [OF assms(2,3) ph, of d] by (auto simp: term_output_def)
  next
    case 2
    then show ?thesis
      using assms(1) Some g att idle_ok [OF remove_slot_ok [OF assms(2) Some att]] settled_remove [OF assms(3)]
      by (auto simp: term_output_def)
  next
    case 3
    show ?thesis
    proof (cases "tr_link t = TL_Up \<and> alive")
      case True
      then show ?thesis using channel_ended_ok [OF _ assms(2,3)] assms(1) Some g att 3 by (auto simp: term_output_def)
    next
      case False
      then show ?thesis
        using lost_ok [of t "''connection lost''"] assms(1,2) Some g att 3 by (auto simp: term_output_def terms_ok_def)
    qed
  qed
qed

lemma local_ok:
  assumes "terms_ok t" "settled t"
  shows "terms_ok (idle_if_empty (term_local t c))" "settled (idle_if_empty (term_local t c))"
proof -
  show "terms_ok (idle_if_empty (term_local t c))" by (rule idle_ok [OF quiet_ok [OF quiet_local assms(1)]])
  show "settled (idle_if_empty (term_local t c))"
  proof (rule idle_settled)
    show "tr_link (term_local t c) \<noteq> TL_Busy" using assms(2) quiet_facts(3) [OF quiet_local, of t c] by (auto simp: settled_def)
    show "tr_link (term_local t c) = TL_Up \<longrightarrow> attached_all (term_local t c)"
      using quiet_attached [OF quiet_local] quiet_facts(3) [OF quiet_local, of t c] settled_attached [OF assms(2)] by auto
  qed
qed

lemma act_ok:
  "terms_ok (act (TA_Asked n) t) = terms_ok t" "terms_ok (act (TA_Reply n r) t) = terms_ok t"
  "settled (act a t) = settled t"
  using settled_cong [of "act a t" t]
  by (simp_all add: terms_ok_def slots_ok_def slot_ok_def link_ok_def detached_all_def)

lemma answer_ok:
  assumes "answer n (term_open t spec) = (t', go)" "terms_ok t" "settled t" "unat (tr_next_id t) + 1 < 2 ^ 64"
  shows "terms_ok t' \<and> (go \<longrightarrow> settled t') \<and> unat (tr_next_id t') \<le> unat (tr_next_id t) + 1"
proof -
  obtain t1 r where o: "term_open t spec = (t1, r)" by force
  from open_ok [OF o assms(2-4)] assms(1) show ?thesis
    by (auto simp: answer_def o act_ok split: option.splits)
qed

lemma reconnect_settled_ok:
  assumes "reconnect t = (t', go)" "terms_ok t" "tr_link t = TL_Down at e"
  shows "terms_ok t' \<and> (go \<longrightarrow> settled t')"
  using reconnect_ok [OF assms(1)] assms(2,3) by (auto simp: terms_ok_def link_ok_def)

lemma command_ok:
  assumes "term_command t cmd = (t', go)" "terms_ok t" "settled t" "unat (tr_next_id t) + 1 < 2 ^ 64"
  shows "terms_ok t' \<and> (go \<longrightarrow> settled t') \<and> unat (tr_next_id t') \<le> unat (tr_next_id t) + 1"
proof -
  have same: "unat (tr_next_id t') \<le> unat (tr_next_id t) + 1" if "flows 0 t t'" using that by (simp add: flows_def)
  show ?thesis
  proof (cases "\<exists>c. cmd = Some c \<and> c \<notin> {TC_Retry, TC_Stop} \<and> (\<forall>sp n. c \<noteq> TC_Open sp n)")
    case True
    then obtain c where c: "cmd = Some c" "c \<noteq> TC_Retry" "c \<noteq> TC_Stop" "\<forall>sp n. c \<noteq> TC_Open sp n" by auto
    then have "t' = idle_if_empty (term_local t c)" "go" using assms(1) by (cases c; simp)+
    then show ?thesis
      using local_ok [OF assms(2,3), of c] same [of] flows_trans [OF flows_local flows_idle, of t c] by simp
  next
    case False
    then consider "cmd = None \<or> cmd = Some TC_Stop" | "cmd = Some TC_Retry" | sp n where "cmd = Some (TC_Open sp n)"
      by (metis insert_iff option.exhaust singletonD)
    then show ?thesis
    proof cases
      case 1
      then show ?thesis using assms by auto
    next
      case 2
      then show ?thesis
        using assms same flows_reconnect [of t] reconnect_settled_ok [of t t' go] by (auto split: term_link.splits)
    next
      case 3
      then show ?thesis using assms(1) answer_ok [of n "act (TA_Asked n) t" sp t' go] assms(2-4) by (simp add: act_ok)
    qed
  qed
qed

lemma iterate_ok:
  assumes "term_iterate t i = (t', go)" "terms_ok t" "settled t" "unat (tr_next_id t) + 1 < 2 ^ 64"
  shows "terms_ok t' \<and> (go \<longrightarrow> settled t') \<and> unat (tr_next_id t') \<le> unat (tr_next_id t) + 1"
proof -
  have same: "unat (tr_next_id t') \<le> unat (tr_next_id t) + 1" if "flows 0 t t'" using that by (simp add: flows_def)
  show ?thesis
  proof (cases i)
    case TI_Pending
    show ?thesis
    proof (cases "tr_pending t")
      case Nil
      then show ?thesis using TI_Pending assms by simp
    next
      case (Cons p rest)
      let ?t = "t\<lparr>tr_pending := rest\<rparr>"
      have "terms_ok ?t" "settled ?t" using assms(2,3)
        using settled_cong [of ?t t] by (simp_all add: terms_ok_def link_ok_def detached_all_def)
      from answer_ok [OF _ this, of "snd p" "fst p"] show ?thesis using Cons TI_Pending assms(1,4) by (simp add: split_beta)
    qed
  next
    case (TI_Cmd cmd)
    then show ?thesis using assms command_ok [OF _ assms(2-4), of cmd t' go] by (cases "tr_pending t = []") simp_all
  next
    case (TI_Out alive tid g out)
    then show ?thesis
      using assms same output_ok [of t alive tid g out t' go] flows_output [of t alive tid g out] by (auto split: if_splits)
  next
    case TI_Sleep
    then show ?thesis
      using assms same reconnect_settled_ok [of t t' go] flows_reconnect [of t]
      by (auto simp: retry_at_def split: option.splits if_splits term_link.splits)
  qed
qed

section \<open>Runs\<close>

definition term_inv :: "nat \<Rightarrow> terms \<Rightarrow> bool" where
  "term_inv n t \<longleftrightarrow> terms_ok t \<and> (\<not> tr_done t \<longrightarrow> settled t) \<and> unat (tr_next_id t) \<le> n"

lemma close_all_phase [simp]:
  "phase_of i (tr @ map (\<lambda>p. TA_Pty p x) ps) = phase_of i tr" "reported (tr @ map (\<lambda>p. TA_Pty p x) ps) = reported tr"
proof (induction ps rule: rev_induct)
  case (snoc p ps)
  { case 1 then show ?case using snoc(1) phase_of_snoc [of i "tr @ map (\<lambda>p. TA_Pty p x) ps"] by simp }
  { case 2 then show ?case using snoc(2) reported_snoc [of "tr @ map (\<lambda>p. TA_Pty p x) ps"] by simp }
qed simp_all

lemma close_all_ok: "terms_ok t \<Longrightarrow> terms_ok ((close_all t)\<lparr>tr_done := True\<rparr>)"
  by (simp add: close_all_def terms_ok_def slots_ok_def slot_ok_def link_ok_def detached_all_def)

lemma step_term_inv:
  assumes "term_inv n t" "n + 1 < 2 ^ 64"
  shows "term_inv (n + 1) (term_step t turn)"
proof (cases "tr_done t")
  case True
  with assms show ?thesis by (simp add: term_inv_def term_step_def)
next
  case False
  let ?t = "t\<lparr>tr_now := tr_now t + tt_elapsed turn, tr_zellij := tt_zellij turn, tr_script := tt_script turn\<rparr>"
  obtain t1 go where it: "term_iterate ?t (tt_in turn) = (t1, go)" by force
  have "terms_ok ?t" "settled ?t"
    using assms(1) False settled_cong [of ?t t] by (simp_all add: term_inv_def terms_ok_def link_ok_def detached_all_def)
  from iterate_ok [OF it this] assms have "terms_ok t1" "go \<longrightarrow> settled t1" "unat (tr_next_id t1) \<le> n + 1"
    by (auto simp: term_inv_def)
  then show ?thesis using it False close_all_ok [of t1]
    by (auto simp: term_inv_def term_step_def) (simp_all add: close_all_def)
qed

lemma run_terms_inv: "term_inv 1 (run_terms cfg)"
  by (simp add: term_inv_def run_terms_def terms_ok_def slots_ok_def link_ok_def settled_def)

lemma term_run_inv:
  "length turns + 1 < 2 ^ 64 \<Longrightarrow> term_inv (length turns + 1) (term_run cfg turns)"
proof (induction turns rule: rev_induct)
  case (snoc turn turns)
  then have "term_inv (length turns + 1) (term_run cfg turns)" by simp
  from step_term_inv [OF this, of turn] snoc.prems show ?case by (simp add: term_run_def)
qed (use run_terms_inv in \<open>simp add: term_run_def\<close>)

text \<open>Requests.\<close>

definition queued :: "terms \<Rightarrow> bool" where
  "queued t \<longleftrightarrow> asked (tr_trace t) = replied (tr_trace t) @ map snd (tr_pending t)"

lemma flows_open: "\<exists>n. flows n t (fst (term_open t spec))"
proof -
  obtain t1 r1 where l: "open_link t = (t1, r1)" by force
  have f1: "flows 0 t t1" using flows_open_link [of t] l by simp
  let ?t1 = "t1\<lparr>tr_next_id := tr_next_id t1 + 1\<rparr>"
  obtain t2 r2 where a: "term_attach ?t1 (tr_next_id t1) 0 spec = (t2, r2)" by force
  have "flows 1 t ?t1" using f1 by (auto simp: flows_def)
  from flows_add [OF this flows_attach] a have f2: "flows 1 t t2" by (metis add.right_neutral fst_conv)
  from flows_add [OF this flows_idle] have f3: "flows 1 t (idle_if_empty t2)" by simp
  have "flows 1 t (act (TA_Event i e) (t2\<lparr>tr_slots := sl\<rparr>))" for i e sl using f2 by (simp add: flows_def)
  then show ?thesis using f1 f2 f3 l a
    by (auto simp: term_open_def Let_def split: option.splits sum.splits)
qed

lemma answer_queued:
  assumes "answer n (term_open t spec) = (t', go)" "asked (tr_trace t) = replied (tr_trace t) @ n # map snd (tr_pending t)"
  shows "(if go then queued t' else prefix (replied (tr_trace t')) (asked (tr_trace t'))) \<and> tr_done t' = tr_done t"
proof -
  obtain t1 r where o: "term_open t spec = (t1, r)" by force
  from flows_open [of t spec] o obtain m where "flows m t t1" by auto
  with assms show ?thesis by (auto simp: answer_def o flows_def queued_def split: option.splits)
qed

lemma flows_queued: "flows 0 t t' \<Longrightarrow> queued t \<Longrightarrow> queued t' \<and> prefix (replied (tr_trace t')) (asked (tr_trace t')) \<and> tr_done t' = tr_done t"
  by (auto simp: flows_def queued_def)

lemma iterate_queued:
  assumes "term_iterate t i = (t', go)" "queued t"
  shows "(if go then queued t' else prefix (replied (tr_trace t')) (asked (tr_trace t'))) \<and> tr_done t' = tr_done t"
proof (cases "(\<exists>p ps. i = TI_Pending \<and> tr_pending t = p # ps) \<or> (\<exists>sp n. i = TI_Cmd (Some (TC_Open sp n)) \<and> tr_pending t = [])")
  case True
  then show ?thesis
  proof (elim disjE exE conjE)
    fix p ps
    assume i: "i = TI_Pending" "tr_pending t = p # ps"
    then have "answer (snd p) (term_open (t\<lparr>tr_pending := ps\<rparr>) (fst p)) = (t', go)" using assms(1) by (simp add: split_beta)
    from answer_queued [OF this] show ?thesis using assms(2) i by (simp add: queued_def [of t])
  next
    fix sp n
    assume i: "i = TI_Cmd (Some (TC_Open sp n))" "tr_pending t = []"
    then have "answer n (term_open (act (TA_Asked n) t) sp) = (t', go)" using assms(1) by simp
    from answer_queued [OF this] show ?thesis using assms(2) i by (simp add: queued_def [of t])
  qed
next
  case False
  have "flows 0 t t'"
  proof (cases i)
    case (TI_Cmd cmd)
    show ?thesis
    proof (cases "tr_pending t = []")
      case True
      with TI_Cmd assms(1) have "term_command t cmd = (t', go)" by simp
      then show ?thesis using False TI_Cmd True flows_reconnect [of t] flows_trans [OF flows_local flows_idle]
        by (cases "(t, cmd)" rule: term_command.cases) (auto simp del: term_local.simps split: term_link.splits)
    qed (use TI_Cmd assms in simp)
  next
    case (TI_Out alive tid g out)
    then show ?thesis using assms(1) flows_output [of t alive tid g out] by (auto split: if_splits)
  qed (use False assms flows_reconnect [of t] in \<open>auto split: option.splits if_splits list.splits\<close>)
  from flows_queued [OF this assms(2)] show ?thesis by simp
qed

lemma term_run_queued:
  "(if tr_done (term_run cfg turns) then prefix (replied (tr_trace (term_run cfg turns))) (asked (tr_trace (term_run cfg turns)))
    else queued (term_run cfg turns))"
proof (induction turns rule: rev_induct)
  case Nil
  show ?case by (simp add: term_run_def run_terms_def queued_def)
next
  case (snoc turn turns)
  let ?s = "term_run cfg turns"
  let ?t = "?s\<lparr>tr_now := tr_now ?s + tt_elapsed turn, tr_zellij := tt_zellij turn, tr_script := tt_script turn\<rparr>"
  have run: "term_run cfg (turns @ [turn]) = term_step ?s turn" by (simp add: term_run_def)
  show ?case
  proof (cases "tr_done ?s")
    case True
    then show ?thesis using snoc by (simp add: run term_step_def)
  next
    case False
    obtain t1 go where it: "term_iterate ?t (tt_in turn) = (t1, go)" by force
    have "queued ?t" using snoc False by (simp add: queued_def)
    from iterate_queued [OF it this] False it show ?thesis
      by (auto simp: run term_step_def close_all_def)
  qed
qed

text \<open>Recovery.\<close>

definition succeeds :: "await \<Rightarrow> bool" where
  "succeeds a \<longleftrightarrow> aw_cmds a = [] \<and> aw_done a = Some (Ok ())"

lemma busy_succeeds:
  assumes "tr_script t = a # rest" "succeeds a"
  shows "term_busy t = (t\<lparr>tr_script := rest, tr_now := tr_now t + aw_elapsed a, tr_zellij := aw_zellij a\<rparr>, Some (Ok ()))"
  using assms by (simp add: term_busy_def succeeds_def)

lemma attach_succeeds:
  assumes "tr_link t = TL_Up" "tr_script t = a # rest" "succeeds a"
  shows "snd (term_attach t i g spec) = Some (Ok (i, g))"
    "tr_slots (fst (term_attach t i g spec)) = tr_slots t" "tr_link (fst (term_attach t i g spec)) = TL_Up"
    "tr_script (fst (term_attach t i g spec)) = rest"
  using assms by (simp_all add: term_attach_def busy_succeeds split_beta)

definition attached_anew :: "(u64, slot) dict \<Rightarrow> (u64, slot) dict \<Rightarrow> u64 \<Rightarrow> bool" where
  "attached_anew old new i \<longleftrightarrow> (\<exists>s s'. map_of old i = Some s \<and> map_of new i = Some s'
     \<and> sl_pty s' = Some (i, sl_generation s + 1) \<and> sl_generation s' = sl_generation s + 1 \<and> sl_spec s' = sl_spec s)"

lemma reattach_all_succeeds:
  assumes "tr_link t = TL_Up" "list_all succeeds (tr_script t)" "length tids \<le> length (tr_script t)" "distinct tids"
    "set tids \<subseteq> dom (map_of (tr_slots t))" "tr_slots t \<noteq> []"
  shows "snd (reattach_all t tids) \<and> tr_link (fst (reattach_all t tids)) = TL_Up
    \<and> (\<forall>i \<in> set tids. attached_anew (tr_slots t) (tr_slots (fst (reattach_all t tids))) i)
    \<and> (\<forall>i. i \<notin> set tids \<longrightarrow> map_of (tr_slots (fst (reattach_all t tids))) i = map_of (tr_slots t) i)"
  using assms
proof (induction tids arbitrary: t)
  case Nil
  then show ?case by (simp add: idle_if_empty_def)
next
  case (Cons i tids)
  from Cons.prems(3) obtain a rest where sc: "tr_script t = a # rest" by (cases "tr_script t") auto
  with Cons.prems(2) have a: "succeeds a" by simp
  from Cons.prems(5) obtain s where s: "map_of (tr_slots t) i = Some s" by auto
  let ?g = "sl_generation s + 1"
  obtain t1 r where at: "term_attach t i ?g (sl_spec s) = (t1, r)" by force
  note ok = attach_succeeds [OF Cons.prems(1) sc a, of i ?g "sl_spec s", unfolded at]
  let ?t2 = "reattached i ?g (i, ?g) t1"
  have t2: "tr_slots ?t2 = AList.update i (s\<lparr>sl_pty := Some (i, ?g), sl_generation := ?g, sl_attached_at := tr_now t1\<rparr>) (tr_slots t)"
    "tr_link ?t2 = TL_Up" "tr_script ?t2 = rest"
    using ok s by (simp_all add: reattached_def)
  have "snd (reattach_all ?t2 tids) \<and> tr_link (fst (reattach_all ?t2 tids)) = TL_Up
    \<and> (\<forall>j \<in> set tids. attached_anew (tr_slots ?t2) (tr_slots (fst (reattach_all ?t2 tids))) j)
    \<and> (\<forall>j. j \<notin> set tids \<longrightarrow> map_of (tr_slots (fst (reattach_all ?t2 tids))) j = map_of (tr_slots ?t2) j)"
    by (rule Cons.IH) (use Cons.prems sc t2 in \<open>auto simp: domIff\<close>)
  moreover have "reattach_all t (i # tids) = reattach_all ?t2 tids" using s at ok by (simp add: Let_def)
  ultimately show ?case using Cons.prems(4) t2(1) s
    by (auto simp: attached_anew_def split: if_splits)
qed

lemma connect_succeeds:
  assumes "tr_script t = a # rest" "succeeds a"
  shows "snd (term_connect t) = Some (Ok ())" "tr_link (fst (term_connect t)) = TL_Up"
    "tr_slots (fst (term_connect t)) = tr_slots t" "tr_script (fst (term_connect t)) = rest"
  using assms by (simp_all add: term_connect_def busy_succeeds term_emit_def split_beta)

lemma reconnect_succeeds:
  assumes "list_all succeeds (tr_script t)" "length (tr_slots t) < length (tr_script t)" "distinct (keys (tr_slots t))"
    "tr_slots t \<noteq> []"
  shows "snd (reconnect t) \<and> tr_link (fst (reconnect t)) = TL_Up
    \<and> (\<forall>i \<in> set (keys (tr_slots t)). attached_anew (tr_slots t) (tr_slots (fst (reconnect t))) i)"
proof -
  from assms(2) obtain a rest where sc: "tr_script t = a # rest" by (cases "tr_script t") auto
  with assms(1) have a: "succeeds a" by simp
  obtain t1 r where c: "term_connect t = (t1, r)" by force
  note ok = connect_succeeds [OF sc a, unfolded c]
  have "snd (reattach_all t1 (keys (tr_slots t1))) \<and> tr_link (fst (reattach_all t1 (keys (tr_slots t1)))) = TL_Up
    \<and> (\<forall>i \<in> set (keys (tr_slots t1)). attached_anew (tr_slots t1) (tr_slots (fst (reattach_all t1 (keys (tr_slots t1))))) i)
    \<and> (\<forall>i. i \<notin> set (keys (tr_slots t1)) \<longrightarrow> map_of (tr_slots (fst (reattach_all t1 (keys (tr_slots t1))))) i = map_of (tr_slots t1) i)"
    by (rule reattach_all_succeeds) (use assms sc ok in \<open>auto simp: dom_map_of_conv_image_fst\<close>)
  moreover have "reconnect t = reattach_all t1 (keys (tr_slots t1))" using c ok by (simp add: reconnect_def)
  ultimately show ?thesis using ok(3) by auto
qed

section \<open>Properties\<close>


text \<open>Whenever the terminal task waits for its next event: it holds a connection exactly while a
  terminal is open, every open terminal has a PTY exactly when the connection is up, and the state last
  reported to the monitor is the state of the connection (a reconnect being scheduled exactly when the
  reported state is \<open>Retrying\<close>).\<close>

theorem terminals_match_connection:
  assumes "length turns + 1 < 2 ^ 64" and "term_run cfg turns = t" and "\<not> tr_done t"
  shows "(tr_link t = TL_Idle \<longleftrightarrow> tr_slots t = [])
    \<and> (\<forall>i s. map_of (tr_slots t) i = Some s \<longrightarrow> (tr_link t = TL_Up \<longleftrightarrow> sl_pty s = Some (i, sl_generation s)))
    \<and> link_reported (tr_link t) (reported (tr_trace t)) \<and> tr_link t \<noteq> TL_Busy"
proof -
  have "term_inv (length turns + 1) t" using term_run_inv [OF assms(1), of cfg] assms(2) by simp
  then have ok: "slots_ok t" "link_ok t" "settled t" using assms(3) by (simp_all add: term_inv_def terms_ok_def)
  have "tr_link t = TL_Up \<longleftrightarrow> sl_pty s = Some (i, sl_generation s)" if s: "map_of (tr_slots t) i = Some s" for i s
  proof (cases "tr_link t")
    case TL_Up
    have "slot_ok (tr_trace t) i s" "sl_pty s \<noteq> None"
      using ok(1) settled_attached [OF ok(3) TL_Up] s by (auto simp: slots_ok_def attached_all_def)
    with TL_Up show ?thesis by (auto simp: slot_ok_def)
  qed (use ok s in \<open>auto simp: settled_def link_ok_def detached_all_def\<close>)
  then show ?thesis using ok by (auto simp: settled_def link_ok_def split: term_link.splits)
qed

text \<open>Requests to open a terminal are answered exactly once and in the order in which they came, also
  those that arrive while another one is connecting: at every moment the requests received are the
  answered ones followed by the waiting ones; a task that was told to stop has answered a prefix of
  them.\<close>

theorem opens_answered_in_order:
  "if tr_done (term_run cfg turns)
   then prefix (replied (tr_trace (term_run cfg turns))) (asked (tr_trace (term_run cfg turns)))
   else asked (tr_trace (term_run cfg turns)) =
     replied (tr_trace (term_run cfg turns)) @ map snd (tr_pending (term_run cfg turns))"
  using term_run_queued [of cfg turns] by (simp add: queued_def split: if_splits)


section \<open>Witnesses\<close>

definition ex_term_cfg :: host_config where
  "ex_term_cfg = \<lparr>hc_id = ''h'', hc_kind = HK_Local, hc_zellij = None\<rparr>"

definition ex_spec :: attach_spec where
  "ex_spec = \<lparr>as_session = ''main'', as_create = False, as_size = \<lparr>ts_cols = 80, ts_rows = 24\<rparr>\<rparr>"

definition ex_ok :: await where
  "ex_ok = \<lparr>aw_cmds = [], aw_elapsed = 10, aw_zellij = None, aw_done = Some (Ok ())\<rparr>"

definition ex_term_turn :: "term_in \<Rightarrow> term_turn" where
  "ex_term_turn i = \<lparr>tt_elapsed = 1000, tt_zellij = None, tt_script = [ex_ok, ex_ok], tt_in = i\<rparr>"

text \<open>Open a terminal, receive output, lose the connection.\<close>

definition ex_turns :: "term_turn list" where
  "ex_turns = map ex_term_turn [TI_Cmd (Some (TC_Open ex_spec 7)), TI_Out True 1 0 (Some (PO_Data ''hi'')),
     TI_Out False 1 0 None]"

lemmas term_eval = term_run_def ex_turns_def ex_term_turn_def ex_ok_def ex_term_cfg_def ex_spec_def term_step_def
  run_terms_def term_open_def open_link_def connect_first_def term_connect_def term_busy_def act_def term_emit_def
  term_attach_def zellij_path_def answer_def term_output_def term_lost_def detach_all_def retry_link_def
  next_delay_def link_down_def backoff_default_def BACKOFF_FIRST_def BACKOFF_MAX_def STABLE_AFTER_def Let_def split_beta

lemma ex_run:
  "tr_link (term_run ex_term_cfg ex_turns) = TL_Down (Some 4020) (OE_Retry ''connection lost'')"
  "tr_done (term_run ex_term_cfg ex_turns) = False" "tr_pending (term_run ex_term_cfg ex_turns) = []"
  "tr_now (term_run ex_term_cfg ex_turns) = 3020" "keys (tr_slots (term_run ex_term_cfg ex_turns)) = [1]"
  by (simp_all add: term_eval)

lemma ex_turns_length: "length ex_turns + 1 < 2 ^ 64"
  by (simp add: ex_turns_def)


theorem terminals_match_connection_witness:
  "tr_slots (term_run ex_term_cfg ex_turns) \<noteq> []
   \<and> link_reported (tr_link (term_run ex_term_cfg ex_turns)) (reported (tr_trace (term_run ex_term_cfg ex_turns)))"
  using terminals_match_connection [OF ex_turns_length refl, of ex_term_cfg] ex_run(1,2) by simp


end
