(* ===== verification/Local_Pty.thy ===== *)
theory Local_Pty
  imports Term
begin

text \<open>
  A terminal on this machine (\<open>spawn_local\<close> in \<open>crates/mai-core/src/pty.rs\<close>): the program, three threads around it and
  the app holding a sender and a receiver.

  The threads share the flag \<open>exited\<close>, the queue of \<open>PtyIn\<close> and the process. \<open>pty_step\<close> interleaves them, one
  shared access per step; reading from the PTY and writing to it succeed or fail as they like.
\<close>

section \<open>State\<close>

datatype child = CH_Running | CH_Ended u32 | CH_Reaped

datatype input_thread = IN_Recv | IN_Check | IN_Kill | IN_Drop | IN_Done

datatype waiter_thread = WT_Wait | WT_Store "u32 option" | WT_Wake "u32 option" | WT_Done "u32 option"

datatype reader_thread = RD_Read | RD_Check | RD_Kill | RD_Join | RD_Done

record local_pty =
  lp_queue :: "pty_in list"
  lp_sender :: bool
  lp_receiver :: bool
  lp_child :: child
  lp_exited :: bool
  lp_input :: input_thread
  lp_waiter :: waiter_thread
  lp_reader :: reader_thread
  lp_output :: "pty_out list"

definition spawn_local :: local_pty where
  "spawn_local = \<lparr>lp_queue = [], lp_sender = True, lp_receiver = True, lp_child = CH_Running, lp_exited = False,
     lp_input = IN_Recv, lp_waiter = WT_Wait, lp_reader = RD_Read, lp_output = []\<rparr>"

section \<open>Opening\<close>

record pty_size =
  pz_rows :: u16
  pz_cols :: u16
  pz_pixel_width :: u16
  pz_pixel_height :: u16

definition pty_size_of :: "term_size \<Rightarrow> pty_size" where
  "pty_size_of sz = \<lparr>pz_rows = ts_rows sz, pz_cols = ts_cols sz, pz_pixel_width = 0, pz_pixel_height = 0\<rparr>"

text \<open>The calls of \<open>portable_pty\<close>, each of which may fail.\<close>

datatype pty_call =
    PY_Open pty_size
  | PY_Spawn string "string list" "(string \<times> string) list"
  | PY_Reader
  | PY_Writer

text \<open>The calls made one after the other up to the first that fails.\<close>

fun pty_calls :: "(pty_call \<Rightarrow> string option) \<Rightarrow> pty_call list \<Rightarrow> pty_call list \<times> (string + unit)" where
  "pty_calls fault [] = ([], Ok ())"
| "pty_calls fault (c # cs) =
     (case fault c of
        Some e \<Rightarrow> ([c], Err e)
      | None \<Rightarrow> (case pty_calls fault cs of (done, r) \<Rightarrow> (c # done, r)))"

definition open_pty_local ::
    "(pty_call \<Rightarrow> string option) \<Rightarrow> string \<Rightarrow> string list \<Rightarrow> (string \<times> string) list \<Rightarrow> term_size
     \<Rightarrow> pty_call list \<times> (string + local_pty)" where
  "open_pty_local fault program args env sz =
     (case pty_calls fault [PY_Open (pty_size_of sz), PY_Spawn program args env, PY_Reader, PY_Writer] of
        (calls, Err e) \<Rightarrow> (calls, Err e)
      | (calls, Ok _) \<Rightarrow> (calls, Ok spawn_local))"

text \<open>A local terminal opens only when every call succeeded, and it then runs the program asked for, with its arguments and
  variables, in a PTY of the size asked for. When a call fails, no thread is started and the error is that call's; the
  program has been started only if opening the PTY did not fail.\<close>

lemma open_pty_local_exact:
  assumes "open_pty_local fault program args env sz = (calls, r)"
  shows "(\<forall>p. r = Ok p \<longrightarrow> p = spawn_local \<and> calls = [PY_Open (pty_size_of sz), PY_Spawn program args env, PY_Reader, PY_Writer]
            \<and> (\<forall>c \<in> set calls. fault c = None))
    \<and> (\<forall>e. r = Err e \<longrightarrow> (\<exists>cs c. calls = cs @ [c] \<and> fault c = Some e \<and> (\<forall>d \<in> set cs. fault d = None)))
    \<and> (PY_Spawn program args env \<in> set calls \<longleftrightarrow> fault (PY_Open (pty_size_of sz)) = None)"
  using assms by (auto simp: open_pty_local_def split: option.splits)

section \<open>Threads and the program\<close>

text \<open>A signal ends a running program; on one that has ended it does nothing here.\<close>

definition kill_child :: "u32 \<Rightarrow> child \<Rightarrow> child" where
  "kill_child code ch = (if ch = CH_Running then CH_Ended code else ch)"

section \<open>Interleaving\<close>

datatype pty_label = PL_App | PL_Program | PL_Thread | PL_Kill child

inductive pty_step :: "local_pty \<Rightarrow> pty_label \<Rightarrow> local_pty \<Rightarrow> bool" where
  app_send: "lp_sender s \<Longrightarrow> pty_step s PL_App (s\<lparr>lp_queue := lp_queue s @ [m]\<rparr>)"
| app_drop_sender: "pty_step s PL_App (s\<lparr>lp_sender := False\<rparr>)"
| app_drop_receiver: "pty_step s PL_App (s\<lparr>lp_receiver := False\<rparr>)"
| program_exit: "lp_child s = CH_Running \<Longrightarrow> pty_step s PL_Program (s\<lparr>lp_child := CH_Ended code\<rparr>)"
| in_written: "lp_input s = IN_Recv \<Longrightarrow> lp_queue s = PI_Data d # q \<Longrightarrow> pty_step s PL_Thread (s\<lparr>lp_queue := q\<rparr>)"
| in_write_failed: "lp_input s = IN_Recv \<Longrightarrow> lp_queue s = PI_Data d # q \<Longrightarrow>
    pty_step s PL_Thread (s\<lparr>lp_queue := q, lp_input := IN_Check\<rparr>)"
| in_resize: "lp_input s = IN_Recv \<Longrightarrow> lp_queue s = PI_Resize sz # q \<Longrightarrow> pty_step s PL_Thread (s\<lparr>lp_queue := q\<rparr>)"
| in_close: "lp_input s = IN_Recv \<Longrightarrow> lp_queue s = PI_Close # q \<Longrightarrow>
    pty_step s PL_Thread (s\<lparr>lp_queue := q, lp_input := IN_Check\<rparr>)"
| in_ended: "lp_input s = IN_Recv \<Longrightarrow> lp_queue s = [] \<Longrightarrow> \<not> lp_sender s \<Longrightarrow> pty_step s PL_Thread (s\<lparr>lp_input := IN_Check\<rparr>)"
| in_check: "lp_input s = IN_Check \<Longrightarrow> pty_step s PL_Thread (s\<lparr>lp_input := if lp_exited s then IN_Drop else IN_Kill\<rparr>)"
| in_kill: "lp_input s = IN_Kill \<Longrightarrow>
    pty_step s (PL_Kill (lp_child s)) (s\<lparr>lp_child := kill_child code (lp_child s), lp_input := IN_Drop\<rparr>)"
| in_drop: "lp_input s = IN_Drop \<Longrightarrow> pty_step s PL_Thread (s\<lparr>lp_input := IN_Done\<rparr>)"
| wait: "lp_waiter s = WT_Wait \<Longrightarrow> lp_child s = CH_Ended code \<Longrightarrow> st = Some code \<or> st = None \<Longrightarrow>
    pty_step s PL_Thread (s\<lparr>lp_child := CH_Reaped, lp_waiter := WT_Store st\<rparr>)"
| store: "lp_waiter s = WT_Store st \<Longrightarrow> pty_step s PL_Thread (s\<lparr>lp_exited := True, lp_waiter := WT_Wake st\<rparr>)"
| wake: "lp_waiter s = WT_Wake st \<Longrightarrow>
    pty_step s PL_Thread (s\<lparr>lp_queue := if lp_sender s then lp_queue s @ [PI_Close] else lp_queue s, lp_waiter := WT_Done st\<rparr>)"
| rd_data: "lp_reader s = RD_Read \<Longrightarrow> lp_receiver s \<Longrightarrow> pty_step s PL_Thread (s\<lparr>lp_output := lp_output s @ [PO_Data d]\<rparr>)"
| rd_refused: "lp_reader s = RD_Read \<Longrightarrow> \<not> lp_receiver s \<Longrightarrow> pty_step s PL_Thread (s\<lparr>lp_reader := RD_Check\<rparr>)"
| rd_end: "lp_reader s = RD_Read \<Longrightarrow> pty_step s PL_Thread (s\<lparr>lp_reader := RD_Join\<rparr>)"
| rd_check: "lp_reader s = RD_Check \<Longrightarrow> pty_step s PL_Thread (s\<lparr>lp_reader := if lp_exited s then RD_Join else RD_Kill\<rparr>)"
| rd_kill: "lp_reader s = RD_Kill \<Longrightarrow>
    pty_step s (PL_Kill (lp_child s)) (s\<lparr>lp_child := kill_child code (lp_child s), lp_reader := RD_Join\<rparr>)"
| rd_join: "lp_reader s = RD_Join \<Longrightarrow> lp_waiter s = WT_Done st \<Longrightarrow> lp_input s = IN_Done \<Longrightarrow>
    pty_step s PL_Thread (s\<lparr>lp_output := if lp_receiver s then lp_output s @ [PO_Exit st] else lp_output s, lp_reader := RD_Done\<rparr>)"

abbreviation pty_run :: "local_pty \<Rightarrow> pty_label list \<Rightarrow> local_pty \<Rightarrow> bool" where
  "pty_run \<equiv> traced pty_step"

section \<open>Invariant\<close>

definition is_data :: "pty_out \<Rightarrow> bool" where
  "is_data x = (case x of PO_Data _ \<Rightarrow> True | PO_Exit _ \<Rightarrow> False)"

definition pty_inv :: "local_pty \<Rightarrow> bool" where
  "pty_inv s \<longleftrightarrow>
     (lp_waiter s = WT_Wait \<longleftrightarrow> lp_child s \<noteq> CH_Reaped)
     \<and> ((\<exists>st. lp_waiter s = WT_Wake st \<or> lp_waiter s = WT_Done st) \<longleftrightarrow> lp_exited s)
     \<and> ((\<exists>st. lp_waiter s = WT_Done st) \<and> lp_input s = IN_Recv \<longrightarrow> PI_Close \<in> set (lp_queue s) \<or> \<not> lp_sender s)
     \<and> (lp_reader s \<noteq> RD_Done \<longrightarrow> list_all is_data (lp_output s))
     \<and> (lp_reader s = RD_Done \<longrightarrow> lp_input s = IN_Done
          \<and> (\<exists>st ds. lp_waiter s = WT_Done st \<and> list_all is_data ds \<and> (lp_output s = ds \<or> lp_output s = ds @ [PO_Exit st])))"

lemma pty_step_inv: "pty_step s l s' \<Longrightarrow> pty_inv s \<Longrightarrow> pty_inv s'"
proof (induction rule: pty_step.induct)
  case (rd_join s st)
  then show ?case by (auto simp: pty_inv_def)
qed (auto simp: pty_inv_def kill_child_def is_data_def)

interpretation pty_invariant: traced_invariant pty_step "\<lambda>_. pty_inv"
  by unfold_locales (rule pty_step_inv)

lemma pty_run_inv: "pty_run spawn_local tr s \<Longrightarrow> pty_inv s"
  by (erule pty_invariant.traced_inv) (simp add: pty_inv_def spawn_local_def)


section \<open>A kill after the program was reaped\<close>

text \<open>The flag \<open>exited\<close> is set after the program has been reaped and read before the kill, so a kill can still
  follow the reaping, when the operating system may have given the process number away.\<close>

lemma kill_after_reaping: "\<exists>tr s. pty_run spawn_local (tr @ [PL_Kill CH_Reaped]) s"
proof -
  let ?s0 = spawn_local
  let ?s1 = "?s0\<lparr>lp_sender := False\<rparr>"
  let ?s2 = "?s1\<lparr>lp_input := IN_Check\<rparr>"
  let ?s3 = "?s1\<lparr>lp_input := IN_Kill\<rparr>"
  let ?s4 = "?s3\<lparr>lp_child := CH_Ended 0\<rparr>"
  let ?s5 = "?s4\<lparr>lp_child := CH_Reaped, lp_waiter := WT_Store (Some 0)\<rparr>"
  have "pty_step ?s0 PL_App ?s1" by (rule pty_step.app_drop_sender)
  moreover have "pty_step ?s1 PL_Thread ?s2" by (rule pty_step.in_ended) (simp_all add: spawn_local_def)
  moreover have "pty_step ?s2 PL_Thread ?s3" using pty_step.in_check [of ?s2] by (simp add: spawn_local_def)
  moreover have "pty_step ?s3 PL_Program ?s4" by (rule pty_step.program_exit) (simp add: spawn_local_def)
  moreover have "pty_step ?s4 PL_Thread ?s5" by (rule pty_step.wait [of _ 0]) (simp_all add: spawn_local_def)
  ultimately have "pty_run spawn_local (((([] @ [PL_App]) @ [PL_Thread]) @ [PL_Thread]) @ [PL_Program] @ [PL_Thread]) ?s5"
    unfolding append_assoc [symmetric] by (blast intro: traced.intros)
  moreover have "pty_step ?s5 (PL_Kill CH_Reaped) (?s5\<lparr>lp_input := IN_Drop\<rparr>)"
    using pty_step.in_kill [of ?s5 0] by (simp add: kill_child_def spawn_local_def)
  ultimately show ?thesis by (blast intro: traced.more)
qed


end
