(* ===== verification/Mai_Path.thy ===== *)
theory Mai_Path
  imports Mai_Prelude
begin

text \<open>
  Paths as \<open>std::path\<close> treats them on Unix: byte strings with \<open>/\<close> between components, trailing slashes
  and \<open>.\<close> components ignored.
\<close>

abbreviation slash :: char where "slash \<equiv> CHR ''/''"

definition is_absolute :: "string \<Rightarrow> bool" where
  "is_absolute p \<longleftrightarrow> starts_with p ''/''"

text \<open>\<open>Path::join\<close>: an absolute second path replaces the first.\<close>

definition path_join :: "string \<Rightarrow> string \<Rightarrow> string" where
  "path_join a b =
     (if is_absolute b then b
      else if a = [] \<or> last a = slash then a @ b
      else a @ slash # b)"

text \<open>Drop what follows the last real component, on the reversed path.\<close>

fun trim_tail :: "string \<Rightarrow> string" where
  "trim_tail r =
     (case r of
        c # d # r' \<Rightarrow>
          if c = slash then trim_tail (d # r')
          else if c = CHR ''.'' \<and> d = slash then trim_tail (d # r')
          else r
      | _ \<Rightarrow> r)"

declare trim_tail.simps [simp del]

definition last_component :: "string \<Rightarrow> string" where
  "last_component p = rev (takeWhile (\<lambda>c. c \<noteq> slash) (trim_tail (rev p)))"

definition path_parent :: "string \<Rightarrow> string option" where
  "path_parent p =
     (let r = trim_tail (rev p)
      in if r = [] \<or> r = [slash] then None
         else Some (rev (trim_tail (dropWhile (\<lambda>c. c \<noteq> slash) r))))"

definition path_file_name :: "string \<Rightarrow> string option" where
  "path_file_name p =
     (let c = last_component p in if c = [] \<or> c = ''.'' \<or> c = ''..'' then None else Some c)"

end
