(* ===== verification/Utf8.thy ===== *)
theory Utf8
  imports Mai_Prelude
begin

text \<open>
  UTF-8 as the standard library reads it: \<open>String::from_utf8_lossy\<close> (every maximal invalid prefix becomes one
  replacement character), \<open>String::from_utf8\<close> and \<open>str::is_char_boundary\<close>, on strings of bytes.
\<close>

section \<open>Decoding\<close>

definition second_ok :: "nat \<Rightarrow> char \<Rightarrow> bool" where
  "second_ok b d \<longleftrightarrow>
     (if b = 0xE0 then 0xA0 \<le> byte d \<and> byte d < 0xC0
      else if b = 0xED then 0x80 \<le> byte d \<and> byte d < 0xA0
      else if b = 0xF0 then 0x90 \<le> byte d \<and> byte d < 0xC0
      else if b = 0xF4 then 0x80 \<le> byte d \<and> byte d < 0x90
      else is_cont d)"

text \<open>How many bytes one character, or one invalid prefix, takes, and which of the two it is.\<close>

fun utf8_head :: "string \<Rightarrow> nat \<times> bool" where
  "utf8_head [] = (0, False)"
| "utf8_head (c # r) =
     (let b = byte c
      in if b < 0x80 then (1, True)
         else if 0xC2 \<le> b \<and> b < 0xE0 then
           (case r of d # _ \<Rightarrow> if is_cont d then (2, True) else (1, False) | [] \<Rightarrow> (1, False))
         else if 0xE0 \<le> b \<and> b < 0xF0 then
           (case r of
              d # e # _ \<Rightarrow> if second_ok b d then if is_cont e then (3, True) else (2, False) else (1, False)
            | [d] \<Rightarrow> if second_ok b d then (2, False) else (1, False)
            | [] \<Rightarrow> (1, False))
         else if 0xF0 \<le> b \<and> b < 0xF5 then
           (case r of
              d # e # f # _ \<Rightarrow>
                if second_ok b d then if is_cont e then if is_cont f then (4, True) else (3, False) else (2, False) else (1, False)
            | [d, e] \<Rightarrow> if second_ok b d then if is_cont e then (3, False) else (2, False) else (1, False)
            | [d] \<Rightarrow> if second_ok b d then (2, False) else (1, False)
            | [] \<Rightarrow> (1, False))
         else (1, False))"

definition REPLACEMENT :: string where
  "REPLACEMENT = [CHR 0xEF, CHR 0xBF, CHR 0xBD]"

lemma utf8_head_pos: "s \<noteq> [] \<Longrightarrow> utf8_head s = (n, ok) \<Longrightarrow> 0 < n"
  by (cases s) (auto simp: Let_def split: list.splits if_splits)

function from_utf8_lossy :: "string \<Rightarrow> string" where
  "from_utf8_lossy s =
     (if s = [] then []
      else case utf8_head s of (n, ok) \<Rightarrow> (if ok then take n s else REPLACEMENT) @ from_utf8_lossy (drop n s))"
  by pat_completeness auto
termination
proof (relation "measure length")
  fix s n ok assume "s \<noteq> []" "(n, ok) = utf8_head s"
  then have "0 < n" using utf8_head_pos by metis
  then show "(drop n s, s) \<in> measure length" using \<open>s \<noteq> []\<close> by simp
qed simp

function valid_utf8 :: "string \<Rightarrow> bool" where
  "valid_utf8 s = (if s = [] then True else case utf8_head s of (n, ok) \<Rightarrow> (if ok then valid_utf8 (drop n s) else False))"
  by pat_completeness auto
termination
proof (relation "measure length")
  fix s n ok assume "s \<noteq> []" "(n, ok) = utf8_head s" ok
  then have "0 < n" using utf8_head_pos by metis
  then show "(drop n s, s) \<in> measure length" using \<open>s \<noteq> []\<close> by simp
qed simp

declare from_utf8_lossy.simps [simp del] valid_utf8.simps [simp del]

definition from_utf8 :: "string \<Rightarrow> string option" where
  "from_utf8 s = (if valid_utf8 s then Some s else None)"

definition is_char_boundary :: "string \<Rightarrow> nat \<Rightarrow> bool" where
  "is_char_boundary s i \<longleftrightarrow> i = 0 \<or> i = length s \<or> (i < length s \<and> \<not> is_cont (s ! i))"

section \<open>Valid text\<close>

lemma lossy_Nil [simp]: "from_utf8_lossy [] = []"
  by (subst from_utf8_lossy.simps) simp

lemma valid_Nil [simp]: "valid_utf8 []"
  by (subst valid_utf8.simps) simp

lemma valid_head: "utf8_head s = (n, ok) \<Longrightarrow> s \<noteq> [] \<Longrightarrow> valid_utf8 s \<longleftrightarrow> ok \<and> valid_utf8 (drop n s)"
  by (subst valid_utf8.simps) simp

lemma lossy_head:
  "utf8_head s = (n, ok) \<Longrightarrow> s \<noteq> [] \<Longrightarrow>
   from_utf8_lossy s = (if ok then take n s else REPLACEMENT) @ from_utf8_lossy (drop n s)"
  by (subst from_utf8_lossy.simps) simp

lemma lossy_valid: "valid_utf8 s \<Longrightarrow> from_utf8_lossy s = s"
proof (induction s rule: valid_utf8.induct)
  case (1 s)
  show ?case
  proof (cases "s = []")
    case False
    obtain n ok where h: "utf8_head s = (n, ok)" by force
    with 1(2) False have "ok" "valid_utf8 (drop n s)" by (simp_all add: valid_head)
    with 1(1) False h have "from_utf8_lossy (drop n s) = drop n s" by simp
    with False h \<open>ok\<close> show ?thesis by (simp add: lossy_head)
  qed simp
qed

text \<open>A character: a whole string that \<open>utf8_head\<close> takes.\<close>

definition utf8_char :: "string \<Rightarrow> bool" where
  "utf8_char x \<longleftrightarrow> utf8_head x = (length x, True)"

lemma utf8_head_take: "utf8_head s = (n, True) \<Longrightarrow> n \<le> length s \<and> utf8_char (take n s)"
  by (cases s) (auto simp: utf8_char_def Let_def split: list.splits if_splits)

lemma utf8_head_append: "utf8_char x \<Longrightarrow> utf8_head (x @ y) = (length x, True)"
  by (cases x) (auto simp: utf8_char_def Let_def split: list.splits if_splits)

lemma utf8_char_nonempty: "utf8_char x \<Longrightarrow> x \<noteq> []"
  by (auto simp: utf8_char_def)

lemma valid_char_append: "utf8_char x \<Longrightarrow> valid_utf8 (x @ y) = valid_utf8 y"
  using utf8_head_append [of x y] utf8_char_nonempty [of x] by (simp add: valid_head)

lemma REPLACEMENT_char: "utf8_char REPLACEMENT"
  by code_simp

lemma valid_lossy: "valid_utf8 (from_utf8_lossy s)"
proof (induction s rule: from_utf8_lossy.induct)
  case (1 s)
  show ?case
  proof (cases "s = []")
    case False
    obtain n ok where h: "utf8_head s = (n, ok)" by force
    with 1 False have v: "valid_utf8 (from_utf8_lossy (drop n s))" by simp
    have "utf8_char (if ok then take n s else REPLACEMENT)" using h utf8_head_take REPLACEMENT_char by simp
    with v valid_char_append show ?thesis using False h by (simp add: lossy_head)
  qed simp
qed

lemma valid_induct [consumes 1, case_names Nil Char]:
  assumes "valid_utf8 s" "P []" "\<And>x y. utf8_char x \<Longrightarrow> valid_utf8 y \<Longrightarrow> P y \<Longrightarrow> P (x @ y)"
  shows "P s"
  using assms(1)
proof (induction s rule: valid_utf8.induct)
  case (1 s)
  show ?case
  proof (cases "s = []")
    case False
    obtain n ok where h: "utf8_head s = (n, ok)" by force
    with 1(2) False have "ok" and v: "valid_utf8 (drop n s)" by (simp_all add: valid_head)
    with 1(1) False h have "P (drop n s)" by simp
    with assms(3) [of "take n s" "drop n s"] utf8_head_take [of s n] h \<open>ok\<close> v show ?thesis by simp
  qed (simp add: assms(2))
qed

lemma valid_append: "valid_utf8 x \<Longrightarrow> valid_utf8 y \<Longrightarrow> valid_utf8 (x @ y)"
  by (induction x rule: valid_induct) (simp_all add: valid_char_append)

lemma valid_ascii: "\<forall>c \<in> set s. byte c < 128 \<Longrightarrow> valid_utf8 s"
proof (induction s)
  case (Cons c cs)
  then have "utf8_char [c]" by (simp add: utf8_char_def)
  with Cons valid_char_append [of "[c]" cs] show ?case by simp
qed simp

lemma valid_newline [simp]: "valid_utf8 [newline]"
  by (rule valid_ascii) (simp add: byte_def)

section \<open>Boundaries\<close>

lemma second_ok_cont: "second_ok b d \<Longrightarrow> is_cont d"
  by (auto simp: second_ok_def is_cont_def split: if_splits)

lemma utf8_head_first: "utf8_head (c # r) = (n, True) \<Longrightarrow> \<not> is_cont c"
  by (auto simp: is_cont_def Let_def split: if_splits)

lemma utf8_head_rest: "utf8_head (c # r) = (Suc n, True) \<Longrightarrow> n \<le> 3 \<and> list_all is_cont (take n r)"
  by (auto simp: Let_def second_ok_cont take_Cons' split: list.splits if_splits)

lemma utf8_char_shape:
  assumes "utf8_char x"
  shows "length x \<le> 4" "\<not> is_cont (x ! 0)" "0 < i \<Longrightarrow> i < length x \<Longrightarrow> is_cont (x ! i)"
proof -
  obtain c r where x: "x = c # r" using utf8_char_nonempty [OF assms] by (cases x) auto
  with assms have h: "utf8_head (c # r) = (Suc (length r), True)" by (simp add: utf8_char_def del: utf8_head.simps)
  show "length x \<le> 4" "\<not> is_cont (x ! 0)" using utf8_head_first [OF h] utf8_head_rest [OF h] x by simp_all
  show "is_cont (x ! i)" if "0 < i" "i < length x"
    using utf8_head_rest [OF h] that x by (simp add: list_all_length nth_Cons')
qed

lemma valid_first: "valid_utf8 (c # cs) \<Longrightarrow> \<not> is_cont c"
proof (cases "utf8_head (c # cs)")
  case (Pair n ok)
  then show "valid_utf8 (c # cs) \<Longrightarrow> \<not> is_cont c"
    using utf8_head_first [of c cs n] valid_head [of "c # cs" n ok] by (simp del: utf8_head.simps)
qed

lemma boundary_valid: "valid_utf8 s \<Longrightarrow> is_char_boundary s i \<Longrightarrow> valid_utf8 (drop i s)"
proof (induction s arbitrary: i rule: valid_induct)
  case (Char x y)
  show ?case
  proof (cases "i < length x")
    case True
    then have "i = 0" using Char(4) utf8_char_shape(3) [OF Char(1)] by (auto simp: is_char_boundary_def nth_append)
    then show ?thesis using Char(1,2) by (simp add: valid_char_append)
  next
    case False
    then have "is_char_boundary y (i - length x)" using Char(4) utf8_char_nonempty [OF Char(1)]
      by (auto simp: is_char_boundary_def nth_append)
    with Char(3) False show ?thesis by simp
  qed
qed simp

lemma boundary_near: "valid_utf8 s \<Longrightarrow> i \<le> length s \<Longrightarrow> \<exists>j. i \<le> j \<and> j \<le> i + 3 \<and> is_char_boundary s j"
proof (induction s arbitrary: i rule: valid_induct)
  case (Char x y)
  show ?case
  proof (cases "i < length x")
    case True
    show ?thesis
    proof (cases "i = 0")
      case True
      then show ?thesis by (auto simp: is_char_boundary_def)
    next
      case False
      have "is_char_boundary (x @ y) (length x)"
      proof (cases y)
        case (Cons c cs)
        with Char(2) valid_first have "\<not> is_cont c" by simp
        with Cons show ?thesis by (simp add: is_char_boundary_def nth_append)
      qed (simp add: is_char_boundary_def)
      with True False utf8_char_shape(1) [OF Char(1)] show ?thesis by (intro exI [of _ "length x"]) simp
    qed
  next
    case False
    with Char(4) have "i - length x \<le> length y" by simp
    with Char(3) obtain j where "i - length x \<le> j" "j \<le> i - length x + 3" "is_char_boundary y j" by blast
    moreover from this have "is_char_boundary (x @ y) (length x + j)"
      using Char(2) valid_first by (cases y) (auto simp: is_char_boundary_def nth_append)
    ultimately show ?thesis using False by (intro exI [of _ "length x + j"]) auto
  qed
qed (simp add: is_char_boundary_def)

end
