(* ===== verification/Instance.thy ===== *)
theory Instance
  imports Mai_Path Mai_Types Utf8
begin

text \<open>
  Where the probe keeps its data, and one \<open>serve\<close> per app installation (\<open>crates/mai-probe/src/instance.rs\<close>).

  The machine is the pid files, with the faults of the calls on them, and the process table (the \<open>sysinfo\<close>
  crate): the name of a process when it is looked up, and its name a number of milliseconds after it was
  killed (\<open>None\<close> once it is gone). \<open>is_killed\<close> lists the processes a signal was sent to.
\<close>

section \<open>Files and processes\<close>

record inst_env =
  ie_self :: u32
  ie_name :: "u32 \<Rightarrow> string option"
  ie_after :: "u32 \<Rightarrow> nat \<Rightarrow> string option"
  ie_read :: "path \<Rightarrow> bool"
  ie_mkdir :: "string option"
  ie_write :: "(nat \<times> string) option"
  ie_rename :: "string option"
  ie_remove :: bool

record inst =
  is_files :: "path \<Rightarrow> string option"
  is_killed :: "u32 list"

definition data_dir :: "path option \<Rightarrow> string option \<Rightarrow> path \<Rightarrow> path" where
  "data_dir exe mai_home home =
     (let deployed =
            Option.bind (Option.bind exe path_parent) (\<lambda>bin.
              Option.bind (path_parent bin) (\<lambda>dir.
                let is_bin = (path_file_name bin = Some ''bin'');
                    is_mai = (case path_file_name dir of None \<Rightarrow> False | Some n \<Rightarrow> starts_with (from_utf8_lossy n) ''.mai'')
                in if is_bin \<and> is_mai then Some dir else None))
      in case deployed of
           Some dir \<Rightarrow> dir
         | None \<Rightarrow> (case mai_home of Some d \<Rightarrow> d | None \<Rightarrow> path_join home ''.mai''))"

definition pid_file :: "path \<Rightarrow> string \<Rightarrow> path" where
  "pid_file data client =
     (let client = sanitize_client client
      in if client = [] then path_join data ''serve.pid'' else path_join data (''serve-'' @ client @ ''.pid''))"

definition read_pid :: "inst_env \<Rightarrow> inst \<Rightarrow> path \<Rightarrow> u32 option" where
  "read_pid env st file =
     (if ie_read env file then None
      else case is_files st file of
             None \<Rightarrow> None
           | Some bytes \<Rightarrow> (case from_utf8 bytes of None \<Rightarrow> None | Some t \<Rightarrow> parse_u32 (trim t)))"

definition is_probe :: "string option \<Rightarrow> bool" where
  "is_probe p = (case p of None \<Rightarrow> False | Some name \<Rightarrow> starts_with (from_utf8_lossy name) ''mai-probe'')"

text \<open>The loop after the kill: the time it ends at.\<close>

function wait_gone :: "(nat \<Rightarrow> bool) \<Rightarrow> nat \<Rightarrow> nat \<Rightarrow> nat" where
  "wait_gone alive wait now = (if alive now \<and> now < wait then wait_gone alive wait (now + 50) else now)"
  by pat_completeness auto
termination
  by (relation "measure (\<lambda>(_, wait, now). wait - now)") auto

declare wait_gone.simps [simp del]

definition stop_recorded :: "inst_env \<Rightarrow> inst \<Rightarrow> path \<Rightarrow> nat \<Rightarrow> inst \<times> u32 option \<times> nat" where
  "stop_recorded env st file wait =
     (case read_pid env st file of
        None \<Rightarrow> (st, None, 0)
      | Some pid \<Rightarrow>
          if pid = ie_self env then (st, None, 0)
          else if \<not> is_probe (ie_name env pid) then (st, None, 0)
          else (st\<lparr>is_killed := is_killed st @ [pid]\<rparr>, Some pid, wait_gone (\<lambda>t. is_probe (ie_after env pid t)) wait 0))"

definition pid_tmp :: "inst_env \<Rightarrow> path \<Rightarrow> path" where
  "pid_tmp env file = file @ ''.'' @ show_u32 (ie_self env) @ ''.tmp''"

definition record_self :: "inst_env \<Rightarrow> inst \<Rightarrow> path \<Rightarrow> inst \<times> (string + unit)" where
  "record_self env st file =
     (case if path_parent file = None then None else ie_mkdir env of
        Some e \<Rightarrow> (st, Err e)
      | None \<Rightarrow>
          (let tmp = pid_tmp env file; pid = show_u32 (ie_self env)
           in case ie_write env of
                Some (n, e) \<Rightarrow> (st\<lparr>is_files := (is_files st)(tmp \<mapsto> take n pid)\<rparr>, Err e)
              | None \<Rightarrow>
                  (case ie_rename env of
                     Some e \<Rightarrow> (st\<lparr>is_files := (is_files st)(tmp \<mapsto> pid)\<rparr>, Err e)
                   | None \<Rightarrow> (st\<lparr>is_files := (is_files st)(tmp := None, file \<mapsto> pid)\<rparr>, Ok ()))))"

definition forget_self :: "inst_env \<Rightarrow> inst \<Rightarrow> path \<Rightarrow> inst" where
  "forget_self env st file =
     (if read_pid env st file = Some (ie_self env) \<and> \<not> ie_remove env then st\<lparr>is_files := (is_files st)(file := None)\<rparr> else st)"

section \<open>Only another probe is stopped\<close>

lemma wait_gone_bound: "now < wait + 50 \<Longrightarrow> wait_gone alive wait now < wait + 50"
  by (induction alive wait now rule: wait_gone.induct) (subst wait_gone.simps, auto)

lemma wait_gone_done: "\<not> alive (wait_gone alive wait now) \<or> wait \<le> wait_gone alive wait now"
  by (induction alive wait now rule: wait_gone.induct) (subst (1 2) wait_gone.simps, auto)

definition stoppable :: "inst_env \<Rightarrow> inst \<Rightarrow> path \<Rightarrow> u32 option" where
  "stoppable env st file =
     (case read_pid env st file of
        Some pid \<Rightarrow> if pid \<noteq> ie_self env \<and> is_probe (ie_name env pid) then Some pid else None
      | None \<Rightarrow> None)"

lemma stop_recorded_spec:
  assumes "stop_recorded env st file wait = (st', r, t)"
  shows "r = stoppable env st file" "is_files st' = is_files st"
    "is_killed st' = is_killed st @ (case stoppable env st file of None \<Rightarrow> [] | Some pid \<Rightarrow> [pid])"
  using assms by (auto simp: stop_recorded_def stoppable_def split: option.splits if_splits)

text \<open>A new \<open>serve\<close> (or \<open>mai-probe stop\<close>) ends at most the one process its client's pid file names, never itself and
  never a process of another program that got the pid; it changes no file, and it returns at the latest 50
  milliseconds after the time it may wait, at once when the process is gone.\<close>

theorem stop_recorded_safe:
  assumes "stop_recorded env st file wait = (st', r, t)"
  shows "r = stoppable env st file \<and> is_files st' = is_files st
    \<and> is_killed st' = is_killed st @ (case r of None \<Rightarrow> [] | Some pid \<Rightarrow> [pid])
    \<and> t < wait + 50 \<and> (\<forall>pid. r = Some pid \<and> is_probe (ie_after env pid t) \<longrightarrow> wait \<le> t)"
proof -
  have "wait_gone alive wait 0 < wait + 50" "\<not> alive (wait_gone alive wait 0) \<or> wait \<le> wait_gone alive wait 0" for alive
    using wait_gone_bound [of 0 wait alive] wait_gone_done [of alive wait 0] by simp_all
  with assms have "t < wait + 50 \<and> (\<forall>pid. r = Some pid \<and> is_probe (ie_after env pid t) \<longrightarrow> wait \<le> t)"
    by (auto simp: stop_recorded_def split: option.splits if_splits)
  with stop_recorded_spec [OF assms] show ?thesis by simp
qed

section \<open>The pid file\<close>

lemma valid_show_nat: "valid_utf8 (show_nat n)"
proof (intro valid_ascii ballI)
  fix c assume "c \<in> set (show_nat n)"
  then have "is_ascii_digit c" by (rule show_nat_digits)
  then show "byte c < 128" by (simp add: is_ascii_digit_def)
qed

lemma read_own: "is_files st file = Some (show_u32 pid) \<Longrightarrow> \<not> ie_read env file \<Longrightarrow> read_pid env st file = Some pid"
  using valid_show_nat [of "unat pid"] by (simp add: read_pid_def from_utf8_def flip: show_u32_def)

lemma tmp_other: "pid_tmp env file \<noteq> file"
  by (simp add: pid_tmp_def)

lemma record_self_reads:
  assumes "record_self env st file = (st', Ok ())" "\<not> ie_read env file"
  shows "read_pid env st' file = Some (ie_self env)"
proof -
  have "is_files st' file = Some (show_u32 (ie_self env))"
    using assms(1) by (auto simp: record_self_def Let_def split: option.splits if_splits)
  then show ?thesis using assms(2) by (rule read_own)
qed

lemma record_self_killed: "record_self env st file = (st', r) \<Longrightarrow> is_killed st' = is_killed st"
  by (auto simp: record_self_def Let_def split: option.splits if_splits)

text \<open>The pid file always names a whole process id: recording replaces it in one step, so a failed recording leaves
  the previous one, and a successful one reads back as this process; forgetting removes it exactly while it
  still names this process, so a newer \<open>serve\<close> keeps its own.\<close>

theorem pid_file_lifecycle:
  assumes "record_self env st file = (st', res)" "\<not> ie_read env file" "\<not> ie_remove env"
  shows "(res = Ok () \<longrightarrow> read_pid env st' file = Some (ie_self env))
    \<and> (res \<noteq> Ok () \<longrightarrow> is_files st' file = is_files st file)
    \<and> (\<forall>p. p \<noteq> file \<and> p \<noteq> pid_tmp env file \<longrightarrow> is_files st' p = is_files st p)
    \<and> forget_self env st2 file = (if read_pid env st2 file = Some (ie_self env)
         then st2\<lparr>is_files := (is_files st2)(file := None)\<rparr> else st2)"
proof -
  have "res = Ok () \<longrightarrow> read_pid env st' file = Some (ie_self env)" using record_self_reads assms(1,2) by blast
  moreover have "res \<noteq> Ok () \<longrightarrow> is_files st' file = is_files st file"
    "\<forall>p. p \<noteq> file \<and> p \<noteq> pid_tmp env file \<longrightarrow> is_files st' p = is_files st p"
    using assms(1) tmp_other [of env "file"] by (auto simp: record_self_def Let_def split: option.splits if_splits)
  ultimately show ?thesis using assms(3) by (simp add: forget_self_def)
qed

text \<open>Different clients of one data directory have different pid files.\<close>

lemma sanitize_no_slash: "slash \<notin> set (sanitize_client c)"
  by (simp add: sanitize_client_def is_ascii_alphanumeric_def is_ascii_digit_def byte_def)

lemma pid_file_inj: "pid_file d c = pid_file d c' \<longleftrightarrow> sanitize_client c = sanitize_client c'"
proof -
  have "pid_file d c = (if d = [] \<or> last d = slash then d else d @ [slash]) @
      (if sanitize_client c = [] then ''serve.pid'' else ''serve-'' @ sanitize_client c @ ''.pid'')" for c
    by (simp add: pid_file_def path_join_def is_absolute_def Let_def)
  then show ?thesis by auto
qed

section \<open>Witnesses\<close>

definition ex_inst_env :: inst_env where
  "ex_inst_env = \<lparr>ie_self = 7, ie_name = [5 \<mapsto> ''mai-probe'', 6 \<mapsto> ''vim''], ie_after = (\<lambda>_ t. if t < 80 then Some ''mai-probe'' else None),
     ie_read = (\<lambda>_. False), ie_mkdir = None, ie_write = None, ie_rename = None, ie_remove = False\<rparr>"

definition ex_inst :: inst where
  "ex_inst = \<lparr>is_files = [''/d/serve.pid'' \<mapsto> ''5'' @ [newline], ''/d/serve-a.pid'' \<mapsto> ''6''], is_killed = []\<rparr>"

lemma ex_pid_files:
  "pid_file ''/d'' [] = ''/d/serve.pid''" "pid_file ''/d'' ''a'' = ''/d/serve-a.pid''"
  "from_utf8 (''5'' @ [newline]) = Some (''5'' @ [newline])" "from_utf8 ''6'' = Some ''6''"
  "trim (''5'' @ [newline]) = ''5''" "trim ''6'' = ''6''" "is_probe (Some ''mai-probe'')" "\<not> is_probe (Some ''vim'')" "\<not> is_probe None"
  by code_simp+

lemma ex_read_pid:
  "read_pid ex_inst_env ex_inst (pid_file ''/d'' []) = Some 5" "read_pid ex_inst_env ex_inst (pid_file ''/d'' ''a'') = Some 6"
proof -
  have "parse_u32 ''5'' = Some 5" "parse_u32 ''6'' = Some 6" by (simp_all add: parse_u32_def parse_nat_def str_eval)
  then show "read_pid ex_inst_env ex_inst (pid_file ''/d'' []) = Some 5" "read_pid ex_inst_env ex_inst (pid_file ''/d'' ''a'') = Some 6"
    unfolding read_pid_def using ex_pid_files by (simp_all add: ex_inst_env_def ex_inst_def)
qed

theorem stop_recorded_safe_witness:
  "\<exists>st. stop_recorded ex_inst_env ex_inst (pid_file ''/d'' []) 3000 = (st, Some 5, 100) \<and> is_killed st = [5]
   \<and> stop_recorded ex_inst_env ex_inst (pid_file ''/d'' ''a'') 3000 = (ex_inst, None, 0)"
proof -
  have w: "wait_gone (\<lambda>t. is_probe (ie_after ex_inst_env 5 t)) 3000 0 = 100"
    using ex_pid_files(7,9) by (simp add: wait_gone.simps ex_inst_env_def)
  have s: "stop_recorded ex_inst_env ex_inst (pid_file ''/d'' []) 3000 = (ex_inst\<lparr>is_killed := is_killed ex_inst @ [5]\<rparr>, Some 5, 100)"
    unfolding stop_recorded_def ex_read_pid using ex_pid_files(7) w by (simp add: ex_inst_env_def)
  have n: "stop_recorded ex_inst_env ex_inst (pid_file ''/d'' ''a'') 3000 = (ex_inst, None, 0)"
    unfolding stop_recorded_def ex_read_pid using ex_pid_files(8) by (simp add: ex_inst_env_def)
  from stop_recorded_safe [OF s] s n show ?thesis by (simp add: ex_inst_def)
qed

theorem pid_file_lifecycle_witness:
  "\<exists>st. record_self ex_inst_env ex_inst ''/d/serve.pid'' = (st, Ok ()) \<and> read_pid ex_inst_env st ''/d/serve.pid'' = Some 7"
proof -
  let ?st = "fst (record_self ex_inst_env ex_inst ''/d/serve.pid'')"
  have "record_self ex_inst_env ex_inst ''/d/serve.pid'' = (?st, Ok ())"
    by (simp add: record_self_def ex_inst_env_def Let_def)
  moreover from pid_file_lifecycle [OF this] have "read_pid ex_inst_env ?st ''/d/serve.pid'' = Some 7"
    by (simp add: ex_inst_env_def)
  ultimately show ?thesis by blast
qed

end
