(* ===== verification/Install.thy ===== *)
theory Install
  imports Mai_Json Mai_Path
begin

text \<open>
  Installing and removing the hook entries in the agents' configuration files
  (\<open>crates/mai-probe/src/install.rs\<close>).

  The documents are JSON values with ordered objects. The file system is a list of named nodes, files
  with a mode and symbolic links; directories are not nodes. Each call may fail through the fault
  argument, a failing write leaving a part of its bytes. \<open>serde_json\<close>'s parser and pretty printer are
  arguments.
\<close>

section \<open>Editing a document\<close>

definition MARKER :: string where "MARKER = ''.mai/bin/mai-probe''"

definition CLAUDE_EVENTS :: "(string \<times> bool) list" where
  "CLAUDE_EVENTS =
     [(''SessionStart'', False), (''UserPromptSubmit'', False), (''PreToolUse'', True), (''PostToolUse'', True),
      (''Notification'', False), (''Stop'', False), (''SessionEnd'', False)]"

definition CODEX_EVENTS :: "(string \<times> bool) list" where
  "CODEX_EVENTS =
     [(''SessionStart'', False), (''UserPromptSubmit'', False), (''PreToolUse'', True), (''PostToolUse'', True),
      (''PermissionRequest'', True), (''Stop'', False), (''Interrupt'', False), (''SessionEnd'', False)]"

datatype install_error =
    IE_Io string string
  | IE_Parse string string
  | IE_Shape string string

fun show_install_error :: "install_error \<Rightarrow> string" where
  "show_install_error (IE_Io p e) = p @ '': '' @ e"
| "show_install_error (IE_Parse p e) = p @ '': invalid JSON: '' @ e"
| "show_install_error (IE_Shape p what) = p @ '': '' @ what"

datatype outcome = OC_Installed | OC_Removed | OC_Unchanged

fun outcome_str :: "outcome \<Rightarrow> string" where
  "outcome_str OC_Installed = ''installed''"
| "outcome_str OC_Removed = ''removed''"
| "outcome_str OC_Unchanged = ''unchanged''"

definition hook_command :: "string \<Rightarrow> string \<Rightarrow> string" where
  "hook_command probe_exe agent =
     CHR 0x22 # replace_char CHR 0x5C ''/'' probe_exe @ CHR 0x22 # '' hook '' @ agent"

definition check_probe_exe :: "string \<Rightarrow> string + unit" where
  "check_probe_exe exe =
     (if \<not> is_absolute exe then Err ''probe path is not absolute''
      else if \<not> contains (hook_command exe ''x'') MARKER
      then Err ''probe is not under .mai/bin; hooks would not be recognised''
      else Ok ())"

definition is_ours :: "json \<Rightarrow> bool" where
  "is_ours hook =
     (case Option.bind (get_field hook ''command'') as_str of None \<Rightarrow> False | Some c \<Rightarrow> contains c MARKER)"

fun strip_group :: "json \<Rightarrow> json option" where
  "strip_group (JObj fs) =
     (case map_of fs ''hooks'' of
        Some (JArr hs) \<Rightarrow>
          let hs' = filter (\<lambda>h. \<not> is_ours h) hs
          in if length hs' = length hs \<or> hs' \<noteq> [] then Some (JObj (AList.update ''hooks'' (JArr hs') fs)) else None
      | _ \<Rightarrow> Some (JObj fs))"
| "strip_group g = Some g"

definition strip_ours :: "json list \<Rightarrow> json list" where
  "strip_ours = List.map_filter strip_group"

definition hook_entry :: "bool \<Rightarrow> string \<Rightarrow> json" where
  "hook_entry with_matcher command =
     JObj ((''hooks'', JArr [JObj [(''type'', JStr ''command''), (''command'', JStr command)]])
       # (if with_matcher then [(''matcher'', JStr ''*'')] else []))"

text \<open>\<open>entry(key).or_insert_with\<close> and then \<open>as_array_mut\<close> or \<open>as_object_mut\<close>.\<close>

definition list_entry :: "(string \<times> json) list \<Rightarrow> string \<Rightarrow> json list option" where
  "list_entry fs k = (case map_of fs k of None \<Rightarrow> Some [] | Some v \<Rightarrow> as_array v)"

definition table_entry :: "(string \<times> json) list \<Rightarrow> string \<Rightarrow> (string \<times> json) list option" where
  "table_entry fs k = (case map_of fs k of None \<Rightarrow> Some [] | Some v \<Rightarrow> as_object v)"

fun merge_events :: "(string \<times> json) list \<Rightarrow> (string \<times> bool) list \<Rightarrow> string \<Rightarrow> string + (string \<times> json) list" where
  "merge_events hooks [] command = Ok hooks"
| "merge_events hooks ((event, with_matcher) # es) command =
     (case list_entry hooks event of
        None \<Rightarrow> Err ''a hook event is not a JSON array''
      | Some l \<Rightarrow>
          merge_events (AList.update event (JArr (strip_ours l @ [hook_entry with_matcher command])) hooks) es command)"

definition merge_hooks :: "json \<Rightarrow> (string \<times> bool) list \<Rightarrow> string \<Rightarrow> string + json" where
  "merge_hooks doc events command =
     (case doc of
        JObj root \<Rightarrow>
          (case table_entry root ''hooks'' of
             None \<Rightarrow> Err (CHR 0x22 # ''hooks'' @ CHR 0x22 # '' is not a JSON object'')
           | Some hooks \<Rightarrow>
               (case merge_events hooks events command of
                  Err e \<Rightarrow> Err e
                | Ok hooks' \<Rightarrow> Ok (JObj (AList.update ''hooks'' (JObj hooks') root))))
      | _ \<Rightarrow> Err ''top level is not a JSON object'')"

definition strip_value :: "json \<Rightarrow> json" where
  "strip_value v = (case v of JArr l \<Rightarrow> JArr (strip_ours l) | _ \<Rightarrow> v)"

definition remove_hooks :: "json \<Rightarrow> string + json" where
  "remove_hooks doc =
     (case doc of
        JObj root \<Rightarrow>
          (case map_of root ''hooks'' of
             None \<Rightarrow> Ok doc
           | Some (JObj hooks) \<Rightarrow>
               Ok (JObj (AList.update ''hooks''
                 (JObj (retain (\<lambda>_ v. v \<noteq> JArr []) (map (\<lambda>(k, v). (k, strip_value v)) hooks))) root))
           | Some _ \<Rightarrow> Err (CHR 0x22 # ''hooks'' @ CHR 0x22 # '' is not a JSON object''))
      | _ \<Rightarrow> Err ''top level is not a JSON object'')"

section \<open>Files\<close>

datatype node = N_File string nat | N_Link string

type_synonym node_store = "(string, node) dict"

datatype node_op = NO_Read string | NO_Lstat string | NO_Stat string | NO_ReadLink string | NO_Copy string | NO_Mkdir string
  | NO_Write string | NO_Chmod string | NO_Rename string

record install_io =
  ii_fail :: "node_op \<Rightarrow> (nat \<times> string) option"
  ii_new_mode :: nat
  ii_pid :: u32
  ii_loop_error :: string

record json_lib =
  jl_parse :: "string \<Rightarrow> string + json"
  jl_pretty :: "json \<Rightarrow> string"

text \<open>Where a link leads, as the kernel and \<open>write_target\<close> take it: relative to the link's directory.\<close>

definition link_step :: "string \<Rightarrow> string \<Rightarrow> string" where
  "link_step p link =
     (case path_parent p of
        Some dir \<Rightarrow> if \<not> is_absolute link then path_join dir link else link
      | None \<Rightarrow> link)"

text \<open>The kernel follows at most 40 links.\<close>

fun follow :: "nat \<Rightarrow> node_store \<Rightarrow> string \<Rightarrow> string option" where
  "follow n fs p =
     (case map_of fs p of
        Some (N_Link link) \<Rightarrow> (case n of 0 \<Rightarrow> None | Suc m \<Rightarrow> follow m fs (link_step p link))
      | _ \<Rightarrow> Some p)"

declare follow.simps [simp del]

definition KERNEL_LINKS :: nat where "KERNEL_LINKS = 40"
definition MAX_LINKS :: nat where "MAX_LINKS = 16"

text \<open>A file as a following call sees it: its path, contents and mode; \<open>None\<close> when there is none.\<close>

definition open_file :: "install_io \<Rightarrow> node_store \<Rightarrow> string \<Rightarrow> string + (string \<times> (string \<times> nat) option)" where
  "open_file io fs p =
     (case follow KERNEL_LINKS fs p of
        None \<Rightarrow> Err (ii_loop_error io)
      | Some q \<Rightarrow> (case map_of fs q of Some (N_File c m) \<Rightarrow> Ok (q, Some (c, m)) | _ \<Rightarrow> Ok (q, None)))"

definition read_doc :: "install_io \<Rightarrow> json_lib \<Rightarrow> node_store \<Rightarrow> string \<Rightarrow> install_error + json" where
  "read_doc io lib fs path =
     (case open_file io fs path of
        Err e \<Rightarrow> Err (IE_Io path e)
      | Ok (q, None) \<Rightarrow> Ok (JObj [])
      | Ok (q, Some (c, m)) \<Rightarrow>
          (case ii_fail io (NO_Read path) of
             Some (_, e) \<Rightarrow> Err (IE_Io path e)
           | None \<Rightarrow>
               if trim c = [] then Ok (JObj [])
               else (case jl_parse lib c of Err e \<Rightarrow> Err (IE_Parse path e) | Ok d \<Rightarrow> Ok d)))"

fun write_target_loop :: "install_io \<Rightarrow> node_store \<Rightarrow> nat \<Rightarrow> string \<Rightarrow> string + string" where
  "write_target_loop io fs 0 target = Err ''too many levels of symbolic links''"
| "write_target_loop io fs (Suc n) target =
     (case ii_fail io (NO_Lstat target) of
        Some _ \<Rightarrow> Ok target
      | None \<Rightarrow>
          (case map_of fs target of
             Some (N_Link link) \<Rightarrow>
               (case ii_fail io (NO_ReadLink target) of
                  Some (_, e) \<Rightarrow> Err e
                | None \<Rightarrow> write_target_loop io fs n (link_step target link))
           | _ \<Rightarrow> Ok target))"

definition write_target :: "install_io \<Rightarrow> node_store \<Rightarrow> string \<Rightarrow> string + string" where
  "write_target io fs path = write_target_loop io fs MAX_LINKS path"

text \<open>\<open>fs::write\<close>: a file keeps its mode, a new one gets the default.\<close>

definition write_file :: "install_io \<Rightarrow> string \<Rightarrow> string \<Rightarrow> node_store \<Rightarrow> node_store \<times> (string + unit)" where
  "write_file io p c fs =
     (case open_file io fs p of
        Err e \<Rightarrow> (fs, Err e)
      | Ok (q, old) \<Rightarrow>
          let m = (case old of None \<Rightarrow> ii_new_mode io | Some (_, m) \<Rightarrow> m)
          in (case ii_fail io (NO_Write p) of
                Some (n, e) \<Rightarrow> (AList.update q (N_File (take n c) m) fs, Err e)
              | None \<Rightarrow> (AList.update q (N_File c m) fs, Ok ())))"

definition copy_file :: "install_io \<Rightarrow> string \<Rightarrow> nat \<Rightarrow> string \<Rightarrow> node_store \<Rightarrow> node_store \<times> (string + unit)" where
  "copy_file io c m p fs =
     (case open_file io fs p of
        Err e \<Rightarrow> (fs, Err e)
      | Ok (q, _) \<Rightarrow>
          (case ii_fail io (NO_Copy p) of
             Some (n, e) \<Rightarrow> (AList.update q (N_File (take n c) m) fs, Err e)
           | None \<Rightarrow> (AList.update q (N_File c m) fs, Ok ())))"

definition set_mode :: "install_io \<Rightarrow> string \<Rightarrow> nat \<Rightarrow> node_store \<Rightarrow> node_store \<times> (string + unit)" where
  "set_mode io p m fs =
     (case ii_fail io (NO_Chmod p) of
        Some (_, e) \<Rightarrow> (fs, Err e)
      | None \<Rightarrow>
          (case open_file io fs p of
             Ok (q, Some (c, _)) \<Rightarrow> (AList.update q (N_File c m) fs, Ok ())
           | Ok (q, None) \<Rightarrow> (fs, Err ''not found'')
           | Err e \<Rightarrow> (fs, Err e)))"

definition rename_node :: "install_io \<Rightarrow> string \<Rightarrow> string \<Rightarrow> node_store \<Rightarrow> node_store \<times> (string + unit)" where
  "rename_node io p q fs =
     (case ii_fail io (NO_Rename p) of
        Some (_, e) \<Rightarrow> (fs, Err e)
      | None \<Rightarrow>
          (case map_of fs p of
             None \<Rightarrow> (fs, Err ''not found'')
           | Some node \<Rightarrow> (AList.update q node (AList.delete p fs), Ok ())))"

definition bak_name :: "string \<Rightarrow> u64 \<Rightarrow> string" where
  "bak_name target now_ms = target @ ''.mai-bak-'' @ show_u64 now_ms"

definition tmp_name :: "install_io \<Rightarrow> string \<Rightarrow> string" where
  "tmp_name io target = target @ ''.mai-tmp-'' @ show_u32 (ii_pid io)"

text \<open>The backup, or the directory for a new file; the mode to keep.\<close>

definition prepare_write ::
    "install_io \<Rightarrow> string \<Rightarrow> u64 \<Rightarrow> node_store \<Rightarrow> node_store \<times> (string + nat option)" where
  "prepare_write io target now_ms fs =
     (case ii_fail io (NO_Stat target) of
        Some (_, e) \<Rightarrow> (fs, Err e)
      | None \<Rightarrow>
          (case open_file io fs target of
             Err e \<Rightarrow> (fs, Err e)
           | Ok (q, Some (c, m)) \<Rightarrow>
               (case copy_file io c m (bak_name target now_ms) fs of
                  (fs1, Err e) \<Rightarrow> (fs1, Err e)
                | (fs1, Ok _) \<Rightarrow> (fs1, Ok (Some m)))
           | Ok (q, None) \<Rightarrow>
               (case path_parent target of
                  None \<Rightarrow> (fs, Ok None)
                | Some dir \<Rightarrow> (case ii_fail io (NO_Mkdir dir) of Some (_, e) \<Rightarrow> (fs, Err e) | None \<Rightarrow> (fs, Ok None)))))"

definition replace_file :: "install_io \<Rightarrow> string \<Rightarrow> nat option \<Rightarrow> string \<Rightarrow> node_store \<Rightarrow> node_store \<times> (string + unit)" where
  "replace_file io target perms c fs =
     (let tmp = tmp_name io target
      in case write_file io tmp c fs of
           (fs1, Err e) \<Rightarrow> (fs1, Err e)
         | (fs1, Ok _) \<Rightarrow>
             (case (case perms of None \<Rightarrow> (fs1, Ok ()) | Some m \<Rightarrow> set_mode io tmp m fs1) of
                (fs2, Err e) \<Rightarrow> (fs2, Err e)
              | (fs2, Ok _) \<Rightarrow> rename_node io tmp target fs2))"

definition write_doc :: "install_io \<Rightarrow> json_lib \<Rightarrow> string \<Rightarrow> json \<Rightarrow> u64 \<Rightarrow> node_store \<Rightarrow> node_store \<times> (install_error + unit)" where
  "write_doc io lib path doc now_ms fs =
     (let io_err = (\<lambda>r. case r of Err e \<Rightarrow> Err (IE_Io path e) | Ok x \<Rightarrow> Ok x)
      in case write_target io fs path of
           Err e \<Rightarrow> (fs, Err (IE_Io path e))
         | Ok target \<Rightarrow>
             (case prepare_write io target now_ms fs of
                (fs1, Err e) \<Rightarrow> (fs1, Err (IE_Io path e))
              | (fs1, Ok perms) \<Rightarrow>
                  (case replace_file io target perms (jl_pretty lib doc @ [newline]) fs1 of
                     (fs2, r) \<Rightarrow> (fs2, io_err r))))"

definition apply_edit ::
    "install_io \<Rightarrow> json_lib \<Rightarrow> string \<Rightarrow> u64 \<Rightarrow> outcome \<Rightarrow> (json \<Rightarrow> string + json) \<Rightarrow> node_store
     \<Rightarrow> node_store \<times> (install_error + outcome)" where
  "apply_edit io lib path now_ms changed edit fs =
     (case read_doc io lib fs path of
        Err e \<Rightarrow> (fs, Err e)
      | Ok before \<Rightarrow>
          (case edit before of
             Err what \<Rightarrow> (fs, Err (IE_Shape path what))
           | Ok after \<Rightarrow>
               if after = before then (fs, Ok OC_Unchanged)
               else (case write_doc io lib path after now_ms fs of
                       (fs1, Err e) \<Rightarrow> (fs1, Err e)
                     | (fs1, Ok _) \<Rightarrow> (fs1, Ok changed))))"

definition install_file ::
    "install_io \<Rightarrow> json_lib \<Rightarrow> string \<Rightarrow> (string \<times> bool) list \<Rightarrow> string \<Rightarrow> u64 \<Rightarrow> node_store
     \<Rightarrow> node_store \<times> (install_error + outcome)" where
  "install_file io lib path events command now_ms fs =
     apply_edit io lib path now_ms OC_Installed (\<lambda>doc. merge_hooks doc events command) fs"

definition uninstall_file ::
    "install_io \<Rightarrow> json_lib \<Rightarrow> string \<Rightarrow> u64 \<Rightarrow> node_store \<Rightarrow> node_store \<times> (install_error + outcome)" where
  "uninstall_file io lib path now_ms fs =
     (if (case open_file io fs path of Ok (_, Some _) \<Rightarrow> True | _ \<Rightarrow> False)
      then apply_edit io lib path now_ms OC_Removed remove_hooks fs
      else (fs, Ok OC_Unchanged))"

section \<open>Editing\<close>

lemma strip_group_idem: "strip_group g = Some g' \<Longrightarrow> strip_group g' = Some g'"
proof (cases g)
  case (JObj fs)
  assume s: "strip_group g = Some g'"
  show ?thesis
  proof (cases "\<exists>hs. map_of fs ''hooks'' = Some (JArr hs)")
    case True
    then obtain hs where h: "map_of fs ''hooks'' = Some (JArr hs)" by blast
    let ?hs = "filter (\<lambda>h. \<not> is_ours h) hs"
    from s h JObj have g': "g' = JObj (AList.update ''hooks'' (JArr ?hs) fs)" by (auto simp: Let_def split: if_splits)
    have "AList.update ''hooks'' (JArr ?hs) (AList.update ''hooks'' (JArr ?hs) fs) = AList.update ''hooks'' (JArr ?hs) fs"
      by (induction fs) auto
    then show ?thesis by (simp add: g' update_conv')
  next
    case False
    then have "g' = g" using s JObj by (auto split: option.splits json.splits)
    then show ?thesis using s by simp
  qed
qed auto

lemma strip_ours_append [simp]: "strip_ours (xs @ ys) = strip_ours xs @ strip_ours ys"
  by (simp add: strip_ours_def map_filter_def)

lemma strip_ours_idem [simp]: "strip_ours (strip_ours l) = strip_ours l"
proof (induction l)
  case (Cons g l)
  show ?case
  proof (cases "strip_group g")
    case None
    then show ?thesis using Cons by (simp add: strip_ours_def map_filter_simps)
  next
    case (Some g')
    from strip_group_idem [OF this] Some Cons show ?thesis by (simp add: strip_ours_def map_filter_simps)
  qed
qed (simp add: strip_ours_def map_filter_def)

lemma strip_hook_entry [simp]: "contains command MARKER \<Longrightarrow> strip_ours [hook_entry m command] = []"
  by (simp add: strip_ours_def map_filter_simps hook_entry_def is_ours_def)

lemma merge_events_other:
  "merge_events hooks es command = Ok hooks' \<Longrightarrow> k \<notin> fst ` set es \<Longrightarrow> map_of hooks' k = map_of hooks k"
  by (induction hooks es command rule: merge_events.induct) (auto simp: update_conv' split: option.splits)

lemma merge_events_entry:
  "merge_events hooks es command = Ok hooks' \<Longrightarrow> distinct (map fst es) \<Longrightarrow> (ev, m) \<in> set es \<Longrightarrow>
   \<exists>l. list_entry hooks ev = Some l \<and> map_of hooks' ev = Some (JArr (strip_ours l @ [hook_entry m command]))"
proof (induction hooks es command rule: merge_events.induct)
  case (2 hooks event w es command)
  then obtain l where l: "list_entry hooks event = Some l" by (auto split: option.splits)
  let ?h = "AList.update event (JArr (strip_ours l @ [hook_entry w command])) hooks"
  from 2 l have m: "merge_events ?h es command = Ok hooks'" by simp
  show ?case
  proof (cases "ev = event")
    case True
    with 2(3,4) have "m = w" by (auto simp: rev_image_eqI)
    with merge_events_other [OF m, of event] 2(3) True l show ?thesis by (simp add: update_conv')
  next
    case False
    with 2(1) [OF l m] 2(3,4) show ?thesis by (auto simp: list_entry_def update_conv')
  qed
qed simp

lemma update_same: "map_of d k = Some v \<Longrightarrow> AList.update k v d = d"
  by (induction d) (auto split: if_splits)

lemma merge_events_fixed:
  assumes "\<And>ev m. (ev, m) \<in> set es \<Longrightarrow> \<exists>l. map_of hooks ev = Some (JArr (strip_ours l @ [hook_entry m command]))"
    and "contains command MARKER"
  shows "merge_events hooks es command = Ok hooks"
  using assms
proof (induction es)
  case (Cons e es)
  obtain ev m where e: "e = (ev, m)" by (cases e)
  from Cons.prems(1) e obtain l where l: "map_of hooks ev = Some (JArr (strip_ours l @ [hook_entry m command]))" by auto
  have "strip_ours (strip_ours l @ [hook_entry m command]) = strip_ours l"
    using Cons.prems(2) by (simp only: strip_ours_append strip_hook_entry strip_ours_idem append_Nil2)
  with Cons l e show ?case by (simp add: list_entry_def update_same)
qed simp

text \<open>Removing after merging: each table entry.\<close>

definition stripped :: "(string \<times> json) list \<Rightarrow> (string \<times> json) list" where
  "stripped hooks = retain (\<lambda>_ v. v \<noteq> JArr []) (map (\<lambda>(k, v). (k, strip_value v)) hooks)"

lemma stripped_append: "stripped (xs @ ys) = stripped xs @ stripped ys"
  by (simp add: stripped_def retain_def)

lemma stripped_merge_entry:
  assumes "contains command MARKER" "list_entry hooks event = Some l"
  shows "stripped (AList.update event (JArr (strip_ours l @ [hook_entry m command])) hooks) = stripped hooks"
  using assms(2)
proof (induction hooks)
  case Nil
  then show ?case using assms(1)
    by (simp add: stripped_def retain_def strip_value_def list_entry_def strip_ours_def map_filter_simps
        hook_entry_def is_ours_def)
next
  case (Cons kv hooks)
  obtain k v where kv: "kv = (k, v)" by (cases kv)
  show ?case
  proof (cases "k = event")
    case True
    with Cons.prems kv have "v = JArr l" by (cases v) (auto simp: list_entry_def)
    then show ?thesis using True kv assms(1) strip_hook_entry [OF assms(1), of m]
      by (simp add: stripped_def retain_def strip_value_def)
  next
    case False
    with Cons kv have "stripped (AList.update event (JArr (strip_ours l @ [hook_entry m command])) hooks) = stripped hooks"
      by (simp add: list_entry_def)
    with False kv show ?thesis by (simp add: stripped_def retain_def)
  qed
qed

lemma stripped_merge:
  "merge_events hooks es command = Ok hooks' \<Longrightarrow> contains command MARKER \<Longrightarrow> stripped hooks' = stripped hooks"
  by (induction hooks es command rule: merge_events.induct) (auto simp: stripped_merge_entry split: option.splits)

lemma update_update: "AList.update k v (AList.update k w d) = AList.update k v d"
  by (induction d) auto

text \<open>Merging our hooks into a document into which they were just merged changes nothing.\<close>

lemma merge_hooks_idem:
  assumes "merge_hooks doc events command = Ok d" and "distinct (map fst events)" and "contains command MARKER"
  shows "merge_hooks d events command = Ok d"
proof -
  from assms(1) obtain root hooks hooks' where r: "doc = JObj root" "table_entry root ''hooks'' = Some hooks"
    "merge_events hooks events command = Ok hooks'" "d = JObj (AList.update ''hooks'' (JObj hooks') root)"
    by (auto simp: merge_hooks_def split: json.splits option.splits sum.splits)
  have "merge_events hooks' events command = Ok hooks'"
    by (rule merge_events_fixed) (use merge_events_entry [OF r(3) assms(2)] assms(3) in blast)+
  then show ?thesis by (simp add: r(4) merge_hooks_def table_entry_def update_conv' update_update)
qed


section \<open>Writing\<close>

text \<open>Names that are no links: what the program expects of its own temporary and backup names.\<close>

definition plain :: "node_store \<Rightarrow> string \<Rightarrow> bool" where
  "plain fs p \<longleftrightarrow> (\<forall>l. map_of fs p \<noteq> Some (N_Link l))"

lemma open_plain:
  "plain fs p \<Longrightarrow> open_file io fs p = Ok (p, case map_of fs p of Some (N_File c m) \<Rightarrow> Some (c, m) | _ \<Rightarrow> None)"
  by (auto simp: open_file_def plain_def follow.simps split: option.splits node.splits)

lemma write_file_plain:
  assumes "write_file io p c fs = (fs', r)" "plain fs p"
  shows "\<And>q. q \<noteq> p \<Longrightarrow> map_of fs' q = map_of fs q" "plain fs' p"
    "r = Ok () \<Longrightarrow> \<exists>m. map_of fs' p = Some (N_File c m)"
  using assms by (auto simp: write_file_def open_plain update_conv' plain_def Let_def split: option.splits if_splits)

lemma copy_file_plain:
  assumes "copy_file io c m p fs = (fs', r)" "plain fs p"
  shows "\<And>q. q \<noteq> p \<Longrightarrow> map_of fs' q = map_of fs q" "r = Ok () \<Longrightarrow> map_of fs' p = Some (N_File c m)"
  using assms by (auto simp: copy_file_def open_plain update_conv' split: option.splits if_splits)

lemma set_mode_plain:
  assumes "set_mode io p m fs = (fs', r)" "plain fs p"
  shows "\<And>q. q \<noteq> p \<Longrightarrow> map_of fs' q = map_of fs q"
    "r = Ok () \<Longrightarrow> map_of fs p = Some (N_File c m') \<Longrightarrow> map_of fs' p = Some (N_File c m)"
  using assms by (auto simp: set_mode_def open_plain update_conv' split: option.splits if_splits node.splits)

lemma rename_node_effect:
  assumes "rename_node io p t fs = (fs', r)" "p \<noteq> t"
  shows "\<And>q. q \<noteq> p \<Longrightarrow> q \<noteq> t \<Longrightarrow> map_of fs' q = map_of fs q"
    "map_of fs' t = (if r = Ok () then map_of fs p else map_of fs t)"
  using assms by (auto simp: rename_node_def update_conv' delete_conv' split: option.splits if_splits)

lemma own_names [simp]:
  "tmp_name io target \<noteq> target" "bak_name target now \<noteq> target" "tmp_name io target \<noteq> bak_name target now"
  "target \<noteq> tmp_name io target" "target \<noteq> bak_name target now" "bak_name target now \<noteq> tmp_name io target"
  by (simp_all add: tmp_name_def bak_name_def)

lemma replace_file_effect:
  assumes "replace_file io target perms c fs = (fs', r)" "plain fs (tmp_name io target)"
  shows "\<And>q. q \<noteq> target \<Longrightarrow> q \<noteq> tmp_name io target \<Longrightarrow> map_of fs' q = map_of fs q"
    "r \<noteq> Ok () \<Longrightarrow> map_of fs' target = map_of fs target"
    "r = Ok () \<Longrightarrow> \<exists>m. map_of fs' target = Some (N_File c m) \<and> (\<forall>p. perms = Some p \<longrightarrow> m = p)"
proof -
  let ?tmp = "tmp_name io target"
  obtain fs1 r1 where w: "write_file io ?tmp c fs = (fs1, r1)" by force
  note w1 = write_file_plain [OF w assms(2)]
  obtain fs2 r2 where s: "(case perms of None \<Rightarrow> (fs1, Ok ()) | Some m \<Rightarrow> set_mode io ?tmp m fs1) = (fs2, r2)" by force
  have s1: "q \<noteq> ?tmp \<Longrightarrow> map_of fs2 q = map_of fs1 q" for q
    using s set_mode_plain(1) [OF _ w1(2)] by (auto split: option.splits)
  have s2: "\<exists>m. map_of fs2 ?tmp = Some (N_File c m) \<and> (\<forall>p. perms = Some p \<longrightarrow> m = p)" if "r1 = Ok ()" "r2 = Ok ()"
    using w1(3) [OF that(1)] s that(2) set_mode_plain(2) [OF _ w1(2)] by (auto split: option.splits)
  obtain fs3 r3 where n: "rename_node io ?tmp target fs2 = (fs3, r3)" by force
  note n1 = rename_node_effect [OF n]
  have run: "(fs', r) = (if r1 \<noteq> Ok () then (fs1, r1) else if r2 \<noteq> Ok () then (fs2, r2) else (fs3, r3))"
    using assms(1) w s n by (auto simp: replace_file_def Let_def split: sum.splits)
  show "map_of fs' q = map_of fs q" if "q \<noteq> target" "q \<noteq> ?tmp" for q
    using run w1(1) s1 n1(1) that by (auto split: if_splits)
  show "map_of fs' target = map_of fs target" if "r \<noteq> Ok ()"
    using run w1(1) s1 n1(2) that by (auto split: if_splits)
  show "\<exists>m. map_of fs' target = Some (N_File c m) \<and> (\<forall>p. perms = Some p \<longrightarrow> m = p)" if "r = Ok ()"
    using run s2 n1(2) that by (auto split: if_splits)
qed

lemma prepare_write_effect:
  assumes "prepare_write io target now fs = (fs', r)" "plain fs (bak_name target now)"
  shows "\<And>q. q \<noteq> bak_name target now \<Longrightarrow> map_of fs' q = map_of fs q"
    "r = Ok p \<Longrightarrow> map_of fs target = Some (N_File c m) \<Longrightarrow> p = Some m \<and> map_of fs' (bak_name target now) = Some (N_File c m)"
proof -
  show "map_of fs' q = map_of fs q" if "q \<noteq> bak_name target now" for q
    using assms that copy_file_plain(1) [OF _ assms(2)]
    by (auto simp: prepare_write_def split: option.splits sum.splits prod.splits)
  assume r: "r = Ok p" and t: "map_of fs target = Some (N_File c m)"
  from t have "open_file io fs target = Ok (target, Some (c, m))" using open_plain [of fs target io] by (simp add: plain_def)
  with assms(1) r copy_file_plain(2) [OF _ assms(2)]
  show "p = Some m \<and> map_of fs' (bak_name target now) = Some (N_File c m)"
    by (auto simp: prepare_write_def split: option.splits sum.splits prod.splits)
qed

lemma write_doc_effect:
  assumes "write_doc io lib path doc now fs = (fs', r)" "write_target io fs path = Ok target"
    "plain fs (bak_name target now)" "plain fs (tmp_name io target)"
  shows "\<And>q. q \<notin> {target, tmp_name io target, bak_name target now} \<Longrightarrow> map_of fs' q = map_of fs q"
    "r \<noteq> Ok () \<Longrightarrow> map_of fs' target = map_of fs target"
    "r = Ok () \<Longrightarrow> \<exists>m. map_of fs' target = Some (N_File (jl_pretty lib doc @ [newline]) m)
       \<and> (\<forall>c k. map_of fs target = Some (N_File c k) \<longrightarrow> m = k \<and> map_of fs' (bak_name target now) = Some (N_File c k))"
proof -
  obtain fs1 r1 where p: "prepare_write io target now fs = (fs1, r1)" by force
  note p1 = prepare_write_effect [OF p assms(3)]
  have tmp: "plain fs1 (tmp_name io target)" using p1(1) [of "tmp_name io target"] assms(4) by (simp add: plain_def)
  let ?c = "jl_pretty lib doc @ [newline]"
  have "(\<forall>q. q \<notin> {target, tmp_name io target, bak_name target now} \<longrightarrow> map_of fs' q = map_of fs q)
    \<and> (r \<noteq> Ok () \<longrightarrow> map_of fs' target = map_of fs target)
    \<and> (r = Ok () \<longrightarrow> (\<exists>m. map_of fs' target = Some (N_File ?c m)
       \<and> (\<forall>c k. map_of fs target = Some (N_File c k) \<longrightarrow> m = k \<and> map_of fs' (bak_name target now) = Some (N_File c k))))"
  proof (cases r1)
    case (Inl e)
    then have "fs' = fs1" "r \<noteq> Ok ()" using assms(1,2) p by (auto simp: write_doc_def)
    then show ?thesis using p1(1) by auto
  next
    case (Inr perms)
    obtain r2 where w: "replace_file io target perms ?c fs1 = (fs', r2)" and r: "r = Ok () \<longleftrightarrow> r2 = Ok ()"
      using assms(1,2) p Inr by (auto simp: write_doc_def split: prod.splits sum.splits)
    note w1 = replace_file_effect [OF w tmp]
    have "map_of fs' q = map_of fs q" if "q \<notin> {target, tmp_name io target, bak_name target now}" for q
      using w1(1) [of q] p1(1) [of q] that by simp
    moreover have "r \<noteq> Ok () \<longrightarrow> map_of fs' target = map_of fs target"
      using w1(2) p1(1) [of target] r by simp
    moreover have "r = Ok () \<longrightarrow> (\<exists>m. map_of fs' target = Some (N_File ?c m)
       \<and> (\<forall>c k. map_of fs target = Some (N_File c k) \<longrightarrow> m = k \<and> map_of fs' (bak_name target now) = Some (N_File c k)))"
      using w1(1) [of "bak_name target now"] w1(3) r p1(2) [OF Inr] by fastforce
    ultimately show ?thesis by blast
  qed
  then show "\<And>q. q \<notin> {target, tmp_name io target, bak_name target now} \<Longrightarrow> map_of fs' q = map_of fs q"
    "r \<noteq> Ok () \<Longrightarrow> map_of fs' target = map_of fs target"
    "r = Ok () \<Longrightarrow> \<exists>m. map_of fs' target = Some (N_File ?c m)
       \<and> (\<forall>c k. map_of fs target = Some (N_File c k) \<longrightarrow> m = k \<and> map_of fs' (bak_name target now) = Some (N_File c k))"
    by blast+
qed

lemma apply_edit_effect:
  assumes "apply_edit io lib path now changed edit fs = (fs', r)" "write_target io fs path = Ok target"
    "plain fs (bak_name target now)" "plain fs (tmp_name io target)" "changed \<noteq> OC_Unchanged"
  shows "(if r = Ok changed
     then \<exists>before d m. read_doc io lib fs path = Ok before \<and> edit before = Ok d
       \<and> map_of fs' target = Some (N_File (jl_pretty lib d @ [newline]) m)
       \<and> (\<forall>c k. map_of fs target = Some (N_File c k) \<longrightarrow> m = k \<and> map_of fs' (bak_name target now) = Some (N_File c k))
     else map_of fs' target = map_of fs target)
    \<and> (\<forall>q. q \<notin> {target, tmp_name io target, bak_name target now} \<longrightarrow> map_of fs' q = map_of fs q)"
proof (cases "\<exists>before d. read_doc io lib fs path = Ok before \<and> edit before = Ok d \<and> d \<noteq> before")
  case True
  then obtain before d where b: "read_doc io lib fs path = Ok before" "edit before = Ok d" "d \<noteq> before" by blast
  obtain fs1 r1 where w: "write_doc io lib path d now fs = (fs1, r1)" by force
  have run: "fs' = fs1" "r = Ok changed \<longleftrightarrow> r1 = Ok ()"
    using assms(1) b w by (auto simp: apply_edit_def split: sum.splits)
  note w1 = write_doc_effect [OF w assms(2-4), folded run(1)]
  show ?thesis
  proof (cases "r1 = Ok ()")
    case True
    then show ?thesis using w1(1,3) b(1,2) run(2) by auto
  next
    case False
    then show ?thesis using w1(1,2) run(2) by auto
  qed
next
  case False
  then have "fs' = fs" "r \<noteq> Ok changed"
    using assms(1,5) by (auto simp: apply_edit_def split: sum.splits if_splits)
  then show ?thesis by simp
qed

lemma write_target_follow:
  assumes "\<And>op. ii_fail io op = None"
  shows "write_target_loop io fs n p = Ok t \<Longrightarrow> n \<le> Suc k \<Longrightarrow> follow k fs p = Some t \<and> plain fs t"
proof (induction n arbitrary: p k)
  case (Suc n)
  show ?case
  proof (cases "\<exists>l. map_of fs p = Some (N_Link l)")
    case True
    then obtain l where l: "map_of fs p = Some (N_Link l)" by blast
    with Suc.prems(1) assms have w: "write_target_loop io fs n (link_step p l) = Ok t" by simp
    then have "n \<noteq> 0" by (cases n) auto
    with Suc.prems(2) obtain k' where k: "k = Suc k'" "n \<le> Suc k'" by (cases k) auto
    from Suc.IH [OF w k(2)] l k(1) show ?thesis by (simp add: follow.simps [of "Suc k'"])
  next
    case False
    then have "t = p" using Suc.prems(1) assms by (auto split: option.splits node.splits)
    with False show ?thesis by (auto simp: follow.simps [of k] plain_def split: option.splits node.splits)
  qed
qed simp

lemma follow_agree:
  assumes "\<And>q l. map_of fs q = Some (N_Link l) \<Longrightarrow> map_of fs' q = Some (N_Link l)" "plain fs' t"
  shows "follow n fs p = Some t \<Longrightarrow> follow n fs' p = Some t"
proof (induction n arbitrary: p)
  case 0
  then have "t = p" by (auto simp: follow.simps [of 0] split: option.splits node.splits)
  then show ?case using assms(2) by (auto simp: follow.simps [of 0] plain_def split: option.splits node.splits)
next
  case (Suc n)
  show ?case
  proof (cases "\<exists>l. map_of fs p = Some (N_Link l)")
    case True
    then obtain l where l: "map_of fs p = Some (N_Link l)" by blast
    with Suc.prems have "follow n fs (link_step p l) = Some t" by (simp add: follow.simps [of "Suc n"])
    from Suc.IH [OF this] assms(1) [OF l] show ?thesis by (simp add: follow.simps [of "Suc n"])
  next
    case False
    then have "t = p" using Suc.prems by (auto simp: follow.simps [of "Suc n"] split: option.splits node.splits)
    then show ?thesis using assms(2) by (auto simp: follow.simps [of "Suc n"] plain_def split: option.splits node.splits)
  qed
qed


text \<open>The printed document reads back.\<close>

definition reads_back :: "json_lib \<Rightarrow> json \<Rightarrow> bool" where
  "reads_back lib d \<longleftrightarrow> jl_parse lib (jl_pretty lib d @ [newline]) = Ok d \<and> trim (jl_pretty lib d @ [newline]) \<noteq> []"

lemma read_after_install:
  assumes "install_file io lib path events command now fs = (fs', Ok OC_Installed)" "write_target io fs path = Ok target"
    "\<And>op. ii_fail io op = None" "plain fs (bak_name target now)" "plain fs (tmp_name io target)"
    "\<And>before d. read_doc io lib fs path = Ok before \<Longrightarrow> merge_hooks before events command = Ok d \<Longrightarrow> reads_back lib d"
  shows "\<exists>before d. read_doc io lib fs path = Ok before \<and> merge_hooks before events command = Ok d \<and> read_doc io lib fs' path = Ok d"
proof -
  let ?tmp = "tmp_name io target" and ?bak = "bak_name target now"
  from apply_edit_effect [OF assms(1) [unfolded install_file_def] assms(2,4,5)] obtain before d m where
    b: "read_doc io lib fs path = Ok before" "merge_hooks before events command = Ok d"
      "map_of fs' target = Some (N_File (jl_pretty lib d @ [newline]) m)"
    and q: "\<And>q. q \<notin> {target, ?tmp, ?bak} \<Longrightarrow> map_of fs' q = map_of fs q" by auto
  have f: "follow KERNEL_LINKS fs path = Some target" "plain fs target"
    using write_target_follow [OF assms(3), of fs MAX_LINKS path target KERNEL_LINKS] assms(2)
    by (simp_all add: write_target_def MAX_LINKS_def KERNEL_LINKS_def)
  have "follow KERNEL_LINKS fs' path = Some target"
  proof (rule follow_agree [OF _ _ f(1)])
    show "plain fs' target" using b(3) by (simp add: plain_def)
    show "map_of fs' p = Some (N_Link l)" if "map_of fs p = Some (N_Link l)" for p l
    proof -
      from that assms(4,5) f(2) have "p \<notin> {target, ?tmp, ?bak}" by (auto simp: plain_def)
      with q that show ?thesis by simp
    qed
  qed
  with b(3) assms(3) assms(6) [OF b(1,2)] have "read_doc io lib fs' path = Ok d"
    by (simp add: read_doc_def open_file_def reads_back_def)
  with b(1,2) show ?thesis by blast
qed

text \<open>Installing again changes nothing: after a successful installation, a second one with the same
  command finds the file unchanged and writes nothing (links up to the limit, no failing calls, a JSON
  printer whose output the parser reads back).\<close>

theorem reinstall_unchanged:
  assumes "install_file io lib path events command now fs = (fs', Ok oc)" and "write_target io fs path = Ok target"
    and "\<And>op. ii_fail io op = None" and "plain fs (bak_name target now)" and "plain fs (tmp_name io target)"
    and "\<And>before d. read_doc io lib fs path = Ok before \<Longrightarrow> merge_hooks before events command = Ok d \<Longrightarrow> reads_back lib d"
    and "distinct (map fst events)" and "contains command MARKER"
  shows "install_file io lib path events command later fs' = (fs', Ok OC_Unchanged)"
proof (cases "oc = OC_Installed")
  case True
  have "\<exists>before d. read_doc io lib fs path = Ok before \<and> merge_hooks before events command = Ok d \<and> read_doc io lib fs' path = Ok d"
    by (rule read_after_install [OF assms(1) [unfolded True] assms(2-5)]) (rule assms(6))
  then obtain before d where d: "merge_hooks before events command = Ok d" "read_doc io lib fs' path = Ok d" by blast
  then show ?thesis using merge_hooks_idem [OF d(1) assms(7,8)] by (simp add: install_file_def apply_edit_def)
next
  case False
  with assms(1) obtain d where "read_doc io lib fs path = Ok d" "merge_hooks d events command = Ok d" "fs' = fs"
    by (auto simp: install_file_def apply_edit_def split: sum.splits if_splits prod.splits)
  then show ?thesis by (simp add: install_file_def apply_edit_def)
qed

section \<open>Witnesses\<close>

definition ex_command :: string where "ex_command = hook_command ''/h/.mai/bin/mai-probe'' ''claude''"

text \<open>A settings file, reached through a link, with a hook of the user's on \<open>Stop\<close>.\<close>

definition ex_user_hook :: json where
  "ex_user_hook = JObj [(''hooks'', JArr [JObj [(''type'', JStr ''command''), (''command'', JStr ''beep'')]])]"

definition ex_doc :: json where
  "ex_doc = JObj [(''model'', JStr ''m''), (''hooks'', JObj [(''Stop'', JArr [ex_user_hook])])]"

definition ex_merged :: json where
  "ex_merged = JObj [(''model'', JStr ''m''),
     (''hooks'', JObj [(''Stop'', JArr [ex_user_hook, hook_entry False ex_command])])]"

definition ex_json :: json_lib where
  "ex_json = \<lparr>jl_parse = (\<lambda>s. if s = ''old'' then Ok ex_doc else if s = ''new'' @ [newline] then Ok ex_merged else Err ''bad''),
     jl_pretty = (\<lambda>d. if d = ex_merged then ''new'' else ''old'')\<rparr>"

definition ex_io :: install_io where
  "ex_io = \<lparr>ii_fail = (\<lambda>_. None), ii_new_mode = 420, ii_pid = 9, ii_loop_error = ''loop''\<rparr>"

definition ex_store :: node_store where
  "ex_store = [(''/h/s'', N_Link ''t''), (''/h/t'', N_File ''old'' 384)]"

lemma ex_marker: "contains ex_command MARKER"
  by (simp add: ex_command_def hook_command_def MARKER_def str_eval)

lemma ex_merge: "merge_hooks ex_doc [(''Stop'', False)] ex_command = Ok ex_merged"
  by (simp add: merge_hooks_def ex_doc_def ex_merged_def table_entry_def list_entry_def strip_ours_def
      ex_user_hook_def map_filter_simps is_ours_def MARKER_def str_eval)

lemma ex_target: "write_target ex_io ex_store ''/h/s'' = Ok ''/h/t''"
  by code_simp

lemma ex_plain: "plain ex_store (bak_name ''/h/t'' 5)" "plain ex_store (tmp_name ex_io ''/h/t'')"
  by (auto simp: plain_def ex_store_def bak_name_def tmp_name_def)

lemma ex_read: "read_doc ex_io ex_json ex_store ''/h/s'' = Ok ex_doc"
proof -
  have "open_file ex_io ex_store ''/h/s'' = Ok (''/h/t'', Some (''old'', 384))" by code_simp
  moreover have "trim ''old'' \<noteq> []" by code_simp
  ultimately show ?thesis by (simp add: read_doc_def ex_io_def ex_json_def)
qed

lemma ex_install: "\<exists>fs'. install_file ex_io ex_json ''/h/s'' [(''Stop'', False)] ex_command 5 ex_store = (fs', Ok OC_Installed)"
proof -
  have ne: "ex_merged \<noteq> ex_doc" by (simp add: ex_merged_def ex_doc_def)
  have "\<exists>fs'. write_doc ex_io ex_json ''/h/s'' ex_merged 5 ex_store = (fs', Ok ())"
    using ex_target ex_plain
    by (simp add: write_doc_def prepare_write_def replace_file_def open_plain copy_file_def write_file_def set_mode_def
        rename_node_def Let_def ex_io_def ex_store_def plain_def update_conv' bak_name_def tmp_name_def)
  then show ?thesis using ne by (auto simp: install_file_def apply_edit_def ex_read ex_merge)
qed



theorem reinstall_unchanged_witness:
  "\<exists>fs'. install_file ex_io ex_json ''/h/s'' [(''Stop'', False)] ex_command 5 ex_store = (fs', Ok OC_Installed)
     \<and> install_file ex_io ex_json ''/h/s'' [(''Stop'', False)] ex_command 6 fs' = (fs', Ok OC_Unchanged)"
proof -
  from ex_install obtain fs' where i: "install_file ex_io ex_json ''/h/s'' [(''Stop'', False)] ex_command 5 ex_store = (fs', Ok OC_Installed)"
    by blast
  have "reads_back ex_json ex_merged" unfolding reads_back_def by (simp add: ex_json_def) code_simp
  with ex_read ex_merge have "reads_back ex_json d" if "read_doc ex_io ex_json ex_store ''/h/s'' = Ok b"
    "merge_hooks b [(''Stop'', False)] ex_command = Ok d" for b d using that by simp
  moreover have "ii_fail ex_io op = None" for op by (simp add: ex_io_def)
  ultimately have "install_file ex_io ex_json ''/h/s'' [(''Stop'', False)] ex_command 6 fs' = (fs', Ok OC_Unchanged)"
    using reinstall_unchanged [OF i ex_target _ ex_plain _ _ ex_marker] by simp
  with i show ?thesis by blast
qed

end
