(* ===== verification/Metrics.thy ===== *)
theory Metrics
  imports Mai_Protocol
begin

text \<open>
  Host metrics (\<open>crates/mai-probe/src/metrics.rs\<close>). What the \<open>sysinfo\<close> crate reports after a refresh is a \<open>sys_reading\<close>:
  for every network and every disk the bytes since the previous refresh; \<open>rd_windows\<close> is the platform (\<open>cfg!(windows)\<close>).
\<close>

record sys_reading =
  rd_cpu :: f32
  rd_mem_used :: u64
  rd_mem_total :: u64
  rd_nets :: "(u64 \<times> u64) list"
  rd_disks :: "(u64 \<times> u64) list"
  rd_load1 :: f32
  rd_windows :: bool

record sampler =
  sa_last_ms :: "u64 option"

definition sampler_new :: sampler where
  "sampler_new = \<lparr>sa_last_ms = None\<rparr>"

definition saturating_mul :: "u64 \<Rightarrow> u64 \<Rightarrow> u64" where
  "saturating_mul a b = (if unat a * unat b < 2 ^ 64 then a * b else - 1)"

definition elapsed_since :: "u64 option \<Rightarrow> u64 \<Rightarrow> u64 option" where
  "elapsed_since last_ms now_ms =
     (case last_ms of
        None \<Rightarrow> None
      | Some t \<Rightarrow> let d = saturating_sub now_ms t in if 0 < d then Some d else None)"

definition rate :: "u64 option \<Rightarrow> u64 \<Rightarrow> u64" where
  "rate elapsed_ms bytes = (case elapsed_ms of None \<Rightarrow> 0 | Some ms \<Rightarrow> saturating_mul bytes 1000 div ms)"

text \<open>The two sums of a list of pairs; \<open>+\<close> on \<open>u64\<close> wraps.\<close>

definition pair_sum :: "(u64 \<times> u64) list \<Rightarrow> u64 \<times> u64" where
  "pair_sum xs = fold (\<lambda>(a, b) (r, t). (r + a, t + b)) xs (0, 0)"

definition load1 :: "sys_reading \<Rightarrow> f32 option" where
  "load1 rd = (if rd_windows rd then None else Some (rd_load1 rd))"

definition sample :: "sys_reading \<Rightarrow> sampler \<Rightarrow> u64 \<Rightarrow> sampler \<times> metrics" where
  "sample rd sa now_ms =
     (let elapsed_ms = elapsed_since (sa_last_ms sa) now_ms;
          (rx, tx) = pair_sum (rd_nets rd);
          (r, w) = pair_sum (rd_disks rd)
      in (sa\<lparr>sa_last_ms := Some now_ms\<rparr>,
          \<lparr>me_cpu_pct = rd_cpu rd, me_mem_used = rd_mem_used rd, me_mem_total = rd_mem_total rd,
           me_disk_read_bps = rate elapsed_ms r, me_disk_write_bps = rate elapsed_ms w,
           me_net_rx_bps = rate elapsed_ms rx, me_net_tx_bps = rate elapsed_ms tx,
           me_load1 = load1 rd, me_ts_ms = now_ms\<rparr>))"

section \<open>Rates\<close>

lemma unat_saturating_mul: "unat (saturating_mul a b) = min (unat a * unat b) (2 ^ 64 - 1)"
proof (cases "unat a * unat b < 2 ^ 64")
  case True
  then have "unat (a * b) = unat a * unat b" by (subst unat_mult_lem [THEN iffD1]) simp_all
  with True show ?thesis by (simp add: saturating_mul_def)
next
  case False
  have "unat (- 1 :: u64) = 2 ^ 64 - 1" by (simp add: unsigned_minus_1_eq_mask mask_eq_exp_minus_1)
  with False show ?thesis by (simp add: saturating_mul_def)
qed

definition byte_total :: "('a \<Rightarrow> u64) \<Rightarrow> 'a list \<Rightarrow> nat" where
  "byte_total f xs = sum_list (map (\<lambda>x. unat (f x)) xs)"

lemma fold_pair_sum: "fold (\<lambda>(a, b) (r, t). (r + a, t + b)) xs (r, t) = (r + sum_list (map fst xs), t + sum_list (map snd xs))"
  for r t :: u64
  by (induction xs arbitrary: r t) (auto simp: add.assoc)

lemma unat_sum: "byte_total f xs < 2 ^ 64 \<Longrightarrow> unat (sum_list (map f xs)) = byte_total f xs"
proof (induction xs)
  case (Cons x xs)
  then have "unat (sum_list (map f xs)) = byte_total f xs" by (simp add: byte_total_def)
  with Cons.prems show ?case by (simp add: byte_total_def unat_word_ariths(1))
qed (simp add: byte_total_def)

text \<open>The rate in bytes per second on natural numbers.\<close>

definition bps :: "u64 option \<Rightarrow> u64 \<Rightarrow> nat \<Rightarrow> nat" where
  "bps last_ms now_ms bytes =
     (case last_ms of
        Some t \<Rightarrow> if unat t < unat now_ms then min (bytes * 1000) (2 ^ 64 - 1) div (unat now_ms - unat t) else 0
      | None \<Rightarrow> 0)"

lemma unat_rate: "unat (rate (elapsed_since last_ms now_ms) b) = bps last_ms now_ms (unat b)"
proof (cases last_ms)
  case (Some t)
  show ?thesis
  proof (cases "t < now_ms")
    case True
    then have d: "saturating_sub now_ms t = now_ms - t" "unat (now_ms - t) = unat now_ms - unat t" "unat t < unat now_ms"
      by (auto simp: saturating_sub_def unat_sub word_less_nat_alt [symmetric] less_imp_le)
    then have "elapsed_since last_ms now_ms = Some (now_ms - t)" using Some by (simp add: elapsed_since_def word_less_nat_alt)
    with Some d show ?thesis by (simp add: rate_def bps_def unat_div unat_saturating_mul)
  next
    case False
    then have "saturating_sub now_ms t = 0" by (auto simp: saturating_sub_def)
    with Some False show ?thesis by (simp add: elapsed_since_def rate_def bps_def word_less_nat_alt)
  qed
qed (simp add: elapsed_since_def rate_def bps_def)

text \<open>C39. The rates of a sample are the bytes since the previous sample per second, computed without overflow: each is the
  quotient on natural numbers, with the product by 1000 saturated at the largest \<open>u64\<close>; the first sample, and one
  whose clock has not advanced, reports zero. (The sums over networks and disks are taken to fit a \<open>u64\<close>.)\<close>

theorem sample_rates:
  assumes "byte_total fst (rd_nets rd) < 2 ^ 64" "byte_total snd (rd_nets rd) < 2 ^ 64"
    and "byte_total fst (rd_disks rd) < 2 ^ 64" "byte_total snd (rd_disks rd) < 2 ^ 64"
    and "sample rd sa now_ms = (sa', m)"
  shows "unat (me_net_rx_bps m) = bps (sa_last_ms sa) now_ms (byte_total fst (rd_nets rd))
    \<and> unat (me_net_tx_bps m) = bps (sa_last_ms sa) now_ms (byte_total snd (rd_nets rd))
    \<and> unat (me_disk_read_bps m) = bps (sa_last_ms sa) now_ms (byte_total fst (rd_disks rd))
    \<and> unat (me_disk_write_bps m) = bps (sa_last_ms sa) now_ms (byte_total snd (rd_disks rd))
    \<and> sa_last_ms sa' = Some now_ms"
  using assms by (auto simp: sample_def pair_sum_def fold_pair_sum unat_rate unat_sum Let_def)

theorem sample_rates_witness:
  "me_net_rx_bps (snd (sample \<lparr>rd_cpu = 0, rd_mem_used = 1, rd_mem_total = 2, rd_nets = [(300, 0), (200, 7)],
     rd_disks = [], rd_load1 = 0, rd_windows = False\<rparr> \<lparr>sa_last_ms = Some 1000\<rparr> 3000)) = 250"
proof -
  let ?rd = "\<lparr>rd_cpu = 0, rd_mem_used = 1, rd_mem_total = 2, rd_nets = [(300, 0), (200, 7)], rd_disks = [], rd_load1 = 0, rd_windows = False\<rparr>"
  let ?s = "sample ?rd \<lparr>sa_last_ms = Some 1000\<rparr> 3000"
  have "unat (me_net_rx_bps (snd ?s)) = 250"
    using sample_rates [of ?rd "\<lparr>sa_last_ms = Some 1000\<rparr>" 3000 "fst ?s" "snd ?s"] by (simp add: byte_total_def bps_def)
  then show ?thesis by (simp only: word_unat_eq_iff) simp
qed

end
