(* ===== verification/Probe_Run.thy ===== *)
theory Probe_Run
  imports Serve Link Utf8 Metrics
begin

text \<open>
  The loop of \<open>mai-probe serve\<close> (\<open>crates/mai-probe/src/run.rs\<close>) around the server: input lines, ticks,
  metrics and heartbeats.

  The input thread turns the bytes of standard input into lines. One turn of the loop takes the
  lines that came within the tick, the time, what the system reports for the metrics, the outside of the
  server, and the outcome of writing the messages: \<open>tu_fail = Some n\<close> is a write that
  failed after \<open>n\<close> whole messages (an error of the encoder included). A closed input or a failed write
  ends the run.
\<close>

definition HEARTBEAT_MS :: u64 where "HEARTBEAT_MS = 5000"

record 'r probe_run =
  rn_server :: "'r server"
  rn_last_metrics :: "u64 option"
  rn_last_beat :: "u64 option"
  rn_sampler :: sampler
  rn_done :: bool

definition input_lines :: "string \<Rightarrow> string list" where
  "input_lines bytes = map (\<lambda>l. trim_line_end (from_utf8_lossy l)) (split_inclusive newline bytes)"

record turn =
  tu_lines :: "string list"
  tu_now :: u64
  tu_reading :: sys_reading
  tu_io :: io
  tu_zellij :: zellij
  tu_fail :: "nat option"

datatype run_in = RI_Turn turn | RI_Disconnected

definition send_msgs :: "nat option \<Rightarrow> probe_msg list \<Rightarrow> probe_msg list" where
  "send_msgs fail msgs = (case fail of None \<Rightarrow> msgs | Some n \<Rightarrow> take n msgs)"

definition run_start :: "'r server \<Rightarrow> probe_msg \<Rightarrow> nat option \<Rightarrow> 'r probe_run \<times> probe_msg list" where
  "run_start sv greet fail =
     (\<lparr>rn_server = sv, rn_last_metrics = None, rn_last_beat = None, rn_sampler = sampler_new, rn_done = (fail \<noteq> None)\<rparr>,
      send_msgs fail [greet])"

definition run_turn :: "'r serve_lib \<Rightarrow> u32 \<Rightarrow> 'r probe_run \<Rightarrow> turn \<Rightarrow> 'r probe_run \<times> probe_msg list" where
  "run_turn lib pid rn t =
     (let (sv1, m1) = run_steps (handle_line lib (tu_io t) pid (tu_zellij t)) (rn_server rn) (tu_lines t);
          now = tu_now t;
          (sv2, m2) = tick lib (tu_io t) (tu_zellij t) sv1 now;
          (lm, sa, m3) = (if due (rn_last_metrics rn) (in_metrics_ms (sv_intervals sv2)) now
                          then (case sample (tu_reading t) (rn_sampler rn) now of (sa, m) \<Rightarrow> (Some now, sa, [PM_Metrics m]))
                          else (rn_last_metrics rn, rn_sampler rn, []));
          (lb, m4) = (if due (rn_last_beat rn) HEARTBEAT_MS now
                      then (Some now, [PM_Heartbeat now]) else (rn_last_beat rn, []))
      in (\<lparr>rn_server = sv2, rn_last_metrics = lm, rn_last_beat = lb, rn_sampler = sa, rn_done = (tu_fail t \<noteq> None)\<rparr>,
          send_msgs (tu_fail t) (m1 @ m2 @ m3 @ m4)))"

fun run_step :: "'r serve_lib \<Rightarrow> u32 \<Rightarrow> 'r probe_run \<Rightarrow> run_in \<Rightarrow> 'r probe_run \<times> probe_msg list" where
  "run_step lib pid rn RI_Disconnected = (rn\<lparr>rn_done := True\<rparr>, [])"
| "run_step lib pid rn (RI_Turn t) = (if rn_done rn then (rn, []) else run_turn lib pid rn t)"

section \<open>Heartbeats\<close>

definition beats :: "probe_msg list \<Rightarrow> u64 set" where
  "beats out = {b. PM_Heartbeat b \<in> set out}"

lemma beats_append [simp]: "beats (xs @ ys) = beats xs \<union> beats ys"
  by (auto simp: beats_def)

definition last_beat_sent :: "probe_msg list \<Rightarrow> 'r probe_run \<Rightarrow> bool" where
  "last_beat_sent out rn \<longleftrightarrow> (case rn_last_beat rn of None \<Rightarrow> True | Some b \<Rightarrow> b \<in> beats out)"

lemma run_turn_last_beat:
  "rn_last_beat (fst (run_turn lib pid rn t)) =
     (if due (rn_last_beat rn) HEARTBEAT_MS (tu_now t) then Some (tu_now t) else rn_last_beat rn)"
  by (simp add: run_turn_def Let_def split_beta)

lemma run_turn_beats:
  assumes "tu_fail t = None" "due (rn_last_beat rn) HEARTBEAT_MS (tu_now t)"
  shows "tu_now t \<in> beats (snd (run_turn lib pid rn t))"
  using assms by (simp add: run_turn_def Let_def split_beta beats_def send_msgs_def)

lemma due_False: "\<not> due l step now \<Longrightarrow> \<exists>b. l = Some b \<and> saturating_sub now b < step"
  by (cases l) (auto simp: due_def not_le)

lemma run_turn_beat:
  assumes "tu_fail t = None" "last_beat_sent out rn"
  shows "last_beat_sent (out @ snd (run_turn lib pid rn t)) (fst (run_turn lib pid rn t))
    \<and> (\<exists>b. rn_last_beat (fst (run_turn lib pid rn t)) = Some b \<and> saturating_sub (tu_now t) b < HEARTBEAT_MS)"
proof (cases "due (rn_last_beat rn) HEARTBEAT_MS (tu_now t)")
  case True
  have "saturating_sub (tu_now t) (tu_now t) < HEARTBEAT_MS"
    by (simp add: saturating_sub_def HEARTBEAT_MS_def)
  with True run_turn_beats [OF assms(1) True, of lib pid] show ?thesis
    by (simp add: last_beat_sent_def run_turn_last_beat)
next
  case False
  from due_False [OF this] obtain b where "rn_last_beat rn = Some b" "saturating_sub (tu_now t) b < HEARTBEAT_MS"
    by blast
  with False assms(2) show ?thesis by (simp add: last_beat_sent_def run_turn_last_beat)
qed

lemma run_beats:
  "last_beat_sent out rn \<Longrightarrow> \<forall>t. RI_Turn t \<in> set ins \<longrightarrow> tu_fail t = None \<Longrightarrow>
   last_beat_sent (out @ snd (run_steps (run_step lib pid) rn ins)) (fst (run_steps (run_step lib pid) rn ins))"
proof (induction ins arbitrary: rn out)
  case (Cons x ins)
  have "last_beat_sent (out @ snd (run_step lib pid rn x)) (fst (run_step lib pid rn x))"
  proof (cases x)
    case (RI_Turn t)
    show ?thesis
    proof (cases "rn_done rn")
      case False
      have "RI_Turn t \<in> set (x # ins)" by (simp add: RI_Turn)
      with Cons.prems(2) have "tu_fail t = None" by blast
      from run_turn_beat [OF this Cons.prems(1), THEN conjunct1, of lib pid] False show ?thesis
        by (simp add: RI_Turn)
    qed (use Cons.prems(1) in \<open>simp add: RI_Turn\<close>)
  qed (use Cons.prems in \<open>simp add: last_beat_sent_def\<close>)
  note now = this
  have "\<forall>t. RI_Turn t \<in> set ins \<longrightarrow> tu_fail t = None" using Cons.prems(2) by (meson list.set_intros(2))
  from Cons.IH [OF now this] show ?case by simp
qed simp

text \<open>Heartbeats keep the app's watchdog quiet: after every turn of the loop at time \<open>now\<close> that is
  reached with all writes succeeding, the run has sent a heartbeat stamped less than 5 seconds
  before \<open>now\<close>; so two turns at most 15 seconds apart leave the app's 20 second silence limit unmet.\<close>

theorem heartbeat_recent:
  assumes "\<forall>t. RI_Turn t \<in> set ins \<longrightarrow> tu_fail t = None" and "tu_fail t = None"
    and "run_steps (run_step lib pid) (fst (run_start sv greet None)) ins = (rn, out)" and "\<not> rn_done rn"
  shows "\<exists>b \<in> beats (out @ snd (run_step lib pid rn (RI_Turn t))).
    unat (tu_now t) - unat b < 5000 \<and> unat (tu_now t) + 15000 < unat b + SILENCE_TIMEOUT"
proof -
  have "last_beat_sent [] (fst (run_start sv greet None))" by (simp add: last_beat_sent_def run_start_def)
  from run_beats [OF this assms(1), of lib pid] assms(3) have "last_beat_sent out rn" by simp
  from run_turn_beat [OF assms(2) this, of lib pid] obtain b where
    "b \<in> beats (out @ snd (run_turn lib pid rn t))" "saturating_sub (tu_now t) b < HEARTBEAT_MS"
    by (auto simp: last_beat_sent_def)
  moreover from this(2) have "unat (tu_now t) - unat b < 5000"
    by (simp add: word_less_nat_alt unat_saturating_sub HEARTBEAT_MS_def)
  ultimately show ?thesis
    using assms(4) by (intro bexI [of _ b]) (auto simp: SILENCE_TIMEOUT_def)
qed

text \<open>The clock is the system's: once it is set back, nothing is due until it has caught up, heartbeats
  included.\<close>

lemma clock_set_back_is_silent:
  assumes "rn_last_beat rn = Some b" "tu_now t < b"
  shows "rn_last_beat (fst (run_turn lib pid rn t)) = Some b"
proof -
  have "saturating_sub (tu_now t) b = 0" using leD [of b "tu_now t"] assms(2)
    by (auto simp: saturating_sub_def)
  then show ?thesis by (simp add: run_turn_last_beat assms(1) due_def HEARTBEAT_MS_def)
qed

section \<open>Input\<close>

text \<open>The app's messages reach the server whole: the encoded messages the app wrote one after the
  other are read from standard input as lines that decode to the same messages in order.\<close>

theorem input_roundtrip:
  assumes "\<forall>m \<in> set ms. serde_faithful ser de m"
    and "map (encode_line ser) ms = map Ok ls" and "\<forall>l \<in> set ls. valid_utf8 l"
  shows "map (decode_line de) (input_lines (concat ls)) = map Ok ms"
  using assms
proof (induction ms arbitrary: ls)
  case (Cons m ms)
  then obtain l ls' where ls: "ls = l # ls'" "encode_line ser m = Ok l"
    "map (encode_line ser) ms = map Ok ls'" by (cases ls) auto
  from Cons.prems(1) obtain s where s: "ser m = Ok s" "newline \<notin> set s" "carriage_return \<notin> set s" "de s = Ok m"
    by (auto simp: serde_faithful_def)
  from ls s have l: "l = s @ [newline]" by (auto simp: encode_line_def)
  have t: "trim_line_end s = s" "trim_line_end (s @ [newline]) = s"
    using trim_line_end_clean [OF s(2,3), of "[]"] trim_line_end_clean [OF s(2,3), of "[newline]"] by simp_all
  have "from_utf8_lossy l = l" using Cons.prems(3) ls(1) by (simp add: lossy_valid)
  with Cons.IH [OF _ ls(3)] Cons.prems(1,3) s(4) t show ?case
    by (simp add: ls(1) l input_lines_def split_inclusive_line [OF s(2)] decode_line_def)
qed (simp add: input_lines_def)

section \<open>Witnesses\<close>

definition ex_turn :: turn where
  "ex_turn = \<lparr>tu_lines = [], tu_now = 9000,
     tu_reading = \<lparr>rd_cpu = 0, rd_mem_used = 0, rd_mem_total = 0, rd_nets = [], rd_disks = [], rd_load1 = 0, rd_windows = False\<rparr>,
     tu_io = (\<lambda>_. None), tu_zellij = ex_zellij, tu_fail = None\<rparr>"

theorem heartbeat_recent_witness:
  "\<exists>b \<in> beats (snd (run_step ex_lib 77 (fst (run_start ex_server (PM_Heartbeat 1) None)) (RI_Turn ex_turn))).
     unat (tu_now ex_turn) - unat b < 5000"
  using heartbeat_recent [of "[]" ex_turn ex_lib 77 ex_server "PM_Heartbeat 1"
      "fst (run_start ex_server (PM_Heartbeat 1) None)" "[]"]
  by (auto simp: ex_turn_def run_start_def)

theorem input_roundtrip_witness:
  "map (decode_line (\<lambda>s. case parse_u64 s of None \<Rightarrow> Err () | Some n \<Rightarrow> Ok n))
     (input_lines (concat [show_u64 7 @ [newline], show_u64 41 @ [newline]])) = map Ok [7, 41]"
proof -
  let ?de = "\<lambda>s. case parse_u64 s of None \<Rightarrow> Err () | Some n \<Rightarrow> Ok n" and ?ser = "\<lambda>n. Ok (show_u64 n)"
  have "\<forall>m \<in> set [7, 41]. serde_faithful ?ser ?de m"
    by (simp add: serde_faithful_def show_u64_clean)
  moreover have "valid_utf8 (show_u64 7 @ [newline])" "valid_utf8 (show_u64 41 @ [newline])" by code_simp+
  ultimately show ?thesis
    using input_roundtrip [of "[7, 41]" ?ser ?de "[show_u64 7 @ [newline], show_u64 41 @ [newline]]"]
    by (simp add: encode_line_def)
qed

end
