(* ===== verification/Zellij_Cli.thy ===== *)
theory Zellij_Cli
  imports Serve Mai_Path Mai_Types Utf8
begin

text \<open>
  The zellij command line (\<open>crates/mai-probe/src/zellij.rs\<close>): finding the binary, running it with a time limit,
  reading its output, and the \<open>Zellij\<close> interface of the serve loop built on it.

  A command's run is an argument: \<open>spawn\<close> says how starting \<open>exe args\<close> fails or which process it gives; a process
  answers \<open>try_wait\<close> at each point of time and has output on both pipes. JSON decoding is an argument too.
\<close>

section \<open>Reading the output\<close>

fun before :: "string \<Rightarrow> string \<Rightarrow> string" where
  "before pat [] = []"
| "before pat (c # cs) = (if prefix pat (c # cs) then [] else c # before pat cs)"

definition parse_session :: "string \<Rightarrow> session_info option" where
  "parse_session l =
     (let name = trim (before '' [Created'' l)
      in if name = [] then None else Some \<lparr>si_name = name, si_exited = contains l ''(EXITED''\<rparr>)"

definition parse_sessions :: "string \<Rightarrow> session_info list" where
  "parse_sessions text = List.map_filter parse_session (filter (\<lambda>l. l \<noteq> []) (map trim (lines text)))"

definition NO_SESSIONS :: string where "NO_SESSIONS = ''No active zellij sessions''"

definition sessions_from_output :: "bool \<Rightarrow> string \<Rightarrow> string \<Rightarrow> string + session_info list" where
  "sessions_from_output success stdout stderr =
     (if contains stdout NO_SESSIONS \<or> contains stderr NO_SESSIONS then Ok []
      else if success then Ok (parse_sessions stdout)
      else Err (''zellij list-sessions failed: '' @ trim stderr))"

record raw_pane =
  rw_id :: u32
  rw_is_plugin :: bool
  rw_title :: string
  rw_exited :: bool
  rw_tab_id :: u32
  rw_tab_name :: string
  rw_terminal_command :: "string option"
  rw_pane_command :: "string option"

definition pane_of_raw :: "raw_pane \<Rightarrow> pane_info" where
  "pane_of_raw p =
     \<lparr>pi_id = rw_id p, pi_tab_id = rw_tab_id p, pi_tab_name = rw_tab_name p, pi_title = rw_title p,
      pi_command = (case rw_pane_command p of Some c \<Rightarrow> Some c | None \<Rightarrow> rw_terminal_command p),
      pi_exited = rw_exited p\<rparr>"

definition parse_panes :: "(string \<Rightarrow> string + raw_pane list) \<Rightarrow> string \<Rightarrow> string + pane_info list" where
  "parse_panes from_str json =
     (case from_str json of
        Err e \<Rightarrow> Err e
      | Ok raw \<Rightarrow> Ok (map pane_of_raw (filter (\<lambda>p. \<not> rw_is_plugin p) raw)))"

definition parse_version :: "string \<Rightarrow> string option" where
  "parse_version text = (case split_whitespace text of _ # v # _ \<Rightarrow> Some v | _ \<Rightarrow> None)"

section \<open>Finding the binary\<close>

definition EXE_NAMES :: "string list" where "EXE_NAMES = [''zellij'', ''zellij.exe'']"

definition exe_in :: "(path \<Rightarrow> bool) \<Rightarrow> path \<Rightarrow> path option" where
  "exe_in is_file dir = find is_file (map (path_join dir) EXE_NAMES)"

fun find_map :: "('a \<Rightarrow> 'b option) \<Rightarrow> 'a list \<Rightarrow> 'b option" where
  "find_map f [] = None"
| "find_map f (x # xs) = (case f x of Some y \<Rightarrow> Some y | None \<Rightarrow> find_map f xs)"

definition default_dirs :: "path \<Rightarrow> path list" where
  "default_dirs home =
     [''/opt/homebrew/bin'', ''/usr/local/bin'', path_join (path_join home ''.cargo'') ''bin'',
      path_join (path_join home ''.local'') ''bin'']"

definition find_zellij_in :: "(path \<Rightarrow> bool) \<Rightarrow> path option \<Rightarrow> string option \<Rightarrow> path list \<Rightarrow> path option" where
  "find_zellij_in is_file explicit path_env dirs =
     (case explicit of
        Some p \<Rightarrow> if is_file p then Some p else None
      | None \<Rightarrow>
          (case find_map (exe_in is_file) (case path_env of None \<Rightarrow> [] | Some e \<Rightarrow> split_on CHR '':'' e) of
             Some p \<Rightarrow> Some p
           | None \<Rightarrow> find_map (exe_in is_file) dirs))"

definition find_zellij :: "(path \<Rightarrow> bool) \<Rightarrow> path option \<Rightarrow> string option \<Rightarrow> path \<Rightarrow> path option" where
  "find_zellij is_file explicit path_env home = find_zellij_in is_file explicit path_env (default_dirs home)"

section \<open>Running a command\<close>

definition COMMAND_TIMEOUT :: duration where "COMMAND_TIMEOUT = 5000"

record cmd_output =
  ou_success :: bool
  ou_status :: string
  ou_stdout :: string
  ou_stderr :: string

text \<open>A process: what \<open>try_wait\<close> says at a time (milliseconds after the start), and its output. A process given up
  is killed and waited for; the results of both calls are dropped, so they do not show in what is returned.\<close>

record process =
  pr_try_wait :: "nat \<Rightarrow> string + (bool \<times> string) option"
  pr_stdout :: string
  pr_stderr :: string

function wait_until :: "(nat \<Rightarrow> string + 'st option) \<Rightarrow> nat \<Rightarrow> nat \<Rightarrow> (string + 'st option) \<times> nat" where
  "wait_until try_wait now deadline =
     (case try_wait now of
        Err e \<Rightarrow> (Err e, now)
      | Ok (Some st) \<Rightarrow> (Ok (Some st), now)
      | Ok None \<Rightarrow> if deadline \<le> now then (Ok None, now) else wait_until try_wait (now + 10) deadline)"
  by pat_completeness auto
termination
  by (relation "measure (\<lambda>(_, now, deadline). deadline - now)") auto

declare wait_until.simps [simp del]

definition output_with_timeout :: "(string + process) \<Rightarrow> duration \<Rightarrow> string + cmd_output option" where
  "output_with_timeout spawned timeout =
     (case spawned of
        Err e \<Rightarrow> Err e
      | Ok p \<Rightarrow>
          (case fst (wait_until (pr_try_wait p) 0 timeout) of
             Err e \<Rightarrow> Err e
           | Ok None \<Rightarrow> Ok None
           | Ok (Some (success, status)) \<Rightarrow>
               Ok (Some \<lparr>ou_success = success, ou_status = status, ou_stdout = pr_stdout p, ou_stderr = pr_stderr p\<rparr>)))"

definition find_via_login_shell ::
    "(path \<Rightarrow> string list \<Rightarrow> string + process) \<Rightarrow> (path \<Rightarrow> bool) \<Rightarrow> path \<Rightarrow> path option" where
  "find_via_login_shell spawn is_file shell =
     (case output_with_timeout (spawn shell [''-lc'', ''command -v zellij'']) COMMAND_TIMEOUT of
        Ok (Some out) \<Rightarrow>
          (case from_utf8 (ou_stdout out) of
             None \<Rightarrow> None
           | Some t \<Rightarrow> if ou_success out \<and> is_file (trim t) then Some (trim t) else None)
      | _ \<Rightarrow> None)"

section \<open>The interface of the serve loop\<close>

record cli_lib =
  zl_spawn :: "path \<Rightarrow> string list \<Rightarrow> string + process"
  zl_panes :: "string \<Rightarrow> string + raw_pane list"

definition run_raw :: "cli_lib \<Rightarrow> path \<Rightarrow> string list \<Rightarrow> string + cmd_output" where
  "run_raw lib exe args =
     (case output_with_timeout (zl_spawn lib exe args) COMMAND_TIMEOUT of
        Ok (Some out) \<Rightarrow> Ok out
      | Ok None \<Rightarrow> Err (''zellij timed out after '' @ show_nat (COMMAND_TIMEOUT div 1000) @ ''s'')
      | Err e \<Rightarrow> Err (''spawn '' @ exe @ '': '' @ e))"

definition zellij_run :: "cli_lib \<Rightarrow> path \<Rightarrow> string list \<Rightarrow> string + string" where
  "zellij_run lib exe args =
     (case run_raw lib exe args of
        Err e \<Rightarrow> Err e
      | Ok out \<Rightarrow>
          if \<not> ou_success out
          then Err (''zellij exited with '' @ ou_status out @ '': '' @ trim (from_utf8_lossy (ou_stderr out)))
          else Ok (from_utf8_lossy (ou_stdout out)))"

definition zellij_action :: "cli_lib \<Rightarrow> path \<Rightarrow> string \<Rightarrow> string list \<Rightarrow> string + string" where
  "zellij_action lib exe session rest = zellij_run lib exe ([''--session'', session, ''action''] @ rest)"

definition zellij_version :: "cli_lib \<Rightarrow> path \<Rightarrow> string + string" where
  "zellij_version lib exe =
     (case zellij_run lib exe [''--version''] of
        Err e \<Rightarrow> Err e
      | Ok out \<Rightarrow> (case parse_version out of None \<Rightarrow> Err (''bad version output: '' @ out) | Some v \<Rightarrow> Ok v))"

definition pane_arg :: "u32 \<Rightarrow> string" where
  "pane_arg pane_id = ''terminal_'' @ show_u32 pane_id"

definition drop_ok :: "string + 'a \<Rightarrow> string + unit" where
  "drop_ok r = (case r of Err e \<Rightarrow> Err e | Ok _ \<Rightarrow> Ok ())"

definition cli_sessions :: "cli_lib \<Rightarrow> path \<Rightarrow> string + session_info list" where
  "cli_sessions lib exe =
     (case run_raw lib exe [''list-sessions'', ''-n''] of
        Err e \<Rightarrow> Err e
      | Ok out \<Rightarrow> sessions_from_output (ou_success out) (from_utf8_lossy (ou_stdout out)) (from_utf8_lossy (ou_stderr out)))"

definition cli_panes :: "cli_lib \<Rightarrow> path \<Rightarrow> string \<Rightarrow> string + pane_info list" where
  "cli_panes lib exe session =
     (case zellij_action lib exe session [''list-panes'', ''-a'', ''-j''] of
        Err e \<Rightarrow> Err e
      | Ok out \<Rightarrow> (case parse_panes (zl_panes lib) out of Err e \<Rightarrow> Err (''list-panes json: '' @ e) | Ok ps \<Rightarrow> Ok ps))"

definition cli_focus :: "cli_lib \<Rightarrow> path \<Rightarrow> string \<Rightarrow> u32 \<Rightarrow> u32 \<Rightarrow> string + unit" where
  "cli_focus lib exe session tab_id pane_id =
     (case zellij_action lib exe session [''go-to-tab-by-id'', show_u32 tab_id] of
        Err e \<Rightarrow> Err e
      | Ok _ \<Rightarrow> drop_ok (zellij_action lib exe session [''focus-pane-id'', pane_arg pane_id]))"

definition cli_zellij :: "cli_lib \<Rightarrow> path \<Rightarrow> zellij" where
  "cli_zellij lib exe =
     \<lparr>zj_sessions = cli_sessions lib exe,
      zj_panes = cli_panes lib exe,
      zj_dump_screen = (\<lambda>session pane_id. zellij_action lib exe session [''dump-screen'', ''-p'', pane_arg pane_id]),
      zj_paste = (\<lambda>session pane_id t. drop_ok (zellij_action lib exe session [''paste'', ''-p'', pane_arg pane_id, t])),
      zj_focus = cli_focus lib exe\<rparr>"

section \<open>A hung command is given up\<close>

lemma wait_until_bound:
  "wait_until f now deadline = (r, t) \<Longrightarrow> now \<le> deadline + 10 \<Longrightarrow> now < deadline + 10 \<Longrightarrow>
   now \<le> t \<and> t < deadline + 10 \<and> (r = Ok None \<longleftrightarrow> (\<forall>k. now + 10 * k < deadline + 10 \<longrightarrow> f (now + 10 * k) = Ok None))"
proof (induction f now deadline arbitrary: r t rule: wait_until.induct)
  case (1 f now deadline)
  show ?case
  proof (cases "f now = Ok None \<and> now < deadline")
    case True
    then have "wait_until f (now + 10) deadline = (r, t)" using 1(2) by (simp add: wait_until.simps [of f now])
    with 1(1) [of None] True
    have IH: "now + 10 \<le> t" "t < deadline + 10"
      "r = Ok None \<longleftrightarrow> (\<forall>k. now + 10 + 10 * k < deadline + 10 \<longrightarrow> f (now + 10 + 10 * k) = Ok None)" by auto
    have "(\<forall>k. P k) \<longleftrightarrow> P 0 \<and> (\<forall>k. P (Suc k))" for P by (metis not0_implies_Suc)
    from this [of "\<lambda>k. now + 10 * k < deadline + 10 \<longrightarrow> f (now + 10 * k) = Ok None"] IH True show ?thesis
      by (simp add: add.assoc)
  next
    case False
    show ?thesis
    proof (cases "f now = Ok None")
      case True
      with False have d: "deadline \<le> now" by simp
      then have "(r, t) = (Ok None, now)" using 1(2) True by (simp add: wait_until.simps [of f now])
      moreover have "\<forall>k. now + 10 * k < deadline + 10 \<longrightarrow> f (now + 10 * k) = Ok None"
      proof (intro allI impI)
        fix k assume "now + 10 * k < deadline + 10"
        with d have "k = 0" by simp
        with True show "f (now + 10 * k) = Ok None" by simp
      qed
      ultimately show ?thesis using 1(4) by simp
    next
      case other: False
      then have "r = f now \<and> r \<noteq> Ok None \<and> t = now"
        using 1(2) by (auto simp: wait_until.simps [of f now] split: sum.splits option.splits)
      moreover have "\<exists>k. now + 10 * k < deadline + 10 \<and> f (now + 10 * k) \<noteq> Ok None"
        using other 1(4) by (intro exI [of _ 0]) simp
      ultimately show ?thesis using 1(4) by auto
    qed
  qed
qed

text \<open>Waiting for the exit of a zellij command is bounded: it ends less than ten milliseconds after the limit of
  five seconds, and the command is given up exactly when it was still running at every poll until then (time
  passes only in the sleeps between polls).\<close>

theorem command_bounded:
  "snd (wait_until try_wait 0 COMMAND_TIMEOUT) < COMMAND_TIMEOUT + 10
   \<and> (fst (wait_until try_wait 0 COMMAND_TIMEOUT) = Ok None \<longleftrightarrow>
        (\<forall>k. 10 * k < COMMAND_TIMEOUT + 10 \<longrightarrow> try_wait (10 * k) = Ok None))"
  using wait_until_bound [of try_wait 0 COMMAND_TIMEOUT "fst (wait_until try_wait 0 COMMAND_TIMEOUT)" "snd (wait_until try_wait 0 COMMAND_TIMEOUT)"]
  by (simp add: COMMAND_TIMEOUT_def)

theorem command_bounded_witness:
  "fst (wait_until (\<lambda>_. Ok None :: string + unit option) 0 COMMAND_TIMEOUT) = Ok None"
  using command_bounded [of "\<lambda>_. Ok None :: string + unit option"] by simp

section \<open>The list of sessions reads back\<close>

definition session_line :: "session_info \<Rightarrow> string \<Rightarrow> string" where
  "session_line s age = si_name s @ '' [Created '' @ age @ '' ago]'' @ (if si_exited s then '' (EXITED - attach to resurrect)'' else [])"

lemma before_append:
  assumes "\<not> sublist '' [Created'' name"
  shows "before '' [Created'' (name @ '' [Created'' @ rest) = name"
  using assms
proof (induction name)
  case (Cons c cs)
  let ?p = "'' [Created''"
  have "\<not> prefix ?p (c # cs @ ?p @ rest)"
  proof
    assume a: "prefix ?p (c # cs @ ?p @ rest)"
    show False
    proof (cases "length ?p \<le> length (c # cs)")
      case True
      then have "prefix ?p (c # cs)" using a prefix_prefix [of ?p] by (metis append_Cons prefix_length_prefix prefixI)
      with Cons.prems show False by (meson prefix_imp_sublist)
    next
      case False
      define n where "n = length (c # cs)"
      from False have "0 < n" "n < 9" by (simp_all add: n_def)
      then have n: "n = 1 \<or> n = 2 \<or> n = 3 \<or> n = 4 \<or> n = 5 \<or> n = 6 \<or> n = 7 \<or> n = 8" by presburger
      from a obtain zs where "(c # cs) @ ?p @ rest = ?p @ zs" by (auto simp: prefix_def)
      then have "((c # cs) @ ?p @ rest) ! n = (?p @ zs) ! n" by (rule arg_cong)
      moreover have "((c # cs) @ ?p @ rest) ! n = CHR '' ''" by (simp add: n_def)
      ultimately have "(?p @ zs) ! n = CHR '' ''" by simp
      with n show False by auto
    qed
  qed
  moreover have "\<not> sublist ?p cs"
  proof
    assume "sublist ?p cs"
    then have "sublist ?p (c # cs)" by (rule disjI2 [THEN sublist_Cons_right [THEN iffD2]])
    with Cons.prems show False ..
  qed
  ultimately show ?case using Cons.IH by (simp only: append_Cons before.simps simp_thms if_False list.inject)
qed simp

lemma whitespace_space: "w \<in> set whitespace \<Longrightarrow> CHR '' '' \<in> set w \<Longrightarrow> w = '' ''"
  by (auto simp: whitespace_def)

lemma ws_len_0: "ws_len s = 0 \<longleftrightarrow> (\<forall>w \<in> set whitespace. \<not> prefix w s)"
proof (cases "find (starts_with s) whitespace")
  case (Some w)
  then have "w \<in> set whitespace" "prefix w s" by (auto simp: find_Some_iff)
  with Some whitespace_nonempty [of w] show ?thesis by (auto simp: ws_len_def)
next
  case None
  then have "ws_len s = 0" by (simp only: ws_len_def option.case)
  then show ?thesis using None by (simp add: find_None_iff)
qed

lemma ws_end_len_0: "ws_end_len s = 0 \<longleftrightarrow> (\<forall>w \<in> set whitespace. \<not> suffix w s)"
proof (cases "find (ends_with s) whitespace")
  case (Some w)
  then have "w \<in> set whitespace" "suffix w s" by (auto simp: find_Some_iff)
  with Some whitespace_nonempty [of w] show ?thesis by (auto simp: ws_end_len_def)
next
  case None
  then have "ws_end_len s = 0" by (simp only: ws_end_len_def option.case)
  then show ?thesis using None by (simp add: find_None_iff)
qed

lemma trim_start_length: "length (trim_start t) \<le> length t"
  by (induction t rule: trim_start.induct) (subst trim_start.simps, auto)

lemma trim_end_length: "length (trim_end t) \<le> length t"
  by (induction t rule: trim_end.induct) (subst trim_end.simps, auto)

lemma trim_fixed: "trim s = s \<Longrightarrow> s \<noteq> [] \<Longrightarrow> ws_len s = 0"
proof (rule ccontr)
  assume a: "trim s = s" "s \<noteq> []" "ws_len s \<noteq> 0"
  then have "trim_start s = trim_start (drop (ws_len s) s)" by (simp add: trim_start.simps [of s])
  then have "length (trim_start s) < length s"
    using trim_start_length [of "drop (ws_len s) s"] a by (metis diff_less length_drop length_greater_0_conv not_gr_zero order_le_less_trans)
  with a(1) trim_end_length [of "trim_start s"] show False by (simp add: trim_def)
qed

lemma line_start:
  assumes "trim name = name" "name \<noteq> []"
  shows "ws_len (name @ CHR '' '' # rest) = 0"
  unfolding ws_len_0
proof
  fix w assume w: "w \<in> set whitespace"
  show "\<not> prefix w (name @ CHR '' '' # rest)"
  proof
    assume p: "prefix w (name @ CHR '' '' # rest)"
    have "\<not> prefix w name" using trim_fixed [OF assms] w by (simp add: ws_len_0)
    with p have "length name < length w" by (metis leI prefix_length_prefix prefix_def)
    moreover from p obtain zs where "name @ CHR '' '' # rest = w @ zs" by (auto simp: prefix_def)
    ultimately have "w ! length name = CHR '' ''" by (metis nth_append nth_append_length)
    then have "CHR '' '' \<in> set w" using \<open>length name < length w\<close> by (metis nth_mem)
    with whitespace_space [OF w] have "w = '' ''" .
    with \<open>length name < length w\<close> assms(2) show False by simp
  qed
qed

lemma line_end: "c \<in> {CHR '']'', CHR '')''} \<Longrightarrow> ws_end_len (s @ [c]) = 0"
  by (auto simp: ws_end_len_0 whitespace_def suffix_def)

lemma trim_line:
  assumes "trim (si_name s) = si_name s" "si_name s \<noteq> []"
  shows "trim (session_line s age) = session_line s age"
proof -
  have "\<exists>rest. session_line s age = si_name s @ CHR '' '' # rest" by (simp add: session_line_def)
  then have "trim_start (session_line s age) = session_line s age"
    using line_start [OF assms] by (metis trim_start.simps)
  moreover have "\<exists>l c. session_line s age = l @ [c] \<and> c \<in> {CHR '']'', CHR '')''}"
  proof (cases "si_exited s")
    case True
    have "session_line s age = (si_name s @ '' [Created '' @ age @ '' ago] (EXITED - attach to resurrect'') @ '')''"
      using True by (simp add: session_line_def)
    then show ?thesis by blast
  next
    case False
    have "session_line s age = (si_name s @ '' [Created '' @ age @ '' ago'') @ '']''" using False by (simp add: session_line_def)
    then show ?thesis by blast
  qed
  then have "trim_end (session_line s age) = session_line s age" using line_end by (metis trim_end.simps)
  ultimately show ?thesis by (simp add: trim_def)
qed

lemma no_paren: "CHR ''('' \<notin> set s \<Longrightarrow> \<not> sublist ''(EXITED'' s"
  by (auto simp: sublist_def)

definition listable :: "session_info \<Rightarrow> bool" where
  "listable s \<longleftrightarrow> trim (si_name s) = si_name s \<and> si_name s \<noteq> [] \<and> newline \<notin> set (si_name s)
     \<and> \<not> sublist '' [Created'' (si_name s) \<and> CHR ''('' \<notin> set (si_name s)"

lemma parse_session_line:
  assumes "listable s" "CHR ''('' \<notin> set age"
  shows "parse_session (session_line s age) = Some s"
proof -
  have b: "before '' [Created'' (session_line s age) = si_name s"
    using before_append [of "si_name s"] assms(1) by (simp add: session_line_def listable_def)
  have e: "contains (session_line s age) ''(EXITED'' = si_exited s"
  proof (cases "si_exited s")
    case True
    then have "session_line s age = (si_name s @ '' [Created '' @ age @ '' ago] '') @ ''(EXITED'' @ '' - attach to resurrect)''"
      by (simp add: session_line_def)
    then show ?thesis using True by (simp only: sublist_appendI)
  next
    case False
    then show ?thesis using assms by (simp add: no_paren session_line_def listable_def)
  qed
  show ?thesis unfolding parse_session_def b e using assms(1) by (simp add: listable_def)
qed

lemma lines_of_lines:
  assumes "\<forall>l \<in> set ls. newline \<notin> set l \<and> \<not> suffix [carriage_return] l"
  shows "lines (concat (map (\<lambda>l. l @ [newline]) ls)) = ls"
  using assms
proof (induction ls)
  case (Cons l ls)
  have "split_inclusive newline ((l @ [newline]) @ concat (map (\<lambda>l. l @ [newline]) ls))
      = [l @ [newline]] @ split_inclusive newline (concat (map (\<lambda>l. l @ [newline]) ls))"
    using Cons.prems by (subst split_inclusive_append) (simp_all add: split_inclusive_single)
  moreover have "line_of (l @ [newline]) = l" using Cons.prems by (simp add: line_of_def strip_suffix_def)
  ultimately show ?case using Cons by (simp add: lines_def)
qed (simp add: lines_def)

text \<open>The sessions zellij lists are the sessions the probe sees: for names that are trimmed and contain no line
  break, no parenthesis and not the text before the age, \<open>parse_sessions\<close> gives back every session of
  \<open>list-sessions -n\<close> in order, with its name and whether it has exited.\<close>

theorem sessions_roundtrip:
  assumes "\<forall>(s, age) \<in> set xs. listable s \<and> newline \<notin> set age \<and> CHR ''('' \<notin> set age"
  shows "parse_sessions (concat (map (\<lambda>(s, age). session_line s age @ [newline]) xs)) = map fst xs"
proof -
  let ?ls = "map (\<lambda>(s, age). session_line s age) xs"
  have "newline \<notin> set (session_line s age) \<and> \<not> suffix [carriage_return] (session_line s age)" if "(s, age) \<in> set xs" for s age
    using assms that by (auto simp: session_line_def listable_def suffix_def)
  then have l: "lines (concat (map (\<lambda>l. l @ [newline]) ?ls)) = ?ls" by (intro lines_of_lines) auto
  have t: "map trim ?ls = ?ls" using assms trim_line by (auto simp: listable_def)
  have "List.map_filter parse_session (filter (\<lambda>l. l \<noteq> []) ?ls) = map fst xs"
    using assms
  proof (induction xs)
    case (Cons x xs)
    obtain s age where x: "x = (s, age)" by force
    with Cons.prems have "parse_session (session_line s age) = Some s" by (simp add: parse_session_line)
    moreover have "session_line s age \<noteq> []" by (simp add: session_line_def)
    ultimately show ?case using Cons x by (simp add: List.map_filter_simps)
  qed (simp add: List.map_filter_simps)
  moreover have "concat (map (\<lambda>(s, age). session_line s age @ [newline]) xs) = concat (map (\<lambda>l. l @ [newline]) ?ls)"
    by (induction xs) auto
  ultimately show ?thesis unfolding parse_sessions_def by (simp only: l t)
qed

theorem sessions_roundtrip_witness:
  "parse_sessions (concat (map (\<lambda>(s, age). session_line s age @ [newline])
     [(\<lparr>si_name = ''work'', si_exited = False\<rparr>, ''2days''), (\<lparr>si_name = ''old one'', si_exited = True\<rparr>, ''1h'')]))
   = [\<lparr>si_name = ''work'', si_exited = False\<rparr>, \<lparr>si_name = ''old one'', si_exited = True\<rparr>]"
proof -
  have t: "trim ''work'' = ''work''" "trim ''old one'' = ''old one''" by code_simp+
  show ?thesis
    using sessions_roundtrip [of "[(\<lparr>si_name = ''work'', si_exited = False\<rparr>, ''2days''), (\<lparr>si_name = ''old one'', si_exited = True\<rparr>, ''1h'')]"]
    by (simp add: listable_def t sublist_Cons_right)
qed

text \<open>The parenthesis matters: a running session with the mark in its name is taken for an exited one.\<close>

lemma name_taken_for_exited:
  "parse_session (session_line \<lparr>si_name = ''a(EXITED'', si_exited = False\<rparr> ''1h'') = Some \<lparr>si_name = ''a(EXITED'', si_exited = True\<rparr>"
  by code_simp

end
