(* ===== verification/Probe_Main.thy ===== *)
theory Probe_Main
  imports Instance Install Probe_Run Zellij_Cli
begin

text \<open>
  The command line of the probe (\<open>crates/mai-probe/src/main.rs\<close>) and the loop of \<open>run.rs\<close> to its end.

  What the process finds is \<open>cli_env\<close>: arguments and variables, its executable, standard input, the clock (one
  value for a command), the libraries (clap's parser, \<open>serde_json\<close>, \<open>toml\<close>) and the faults of the calls it makes. What
  it changes is \<open>cli_state\<close>: spool directories, configuration files, pid files and killed processes, the JSON lines it
  prints and what it writes to standard error.
\<close>

section \<open>Arguments and surroundings\<close>

datatype cmd =
    C_Serve "path option" "path option" string
  | C_Stop string
  | C_Hook string
  | C_Emit string string "string option"
  | C_InstallHooks
  | C_UninstallHooks

definition STOP_WAIT :: nat where "STOP_WAIT = 3000"

record 'r cli_env =
  ce_args :: "string list"
  ce_clap :: "string list \<Rightarrow> (string \<times> nat) + cmd"
  ce_var :: "string \<Rightarrow> string option"
  ce_windows :: bool
  ce_current_exe :: "string + path"
  ce_stdin :: "string + string"
  ce_now :: u64
  ce_json :: "string \<Rightarrow> string + json"
  ce_ser :: "spool_record \<Rightarrow> string + string"
  ce_rules_de :: "string \<Rightarrow> string + scrape_rules"
  ce_default_toml :: string
  ce_read_file :: "path \<Rightarrow> string + string"
  ce_is_file :: "path \<Rightarrow> bool"
  ce_is_dir :: "path \<Rightarrow> bool"
  ce_spool_io :: io
  ce_install_io :: install_io
  ce_json_lib :: json_lib
  ce_inst :: inst_env
  ce_cli_lib :: cli_lib
  ce_serve_lib :: "'r serve_lib"
  ce_version :: string
  ce_os :: string
  ce_arch :: string
  ce_hello_fail :: "nat option"
  ce_write_error :: string

text \<open>A spool directory is whether it exists, and its files.\<close>

record cli_state =
  cx_spools :: "path \<Rightarrow> bool \<times> (string, string) dict"
  cx_nodes :: node_store
  cx_inst :: inst
  cx_stdout :: "json list"
  cx_stderr :: "string list"

definition eprint :: "string \<Rightarrow> cli_state \<Rightarrow> cli_state" where
  "eprint t st = st\<lparr>cx_stderr := cx_stderr st @ [t]\<rparr>"

definition print_json :: "json \<Rightarrow> cli_state \<Rightarrow> cli_state" where
  "print_json j st = st\<lparr>cx_stdout := cx_stdout st @ [j]\<rparr>"

definition home_dir :: "'r cli_env \<Rightarrow> path" where
  "home_dir env =
     (let (first, second) = (if ce_windows env then (''USERPROFILE'', ''HOME'') else (''HOME'', ''USERPROFILE''))
      in case ce_var env first of
           Some d \<Rightarrow> d
         | None \<Rightarrow> (case ce_var env second of Some d \<Rightarrow> d | None \<Rightarrow> ''.''))"

definition probe_data :: "'r cli_env \<Rightarrow> path \<Rightarrow> path" where
  "probe_data env home =
     data_dir (case ce_current_exe env of Ok p \<Rightarrow> Some p | Err _ \<Rightarrow> None) (ce_var env ''MAI_HOME'') home"

definition spool_dir :: "path \<Rightarrow> path" where
  "spool_dir mai_home = path_join mai_home ''spool''"

section \<open>hook and emit\<close>

definition record_here :: "'r cli_env \<Rightarrow> string \<Rightarrow> json \<Rightarrow> spool_record option" where
  "record_here env agent payload =
     Option.bind (Option.bind (ce_var env ''ZELLIJ_SESSION_NAME'') from_utf8) (\<lambda>session.
       Option.bind (Option.bind (Option.bind (ce_var env ''ZELLIJ_PANE_ID'') from_utf8) parse_u32) (\<lambda>pane_id.
         Some \<lparr>sp_ts_ms = ce_now env, sp_agent = agent, sp_session = session, sp_pane_id = pane_id, sp_payload = payload\<rparr>))"

text \<open>\<open>trim_start_matches\<close> of the byte order mark.\<close>

fun strip_bom :: "string \<Rightarrow> string" where
  "strip_bom (a # b # c # r) = (if [a, b, c] = [CHR 0xEF, CHR 0xBB, CHR 0xBF] then strip_bom r else a # b # c # r)"
| "strip_bom s = s"

definition append_here :: "'r cli_env \<Rightarrow> path \<Rightarrow> spool_record \<Rightarrow> cli_state \<Rightarrow> cli_state \<times> (string + unit)" where
  "append_here env home rec st =
     (let dir = spool_dir (probe_data env home);
          (ex, files) = cx_spools st dir;
          (s, r) = append_record (ce_spool_io env) (ce_ser env) (spool_new ex files) rec
      in (st\<lparr>cx_spools := (cx_spools st)(dir := (so_exists s, so_files s))\<rparr>, r))"

definition cmd_hook :: "'r cli_env \<Rightarrow> path \<Rightarrow> string \<Rightarrow> cli_state \<Rightarrow> cli_state" where
  "cmd_hook env home agent st =
     (case ce_stdin env of
        Err e \<Rightarrow> eprint (''mai-probe hook: read stdin: '' @ e) st
      | Ok text \<Rightarrow>
          (case ce_json env (strip_bom text) of
             Err e \<Rightarrow> eprint (''mai-probe hook: payload is not JSON: '' @ e) st
           | Ok payload \<Rightarrow>
               (case record_here env agent payload of
                  None \<Rightarrow> st
                | Some rec \<Rightarrow>
                    (case append_here env home rec st of
                       (st1, Err e) \<Rightarrow> eprint (''mai-probe hook: spool: '' @ e) st1
                     | (st1, Ok _) \<Rightarrow> st1))))"

definition cmd_emit :: "'r cli_env \<Rightarrow> path \<Rightarrow> string \<Rightarrow> string \<Rightarrow> string option \<Rightarrow> cli_state \<Rightarrow> cli_state \<times> nat" where
  "cmd_emit env home agent state msg st =
     (if sl_de_state (ce_serve_lib env) (JStr state) = None
      then (eprint (''mai-probe emit: unknown state '' @ CHR 0x27 # state @ [CHR 0x27]) st, 2)
      else
        (case record_here env agent (JObj [(''state'', JStr state),
                (''message'', case msg of None \<Rightarrow> JNull | Some m \<Rightarrow> JStr m)]) of
           None \<Rightarrow> (eprint ''mai-probe emit: not inside a zellij pane (ZELLIJ_PANE_ID unset)'' st, 1)
         | Some rec \<Rightarrow>
             (case append_here env home rec st of
                (st1, Ok _) \<Rightarrow> (st1, 0)
              | (st1, Err e) \<Rightarrow> (eprint (''mai-probe emit: spool: '' @ e) st1, 1))))"

section \<open>install-hooks and uninstall-hooks\<close>

definition hook_targets :: "path \<Rightarrow> (string \<times> path \<times> string \<times> (string \<times> bool) list) list" where
  "hook_targets home =
     [(''claude'', path_join home ''.claude'', ''settings.json'', CLAUDE_EVENTS),
      (''codex'', path_join home ''.codex'', ''hooks.json'', CODEX_EVENTS)]"

definition error_line :: "string \<Rightarrow> string \<Rightarrow> json" where
  "error_line agent e = JObj [(''agent'', JStr agent), (''outcome'', JStr ''error''), (''error'', JStr e)]"

definition CODEX_NOTE :: string where
  "CODEX_NOTE = ''Codex runs these hooks only after you trust them: run /hooks in Codex''"

definition outcome_line :: "bool \<Rightarrow> string \<Rightarrow> path \<Rightarrow> outcome \<Rightarrow> json" where
  "outcome_line install agent path oc =
     JObj ([(''agent'', JStr agent), (''outcome'', JStr (outcome_str oc)), (''path'', JStr path)]
       @ (if install \<and> agent = ''codex'' \<and> oc \<noteq> OC_Unchanged then [(''note'', JStr CODEX_NOTE)] else []))"

definition hook_target ::
    "'r cli_env \<Rightarrow> bool \<Rightarrow> path \<Rightarrow> string \<times> path \<times> string \<times> (string \<times> bool) list \<Rightarrow> node_store \<Rightarrow> node_store \<times> json \<times> bool" where
  "hook_target env install exe tgt fs =
     (let (agent, dir, file, events) = tgt; path = path_join dir file
      in if \<not> ce_is_dir env dir
         then (fs, JObj [(''agent'', JStr agent), (''outcome'', JStr ''skipped''), (''reason'', JStr ''agent config dir not found'')], True)
         else
           (case if install
                 then install_file (ce_install_io env) (ce_json_lib env) path events (hook_command exe agent) (ce_now env) fs
                 else uninstall_file (ce_install_io env) (ce_json_lib env) path (ce_now env) fs of
              (fs1, Ok oc) \<Rightarrow> (fs1, outcome_line install agent path oc, True)
            | (fs1, Err e) \<Rightarrow> (fs1, error_line agent (show_install_error e), False)))"

fun run_targets ::
    "'r cli_env \<Rightarrow> bool \<Rightarrow> path \<Rightarrow> (string \<times> path \<times> string \<times> (string \<times> bool) list) list \<Rightarrow> cli_state \<Rightarrow> bool \<Rightarrow> cli_state \<times> bool" where
  "run_targets env install exe [] st ok = (st, ok)"
| "run_targets env install exe (tgt # ts) st ok =
     (case hook_target env install exe tgt (cx_nodes st) of
        (fs, line, fine) \<Rightarrow> run_targets env install exe ts (print_json line (st\<lparr>cx_nodes := fs\<rparr>)) (ok \<and> fine))"

definition cmd_hooks :: "'r cli_env \<Rightarrow> path \<Rightarrow> bool \<Rightarrow> cli_state \<Rightarrow> cli_state \<times> nat" where
  "cmd_hooks env home install st =
     (case ce_current_exe env of
        Err e \<Rightarrow> (eprint (''mai-probe: cannot locate own executable: '' @ e) st, 1)
      | Ok exe \<Rightarrow>
          (case if install then check_probe_exe exe else Ok () of
             Err e \<Rightarrow> (fold (\<lambda>(agent, _). print_json (error_line agent e)) (hook_targets home) st, 1)
           | Ok _ \<Rightarrow>
               (case run_targets env install exe (hook_targets home) st True of (st1, ok) \<Rightarrow> (st1, if ok then 0 else 1))))"

section \<open>stop and serve\<close>

definition cmd_stop :: "'r cli_env \<Rightarrow> path \<Rightarrow> string \<Rightarrow> cli_state \<Rightarrow> cli_state \<times> nat" where
  "cmd_stop env home client st =
     (case stop_recorded (ce_inst env) (cx_inst st) (pid_file (probe_data env home) client) STOP_WAIT of
        (i, stopped, _) \<Rightarrow>
          (print_json (JObj [(''stopped'', case stopped of None \<Rightarrow> JNull | Some pid \<Rightarrow> JNum (show_u32 pid))]) (st\<lparr>cx_inst := i\<rparr>), 0))"

text \<open>How \<open>serve\<close> ends when it does not end well: an error it returns, or a panic. The text of the built-in rules is the field
  \<open>ce_default_toml\<close> and the toml crate the field \<open>ce_rules_de\<close>.\<close>

datatype serve_fault = SF_Error string | SF_Panic string

definition parse_rules :: "'r cli_env \<Rightarrow> string \<Rightarrow> string + scrape_rules" where
  "parse_rules env doc = ce_rules_de env doc"

definition default_rules :: "'r cli_env \<Rightarrow> serve_fault + scrape_rules" where
  "default_rules env =
     (case parse_rules env (ce_default_toml env) of
        Err e \<Rightarrow> Err (SF_Panic (''built-in rules/default.toml is valid: '' @ e))
      | Ok r \<Rightarrow> Ok r)"

definition serve_rules :: "'r cli_env \<Rightarrow> path option \<Rightarrow> serve_fault + scrape_rules" where
  "serve_rules env rules =
     (case rules of
        None \<Rightarrow> default_rules env
      | Some p \<Rightarrow>
          (case ce_read_file env p of
             Err e \<Rightarrow> Err (SF_Error e)
           | Ok doc \<Rightarrow> (case parse_rules env doc of Err e \<Rightarrow> Err (SF_Error (p @ '': '' @ e)) | Ok r \<Rightarrow> Ok r)))"

definition serve_zellij :: "'r cli_env \<Rightarrow> path \<Rightarrow> path option \<Rightarrow> path option" where
  "serve_zellij env home zellij =
     (case find_zellij (ce_is_file env) zellij (ce_var env ''PATH'') home of
        Some p \<Rightarrow> Some p
      | None \<Rightarrow>
          (case ce_var env ''SHELL'' of
             None \<Rightarrow> None
           | Some shell \<Rightarrow>
               if \<not> ce_windows env \<and> zellij = None
               then find_via_login_shell (zl_spawn (ce_cli_lib env)) (ce_is_file env) shell else None))"

definition serve_hello :: "'r cli_env \<Rightarrow> path option \<Rightarrow> probe_msg" where
  "serve_hello env exe =
     PM_Hello PROTOCOL_VERSION (ce_version env) (ce_os env) (ce_arch env) exe
       (Option.bind exe (\<lambda>p. case zellij_version (ce_cli_lib env) p of Ok v \<Rightarrow> Some v | Err _ \<Rightarrow> None))"

text \<open>\<open>run\<close> to its end: \<open>None\<close> while it has not ended, else its result.\<close>

fun run_loop ::
    "'r cli_env \<Rightarrow> 'r probe_run \<Rightarrow> run_in list \<Rightarrow> 'r probe_run \<times> probe_msg list \<times> (string + unit) option" where
  "run_loop env rn [] = (rn, [], None)"
| "run_loop env rn (RI_Disconnected # ins) = (fst (run_step (ce_serve_lib env) (ie_self (ce_inst env)) rn RI_Disconnected), [], Some (Ok ()))"
| "run_loop env rn (RI_Turn t # ins) =
     (case run_step (ce_serve_lib env) (ie_self (ce_inst env)) rn (RI_Turn t) of
        (rn1, out) \<Rightarrow>
          if tu_fail t \<noteq> None then (rn1, out, Some (Err (ce_write_error env)))
          else (case run_loop env rn1 ins of (rn2, out2, r) \<Rightarrow> (rn2, out @ out2, r)))"

definition probe_serve :: "'r cli_env \<Rightarrow> 'r server \<Rightarrow> probe_msg \<Rightarrow> run_in list \<Rightarrow> 'r probe_run \<times> probe_msg list \<times> (string + unit) option" where
  "probe_serve env sv greet ins =
     (case run_start sv greet (ce_hello_fail env) of
        (rn, out) \<Rightarrow>
          if ce_hello_fail env \<noteq> None then (rn, out, Some (Err (ce_write_error env)))
          else (case run_loop env rn ins of (rn1, out1, r) \<Rightarrow> (rn1, out @ out1, r)))"

definition cmd_serve ::
    "'r cli_env \<Rightarrow> path \<Rightarrow> path option \<Rightarrow> path option \<Rightarrow> string \<Rightarrow> run_in list \<Rightarrow> cli_state
     \<Rightarrow> cli_state \<times> probe_msg list \<times> (serve_fault + unit) option" where
  "cmd_serve env home zellij rules client ins st =
     (case serve_rules env rules of
        Err e \<Rightarrow> (st, [], Some (Err e))
      | Ok rs \<Rightarrow>
          (let data = probe_data env home; pids = pid_file data client; dir = spool_dir data;
               (i1, _, _) = stop_recorded (ce_inst env) (cx_inst st) pids STOP_WAIT
           in case record_self (ce_inst env) i1 pids of
                (i2, Err e) \<Rightarrow> (st\<lparr>cx_inst := i2\<rparr>, [], Some (Err (SF_Error e)))
              | (i2, Ok _) \<Rightarrow>
                  (let exe = serve_zellij env home zellij;
                       greet = serve_hello env exe;
                       (ex, files) = cx_spools st dir;
                       (spools, msgs, result) =
                         (case server_new (ce_serve_lib env) (ce_spool_io env) (exe \<noteq> None) (for_client ex files client) rs of
                            Err e \<Rightarrow> (cx_spools st, [], Some (Err (SF_Error (show_rule_error e))))
                          | Ok sv \<Rightarrow>
                              (case probe_serve env sv greet ins of
                                 (rn, out, r) \<Rightarrow>
                                   (let s = sv_spool (rn_server rn)
                                    in ((cx_spools st)(dir := (so_exists s, so_files s)), out, map_option (map_sum SF_Error id) r))));
                       i3 = (if result = None then i2 else forget_self (ce_inst env) i2 pids)
                   in (st\<lparr>cx_inst := i3, cx_spools := spools\<rparr>, msgs, result))))"

section \<open>main\<close>

text \<open>The exit code is \<open>None\<close> while \<open>serve\<close> runs. What clap itself prints before it exits is left out.\<close>

definition probe_main :: "'r cli_env \<Rightarrow> run_in list \<Rightarrow> cli_state \<Rightarrow> cli_state \<times> probe_msg list \<times> nat option" where
  "probe_main env ins st =
     (case ce_clap env (ce_args env) of
        Err (e, code) \<Rightarrow>
          if (case ce_args env of _ # a # _ \<Rightarrow> a = ''hook'' | _ \<Rightarrow> False)
          then (eprint (''mai-probe hook: '' @ e) st, [], Some 0)
          else (st, [], Some code)
      | Ok c \<Rightarrow>
          (let home = home_dir env
           in case c of
                C_Serve zellij rules client \<Rightarrow>
                  (case cmd_serve env home zellij rules client ins st of
                     (st1, out, Some (Ok _)) \<Rightarrow> (st1, out, Some 0)
                   | (st1, out, Some (Err (SF_Error e))) \<Rightarrow> (eprint (''mai-probe serve: '' @ e) st1, out, Some 1)
                   | (st1, out, Some (Err (SF_Panic m))) \<Rightarrow> (eprint m st1, out, Some 101)
                   | (st1, out, None) \<Rightarrow> (st1, out, None))
              | C_Stop client \<Rightarrow> (case cmd_stop env home client st of (st1, code) \<Rightarrow> (st1, [], Some code))
              | C_Hook agent \<Rightarrow> (cmd_hook env home agent st, [], Some 0)
              | C_Emit agent state msg \<Rightarrow> (case cmd_emit env home agent state msg st of (st1, code) \<Rightarrow> (st1, [], Some code))
              | C_InstallHooks \<Rightarrow> (case cmd_hooks env home True st of (st1, code) \<Rightarrow> (st1, [], Some code))
              | C_UninstallHooks \<Rightarrow> (case cmd_hooks env home False st of (st1, code) \<Rightarrow> (st1, [], Some code))))"

section \<open>A hook never disturbs the agent\<close>

lemma eprint_frame [simp]:
  "cx_stdout (eprint t st) = cx_stdout st" "cx_nodes (eprint t st) = cx_nodes st" "cx_inst (eprint t st) = cx_inst st"
  "cx_spools (eprint t st) = cx_spools st"
  by (simp_all add: eprint_def)

lemma append_here_frame:
  assumes "append_here env home rec st = (st', r)"
  shows "cx_stdout st' = cx_stdout st" "cx_nodes st' = cx_nodes st" "cx_inst st' = cx_inst st"
    "d \<noteq> spool_dir (probe_data env home) \<Longrightarrow> cx_spools st' d = cx_spools st d"
  using assms by (auto simp: append_here_def Let_def split: prod.splits)

lemma cmd_hook_frame:
  "cx_stdout (cmd_hook env home agent st) = cx_stdout st" "cx_nodes (cmd_hook env home agent st) = cx_nodes st"
  "cx_inst (cmd_hook env home agent st) = cx_inst st"
  "d \<noteq> spool_dir (probe_data env home) \<Longrightarrow> cx_spools (cmd_hook env home agent st) d = cx_spools st d"
  by (auto simp: cmd_hook_def append_here_frame split: sum.splits option.splits prod.splits)

text \<open>A hook never disturbs the agent that runs it: whatever its arguments, input and surroundings, \<open>mai-probe hook\<close>
  exits with code 0 (a code of 2 would block the agent's action), prints nothing on standard output and changes
  nothing but the spool of its data directory. clap is only relied on to parse \<open>hook\<close> as the hook command.\<close>

theorem hook_never_blocks:
  assumes "ce_args env = exe # ''hook'' # rest"
    and "\<forall>c. ce_clap env (ce_args env) = Ok c \<longrightarrow> (\<exists>agent. c = C_Hook agent)"
    and "probe_main env ins st = (st', out, code)"
  shows "code = Some 0 \<and> out = [] \<and> cx_stdout st' = cx_stdout st \<and> cx_nodes st' = cx_nodes st \<and> cx_inst st' = cx_inst st
    \<and> (\<forall>d. d \<noteq> spool_dir (probe_data env (home_dir env)) \<longrightarrow> cx_spools st' d = cx_spools st d)"
  using assms by (cases "ce_clap env (ce_args env)") (auto simp: probe_main_def cmd_hook_frame)

section \<open>Hooks and serve share one spool\<close>

definition deployed_in :: "path \<Rightarrow> path \<Rightarrow> bool" where
  "deployed_in exe dir \<longleftrightarrow> (\<exists>bin n. path_parent exe = Some bin \<and> path_file_name bin = Some ''bin'' \<and> path_parent bin = Some dir
     \<and> path_file_name dir = Some n \<and> starts_with (from_utf8_lossy n) ''.mai'')"

lemma deployed_data: "ce_current_exe env = Ok exe \<Longrightarrow> deployed_in exe dir \<Longrightarrow> probe_data env home = dir"
  by (auto simp: probe_data_def data_dir_def deployed_in_def Let_def)


section \<open>Reports of install-hooks\<close>

definition is_error_line :: "json \<Rightarrow> bool" where
  "is_error_line j \<longleftrightarrow> get_field j ''outcome'' = Some (JStr ''error'')"

definition line_agent :: "json \<Rightarrow> json option" where
  "line_agent j = get_field j ''agent''"

lemma line_simps [simp]:
  "is_error_line (error_line a e)" "\<not> is_error_line (outcome_line i a p oc)"
  "line_agent (error_line a e) = Some (JStr a)" "line_agent (outcome_line i a p oc) = Some (JStr a)"
  by (cases oc; simp add: is_error_line_def error_line_def outcome_line_def line_agent_def)+

lemma hook_target_line:
  "hook_target env install exe (agent, dir, f, events) fs = (fs', line, fine) \<Longrightarrow>
   line_agent line = Some (JStr agent) \<and> (fine \<longleftrightarrow> \<not> is_error_line line)"
  by (auto simp: hook_target_def Let_def is_error_line_def line_agent_def split: if_splits prod.splits sum.splits)
    (auto simp: is_error_line_def [symmetric] line_agent_def [symmetric])

lemma run_targets_report:
  "run_targets env install exe ts st ok = (st', ok') \<Longrightarrow>
   \<exists>ls. cx_stdout st' = cx_stdout st @ ls \<and> map line_agent ls = map (\<lambda>t. Some (JStr (fst t))) ts
     \<and> (ok' \<longleftrightarrow> ok \<and> \<not> list_ex is_error_line ls)"
proof (induction env install exe ts st ok rule: run_targets.induct)
  case (2 env install exe tgt ts st ok)
  obtain fs line fine where h: "hook_target env install exe tgt (cx_nodes st) = (fs, line, fine)" by (metis surj_pair)
  obtain agent dir f events where t: "tgt = (agent, dir, f, events)" by (metis surj_pair)
  from 2(1) [OF h [symmetric] refl] 2(2) h obtain ls where
    "cx_stdout st' = cx_stdout st @ line # ls" "map line_agent ls = map (\<lambda>t. Some (JStr (fst t))) ts"
    "ok' \<longleftrightarrow> ok \<and> fine \<and> \<not> list_ex is_error_line ls" by (auto simp: print_json_def)
  with hook_target_line [OF h [unfolded t]] show ?case by (intro exI [of _ "line # ls"]) (simp add: t)
qed simp

text \<open>\<open>install-hooks\<close> and \<open>uninstall-hooks\<close> print one line for each agent, Claude Code first and then Codex, and
  the exit code says whether an agent failed: 0 when no line reports an error, else 1.\<close>

theorem hooks_exit_code:
  assumes "ce_current_exe env = Ok exe" "cmd_hooks env home install st = (st', code)"
  shows "\<exists>ls. cx_stdout st' = cx_stdout st @ ls \<and> map line_agent ls = [Some (JStr ''claude''), Some (JStr ''codex'')]
    \<and> code = (if list_ex is_error_line ls then 1 else 0)"
proof (cases "if install then check_probe_exe exe else Ok ()")
  case (Inl e)
  with assms have "cx_stdout st' = cx_stdout st @ [error_line ''claude'' e, error_line ''codex'' e]" "code = 1"
    by (auto simp: cmd_hooks_def hook_targets_def print_json_def)
  then show ?thesis by simp
next
  case (Inr u)
  obtain st1 ok where r: "run_targets env install exe (hook_targets home) st True = (st1, ok)" by force
  with assms Inr have "st' = st1" "code = (if ok then 0 else 1)" by (simp_all add: cmd_hooks_def)
  with run_targets_report [OF r] show ?thesis by (auto simp: hook_targets_def)
qed

section \<open>One serve per client\<close>


section \<open>Witnesses\<close>

definition ex_rec :: spool_record where
  "ex_rec = \<lparr>sp_ts_ms = 5, sp_agent = ''claude'', sp_session = ''work'', sp_pane_id = 3, sp_payload = JNull\<rparr>"

definition ex_cli :: "string cli_env" where
  "ex_cli = \<lparr>ce_args = [''mai-probe'', ''hook''], ce_clap = (\<lambda>a. if a = [''mai-probe'', ''hook'', ''claude''] then Ok (C_Hook ''claude'') else Err (''usage'', 2)),
     ce_var = [''HOME'' \<mapsto> ''/h'', ''ZELLIJ_SESSION_NAME'' \<mapsto> ''work'', ''ZELLIJ_PANE_ID'' \<mapsto> ''3''], ce_windows = False,
     ce_current_exe = Ok ''/h/.mai/bin/mai-probe'', ce_stdin = Ok ''null'', ce_now = 5,
     ce_json = (\<lambda>t. if t = ''null'' then Ok JNull else Err ''expected value''), ce_ser = (\<lambda>_. Ok ''{}''),
     ce_rules_de = (\<lambda>t. if t = ''# none'' then Ok \<lparr>sr_agents = []\<rparr> else Err ''bad''), ce_default_toml = ''# none'', ce_read_file = (\<lambda>_. Err ''gone''),
     ce_is_file = (\<lambda>_. False), ce_is_dir = (\<lambda>_. False), ce_spool_io = (\<lambda>_. None), ce_install_io = ex_io, ce_json_lib = ex_json,
     ce_inst = ex_inst_env, ce_cli_lib = \<lparr>zl_spawn = (\<lambda>_ _. Err ''no such file''), zl_panes = (\<lambda>_. Err ''bad'')\<rparr>,
     ce_serve_lib = ex_lib, ce_version = ''0.1.0'', ce_os = ''linux'', ce_arch = ''x86_64'', ce_hello_fail = None, ce_write_error = ''broken pipe''\<rparr>"

definition ex_cli_state :: cli_state where
  "ex_cli_state = \<lparr>cx_spools = (\<lambda>_. (False, [])), cx_nodes = [], cx_inst = ex_inst, cx_stdout = [], cx_stderr = []\<rparr>"

text \<open>A usage error of a hook: clap's own exit code would be 2.\<close>

theorem hook_never_blocks_witness:
  "snd (snd (probe_main ex_cli [] ex_cli_state)) = Some 0 \<and> cx_stdout (fst (probe_main ex_cli [] ex_cli_state)) = []"
proof -
  obtain st out code where m: "probe_main ex_cli [] ex_cli_state = (st, out, code)" by (metis surj_pair)
  have a: "ce_args ex_cli = ''mai-probe'' # ''hook'' # []" by (simp add: ex_cli_def)
  have "\<forall>c. ce_clap ex_cli (ce_args ex_cli) = Ok c \<longrightarrow> (\<exists>agent. c = C_Hook agent)" by (simp add: ex_cli_def)
  from hook_never_blocks [OF a this m] m show ?thesis by (simp add: ex_cli_state_def)
qed

lemma ex_record_here: "record_here ex_cli ''claude'' JNull = Some ex_rec"
proof -
  have "from_utf8 ''work'' = Some ''work''" "from_utf8 ''3'' = Some ''3''" by code_simp+
  moreover have "parse_u32 ''3'' = Some 3" by (simp add: parse_u32_def parse_nat_def str_eval)
  ultimately show ?thesis by (simp add: record_here_def ex_cli_def ex_rec_def)
qed

lemma ex_deployed: "deployed_in ''/h/.mai/bin/mai-probe'' ''/h/.mai''"
proof -
  have "path_parent ''/h/.mai/bin/mai-probe'' = Some ''/h/.mai/bin''" "path_file_name ''/h/.mai/bin'' = Some ''bin''"
    "path_parent ''/h/.mai/bin'' = Some ''/h/.mai''" "path_file_name ''/h/.mai'' = Some ''.mai''"
    "starts_with (from_utf8_lossy ''.mai'') ''.mai''" by code_simp+
  then show ?thesis by (auto simp: deployed_in_def)
qed


theorem hooks_exit_code_witness:
  "\<exists>st ls. cmd_hooks ex_cli ''/h'' True ex_cli_state = (st, 0) \<and> cx_stdout st = ls
     \<and> map line_agent ls = [Some (JStr ''claude''), Some (JStr ''codex'')]"
proof -
  obtain st code where c: "cmd_hooks ex_cli ''/h'' True ex_cli_state = (st, code)" by force
  have "check_probe_exe ''/h/.mai/bin/mai-probe'' = Ok ()" by code_simp
  with c have "code = 0" by (auto simp: cmd_hooks_def ex_cli_def hook_targets_def hook_target_def)
  moreover have "ce_current_exe ex_cli = Ok ''/h/.mai/bin/mai-probe''" by (simp add: ex_cli_def)
  ultimately show ?thesis using hooks_exit_code [OF _ c] c by (auto simp: ex_cli_state_def)
qed


end
