(* ===== verification/Swap.thy ===== *)
theory Swap
  imports Utf8
begin

text \<open>
  Replacing the probe binary without deleting the old one first (\<open>crates/mai-core/src/swap.rs\<close>).

  The trait \<open>BinFiles\<close> is the record of operations \<open>bin_ops\<close> that \<open>swap_in\<close> takes; the locale \<open>bin_laws\<close> says what the swap
  relies on. The files behind both implementations are a list of named contents; \<open>bf_faults\<close> says for each call, in
  order, whether it fails (no entry: it succeeds). A local \<open>rename\<close> replaces an existing file; over SFTP
  that depends on the server (\<open>bf_overwrites\<close>).
\<close>

section \<open>Files\<close>

record 's bin_ops =
  bo_exists :: "'s \<Rightarrow> string \<Rightarrow> 's \<times> (string + bool)"
  bo_remove :: "'s \<Rightarrow> string \<Rightarrow> 's \<times> (string + unit)"
  bo_rename :: "'s \<Rightarrow> string \<Rightarrow> string \<Rightarrow> 's \<times> (string + unit)"
  bo_list :: "'s \<Rightarrow> string \<Rightarrow> 's \<times> (string + string list)"

record bin_files =
  bf_files :: "(string, string) dict"
  bf_faults :: "string option list"
  bf_overwrites :: bool

abbreviation bin_at :: "bin_files \<Rightarrow> string \<Rightarrow> string option" where
  "bin_at b \<equiv> map_of (bf_files b)"

text \<open>The fault of the next call.\<close>

definition next_fault :: "bin_files \<Rightarrow> string option \<times> bin_files" where
  "next_fault b = (case bf_faults b of [] \<Rightarrow> (None, b) | f # fs \<Rightarrow> (f, b\<lparr>bf_faults := fs\<rparr>))"

definition bin_exists :: "bin_files \<Rightarrow> string \<Rightarrow> bin_files \<times> (string + bool)" where
  "bin_exists b p =
     (let (f, b1) = next_fault b
      in (b1, case f of Some e \<Rightarrow> Err e | None \<Rightarrow> Ok (bin_at b1 p \<noteq> None)))"

definition bin_remove :: "bin_files \<Rightarrow> string \<Rightarrow> bin_files \<times> (string + unit)" where
  "bin_remove b p =
     (let (f, b1) = next_fault b
      in case f of
           Some e \<Rightarrow> (b1, Err e)
         | None \<Rightarrow>
             (case bin_at b1 p of
                None \<Rightarrow> (b1, Err ''no such file'')
              | Some _ \<Rightarrow> (b1\<lparr>bf_files := AList.delete p (bf_files b1)\<rparr>, Ok ())))"

definition bin_rename :: "bool \<Rightarrow> bin_files \<Rightarrow> string \<Rightarrow> string \<Rightarrow> bin_files \<times> (string + unit)" where
  "bin_rename overwrites b p q =
     (let (f, b1) = next_fault b
      in case f of
           Some e \<Rightarrow> (b1, Err e)
         | None \<Rightarrow>
             (case bin_at b1 p of
                None \<Rightarrow> (b1, Err ''no such file'')
              | Some c \<Rightarrow>
                  if bin_at b1 q \<noteq> None \<and> \<not> overwrites then (b1, Err ''file exists'')
                  else (b1\<lparr>bf_files := AList.update q c (AList.delete p (bf_files b1))\<rparr>, Ok ())))"

definition names_in :: "string \<Rightarrow> bin_files \<Rightarrow> string list" where
  "names_in dir b = filter (\<lambda>n. CHR ''/'' \<notin> set n) (List.map_filter (\<lambda>p. strip_prefix p (dir @ ''/'')) (keys (bf_files b)))"

definition bin_list :: "(string \<Rightarrow> string) \<Rightarrow> bin_files \<Rightarrow> string \<Rightarrow> bin_files \<times> (string + string list)" where
  "bin_list decode b dir =
     (let (f, b1) = next_fault b
      in (b1, case f of Some e \<Rightarrow> Err e | None \<Rightarrow> Ok (map decode (names_in dir b1))))"

definition local_files :: "bin_files bin_ops" where
  "local_files = \<lparr>bo_exists = bin_exists, bo_remove = bin_remove, bo_rename = bin_rename True, bo_list = bin_list from_utf8_lossy\<rparr>"

definition sftp_files :: "bin_files bin_ops" where
  "sftp_files = \<lparr>bo_exists = bin_exists, bo_remove = bin_remove, bo_rename = (\<lambda>b. bin_rename (bf_overwrites b) b), bo_list = bin_list id\<rparr>"

section \<open>Swapping\<close>

fun remove_all :: "'s bin_ops \<Rightarrow> 's \<Rightarrow> string list \<Rightarrow> 's" where
  "remove_all fs b [] = b"
| "remove_all fs b (p # ps) = remove_all fs (fst (bo_remove fs b p)) ps"

definition remove_leftovers :: "'s bin_ops \<Rightarrow> 's \<Rightarrow> string \<Rightarrow> string \<Rightarrow> 's" where
  "remove_leftovers fs b dir exe =
     (case bo_list fs b dir of
        (b1, Err _) \<Rightarrow> b1
      | (b1, Ok names) \<Rightarrow>
          remove_all fs b1 (map (\<lambda>n. dir @ ''/'' @ n) (filter (\<lambda>n. starts_with n (exe @ ''.old'')) names)))"

text \<open>Move the old binary aside; the name it has now.\<close>

definition move_aside :: "'s bin_ops \<Rightarrow> 's \<Rightarrow> string \<Rightarrow> u64 \<Rightarrow> 's \<times> (string + string option)" where
  "move_aside fs b target stamp =
     (case bo_exists fs b target of
        (b1, Err e) \<Rightarrow> (b1, Err e)
      | (b1, Ok False) \<Rightarrow> (b1, Ok None)
      | (b1, Ok True) \<Rightarrow>
          (case bo_exists fs b1 (target @ ''.old'') of
             (b2, Err e) \<Rightarrow> (b2, Err e)
           | (b2, Ok taken) \<Rightarrow>
               let name = (if taken then target @ ''.old-'' @ show_u64 stamp else target @ ''.old'')
               in (case bo_rename fs b2 target name of
                     (b3, Err e) \<Rightarrow> (b3, Err e)
                   | (b3, Ok _) \<Rightarrow> (b3, Ok (Some name)))))"

text \<open>Put the old binary back so the host keeps a working probe.\<close>

definition put_back :: "'s bin_ops \<Rightarrow> 's \<Rightarrow> string option \<Rightarrow> string \<Rightarrow> string \<Rightarrow> 's \<times> (string + unit)" where
  "put_back fs b aside target e =
     (case aside of
        None \<Rightarrow> (b, Err e)
      | Some name \<Rightarrow>
          (case bo_rename fs b name target of
             (b3, Err re) \<Rightarrow> (b3, Err (e @ ''; restoring '' @ name @ '' also failed: '' @ re))
           | (b3, Ok _) \<Rightarrow> (b3, Err e)))"

definition swap_in :: "'s bin_ops \<Rightarrow> 's \<Rightarrow> string \<Rightarrow> string \<Rightarrow> u64 \<Rightarrow> 's \<times> (string + unit)" where
  "swap_in fs b dir exe stamp =
     (let target = dir @ ''/'' @ exe; tmp = target @ ''.upload''
      in case move_aside fs (remove_leftovers fs b dir exe) target stamp of
           (b1, Err e) \<Rightarrow> (b1, Err e)
         | (b1, Ok aside) \<Rightarrow>
             (case bo_rename fs b1 tmp target of
                (b2, Err e) \<Rightarrow> put_back fs b2 aside target e
              | (b2, Ok _) \<Rightarrow>
                  (case aside of
                     None \<Rightarrow> (b2, Ok ())
                   | Some name \<Rightarrow> (fst (bo_remove fs b2 name), Ok ()))))"

section \<open>What the swap relies on\<close>

text \<open>The names a swap uses.\<close>

definition aside_names :: "string \<Rightarrow> u64 \<Rightarrow> string set" where
  "aside_names target stamp = {target @ ''.old'', target @ ''.old-'' @ show_u64 stamp}"

lemma aside_distinct: "name \<in> aside_names target stamp \<Longrightarrow> name \<noteq> target \<and> name \<noteq> target @ ''.upload''"
  by (auto simp: aside_names_def)

lemma aside_fresh [simp]: "target \<notin> aside_names target stamp" "target @ ''.upload'' \<notin> aside_names target stamp"
  using aside_distinct by blast+

locale bin_laws =
  fixes fs :: "'s bin_ops"
    and file_of :: "'s \<Rightarrow> string \<Rightarrow> string option"
  assumes exists_same: "bo_exists fs b p = (b', r) \<Longrightarrow> file_of b' = file_of b"
    and exists_result: "bo_exists fs b p = (b', Ok x) \<Longrightarrow> x \<longleftrightarrow> file_of b p \<noteq> None"
    and remove_other: "q \<noteq> p \<Longrightarrow> file_of (fst (bo_remove fs b p)) q = file_of b q"
    and rename_fails: "bo_rename fs b p q = (b', Err e) \<Longrightarrow> file_of b' = file_of b"
    and rename_moves: "bo_rename fs b p q = (b', Ok u) \<Longrightarrow> p \<noteq> q \<Longrightarrow> file_of b' = (file_of b)(q := file_of b p, p := None)"
    and list_same: "bo_list fs b dir = (b', names) \<Longrightarrow> file_of b' = file_of b"
begin

lemma remove_all_other: "q \<notin> set ps \<Longrightarrow> file_of (remove_all fs b ps) q = file_of b q"
  by (induction ps arbitrary: b) (auto simp: remove_other)

lemma leftovers_other:
  assumes "\<And>n. p = dir @ ''/'' @ n \<Longrightarrow> \<not> starts_with n (exe @ ''.old'')"
  shows "file_of (remove_leftovers fs b dir exe) p = file_of b p"
proof -
  obtain b1 r where l: "bo_list fs b dir = (b1, r)" by force
  show ?thesis
  proof (cases r)
    case (Inr names)
    have "p \<notin> set (map (\<lambda>n. dir @ ''/'' @ n) (filter (\<lambda>n. starts_with n (exe @ ''.old'')) names))"
      using assms by auto
    from remove_all_other [OF this, of b1] Inr l list_same [OF l] show ?thesis by (simp add: remove_leftovers_def)
  qed (use l list_same [OF l] in \<open>simp add: remove_leftovers_def\<close>)
qed

text \<open>Moving aside changes nothing, or gives the old binary an aside name.\<close>

lemma move_aside_effect:
  assumes "move_aside fs b target stamp = (b', r)"
  shows "case r of
     Err _ \<Rightarrow> file_of b' = file_of b
   | Ok None \<Rightarrow> file_of b' = file_of b \<and> file_of b target = None
   | Ok (Some name) \<Rightarrow> name \<in> aside_names target stamp \<and> file_of b' = (file_of b)(name := file_of b target, target := None)"
proof -
  obtain b1 r1 where e1: "bo_exists fs b target = (b1, r1)" by force
  obtain b2 r2 where e2: "bo_exists fs b1 (target @ ''.old'') = (b2, r2)" by force
  have f: "file_of b1 = file_of b" "file_of b2 = file_of b" using exists_same [OF e1] exists_same [OF e2] by simp_all
  have absent: "file_of b target = None" if "r1 = Ok False" using exists_result [of b target b1 False] e1 that by simp
  define nm where "nm = (if r2 = Ok True then target @ ''.old-'' @ show_u64 stamp else target @ ''.old'')"
  have nm: "nm \<in> aside_names target stamp" by (simp add: nm_def aside_names_def)
  obtain b3 r3 where e3: "bo_rename fs b2 target nm = (b3, r3)" by force
  have f3: "case r3 of Err _ \<Rightarrow> file_of b3 = file_of b | Ok _ \<Rightarrow> file_of b3 = (file_of b)(nm := file_of b target, target := None)"
  proof (cases r3)
    case (Inr u)
    from rename_moves [OF e3 [unfolded Inr]] aside_distinct [OF nm] f Inr show ?thesis by auto
  qed (use rename_fails e3 f in auto)
  have "(b', r) = (case r1 of Err e \<Rightarrow> (b1, Err e) | Ok False \<Rightarrow> (b1, Ok None)
      | Ok True \<Rightarrow> (case r2 of Err e \<Rightarrow> (b2, Err e)
          | Ok _ \<Rightarrow> (case r3 of Err e \<Rightarrow> (b3, Err e) | Ok _ \<Rightarrow> (b3, Ok (Some nm)))))"
    using assms e1 e2 e3 by (auto simp: move_aside_def nm_def Let_def split: sum.splits bool.splits)
  then show ?thesis using f f3 absent nm by (auto split: sum.splits bool.splits)
qed

lemma put_back_effect:
  assumes "put_back fs b aside target e = (b', r)"
  shows "case aside of None \<Rightarrow> file_of b' = file_of b
     | Some name \<Rightarrow> name \<noteq> target \<longrightarrow> file_of b' = file_of b \<or> file_of b' = (file_of b)(target := file_of b name, name := None)"
    "\<exists>e'. r = Err e'"
  using assms rename_fails [of b _ target] rename_moves [of b _ target]
  by (auto simp: put_back_def split: option.splits sum.splits prod.splits)

text \<open>The swap after the old binary was moved: the upload is in place, or the old binary is where it was put.\<close>

lemma swap_after_move:
  assumes rn: "bo_rename fs b1 (target @ ''.upload'') target = (b2, r2)"
    and new: "file_of b1 (target @ ''.upload'') = Some new"
    and placed: "case aside of None \<Rightarrow> file_of b1 target = old
      | Some name \<Rightarrow> name \<in> aside_names target stamp \<and> file_of b1 name = old \<and> file_of b1 target = None"
    and run: "(case r2 of Err e \<Rightarrow> put_back fs b2 aside target e
      | Ok _ \<Rightarrow> (case aside of None \<Rightarrow> (b2, Ok ()) | Some name \<Rightarrow> (fst (bo_remove fs b2 name), Ok ()))) = (b', r)"
  shows "case r of Ok _ \<Rightarrow> file_of b' target = Some new
    | Err _ \<Rightarrow> file_of b' (target @ ''.upload'') = Some new \<and> (\<exists>p \<in> insert target (aside_names target stamp). file_of b' p = old)"
proof (cases r2)
  case (Inl e)
  with run have "put_back fs b2 aside target e = (b', r)" by simp
  note pb = put_back_effect [OF this]
  have same: "file_of b2 = file_of b1" using rename_fails rn Inl by blast
  show ?thesis
  proof (cases aside)
    case None
    with pb same new placed show ?thesis by auto
  next
    case (Some name)
    with placed have n: "name \<in> aside_names target stamp" "file_of b1 name = old" by simp_all
    from aside_distinct [OF n(1)] Some pb same have
      "file_of b' = file_of b1 \<or> file_of b' = (file_of b1)(target := old, name := None)" "name \<noteq> target @ ''.upload''" "\<exists>e'. r = Err e'"
      by (auto simp: n(2))
    with n new show ?thesis by auto
  qed
next
  case (Inr u)
  have "file_of b2 target = Some new" using rename_moves [of b1 "target @ ''.upload''" target b2 u] rn Inr new by simp
  moreover have "file_of (fst (bo_remove fs b2 name)) target = file_of b2 target" if "aside = Some name" for name
    using remove_other [of target name b2] aside_distinct [of name target stamp] placed that by auto
  ultimately show ?thesis using run Inr by (auto split: option.splits)
qed

lemma swap_in_effect:
  assumes "swap_in fs b dir exe stamp = (b', r)" and "file_of b (dir @ ''/'' @ exe @ ''.upload'') = Some new"
  shows "case r of
     Ok _ \<Rightarrow> file_of b' (dir @ ''/'' @ exe) = Some new
   | Err _ \<Rightarrow> file_of b' (dir @ ''/'' @ exe @ ''.upload'') = Some new
       \<and> (\<exists>p \<in> insert (dir @ ''/'' @ exe) (aside_names (dir @ ''/'' @ exe) stamp). file_of b' p = file_of b (dir @ ''/'' @ exe))"
proof -
  define target where "target = dir @ ''/'' @ exe"
  let ?b0 = "remove_leftovers fs b dir exe"
  have t0: "file_of ?b0 target = file_of b target"
    by (rule leftovers_other) (auto simp: target_def prefix_def)
  have u0: "file_of ?b0 (target @ ''.upload'') = Some new"
    using assms(2) leftovers_other [of "target @ ''.upload''" dir exe b] by (simp add: target_def)
  obtain b1 r1 where m: "move_aside fs ?b0 target stamp = (b1, r1)" by force
  note m1 = move_aside_effect [OF m]
  obtain b2 r2 where n: "bo_rename fs b1 (target @ ''.upload'') target = (b2, r2)" by force
  have "case r of Ok _ \<Rightarrow> file_of b' target = Some new
     | Err _ \<Rightarrow> file_of b' (target @ ''.upload'') = Some new
       \<and> (\<exists>p \<in> insert target (aside_names target stamp). file_of b' p = file_of b target)"
  proof (cases r1)
    case (Inl e)
    with assms(1) m have "b' = b1" "r = Err e" by (simp_all add: swap_in_def target_def Let_def)
    then show ?thesis using m1 Inl t0 u0 by simp
  next
    case (Inr aside)
    show ?thesis
    proof (rule swap_after_move [OF n])
      show "file_of b1 (target @ ''.upload'') = Some new" using m1 Inr u0 by (auto split: option.splits)
      show "case aside of None \<Rightarrow> file_of b1 target = file_of b target
        | Some name \<Rightarrow> name \<in> aside_names target stamp \<and> file_of b1 name = file_of b target \<and> file_of b1 target = None"
        using m1 Inr t0 by (auto split: option.splits)
      show "(case r2 of Err e \<Rightarrow> put_back fs b2 aside target e
        | Ok _ \<Rightarrow> (case aside of None \<Rightarrow> (b2, Ok ()) | Some name \<Rightarrow> (fst (bo_remove fs b2 name), Ok ()))) = (b', r)"
        using assms(1) m n Inr by (auto simp: swap_in_def target_def Let_def split: sum.splits)
    qed
  qed
  then show ?thesis by (cases r) (simp_all add: target_def)
qed

end

section \<open>The two implementations\<close>

lemma next_fault_files [simp]:
  "bf_files (snd (next_fault b)) = bf_files b" "bf_overwrites (snd (next_fault b)) = bf_overwrites b"
  by (simp_all add: next_fault_def split: list.splits)

lemma bin_exists_effect:
  "bin_exists b p = (b', r) \<Longrightarrow> bin_at b' = bin_at b" "bin_exists b p = (b', Ok x) \<Longrightarrow> x \<longleftrightarrow> bin_at b p \<noteq> None"
  by (auto simp: bin_exists_def split_beta split: option.splits)

lemma bin_remove_other: "q \<noteq> p \<Longrightarrow> bin_at (fst (bin_remove b p)) q = bin_at b q"
  by (simp add: bin_remove_def split_beta delete_conv' split: option.splits)

lemma bin_rename_effect:
  "bin_rename o' b p q = (b', Err e) \<Longrightarrow> bin_at b' = bin_at b"
  "bin_rename o' b p q = (b', Ok u) \<Longrightarrow> p \<noteq> q \<Longrightarrow> bin_at b' = (bin_at b)(q := bin_at b p, p := None)"
  by (auto simp: bin_rename_def split_beta update_conv' delete_conv' fun_eq_iff split: option.splits if_splits)

lemma bin_list_same: "bin_list decode b dir = (b', names) \<Longrightarrow> bin_at b' = bin_at b"
  by (auto simp: bin_list_def split_beta)

interpretation local_bin: bin_laws local_files bin_at
  by unfold_locales (auto simp: local_files_def bin_remove_other dest: bin_exists_effect bin_rename_effect bin_list_same)

interpretation sftp_bin: bin_laws sftp_files bin_at
  by unfold_locales (auto simp: sftp_files_def bin_remove_other dest: bin_exists_effect bin_rename_effect bin_list_same)

text \<open>Replacing the probe never loses it: whatever file operation fails, \<open>swap_in\<close> either succeeds and
  the target is the uploaded binary, or it fails and the uploaded binary is still there and the old
  binary is still at the target or, when putting it back failed too, at its aside name.\<close>

theorem swap_never_loses_probe:
  assumes "swap_in fs b dir exe stamp = (b', r)" and "fs = local_files \<or> fs = sftp_files"
    and "bin_at b (dir @ ''/'' @ exe @ ''.upload'') = Some new"
  shows "case r of
     Ok _ \<Rightarrow> bin_at b' (dir @ ''/'' @ exe) = Some new
   | Err _ \<Rightarrow> bin_at b' (dir @ ''/'' @ exe @ ''.upload'') = Some new
       \<and> (\<exists>p \<in> insert (dir @ ''/'' @ exe) (aside_names (dir @ ''/'' @ exe) stamp). bin_at b' p = bin_at b (dir @ ''/'' @ exe))"
  using assms local_bin.swap_in_effect sftp_bin.swap_in_effect by blast

theorem swap_never_loses_probe_witness:
  "\<exists>b'. swap_in sftp_files \<lparr>bf_files = [(''d/p'', ''old''), (''d/p.upload'', ''new'')], bf_faults = [], bf_overwrites = False\<rparr> ''d'' ''p'' 7
     = (b', Ok ()) \<and> bin_at b' ''d/p'' = Some ''new''"
proof -
  let ?b = "\<lparr>bf_files = [(''d/p'', ''old''), (''d/p.upload'', ''new'')], bf_faults = [], bf_overwrites = False\<rparr>"
  obtain b' r where s: "swap_in sftp_files ?b ''d'' ''p'' 7 = (b', r)" by force
  have "snd (swap_in sftp_files ?b ''d'' ''p'' 7) = Ok ()" by code_simp
  with s have "r = Ok ()" by simp
  with s swap_never_loses_probe [OF s, of "''new''"] show ?thesis by simp
qed

end
