(* ===== verification/Deploy.thy ===== *)
theory Deploy
  imports Swap Mai_Path Mai_Protocol Mai_Types Utf8
begin

text \<open>
  Deploying the probe to a remote host (\<open>crates/mai-core/src/deploy.rs\<close>, with the attach command of
  \<open>term.rs\<close> and the result types of \<open>ssh/client.rs\<close>).

  The SSH session is a record: the answer to each command (no command is run twice in one deployment),
  the files and directories reached over SFTP with the faults of the calls in order, and the commands
  run so far. SHA-256, \<open>serde_json\<close> and \<open>Debug\<close> printing are the fields of \<open>deploy_lib\<close>.
\<close>

section \<open>Types\<close>

datatype ssh_error =
    SE_Connect string
  | SE_HostKeyRejected string u16 string
  | SE_HostKeyChanged string u16 path nat
  | SE_HostKeyRevoked string u16 path nat
  | SE_Auth string
  | SE_Channel string

definition show_port :: "u16 \<Rightarrow> string" where
  "show_port p = show_nat (unat p)"

fun show_ssh_error :: "ssh_error \<Rightarrow> string" where
  "show_ssh_error (SE_Connect m) = ''connect: '' @ m"
| "show_ssh_error (SE_HostKeyRejected host port fp) =
     ''host key for '' @ host @ '':'' @ show_port port @ '' not trusted ('' @ fp @ '')''"
| "show_ssh_error (SE_HostKeyChanged host port file line) =
     ''HOST KEY CHANGED for '' @ host @ '':'' @ show_port port @ '' (see '' @ file @ '':'' @ show_nat line
       @ ''); refusing to connect''"
| "show_ssh_error (SE_HostKeyRevoked host port file line) =
     ''host key for '' @ host @ '':'' @ show_port port @ '' is REVOKED (see '' @ file @ '':'' @ show_nat line
       @ ''); refusing to connect''"
| "show_ssh_error (SE_Auth m) = ''authentication: '' @ m"
| "show_ssh_error (SE_Channel m) = ''channel: '' @ m"

record exec_output =
  eo_status :: "u32 option"
  eo_stdout :: string
  eo_stderr :: string

definition exec_success :: "exec_output \<Rightarrow> bool" where
  "exec_success out \<longleftrightarrow> eo_status out = Some 0"

datatype os = Linux | MacOs | Windows
datatype shell = Posix | Cmd | PowerShell

record remote =
  re_os :: os
  re_arch :: string
  re_shell :: shell
  re_home :: string

record deploy_options =
  do_dir :: string
  do_install_hooks :: bool
  do_client :: string

definition default_deploy_options :: deploy_options where
  "default_deploy_options = \<lparr>do_dir = ''.mai'', do_install_hooks = True, do_client = []\<rparr>"

record deploy_report =
  dr_remote :: remote
  dr_probe_path :: string
  dr_uploaded :: bool
  dr_hooks :: "hook_result list"

datatype deploy_error =
    DE_Detect string
  | DE_NoBinary string path
  | DE_Upload string
  | DE_Hooks "u32 option" string
  | DE_Ssh ssh_error

definition debug_status :: "u32 option \<Rightarrow> string" where
  "debug_status st = (case st of None \<Rightarrow> ''None'' | Some n \<Rightarrow> ''Some('' @ show_u32 n @ '')'')"

fun show_deploy_error :: "deploy_error \<Rightarrow> string" where
  "show_deploy_error (DE_Detect m) = ''detect remote platform: '' @ m"
| "show_deploy_error (DE_NoBinary target file) = ''no probe for '' @ target @ '' (expected '' @ file @ '')''"
| "show_deploy_error (DE_Upload m) = ''upload probe: '' @ m"
| "show_deploy_error (DE_Hooks status err) = ''install-hooks failed (status '' @ debug_status status @ ''): '' @ err"
| "show_deploy_error (DE_Ssh e) = show_ssh_error e"

record deploy_lib =
  dl_digest :: "string \<Rightarrow> string"
  dl_hook_line :: "string \<Rightarrow> hook_result option"
  dl_debug :: "string \<Rightarrow> string"
  dl_debug_lines :: "string list \<Rightarrow> string"
  dl_timed_out :: "string \<Rightarrow> bool"

section \<open>Command lines\<close>

definition target :: "remote \<Rightarrow> string option" where
  "target r =
     (case re_os r of
        Linux \<Rightarrow>
          if re_arch r = ''x86_64'' then Some ''x86_64-unknown-linux-musl''
          else if re_arch r = ''aarch64'' then Some ''aarch64-unknown-linux-musl'' else None
      | MacOs \<Rightarrow>
          if re_arch r = ''x86_64'' then Some ''x86_64-apple-darwin''
          else if re_arch r = ''aarch64'' then Some ''aarch64-apple-darwin'' else None
      | Windows \<Rightarrow> if re_arch r = ''x86_64'' then Some ''x86_64-pc-windows-msvc'' else None)"

definition exe_name :: "remote \<Rightarrow> string" where
  "exe_name r = (if re_os r = Windows then ''mai-probe.exe'' else ''mai-probe'')"

abbreviation quote :: char where "quote \<equiv> CHR 0x27"
abbreviation dquote :: char where "dquote \<equiv> CHR 0x22"
abbreviation backslash :: char where "backslash \<equiv> CHR 0x5C"

definition probe_path :: "remote \<Rightarrow> string \<Rightarrow> string" where
  "probe_path r dir =
     (if re_os r = Windows
      then re_home r @ [backslash] @ replace_char CHR ''/'' [backslash] dir @ [backslash] @ ''bin'' @ [backslash] @ exe_name r
      else re_home r @ ''/'' @ dir @ ''/bin/'' @ exe_name r)"

definition sh_quote :: "string \<Rightarrow> string" where
  "sh_quote s = [quote] @ replace_char quote [quote, backslash, quote, quote] s @ [quote]"

definition ps_quote :: "string \<Rightarrow> string" where
  "ps_quote s = [quote] @ replace_char quote [quote, quote] s @ [quote]"

definition invoke :: "remote \<Rightarrow> string \<Rightarrow> string \<Rightarrow> string" where
  "invoke r path args =
     (case re_shell r of
        Posix \<Rightarrow> sh_quote path @ '' '' @ args
      | Cmd \<Rightarrow> [dquote] @ path @ [dquote] @ '' '' @ args
      | PowerShell \<Rightarrow> ''& '' @ ps_quote path @ '' '' @ args)"

definition quote_arg :: "remote \<Rightarrow> string \<Rightarrow> string" where
  "quote_arg r arg =
     (case re_shell r of
        Posix \<Rightarrow> sh_quote arg
      | Cmd \<Rightarrow> [dquote] @ arg @ [dquote]
      | PowerShell \<Rightarrow> ps_quote arg)"

definition plain_word :: "string \<Rightarrow> bool" where
  "plain_word w \<longleftrightarrow> w \<noteq> [] \<and> list_all (\<lambda>c. is_ascii_alphanumeric c \<or> c = CHR ''-'' \<or> c = CHR ''_'') w"

definition join_args :: "remote \<Rightarrow> string list \<Rightarrow> string" where
  "join_args r argv = join '' '' (map (\<lambda>w. if plain_word w then w else quote_arg r w) argv)"

definition client_argv :: "string \<Rightarrow> string list" where
  "client_argv client =
     (let client = sanitize_client client in if client = [] then [] else [''--client'', client])"

definition serve_argv :: "string \<Rightarrow> string option \<Rightarrow> string list" where
  "serve_argv client zellij =
     ''serve'' # client_argv client @ (case zellij of None \<Rightarrow> [] | Some z \<Rightarrow> [''--zellij'', z])"

definition stop_argv :: "string \<Rightarrow> string list" where
  "stop_argv client = ''stop'' # client_argv client"

definition stop_args :: "string \<Rightarrow> string" where
  "stop_args client = join '' '' (stop_argv client)"

definition serve_args :: "remote \<Rightarrow> string \<Rightarrow> string option \<Rightarrow> string" where
  "serve_args r client zellij = join_args r (serve_argv client zellij)"

definition hash_command :: "remote \<Rightarrow> string \<Rightarrow> string" where
  "hash_command r path =
     (if re_os r = MacOs then ''shasum -a 256 '' @ sh_quote path
      else case re_shell r of
        Posix \<Rightarrow> ''sha256sum '' @ sh_quote path
      | Cmd \<Rightarrow> ''certutil -hashfile '' @ [dquote] @ path @ [dquote] @ '' SHA256''
      | PowerShell \<Rightarrow> ''(Get-FileHash -Algorithm SHA256 '' @ ps_quote path @ '').Hash'')"

definition attach_argv :: "string \<Rightarrow> bool \<Rightarrow> string list" where
  "attach_argv session create = [''attach''] @ (if create then [''--create''] else []) @ [session]"

definition LOCALE_ENV :: "(string \<times> string) list" where
  "LOCALE_ENV = [(''LANG'', ''en_US.UTF-8''), (''LC_CTYPE'', ''en_US.UTF-8'')]"

definition remote_attach_command :: "remote \<Rightarrow> string option \<Rightarrow> string \<Rightarrow> bool \<Rightarrow> bool \<Rightarrow> string" where
  "remote_attach_command r zellij session create env_accepted =
     (let cmd = invoke r (case zellij of None \<Rightarrow> ''zellij'' | Some z \<Rightarrow> z) (join_args r (attach_argv session create))
      in if env_accepted \<or> re_shell r \<noteq> Posix then cmd
         else join '' '' (map (\<lambda>(k, v). k @ ''='' @ v) LOCALE_ENV) @ '' '' @ cmd)"

section \<open>Output of the host\<close>

definition is_ascii_hexdigit :: "char \<Rightarrow> bool" where
  "is_ascii_hexdigit c \<longleftrightarrow> is_ascii_digit c \<or> (65 \<le> byte c \<and> byte c \<le> 70) \<or> (97 \<le> byte c \<and> byte c \<le> 102)"

definition normalize_arch :: "string \<Rightarrow> string option" where
  "normalize_arch raw =
     (let a = to_ascii_lowercase (trim raw)
      in if a = ''x86_64'' \<or> a = ''amd64'' then Some ''x86_64''
         else if a = ''aarch64'' \<or> a = ''arm64'' then Some ''aarch64'' else None)"

definition parse_uname :: "string \<Rightarrow> (os \<times> string) option" where
  "parse_uname out =
     (case split_whitespace out of
        [] \<Rightarrow> None
      | k # rest \<Rightarrow>
          (case (if k = ''Linux'' then Some Linux else if k = ''Darwin'' then Some MacOs else None) of
             None \<Rightarrow> None
           | Some os \<Rightarrow>
               (case rest of [] \<Rightarrow> None | m # _ \<Rightarrow> map_option (Pair os) (normalize_arch m))))"

definition parse_hash :: "string \<Rightarrow> string option" where
  "parse_hash out =
     map_option to_ascii_lowercase
       (find (\<lambda>t. length t = 64 \<and> list_all is_ascii_hexdigit t) (split_whitespace out))"

definition hex_digit :: "nat \<Rightarrow> char" where
  "hex_digit n = (if n < 10 then char_of (48 + n) else char_of (87 + n))"

definition hex_byte :: "char \<Rightarrow> string" where
  "hex_byte c = [hex_digit (byte c div 16), hex_digit (byte c mod 16)]"

definition sha256_hex :: "deploy_lib \<Rightarrow> string \<Rightarrow> string" where
  "sha256_hex lib bytes = concat (map hex_byte (dl_digest lib bytes))"

definition probe_binary :: "string \<Rightarrow> string \<Rightarrow> string" where
  "probe_binary dir tgt =
     path_join (path_join dir tgt) (if contains tgt ''windows'' then ''mai-probe.exe'' else ''mai-probe'')"

definition parse_hook_lines :: "deploy_lib \<Rightarrow> string \<Rightarrow> hook_result list" where
  "parse_hook_lines lib out = List.map_filter (\<lambda>l. dl_hook_line lib (trim l)) (lines out)"

definition hooks_result :: "deploy_lib \<Rightarrow> exec_output \<Rightarrow> deploy_error + hook_result list" where
  "hooks_result lib out =
     (if \<not> exec_success out then Err (DE_Hooks (eo_status out) (from_utf8_lossy (eo_stderr out)))
      else Ok (parse_hook_lines lib (from_utf8_lossy (eo_stdout out))))"

definition BEGIN_MARK :: string where "BEGIN_MARK = ''MAI-DETECT-BEGIN''"
definition END_MARK :: string where "END_MARK = ''MAI-DETECT-END''"

definition posix_detect_command :: string where
  "posix_detect_command =
     ''uname -sm >/dev/null && echo '' @ BEGIN_MARK @ '' && uname -sm && printf '' @ [quote] @ ''%s'' @ [backslash] @ ''n''
       @ [quote] @ '' '' @ [dquote] @ ''$HOME'' @ [dquote] @ '' && echo '' @ END_MARK"

definition windows_detect_command :: "shell \<Rightarrow> string" where
  "windows_detect_command sh =
     (if sh = Cmd
      then ''echo '' @ BEGIN_MARK @ ''& echo %PROCESSOR_ARCHITECTURE%& echo %USERPROFILE%& echo '' @ END_MARK
      else ''echo '' @ BEGIN_MARK @ ''; $env:PROCESSOR_ARCHITECTURE; $env:USERPROFILE; echo '' @ END_MARK)"

fun until_end_mark :: "string list \<Rightarrow> string list option" where
  "until_end_mark [] = None"
| "until_end_mark (l # ls) = (if l = END_MARK then Some [] else map_option (Cons l) (until_end_mark ls))"

definition marked_lines :: "string \<Rightarrow> string list option" where
  "marked_lines out =
     (case dropWhile (\<lambda>l. l \<noteq> BEGIN_MARK) (map trim (lines out)) of
        [] \<Rightarrow> None
      | _ # ls \<Rightarrow> until_end_mark ls)"

definition parse_posix_detect :: "deploy_lib \<Rightarrow> string \<Rightarrow> deploy_error + (os \<times> string \<times> string) option" where
  "parse_posix_detect lib out =
     (case marked_lines out of
        None \<Rightarrow> Ok None
      | Some [] \<Rightarrow> Ok None
      | Some [uname, home] \<Rightarrow>
          (let kernel = to_ascii_uppercase uname
           in if list_ex (starts_with kernel) [''MINGW'', ''MSYS'', ''CYGWIN''] then Ok None
              else (case parse_uname uname of
                      None \<Rightarrow> Err (DE_Detect (''unsupported system (uname: '' @ dl_debug lib uname @ '')''))
                    | Some (os, arch) \<Rightarrow>
                        if home = [] then Err (DE_Detect ''empty $HOME'') else Ok (Some (os, arch, home))))
      | Some ls \<Rightarrow> Err (DE_Detect (''unexpected detection output: '' @ dl_debug_lines lib ls)))"

definition parse_windows_detect :: "deploy_lib \<Rightarrow> string \<Rightarrow> deploy_error + string \<times> string" where
  "parse_windows_detect lib out =
     (case marked_lines out of
        None \<Rightarrow> Err (DE_Detect (''unexpected detection output: '' @ dl_debug lib out))
      | Some [raw_arch, home] \<Rightarrow>
          (case normalize_arch raw_arch of
             None \<Rightarrow> Err (DE_Detect (''unknown CPU '' @ dl_debug lib raw_arch))
           | Some arch \<Rightarrow>
               if home = [] \<or> to_ascii_lowercase home = to_ascii_lowercase ''%USERPROFILE%''
               then Err (DE_Detect ''USERPROFILE is not set'')
               else Ok (arch, home))
      | Some ls \<Rightarrow> Err (DE_Detect (''unexpected detection output: '' @ dl_debug_lines lib ls)))"

section \<open>Deploying\<close>

record session =
  ss_answer :: "string \<Rightarrow> ssh_error + exec_output"
  ss_sftp :: "ssh_error option"
  ss_files :: bin_files
  ss_dirs :: "string list"
  ss_closed :: bool
  ss_partial :: nat
  ss_log :: "string list"

definition exec :: "session \<Rightarrow> string \<Rightarrow> session \<times> (ssh_error + exec_output)" where
  "exec s cmd = (s\<lparr>ss_log := ss_log s @ [cmd]\<rparr>, ss_answer s cmd)"

definition detect :: "deploy_lib \<Rightarrow> session \<Rightarrow> session \<times> (deploy_error + remote)" where
  "detect lib s =
     (case exec s posix_detect_command of
        (s1, Err e) \<Rightarrow> (s1, Err (DE_Ssh e))
      | (s1, Ok posix) \<Rightarrow>
          (case parse_posix_detect lib (from_utf8_lossy (eo_stdout posix)) of
             Err e \<Rightarrow> (s1, Err e)
           | Ok (Some (os, arch, home)) \<Rightarrow>
               (s1, Ok \<lparr>re_os = os, re_arch = arch, re_shell = Posix, re_home = home\<rparr>)
           | Ok None \<Rightarrow>
               (case exec s1 ''echo %OS%'' of
                  (s2, Err e) \<Rightarrow> (s2, Err (DE_Ssh e))
                | (s2, Ok os_out) \<Rightarrow>
                    (let answer = trim (from_utf8_lossy (eo_stdout os_out))
                     in case (if answer = ''Windows_NT'' then Some Cmd
                              else if answer = ''%OS%'' then Some PowerShell else None) of
                          None \<Rightarrow>
                            (s2, Err (DE_Detect (''neither a POSIX shell nor Windows (%OS%: '' @ dl_debug lib answer @ '')'')))
                        | Some sh \<Rightarrow>
                            (case exec s2 (windows_detect_command sh) of
                               (s3, Err e) \<Rightarrow> (s3, Err (DE_Ssh e))
                             | (s3, Ok out) \<Rightarrow>
                                 (case parse_windows_detect lib (from_utf8_lossy (eo_stdout out)) of
                                    Err e \<Rightarrow> (s3, Err e)
                                  | Ok (arch, home) \<Rightarrow>
                                      (s3, Ok \<lparr>re_os = Windows, re_arch = arch, re_shell = sh, re_home = home\<rparr>)))))))"

definition SFTP_REQUEST_TIMEOUT_SECS :: nat where "SFTP_REQUEST_TIMEOUT_SECS = 60"

definition upload_error :: "deploy_lib \<Rightarrow> string \<Rightarrow> bool \<Rightarrow> deploy_error" where
  "upload_error lib e connection_closed =
     (if connection_closed then DE_Ssh (SE_Connect (''connection lost during upload: '' @ e))
      else if dl_timed_out lib e
      then DE_Ssh (SE_Connect (''upload timed out (no answer within '' @ show_nat SFTP_REQUEST_TIMEOUT_SECS @ '' s)''))
      else DE_Upload e)"

text \<open>One SFTP call that only succeeds or fails.\<close>

definition sftp_call :: "deploy_lib \<Rightarrow> session \<Rightarrow> session \<times> (deploy_error + unit)" where
  "sftp_call lib s =
     (let (f, b) = next_fault (ss_files s); s1 = s\<lparr>ss_files := b\<rparr>
      in (s1, case f of Some e \<Rightarrow> Err (upload_error lib e (ss_closed s)) | None \<Rightarrow> Ok ()))"

definition put_file :: "string \<Rightarrow> string \<Rightarrow> session \<Rightarrow> session" where
  "put_file p c s = s\<lparr>ss_files := (ss_files s)\<lparr>bf_files := AList.update p c (bf_files (ss_files s))\<rparr>\<rparr>"

fun make_dirs :: "deploy_lib \<Rightarrow> session \<Rightarrow> string \<Rightarrow> string list \<Rightarrow> session \<times> (deploy_error + unit)" where
  "make_dirs lib s path [] = (s, Ok ())"
| "make_dirs lib s path (part # parts) =
     (let path = (if path = [] then part else path @ ''/'' @ part)
      in case sftp_call lib s of
           (s1, Err e) \<Rightarrow> (s1, Err e)
         | (s1, Ok _) \<Rightarrow>
             if path \<in> set (ss_dirs s1) \<or> map_of (bf_files (ss_files s1)) path \<noteq> None then make_dirs lib s1 path parts
             else (case sftp_call lib s1 of
                     (s2, Err e) \<Rightarrow> (s2, Err e)
                   | (s2, Ok _) \<Rightarrow> make_dirs lib (s2\<lparr>ss_dirs := ss_dirs s2 @ [path]\<rparr>) path parts))"

text \<open>Create \<open>tmp\<close>, write the bytes, close it and make it executable. A failing write leaves a part.\<close>

definition write_upload :: "deploy_lib \<Rightarrow> session \<Rightarrow> remote \<Rightarrow> string \<Rightarrow> string \<Rightarrow> session \<times> (deploy_error + unit)" where
  "write_upload lib s r tmp bytes =
     (case sftp_call lib s of
        (s1, Err e) \<Rightarrow> (s1, Err e)
      | (s1, Ok _) \<Rightarrow>
          (case sftp_call lib (put_file tmp [] s1) of
             (s2, Err e) \<Rightarrow> (put_file tmp (take (ss_partial s2) bytes) s2, Err e)
           | (s2, Ok _) \<Rightarrow>
               (case sftp_call lib (put_file tmp bytes s2) of
                  (s3, Err e) \<Rightarrow> (s3, Err e)
                | (s3, Ok _) \<Rightarrow> if re_os r \<noteq> Windows then sftp_call lib s3 else (s3, Ok ()))))"

definition remove_upload :: "string \<Rightarrow> session \<Rightarrow> session" where
  "remove_upload tmp s = s\<lparr>ss_files := fst (bo_remove sftp_files (ss_files s) tmp)\<rparr>"

text \<open>The hash of the uploaded file as the host computes it.\<close>

definition verify_upload :: "deploy_lib \<Rightarrow> session \<Rightarrow> remote \<Rightarrow> string \<Rightarrow> string \<Rightarrow> string \<Rightarrow> session \<times> (deploy_error + unit)" where
  "verify_upload lib s r dir tmp bytes =
     (let tmp_abs = probe_path r dir @ ''.upload''
      in case exec s (hash_command r tmp_abs) of
           (s1, Err e) \<Rightarrow> (s1, Err (DE_Ssh e))
         | (s1, Ok out) \<Rightarrow>
             (case parse_hash (from_utf8_lossy (eo_stdout out)) of
                None \<Rightarrow>
                  (remove_upload tmp s1,
                   Err (DE_Upload (''cannot compute SHA-256 of '' @ tmp_abs @ '' on the host (exit '' @ debug_status (eo_status out)
                     @ ''): '' @ trim (from_utf8_lossy (eo_stderr out)))))
              | Some written \<Rightarrow>
                  if written \<noteq> sha256_hex lib bytes
                  then (remove_upload tmp s1, Err (DE_Upload (''uploaded file does not match (SHA-256 '' @ written @ '')'')))
                  else (s1, Ok ())))"

definition upload :: "deploy_lib \<Rightarrow> session \<Rightarrow> remote \<Rightarrow> string \<Rightarrow> string \<Rightarrow> u64 \<Rightarrow> session \<times> (deploy_error + unit)" where
  "upload lib s r dir bytes now_ms =
     (case ss_sftp s of
        Some e \<Rightarrow> (s, Err (DE_Ssh e))
      | None \<Rightarrow>
          (let bin_dir = dir @ ''/bin''; tgt = bin_dir @ ''/'' @ exe_name r; tmp = tgt @ ''.upload''
           in case make_dirs lib s [] (split_on CHR ''/'' bin_dir) of
                (s1, Err e) \<Rightarrow> (s1, Err e)
              | (s1, Ok _) \<Rightarrow>
                  (case write_upload lib s1 r tmp bytes of
                     (s2, Err e) \<Rightarrow> (s2, Err e)
                   | (s2, Ok _) \<Rightarrow>
                       (case verify_upload lib s2 r dir tmp bytes of
                          (s3, Err e) \<Rightarrow> (s3, Err e)
                        | (s3, Ok _) \<Rightarrow>
                            (case swap_in sftp_files (ss_files s3) bin_dir (exe_name r) now_ms of
                               (b, Err e) \<Rightarrow> (s3\<lparr>ss_files := b\<rparr>, Err (DE_Upload (''replace '' @ tgt @ '': '' @ e)))
                             | (b, Ok _) \<Rightarrow> (s3\<lparr>ss_files := b\<rparr>, Ok ()))))))"

definition install_hooks :: "deploy_lib \<Rightarrow> session \<Rightarrow> remote \<Rightarrow> string \<Rightarrow> session \<times> (deploy_error + hook_result list)" where
  "install_hooks lib s r path =
     (case exec s (invoke r path ''install-hooks'') of
        (s1, Err e) \<Rightarrow> (s1, Err (DE_Ssh e))
      | (s1, Ok out) \<Rightarrow> (s1, hooks_result lib out))"

text \<open>\<open>store\<close> is the directory of bundled binaries and \<open>read_bin\<close> reads a local file.\<close>

definition deploy ::
    "deploy_lib \<Rightarrow> string \<Rightarrow> (path \<Rightarrow> string option) \<Rightarrow> deploy_options \<Rightarrow> u64 \<Rightarrow> session \<Rightarrow> session \<times> (deploy_error + deploy_report)" where
  "deploy lib store read_bin opts now_ms s =
     (case detect lib s of
        (s1, Err e) \<Rightarrow> (s1, Err e)
      | (s1, Ok r) \<Rightarrow>
          (case target r of
             None \<Rightarrow>
               (s1, Err (DE_Detect (''unsupported ''
                  @ (case re_os r of Linux \<Rightarrow> ''Linux'' | MacOs \<Rightarrow> ''MacOs'' | Windows \<Rightarrow> ''Windows'') @ '' '' @ re_arch r)))
           | Some tgt \<Rightarrow>
               (case read_bin (probe_binary store tgt) of
                  None \<Rightarrow> (s1, Err (DE_NoBinary tgt (probe_binary store tgt)))
                | Some bytes \<Rightarrow>
                    (let path = probe_path r (do_dir opts)
                     in case exec s1 (hash_command r path) of
                          (s2, Err e) \<Rightarrow> (s2, Err (DE_Ssh e))
                        | (s2, Ok out) \<Rightarrow>
                            (let remote_hash = parse_hash (from_utf8_lossy (eo_stdout out));
                                 uploaded = (remote_hash \<noteq> Some (sha256_hex lib bytes));
                                 s3 = (if uploaded \<and> remote_hash \<noteq> None
                                       then fst (exec s2 (invoke r path (stop_args (do_client opts)))) else s2)
                             in case (if uploaded then upload lib s3 r (do_dir opts) bytes now_ms else (s3, Ok ())) of
                                  (s4, Err e) \<Rightarrow> (s4, Err e)
                                | (s4, Ok _) \<Rightarrow>
                                    (case (if do_install_hooks opts then install_hooks lib s4 r path else (s4, Ok [])) of
                                       (s5, Err e) \<Rightarrow> (s5, Err e)
                                     | (s5, Ok hooks) \<Rightarrow>
                                         (s5, Ok \<lparr>dr_remote = r, dr_probe_path = path, dr_uploaded = uploaded, dr_hooks = hooks\<rparr>)))))))"

section \<open>Command lines are read back as they were meant\<close>

text \<open>The words of a simple command as a POSIX shell splits it. Characters with a meaning to the shell
  (expansions, operators, globs, comments) make the result \<open>None\<close>, unless they are quoted.\<close>

definition sh_safe :: "char \<Rightarrow> bool" where
  "sh_safe c \<longleftrightarrow> is_ascii_alphanumeric c \<or> c \<in> set ''-_./:=@%+,''"

definition word_so_far :: "string option \<Rightarrow> string" where
  "word_so_far w = (case w of None \<Rightarrow> [] | Some x \<Rightarrow> x)"

fun sh_lex :: "bool \<Rightarrow> string option \<Rightarrow> string \<Rightarrow> string list option" where
  "sh_lex quoted w [] = (if quoted then None else Some (case w of None \<Rightarrow> [] | Some x \<Rightarrow> [x]))"
| "sh_lex quoted w (c # cs) =
     (if quoted then (if c = quote then sh_lex False w cs else sh_lex True (Some (word_so_far w @ [c])) cs)
      else if c = CHR '' ''
      then (case w of None \<Rightarrow> sh_lex False None cs | Some x \<Rightarrow> map_option (Cons x) (sh_lex False None cs))
      else if c = quote then sh_lex True (Some (word_so_far w)) cs
      else if c = backslash
      then (case cs of [] \<Rightarrow> None | d # ds \<Rightarrow> if d = newline then None else sh_lex False (Some (word_so_far w @ [d])) ds)
      else if sh_safe c then sh_lex False (Some (word_so_far w @ [c])) cs
      else None)"

definition sh_words :: "string \<Rightarrow> string list option" where
  "sh_words s = sh_lex False None s"

lemma word_so_far_simps [simp]: "word_so_far None = []" "word_so_far (Some w) = w"
  by (simp_all add: word_so_far_def)

lemma lex_quoted:
  "sh_lex True (Some w) (replace_char quote [quote, backslash, quote, quote] s @ quote # rest) = sh_lex False (Some (w @ s)) rest"
  by (induction s arbitrary: w) (auto simp: replace_char_def)

lemma lex_sh_quote: "sh_lex False w (sh_quote s @ rest) = sh_lex False (Some (word_so_far w @ s)) rest"
  using lex_quoted [of "word_so_far w" s rest] by (simp add: sh_quote_def)

lemma lex_safe:
  "list_all sh_safe s \<Longrightarrow> s \<noteq> [] \<Longrightarrow> sh_lex False w (s @ rest) = sh_lex False (Some (word_so_far w @ s)) rest"
proof (induction s arbitrary: w)
  case (Cons c s)
  then have c: "sh_safe c" "c \<noteq> CHR '' ''" "c \<noteq> quote" "c \<noteq> backslash"
    by (auto simp: sh_safe_def is_ascii_alphanumeric_def is_ascii_digit_def byte_def)
  then have "sh_lex False w ((c # s) @ rest) = sh_lex False (Some (word_so_far w @ [c])) (s @ rest)" by simp
  also have "\<dots> = sh_lex False (Some (word_so_far w @ c # s)) rest"
    using Cons by (cases "s = []") simp_all
  finally show ?case .
qed simp

lemma plain_word_safe: "plain_word w \<Longrightarrow> list_all sh_safe w \<and> w \<noteq> []"
  by (auto simp: plain_word_def sh_safe_def list_all_iff)

text \<open>A rendered word, alone and followed by another one.\<close>

definition renders :: "string \<Rightarrow> string \<Rightarrow> bool" where
  "renders w s \<longleftrightarrow> (\<forall>rest. sh_lex False None (s @ rest) = sh_lex False (Some w) rest)"

lemma renders_quote [simp]: "renders w (sh_quote w)"
  by (simp add: renders_def lex_sh_quote)

lemma renders_safe: "list_all sh_safe w \<Longrightarrow> w \<noteq> [] \<Longrightarrow> renders w w"
  by (simp add: renders_def lex_safe)

lemma renders_join: "list_all2 renders ws ss \<Longrightarrow> sh_lex False None (join '' '' ss) = Some ws"
proof (induction ws ss rule: list_all2_induct)
  case (Cons w ws s ss)
  show ?case
  proof (cases ss)
    case Nil
    then show ?thesis using Cons(1,2) by (simp add: renders_def) (metis append_Nil2 sh_lex.simps(1) option.simps(5))
  next
    case (Cons s' ss')
    have "sh_lex False None (s @ '' '' @ join '' '' ss) = sh_lex False (Some w) ('' '' @ join '' '' ss)"
      using \<open>renders w s\<close> by (simp add: renders_def)
    then show ?thesis using Cons \<open>sh_lex False None (join '' '' ss) = Some ws\<close> by simp
  qed
qed simp

lemma renders_word: "re_shell r = Posix \<Longrightarrow> renders w (if plain_word w then w else quote_arg r w)"
  using plain_word_safe [of w] renders_safe [of w] by (simp add: quote_arg_def)

lemma join_args_words: "re_shell r = Posix \<Longrightarrow> list_all2 renders argv (map (\<lambda>w. if plain_word w then w else quote_arg r w) argv)"
  by (simp add: list_all2_map2 list.rel_refl_strong renders_word)

lemma join_Cons: "join sep (s # ss) = (if ss = [] then s else s @ sep @ join sep ss)"
  by (cases ss) simp_all

lemma invoke_words:
  assumes "re_shell r = Posix" "list_all2 renders env pre"
  shows "sh_words (join '' '' (pre @ [invoke r path (join_args r (a # argv))])) = Some (env @ path # a # argv)"
proof -
  let ?ss = "map (\<lambda>w. if plain_word w then w else quote_arg r w) (a # argv)"
  have "join '' '' (pre @ [invoke r path (join_args r (a # argv))]) = join '' '' (pre @ sh_quote path # ?ss)"
  proof (induction pre)
    case Nil
    show ?case using assms(1) by (simp add: invoke_def join_args_def join_Cons [of _ "sh_quote path"])
  next
    case (Cons p pre)
    then show ?case by (simp add: join_Cons)
  qed
  moreover have "list_all2 renders (env @ path # a # argv) (pre @ sh_quote path # ?ss)"
    using assms(2) join_args_words [OF assms(1), of "a # argv"] by (intro list_all2_appendI) simp_all
  ultimately show ?thesis using renders_join by (simp add: sh_words_def)
qed

lemma serve_words:
  assumes "re_shell r = Posix"
  shows "sh_words (invoke r path (serve_args r client zellij)) = Some (path # serve_argv client zellij)"
  using invoke_words [OF assms, of "[]" "[]" path] by (simp add: serve_args_def serve_argv_def)

text \<open>C11. No word of a command line can escape its place on a POSIX host: a shell splits the command that
  starts the probe into exactly the probe's path and the arguments of \<open>serve\<close>, and the command that
  attaches a terminal into the locale settings, the zellij binary and the arguments of \<open>attach\<close>, whatever
  characters the paths, the client id and the session name contain.\<close>

theorem posix_commands_exact:
  assumes "re_shell r = Posix"
  shows "sh_words (invoke r path (serve_args r client zellij)) = Some (path # serve_argv client zellij)
    \<and> sh_words (remote_attach_command r z session create env_accepted) =
        Some ((if env_accepted then [] else [''LANG=en_US.UTF-8'', ''LC_CTYPE=en_US.UTF-8''])
          @ (case z of None \<Rightarrow> ''zellij'' | Some x \<Rightarrow> x) # attach_argv session create)"
proof -
  let ?bin = "case z of None \<Rightarrow> ''zellij'' | Some x \<Rightarrow> x"
  have attach: "\<exists>a argv. attach_argv session create = a # argv" by (simp add: attach_argv_def)
  have env: "list_all2 renders [''LANG=en_US.UTF-8'', ''LC_CTYPE=en_US.UTF-8''] [''LANG=en_US.UTF-8'', ''LC_CTYPE=en_US.UTF-8'']"
    by (auto intro!: renders_safe simp: sh_safe_def is_ascii_alphanumeric_def is_ascii_digit_def byte_def)
  have "sh_words (remote_attach_command r z session create env_accepted) =
        Some ((if env_accepted then [] else [''LANG=en_US.UTF-8'', ''LC_CTYPE=en_US.UTF-8'']) @ ?bin # attach_argv session create)"
  proof (cases env_accepted)
    case True
    then show ?thesis using attach invoke_words [OF assms, of "[]" "[]" ?bin] by (auto simp: remote_attach_command_def)
  next
    case False
    have "remote_attach_command r z session create env_accepted =
        join '' '' ([''LANG=en_US.UTF-8'', ''LC_CTYPE=en_US.UTF-8''] @ [invoke r ?bin (join_args r (attach_argv session create))])"
      using False assms by (simp add: remote_attach_command_def LOCALE_ENV_def)
    then show ?thesis using attach False invoke_words [OF assms env, of ?bin] by auto
  qed
  with serve_words [OF assms] show ?thesis by blast
qed

theorem posix_commands_exact_witness:
  "sh_words (invoke \<lparr>re_os = Linux, re_arch = ''x86_64'', re_shell = Posix, re_home = ''/h''\<rparr>
     ''/h/it's; rm'' (serve_args \<lparr>re_os = Linux, re_arch = ''x86_64'', re_shell = Posix, re_home = ''/h''\<rparr> [] (Some ''$(z) &'')))
   = Some [''/h/it's; rm'', ''serve'', ''--zellij'', ''$(z) &'']"
  using posix_commands_exact [of "\<lparr>re_os = Linux, re_arch = ''x86_64'', re_shell = Posix, re_home = ''/h''\<rparr>"
      "''/h/it's; rm''" "[]" "Some ''$(z) &''"]
  by (simp add: serve_argv_def client_argv_def sanitize_client_def Let_def)

section \<open>A deployment is verified and loses nothing\<close>

abbreviation file_at :: "session \<Rightarrow> string \<Rightarrow> string option" where
  "file_at s p \<equiv> map_of (bf_files (ss_files s)) p"

lemma exec_keeps [simp]: "ss_files (fst (exec s c)) = ss_files s" "ss_answer (fst (exec s c)) = ss_answer s" "snd (exec s c) = ss_answer s c"
  by (simp_all add: exec_def)

lemma detect_keeps: "ss_files (fst (detect lib s)) = ss_files s \<and> ss_answer (fst (detect lib s)) = ss_answer s"
  by (auto simp: detect_def exec_def Let_def split: sum.splits option.splits prod.splits)

lemma sftp_call_keeps [simp]:
  "file_at (fst (sftp_call lib s)) p = file_at s p" "ss_answer (fst (sftp_call lib s)) = ss_answer s"
  by (simp_all add: sftp_call_def split_beta)

lemma put_file_at [simp]: "file_at (put_file p c s) q = (if q = p then Some c else file_at s q)" "ss_answer (put_file p c s) = ss_answer s"
  by (simp_all add: put_file_def update_conv')

lemma make_dirs_keeps: "file_at (fst (make_dirs lib s path parts)) p = file_at s p \<and> ss_answer (fst (make_dirs lib s path parts)) = ss_answer s"
proof (induction parts arbitrary: s path)
  case (Cons part parts)
  obtain s1 r1 where c: "sftp_call lib s = (s1, r1)" by force
  obtain s2 r2 where d: "sftp_call lib s1 = (s2, r2)" by force
  have k: "file_at s1 p = file_at s p" "ss_answer s1 = ss_answer s" "file_at s2 p = file_at s p" "ss_answer s2 = ss_answer s"
    using sftp_call_keeps(1) [of lib s p] sftp_call_keeps(1) [of lib s1 p] sftp_call_keeps(2) [of lib s] sftp_call_keeps(2) [of lib s1] c d by simp_all
  have "file_at (s2\<lparr>ss_dirs := ds\<rparr>) p = file_at s p" "ss_answer (s2\<lparr>ss_dirs := ds\<rparr>) = ss_answer s" for ds using k by simp_all
  with c d k Cons show ?case by (simp add: Let_def split: sum.splits)
qed simp

lemma write_upload_effect:
  assumes "write_upload lib s r tmp bytes = (s', x)"
  shows "\<And>q. q \<noteq> tmp \<Longrightarrow> file_at s' q = file_at s q" "x = Ok u \<Longrightarrow> file_at s' tmp = Some bytes" "ss_answer s' = ss_answer s"
proof -
  obtain s1 r1 where c1: "sftp_call lib s = (s1, r1)" by force
  obtain s2 r2 where c2: "sftp_call lib (put_file tmp [] s1) = (s2, r2)" by force
  obtain s3 r3 where c3: "sftp_call lib (put_file tmp bytes s2) = (s3, r3)" by force
  obtain s4 r4 where c4: "sftp_call lib s3 = (s4, r4)" by force
  have k1: "file_at s1 q = file_at s q" "ss_answer s1 = ss_answer s" for q
    using sftp_call_keeps [of lib s] c1 by simp_all
  have k2: "file_at s2 q = (if q = tmp then Some [] else file_at s q)" "ss_answer s2 = ss_answer s" for q
    using sftp_call_keeps [of lib "put_file tmp [] s1"] c2 k1 by simp_all
  have k3: "file_at s3 q = (if q = tmp then Some bytes else file_at s q)" "ss_answer s3 = ss_answer s" for q
    using sftp_call_keeps [of lib "put_file tmp bytes s2"] c3 k2 by simp_all
  have k4: "file_at s4 q = (if q = tmp then Some bytes else file_at s q)" "ss_answer s4 = ss_answer s" for q
    using sftp_call_keeps [of lib s3] c4 k3 by simp_all
  have run: "(s', x) = (case r1 of Err e \<Rightarrow> (s1, Err e) | Ok _ \<Rightarrow>
      (case r2 of Err e \<Rightarrow> (put_file tmp (take (ss_partial s2) bytes) s2, Err e) | Ok _ \<Rightarrow>
      (case r3 of Err e \<Rightarrow> (s3, Err e) | Ok _ \<Rightarrow> if re_os r \<noteq> Windows then (s4, r4) else (s3, Ok ()))))"
    using assms c1 c2 c3 c4 by (auto simp: write_upload_def split: sum.splits if_splits)
  show "\<And>q. q \<noteq> tmp \<Longrightarrow> file_at s' q = file_at s q" "x = Ok u \<Longrightarrow> file_at s' tmp = Some bytes" "ss_answer s' = ss_answer s"
    using run k1 k2 k3 k4 by (auto split: sum.splits if_splits)
qed

definition host_hash :: "deploy_lib \<Rightarrow> session \<Rightarrow> remote \<Rightarrow> string \<Rightarrow> string option" where
  "host_hash lib s r path =
     (case ss_answer s (hash_command r path) of Ok out \<Rightarrow> parse_hash (from_utf8_lossy (eo_stdout out)) | Err _ \<Rightarrow> None)"

lemma verify_upload_effect:
  assumes "verify_upload lib s r dir tmp bytes = (s', x)"
  shows "\<And>q. q \<noteq> tmp \<Longrightarrow> file_at s' q = file_at s q"
    "x = Ok u \<Longrightarrow> file_at s' tmp = file_at s tmp \<and> host_hash lib s r (probe_path r dir @ ''.upload'') = Some (sha256_hex lib bytes)"
    "ss_answer s' = ss_answer s"
  using assms
  by (auto simp: verify_upload_def host_hash_def exec_def Let_def remove_upload_def sftp_bin.remove_other
      split: sum.splits option.splits if_splits)

lemma upload_effect:
  fixes r :: remote and dir :: string
  assumes "upload lib s r dir bytes now = (s', x)"
  defines "tgt \<equiv> dir @ ''/bin/'' @ exe_name r"
  shows "x = Ok u \<Longrightarrow> file_at s' tgt = Some bytes \<and> host_hash lib s r (probe_path r dir @ ''.upload'') = Some (sha256_hex lib bytes)"
    "x = Err e \<Longrightarrow> \<exists>p \<in> insert tgt (aside_names tgt now). file_at s' p = file_at s tgt"
    "ss_answer s' = ss_answer s"
proof -
  let ?tmp = "tgt @ ''.upload''"
  obtain s1 r1 where c1: "make_dirs lib s [] (split_on CHR ''/'' (dir @ ''/bin'')) = (s1, r1)" by force
  obtain s2 r2 where c2: "write_upload lib s1 r ?tmp bytes = (s2, r2)" by force
  obtain s3 r3 where c3: "verify_upload lib s2 r dir ?tmp bytes = (s3, r3)" by force
  obtain b r4 where c4: "swap_in sftp_files (ss_files s3) (dir @ ''/bin'') (exe_name r) now = (b, r4)" by force
  have k1: "file_at s1 q = file_at s q" "ss_answer s1 = ss_answer s" for q
    using make_dirs_keeps [where lib = lib and s = s and path = "[]" and p = q] c1 by (metis fst_conv)+
  note k2 = write_upload_effect [OF c2] and k3 = verify_upload_effect [OF c3]
  have ne: "tgt \<noteq> ?tmp" by simp
  have t: "file_at s2 tgt = file_at s tgt" "file_at s3 tgt = file_at s tgt" using k1 k2(1) k3(1) ne by metis+
  have run: "(s', x) = (case ss_sftp s of Some e \<Rightarrow> (s, Err (DE_Ssh e)) | None \<Rightarrow>
      (case r1 of Err e \<Rightarrow> (s1, Err e) | Ok _ \<Rightarrow> (case r2 of Err e \<Rightarrow> (s2, Err e) | Ok _ \<Rightarrow>
      (case r3 of Err e \<Rightarrow> (s3, Err e) | Ok _ \<Rightarrow>
      (case r4 of Err e \<Rightarrow> (s3\<lparr>ss_files := b\<rparr>, Err (DE_Upload (''replace '' @ tgt @ '': '' @ e)))
         | Ok _ \<Rightarrow> (s3\<lparr>ss_files := b\<rparr>, Ok ()))))))"
    using assms(1) c1 c2 c3 c4 by (auto simp: upload_def tgt_def Let_def split: sum.splits option.splits)
  have new: "file_at s3 ?tmp = Some bytes" "host_hash lib s r (probe_path r dir @ ''.upload'') = Some (sha256_hex lib bytes)"
    if "r2 = Ok ()" "r3 = Ok ()"
    using k2(2) [of "()"] k3(2) [of "()"] that k1(2) k2(3) by (simp_all add: host_hash_def)
  have swap: "case r4 of Ok _ \<Rightarrow> map_of (bf_files b) tgt = Some bytes
      | Err _ \<Rightarrow> \<exists>p \<in> insert tgt (aside_names tgt now). map_of (bf_files b) p = file_at s tgt"
    if "file_at s3 ?tmp = Some bytes"
    using sftp_bin.swap_in_effect [OF c4, of bytes] that t(2) by (cases r4) (simp_all add: tgt_def)
  show "ss_answer s' = ss_answer s" using run k1 k2(3) k3(3) by (auto split: sum.splits option.splits)
  show "x = Ok u \<Longrightarrow> file_at s' tgt = Some bytes \<and> host_hash lib s r (probe_path r dir @ ''.upload'') = Some (sha256_hex lib bytes)"
    using run new swap by (auto split: sum.splits option.splits)
  show "x = Err e \<Longrightarrow> \<exists>p \<in> insert tgt (aside_names tgt now). file_at s' p = file_at s tgt"
    using run new(1) swap t k1 by (auto split: sum.splits option.splits)
qed

lemma install_hooks_keeps: "ss_files (fst (install_hooks lib s r path)) = ss_files s"
  by (auto simp: install_hooks_def exec_def split: sum.splits)

lemma deploy_run:
  assumes "deploy lib store read_bin opts now s = (s', x)"
  obtains (early) e where "x = Err e" "ss_files s' = ss_files s"
  | (late) r t bytes s3 s4 y s5 z where
      "snd (detect lib s) = Ok r" "target r = Some t" "read_bin (probe_binary store t) = Some bytes"
      "ss_files s3 = ss_files s" "ss_answer s3 = ss_answer s"
      "(if host_hash lib s r (probe_path r (do_dir opts)) \<noteq> Some (sha256_hex lib bytes)
        then upload lib s3 r (do_dir opts) bytes now else (s3, Ok ())) = (s4, y)"
      "ss_files s5 = ss_files s4"
      "(s', x) = (case y of Err e \<Rightarrow> (s4, Err e) | Ok _ \<Rightarrow> (case z of Err e \<Rightarrow> (s5, Err e) | Ok hooks \<Rightarrow>
         (s5, Ok \<lparr>dr_remote = r, dr_probe_path = probe_path r (do_dir opts),
            dr_uploaded = (host_hash lib s r (probe_path r (do_dir opts)) \<noteq> Some (sha256_hex lib bytes)), dr_hooks = hooks\<rparr>)))"
proof (cases "\<exists>r t bytes out. snd (detect lib s) = Ok r \<and> target r = Some t \<and> read_bin (probe_binary store t) = Some bytes
    \<and> ss_answer s (hash_command r (probe_path r (do_dir opts))) = Ok out")
  case False
  obtain s1 d where det: "detect lib s = (s1, d)" by force
  then have "ss_files s1 = ss_files s" "ss_answer s1 = ss_answer s" using detect_keeps [of lib s] by simp_all
  with False det assms have "\<exists>e. x = Err e" "ss_files s' = ss_files s"
    by (auto simp: deploy_def exec_def Let_def split: sum.splits option.splits)
  then show ?thesis using early by blast
next
  case True
  then obtain r t bytes out s1 where d: "detect lib s = (s1, Ok r)" and t: "target r = Some t"
    and b: "read_bin (probe_binary store t) = Some bytes"
    and out: "ss_answer s (hash_command r (probe_path r (do_dir opts))) = Ok out" by (metis prod.collapse)
  have k1: "ss_files s1 = ss_files s" "ss_answer s1 = ss_answer s" using detect_keeps [of lib s] d by simp_all
  define path where "path = probe_path r (do_dir opts)"
  define h where "h = host_hash lib s r path"
  have h: "parse_hash (from_utf8_lossy (eo_stdout out)) = h" using out by (simp add: host_hash_def path_def h_def)
  define s2 where "s2 = fst (exec s1 (hash_command r path))"
  define s3 where "s3 = (if h \<noteq> Some (sha256_hex lib bytes) \<and> h \<noteq> None then fst (exec s2 (invoke r path (stop_args (do_client opts)))) else s2)"
  obtain s4 y where up: "(if h \<noteq> Some (sha256_hex lib bytes) then upload lib s3 r (do_dir opts) bytes now else (s3, Ok ())) = (s4, y)"
    by force
  obtain s5 z where hk: "(if do_install_hooks opts then install_hooks lib s4 r path else (s4, Ok [])) = (s5, z)" by force
  have "exec s1 (hash_command r path) = (s2, Ok out)" using out k1 by (simp add: s2_def exec_def path_def)
  then have "deploy lib store read_bin opts now s =
      (case (if h \<noteq> Some (sha256_hex lib bytes) then upload lib s3 r (do_dir opts) bytes now else (s3, Ok ())) of
         (s4, Err e) \<Rightarrow> (s4, Err e)
       | (s4, Ok _) \<Rightarrow>
           (case (if do_install_hooks opts then install_hooks lib s4 r path else (s4, Ok [])) of
              (s5, Err e) \<Rightarrow> (s5, Err e)
            | (s5, Ok hooks) \<Rightarrow>
                (s5, Ok \<lparr>dr_remote = r, dr_probe_path = path, dr_uploaded = (h \<noteq> Some (sha256_hex lib bytes)), dr_hooks = hooks\<rparr>)))"
    by (simp add: deploy_def d t b Let_def path_def h s3_def)
  then have "(s', x) = (case y of Err e \<Rightarrow> (s4, Err e) | Ok _ \<Rightarrow> (case z of Err e \<Rightarrow> (s5, Err e) | Ok hooks \<Rightarrow>
      (s5, Ok \<lparr>dr_remote = r, dr_probe_path = path, dr_uploaded = (h \<noteq> Some (sha256_hex lib bytes)), dr_hooks = hooks\<rparr>)))"
    unfolding assms up by (cases y) (simp_all add: hk split: sum.splits)
  moreover have "ss_files s5 = ss_files s4" using hk install_hooks_keeps [of lib s4 r path] by (auto split: if_splits)
  moreover have "ss_files s3 = ss_files s" "ss_answer s3 = ss_answer s" using k1 by (simp_all add: s3_def s2_def)
  ultimately show ?thesis using late [of r t bytes s3 s4 y s5 z] d t b up unfolding path_def h_def by simp
qed

lemma deploy_effect:
  assumes "deploy lib store read_bin opts now s = (s', x)"
  shows "case x of
     Ok report \<Rightarrow>
       (\<exists>t bytes. target (dr_remote report) = Some t \<and> read_bin (probe_binary store t) = Some bytes
          \<and> dr_probe_path report = probe_path (dr_remote report) (do_dir opts)
          \<and> (if dr_uploaded report
             then file_at s' (do_dir opts @ ''/bin/'' @ exe_name (dr_remote report)) = Some bytes
               \<and> host_hash lib s (dr_remote report) (dr_probe_path report @ ''.upload'') = Some (sha256_hex lib bytes)
             else ss_files s' = ss_files s
               \<and> host_hash lib s (dr_remote report) (dr_probe_path report) = Some (sha256_hex lib bytes)))
   | Err e \<Rightarrow>
       ss_files s' = ss_files s
       \<or> (\<exists>r t bytes tgt. snd (detect lib s) = Ok r \<and> target r = Some t \<and> read_bin (probe_binary store t) = Some bytes
            \<and> tgt = do_dir opts @ ''/bin/'' @ exe_name r
            \<and> ((\<exists>p \<in> insert tgt (aside_names tgt now). file_at s' p = file_at s tgt)
               \<or> file_at s' tgt = Some bytes
                 \<and> host_hash lib s r (probe_path r (do_dir opts) @ ''.upload'') = Some (sha256_hex lib bytes)))"
  using assms
proof (cases rule: deploy_run)
  case (late r t bytes s3 s4 y s5 z)
  have same: "host_hash lib s3 r q = host_hash lib s r q" for q by (simp add: host_hash_def late(5))
  show ?thesis
  proof (cases "host_hash lib s r (probe_path r (do_dir opts)) = Some (sha256_hex lib bytes)")
    case True
    then show ?thesis using late by (auto split: sum.splits)
  next
    case False
    with late(6) have u: "upload lib s3 r (do_dir opts) bytes now = (s4, y)" by simp
    note eff = upload_effect [OF u]
    show ?thesis
    proof (cases y)
      case (Inl e)
      then show ?thesis using late eff(2) [OF Inl] by auto
    next
      case (Inr u)
      then show ?thesis using late eff(1) [OF Inr] False same by (auto split: sum.splits)
    qed
  qed
qed simp

text \<open>C10. A deployment that reports success leaves the host with exactly the bundled binary for its platform:
  either it wrote the bytes to the probe's path, after the host itself had computed the right SHA-256 over the
  uploaded file, or the host already reported that hash for the probe and no file was touched. A deployment
  that fails, at any step (detection, no binary, directory, upload, verification, swap, hooks), leaves the
  previous probe under its own name or under a name it was moved aside to, or else the new binary, verified, in
  its place.\<close>

theorem deploy_verified:
  assumes "deploy lib store read_bin opts now s = (s', x)"
  shows "case x of
     Ok report \<Rightarrow>
       (\<exists>t bytes. target (dr_remote report) = Some t \<and> read_bin (probe_binary store t) = Some bytes
          \<and> dr_probe_path report = probe_path (dr_remote report) (do_dir opts)
          \<and> (if dr_uploaded report
             then file_at s' (do_dir opts @ ''/bin/'' @ exe_name (dr_remote report)) = Some bytes
               \<and> host_hash lib s (dr_remote report) (dr_probe_path report @ ''.upload'') = Some (sha256_hex lib bytes)
             else ss_files s' = ss_files s
               \<and> host_hash lib s (dr_remote report) (dr_probe_path report) = Some (sha256_hex lib bytes)))
   | Err e \<Rightarrow>
       ss_files s' = ss_files s
       \<or> (\<exists>r t bytes tgt. snd (detect lib s) = Ok r \<and> target r = Some t \<and> read_bin (probe_binary store t) = Some bytes
            \<and> tgt = do_dir opts @ ''/bin/'' @ exe_name r
            \<and> ((\<exists>p \<in> insert tgt (aside_names tgt now). file_at s' p = file_at s tgt)
               \<or> file_at s' tgt = Some bytes
                 \<and> host_hash lib s r (probe_path r (do_dir opts) @ ''.upload'') = Some (sha256_hex lib bytes)))"
  by (rule deploy_effect [OF assms])

definition example_lib :: deploy_lib where
  "example_lib = \<lparr>dl_digest = (\<lambda>_. replicate 32 (CHR 0x0A)), dl_hook_line = (\<lambda>_. None),
     dl_debug = (\<lambda>s. s), dl_debug_lines = concat, dl_timed_out = (\<lambda>_. False)\<rparr>"

definition example_session :: session where
  "example_session = \<lparr>ss_answer = (\<lambda>c. Ok \<lparr>eo_status = Some 0,
       eo_stdout = (if c = posix_detect_command then join [CHR 0x0A] [BEGIN_MARK, ''Linux x86_64'', ''/h'', END_MARK]
         else if contains c ''.upload'' then concat (replicate 32 ''0A'') else []), eo_stderr = []\<rparr>),
     ss_sftp = None, ss_files = \<lparr>bf_files = [(''.mai/bin/mai-probe'', ''old'')], bf_faults = [], bf_overwrites = True\<rparr>,
     ss_dirs = [], ss_closed = False, ss_partial = 0, ss_log = []\<rparr>"

theorem deploy_verified_witness:
  "file_at (fst (deploy example_lib ''d'' (\<lambda>_. Some ''new'') default_deploy_options 0 example_session)) ''.mai/bin/mai-probe'' = Some ''new''"
proof -
  let ?run = "deploy example_lib ''d'' (\<lambda>_. Some ''new'') default_deploy_options 0 example_session"
  have "snd ?run = Ok \<lparr>dr_remote = \<lparr>re_os = Linux, re_arch = ''x86_64'', re_shell = Posix, re_home = ''/h''\<rparr>,
      dr_probe_path = ''/h/.mai/bin/mai-probe'', dr_uploaded = True, dr_hooks = []\<rparr>"
    (is "_ = Ok ?report")
    by code_simp
  then have "?run = (fst ?run, Ok ?report)" by (metis prod.collapse)
  from deploy_verified [OF this] show ?thesis by (simp add: exe_name_def default_deploy_options_def)
qed

end
