(* ===== verification/Ssh_Pty.thy ===== *)
theory Ssh_Pty
  imports Term Deploy
begin

text \<open>
  A PTY on an SSH channel (\<open>crates/mai-core/src/ssh/pty.rs\<close>): the requests that set it up and the task that moves
  bytes both ways.

  The server's messages are a list, each with the time that passes before it; when the list is over the
  channel has ended. Sending a request fails as \<open>pc_faults\<close> says; what was sent is \<open>pc_sent\<close>.
\<close>

section \<open>Setting up\<close>

definition REPLY_TIMEOUT :: duration where "REPLY_TIMEOUT = 10000"

datatype chan_msg =
    CM_Success
  | CM_Failure
  | CM_Data string
  | CM_ExtendedData string
  | CM_ExitStatus u32
  | CM_ExitSignal
  | CM_Eof
  | CM_Close
  | CM_Other

datatype chan_request =
    CR_Pty string u32 u32
  | CR_Env string string
  | CR_Exec string
  | CR_Subsystem string
  | CR_Data string
  | CR_Window u32 u32
  | CR_Eof
  | CR_Close

record pty_chan =
  pc_read :: "(nat \<times> chan_msg) list"
  pc_faults :: "string option list"
  pc_sent :: "chan_request list"
  pc_early :: string

fun reply_from :: "nat \<Rightarrow> (nat \<times> chan_msg) list \<Rightarrow> string \<Rightarrow> (nat \<times> chan_msg) list \<times> string \<times> (ssh_error + bool) option" where
  "reply_from left [] early = ([], early, Some (Err (SE_Channel ''channel closed'')))"
| "reply_from left ((delay, msg) # msgs) early =
     (if left < delay then ((delay - left, msg) # msgs, early, None)
      else case msg of
        CM_Success \<Rightarrow> (msgs, early, Some (Ok True))
      | CM_Failure \<Rightarrow> (msgs, early, Some (Ok False))
      | CM_Data d \<Rightarrow> reply_from (left - delay) msgs (early @ d)
      | CM_ExtendedData d \<Rightarrow> reply_from (left - delay) msgs (early @ d)
      | CM_Close \<Rightarrow> (msgs, early, Some (Err (SE_Channel ''channel closed'')))
      | _ \<Rightarrow> reply_from (left - delay) msgs early)"

definition reply :: "pty_chan \<Rightarrow> string \<Rightarrow> pty_chan \<times> (ssh_error + bool)" where
  "reply c what =
     (let (msgs, early, r) = reply_from REPLY_TIMEOUT (pc_read c) (pc_early c)
      in (c\<lparr>pc_read := msgs, pc_early := early\<rparr>,
          case r of
            Some x \<Rightarrow> x
          | None \<Rightarrow> Err (SE_Channel (''no answer to the '' @ what @ '' request within '' @ show_nat (REPLY_TIMEOUT div 1000) @ ''s''))))"

definition chan_send :: "pty_chan \<Rightarrow> chan_request \<Rightarrow> pty_chan \<times> (ssh_error + unit)" where
  "chan_send c r =
     (case pc_faults c of
        Some e # fs \<Rightarrow> (c\<lparr>pc_faults := fs\<rparr>, Err (SE_Channel e))
      | None # fs \<Rightarrow> (c\<lparr>pc_faults := fs, pc_sent := pc_sent c @ [r]\<rparr>, Ok ())
      | [] \<Rightarrow> (c\<lparr>pc_sent := pc_sent c @ [r]\<rparr>, Ok ()))"

definition request :: "pty_chan \<Rightarrow> chan_request \<Rightarrow> string \<Rightarrow> pty_chan \<times> (ssh_error + bool)" where
  "request c r what = (case chan_send c r of (c1, Err e) \<Rightarrow> (c1, Err e) | (c1, Ok _) \<Rightarrow> reply c1 what)"

fun set_envs :: "pty_chan \<Rightarrow> (string \<times> string) list \<Rightarrow> bool \<Rightarrow> pty_chan \<times> (ssh_error + bool)" where
  "set_envs c [] ok = (c, Ok ok)"
| "set_envs c ((k, v) # env) ok =
     (case request c (CR_Env k v) ''env'' of
        (c1, Err e) \<Rightarrow> (c1, Err e)
      | (c1, Ok b) \<Rightarrow> set_envs c1 env (ok \<and> b))"

definition setup_pty :: "pty_chan \<Rightarrow> term_size \<Rightarrow> (string \<times> string) list \<Rightarrow> (bool \<Rightarrow> string) \<Rightarrow> pty_chan \<times> (ssh_error + unit)" where
  "setup_pty c sz env command =
     (case request c (CR_Pty ''xterm-256color'' (ucast (ts_cols sz)) (ucast (ts_rows sz))) ''pty'' of
        (c1, Err e) \<Rightarrow> (c1, Err e)
      | (c1, Ok False) \<Rightarrow> (c1, Err (SE_Channel ''server refused the pty request''))
      | (c1, Ok True) \<Rightarrow>
          (case set_envs c1 env True of
             (c2, Err e) \<Rightarrow> (c2, Err e)
           | (c2, Ok ok) \<Rightarrow>
               (case request c2 (CR_Exec (command ok)) ''exec'' of
                  (c3, Err e) \<Rightarrow> (c3, Err e)
                | (c3, Ok False) \<Rightarrow> (c3, Err (SE_Channel ''server refused the command''))
                | (c3, Ok True) \<Rightarrow> (c3, Ok ()))))"

section \<open>Moving bytes\<close>

text \<open>What the \<open>select!\<close> of the pump receives: a message of the server (with whether the app still takes
  output), or a command of the app (with whether the write succeeds). \<open>None\<close> is the end of a stream.\<close>

datatype pump_in =
    PU_Msg "chan_msg option" bool
  | PU_Cmd "pty_in option" bool

datatype pump_out =
    PP_Output pty_out
  | PP_Send chan_request

record pump =
  pm_status :: "u32 option"
  pm_exited :: bool
  pm_input_open :: bool
  pm_over :: bool

definition pump_start :: pump where
  "pump_start = \<lparr>pm_status = None, pm_exited = False, pm_input_open = True, pm_over = False\<rparr>"

definition pump_end :: "pump \<Rightarrow> pump \<times> pump_out list" where
  "pump_end p = (p\<lparr>pm_over := True\<rparr>, if pm_exited p then [PP_Output (PO_Exit (pm_status p))] else [])"

definition pump_data :: "pump \<Rightarrow> string \<Rightarrow> bool \<Rightarrow> pump \<times> pump_out list" where
  "pump_data p d taken =
     (if taken then (p, [PP_Output (PO_Data d)]) else (p\<lparr>pm_over := True\<rparr>, [PP_Send CR_Close]))"

fun pump_msg :: "pump \<Rightarrow> chan_msg option \<Rightarrow> bool \<Rightarrow> pump \<times> pump_out list" where
  "pump_msg p (Some (CM_Data d)) taken = pump_data p d taken"
| "pump_msg p (Some (CM_ExtendedData d)) taken = pump_data p d taken"
| "pump_msg p (Some (CM_ExitStatus st)) taken = (p\<lparr>pm_status := Some st, pm_exited := True\<rparr>, [])"
| "pump_msg p (Some CM_ExitSignal) taken = (p\<lparr>pm_exited := True\<rparr>, [])"
| "pump_msg p (Some CM_Close) taken = pump_end p"
| "pump_msg p None taken = pump_end p"
| "pump_msg p (Some _) taken = (p, [])"

fun pump_cmd :: "pump \<Rightarrow> pty_in option \<Rightarrow> bool \<Rightarrow> pump \<times> pump_out list" where
  "pump_cmd p (Some (PI_Data d)) written = (if written then (p, [PP_Send (CR_Data d)]) else pump_end p)"
| "pump_cmd p (Some (PI_Resize sz)) written = (p, [PP_Send (CR_Window (ucast (ts_cols sz)) (ucast (ts_rows sz)))])"
| "pump_cmd p (Some PI_Close) written = (p\<lparr>pm_input_open := False\<rparr>, [PP_Send CR_Eof, PP_Send CR_Close])"
| "pump_cmd p None written = (p\<lparr>pm_input_open := False\<rparr>, [PP_Send CR_Eof, PP_Send CR_Close])"

fun pump_step :: "pump \<Rightarrow> pump_in \<Rightarrow> pump \<times> pump_out list" where
  "pump_step p (PU_Msg m taken) = (if pm_over p then (p, []) else pump_msg p m taken)"
| "pump_step p (PU_Cmd c written) = (if pm_over p \<or> \<not> pm_input_open p then (p, []) else pump_cmd p c written)"

definition start_pty ::
    "pty_chan \<Rightarrow> term_size \<Rightarrow> (string \<times> string) list \<Rightarrow> (bool \<Rightarrow> string) \<Rightarrow> pty_chan \<times> (ssh_error + pump \<times> pty_out list)" where
  "start_pty c sz env command =
     (case setup_pty c sz env command of
        (c1, Err e) \<Rightarrow> (fst (chan_send c1 CR_Close), Err e)
      | (c1, Ok _) \<Rightarrow> (c1, Ok (pump_start, if pc_early c1 = [] then [] else [PO_Data (pc_early c1)])))"

section \<open>The command and the bytes\<close>

text \<open>Bytes of the messages, and the bytes the app receives.\<close>

definition msg_bytes :: "chan_msg list \<Rightarrow> string" where
  "msg_bytes ms = concat (map (\<lambda>m. case m of CM_Data d \<Rightarrow> d | CM_ExtendedData d \<Rightarrow> d | _ \<Rightarrow> []) ms)"

definition out_bytes :: "pty_out list \<Rightarrow> string" where
  "out_bytes os = concat (map (\<lambda>m. case m of PO_Data d \<Rightarrow> d | _ \<Rightarrow> []) os)"

definition outputs :: "pump_out list \<Rightarrow> pty_out list" where
  "outputs os = List.map_filter (\<lambda>a. case a of PP_Output x \<Rightarrow> Some x | _ \<Rightarrow> None) os"

lemma bytes_simps [simp]:
  "msg_bytes [] = []" "msg_bytes (a @ b) = msg_bytes a @ msg_bytes b"
  "msg_bytes (m # ms) = (case m of CM_Data d \<Rightarrow> d | CM_ExtendedData d \<Rightarrow> d | _ \<Rightarrow> []) @ msg_bytes ms"
  "out_bytes [] = []" "out_bytes (x @ y) = out_bytes x @ out_bytes y"
  "out_bytes (x0 # x) = (case x0 of PO_Data d \<Rightarrow> d | _ \<Rightarrow> []) @ out_bytes x"
  "outputs [] = []" "outputs (u @ v) = outputs u @ outputs v"
  "outputs (PP_Output z # u) = z # outputs u" "outputs (PP_Send q # u) = outputs u"
  by (simp_all add: msg_bytes_def out_bytes_def outputs_def List.map_filter_def)

definition answers :: "chan_msg list \<Rightarrow> bool list" where
  "answers ms = List.map_filter (\<lambda>m. case m of CM_Success \<Rightarrow> Some True | CM_Failure \<Rightarrow> Some False | _ \<Rightarrow> None) ms"

lemma answers_simps [simp]:
  "answers [] = []" "answers (a @ b) = answers a @ answers b"
  "answers (m # ms) = (case m of CM_Success \<Rightarrow> [True] | CM_Failure \<Rightarrow> [False] | _ \<Rightarrow> []) @ answers ms"
  by (simp_all add: answers_def List.map_filter_def split: chan_msg.split)

text \<open>A channel between two points of time: the messages read meanwhile carried the bytes that became early
  output and the answers \<open>bs\<close>, and \<open>rs\<close> was sent.\<close>

definition chan_moves :: "pty_chan \<Rightarrow> chan_request list \<Rightarrow> bool list \<Rightarrow> pty_chan \<Rightarrow> bool" where
  "chan_moves c rs bs c' \<longleftrightarrow>
     (\<exists>ms. map snd (pc_read c) = ms @ map snd (pc_read c') \<and> pc_early c' = pc_early c @ msg_bytes ms \<and> answers ms = bs)
     \<and> pc_sent c' = pc_sent c @ rs"

lemma chan_moves_trans: "chan_moves c rs bs c1 \<Longrightarrow> chan_moves c1 rs' bs' c2 \<Longrightarrow> chan_moves c (rs @ rs') (bs @ bs') c2"
  unfolding chan_moves_def by (metis append_assoc bytes_simps(2) answers_simps(2))

lemma reply_from_reads:
  "reply_from left msgs early = (msgs', early', r) \<Longrightarrow>
   \<exists>ms. map snd msgs = ms @ map snd msgs' \<and> early' = early @ msg_bytes ms \<and> answers ms = (case r of Some (Ok b) \<Rightarrow> [b] | _ \<Rightarrow> [])"
proof (induction left msgs early rule: reply_from.induct)
  case (2 left delay msg msgs early)
  show ?case
  proof (cases "left < delay")
    case False
    have step: "\<exists>ms. map snd ((delay, msg) # msgs) = ms @ map snd msgs' \<and> early' = early @ msg_bytes ms
        \<and> answers ms = (case r of Some (Ok b) \<Rightarrow> [b] | _ \<Rightarrow> [])"
      if "reply_from (left - delay) msgs (early @ b) = (msgs', early', r)" "msg_bytes [msg] = b" "msg \<noteq> CM_Close"
        "msg \<noteq> CM_Success" "msg \<noteq> CM_Failure" for b
    proof -
      have "\<exists>ms. map snd msgs = ms @ map snd msgs' \<and> early' = (early @ b) @ msg_bytes ms
          \<and> answers ms = (case r of Some (Ok b) \<Rightarrow> [b] | _ \<Rightarrow> [])"
        using 2 False that by (cases msg) auto
      then obtain ms where "map snd msgs = ms @ map snd msgs'" "early' = (early @ b) @ msg_bytes ms"
        "answers ms = (case r of Some (Ok b) \<Rightarrow> [b] | _ \<Rightarrow> [])" by blast
      then show ?thesis using that(2-5) by (intro exI [of _ "msg # ms"]) (cases msg; simp)
    qed
    show ?thesis using 2(7) False step [of "[]"] step by (cases msg) (auto intro: exI [of _ "[msg]" for msg])
  qed (use 2(7) in auto)
qed auto

lemma reply_moves: "reply c what = (c', Ok b) \<Longrightarrow> chan_moves c [] [b] c'"
  using reply_from_reads [of REPLY_TIMEOUT "pc_read c" "pc_early c"]
  by (auto simp: reply_def chan_moves_def split: prod.splits option.splits)

lemma request_moves:
  assumes "request c q what = (c', Ok b)"
  shows "chan_moves c [q] [b] c'"
proof -
  obtain c1 x where s: "chan_send c q = (c1, x)" by force
  with assms have x: "x = Ok ()" by (cases x) (auto simp: request_def)
  with s have "chan_moves c [q] [] c1" by (auto simp: chan_send_def chan_moves_def split: list.splits option.splits)
  from chan_moves_trans [OF this reply_moves] show ?thesis using assms s x by (simp add: request_def)
qed

lemma set_envs_moves:
  "set_envs c env ok = (c', Ok b) \<Longrightarrow>
   \<exists>bs. length bs = length env \<and> b = (ok \<and> False \<notin> set bs) \<and> chan_moves c (map (\<lambda>(k, v). CR_Env k v) env) bs c'"
proof (induction c env ok rule: set_envs.induct)
  case (2 c k v env ok)
  obtain c1 x where q: "request c (CR_Env k v) ''env'' = (c1, x)" by force
  with 2(2) obtain b1 where x: "x = Ok b1" by (cases x) auto
  with 2(2) q have "set_envs c1 env (ok \<and> b1) = (c', Ok b)" by simp
  from 2(1) [OF q [symmetric, unfolded x] refl this]
  obtain bs where "length bs = length env" "b = ((ok \<and> b1) \<and> False \<notin> set bs)" "chan_moves c1 (map (\<lambda>(k, v). CR_Env k v) env) bs c'"
    by blast
  then show ?case using chan_moves_trans [OF request_moves [OF q [unfolded x]]]
    by (intro exI [of _ "b1 # bs"]) auto
qed (auto simp: chan_moves_def)

lemma setup_pty_moves:
  assumes "setup_pty c sz env command = (c', Ok ())"
  shows "\<exists>bs. length bs = length env \<and> chan_moves c
     (CR_Pty ''xterm-256color'' (ucast (ts_cols sz)) (ucast (ts_rows sz))
        # map (\<lambda>(k, v). CR_Env k v) env @ [CR_Exec (command (False \<notin> set bs))])
     (True # bs @ [True]) c'"
proof -
  let ?pty = "CR_Pty ''xterm-256color'' (ucast (ts_cols sz)) (ucast (ts_rows sz))"
  obtain c1 x where q: "request c ?pty ''pty'' = (c1, x)" by force
  with assms have x: "x = Ok True" by (auto simp: setup_pty_def split: sum.splits bool.splits)
  obtain c2 y where e: "set_envs c1 env True = (c2, y)" by force
  with assms q x obtain ok where y: "y = Ok ok" by (auto simp: setup_pty_def split: sum.splits)
  obtain c3 z where f: "request c2 (CR_Exec (command ok)) ''exec'' = (c3, z)" by force
  with assms q x e y have z: "z = Ok True" "c3 = c'" by (auto simp: setup_pty_def split: sum.splits bool.splits)
  from set_envs_moves [OF e [unfolded y]] obtain bs where bs: "length bs = length env" "ok = (False \<notin> set bs)"
    "chan_moves c1 (map (\<lambda>(k, v). CR_Env k v) env) bs c2" by auto
  from chan_moves_trans [OF chan_moves_trans [OF request_moves [OF q [unfolded x]] bs(3)] request_moves [OF f [unfolded z(1)]]] z(2) bs(1,2)
  show ?thesis by auto
qed

text \<open>When a PTY comes up, the server has accepted, in this order, a PTY of the terminal's size, answered every
  variable, and accepted the command; the command is the one for the answers that were given: the
  variant without a prefix exactly when every variable was accepted.\<close>

theorem pty_setup_exact:
  assumes "start_pty c sz env command = (c', Ok (p, outs))"
  shows "\<exists>ms bs. map snd (pc_read c) = ms @ map snd (pc_read c') \<and> answers ms = True # bs @ [True] \<and> length bs = length env
     \<and> pc_sent c' = pc_sent c @ CR_Pty ''xterm-256color'' (ucast (ts_cols sz)) (ucast (ts_rows sz))
         # map (\<lambda>(k, v). CR_Env k v) env @ [CR_Exec (command (False \<notin> set bs))]"
proof -
  from assms have "setup_pty c sz env command = (c', Ok ())" by (auto simp: start_pty_def split: sum.splits prod.splits)
  from setup_pty_moves [OF this] show ?thesis unfolding chan_moves_def by blast
qed

text \<open>The messages the pump acts on, up to the end of the channel or a failing write, and whether it came to
  an end.\<close>

fun heard :: "bool \<Rightarrow> pump_in list \<Rightarrow> chan_msg list \<times> bool" where
  "heard input_open [] = ([], False)"
| "heard input_open (PU_Msg m taken # ins) =
     (case m of
        None \<Rightarrow> ([], True)
      | Some CM_Close \<Rightarrow> ([], True)
      | Some x \<Rightarrow> (case heard input_open ins of (ms, b) \<Rightarrow> (x # ms, b)))"
| "heard input_open (PU_Cmd c written # ins) =
     (if \<not> input_open then heard input_open ins
      else case c of
        Some (PI_Data _) \<Rightarrow> if written then heard input_open ins else ([], True)
      | Some (PI_Resize _) \<Rightarrow> heard input_open ins
      | _ \<Rightarrow> heard False ins)"

definition data_outputs :: "chan_msg list \<Rightarrow> pty_out list" where
  "data_outputs ms =
     List.map_filter (\<lambda>m. case m of CM_Data d \<Rightarrow> Some (PO_Data d) | CM_ExtendedData d \<Rightarrow> Some (PO_Data d) | _ \<Rightarrow> None) ms"

definition exit_reported :: "chan_msg list \<Rightarrow> bool" where
  "exit_reported ms \<longleftrightarrow> list_ex (\<lambda>m. case m of CM_ExitStatus _ \<Rightarrow> True | CM_ExitSignal \<Rightarrow> True | _ \<Rightarrow> False) ms"

definition exit_status :: "u32 option \<Rightarrow> chan_msg list \<Rightarrow> u32 option" where
  "exit_status st ms = fold (\<lambda>m st. case m of CM_ExitStatus s \<Rightarrow> Some s | _ \<Rightarrow> st) ms st"

lemma data_outputs_simps [simp]:
  "data_outputs [] = []"
  "data_outputs (m # ms) = (case m of CM_Data d \<Rightarrow> [PO_Data d] | CM_ExtendedData d \<Rightarrow> [PO_Data d] | _ \<Rightarrow> []) @ data_outputs ms"
  by (simp_all add: data_outputs_def List.map_filter_def split: chan_msg.split)

lemma out_bytes_data: "out_bytes (data_outputs ms) = msg_bytes ms"
  by (induction ms) (auto split: chan_msg.split)

lemma pump_over: "pm_over p \<Longrightarrow> snd (run_steps pump_step p ins) = []"
proof (induction ins)
  case (Cons i ins)
  then show ?case by (cases i) simp_all
qed simp

definition all_taken :: "pump_in list \<Rightarrow> bool" where
  "all_taken ins = list_all (\<lambda>i. case i of PU_Msg _ taken \<Rightarrow> taken | PU_Cmd _ _ \<Rightarrow> True) ins"

definition pump_result :: "pump \<Rightarrow> pump_in list \<Rightarrow> pty_out list" where
  "pump_result p ins =
     (case heard (pm_input_open p) ins of (ms, ended) \<Rightarrow>
        data_outputs ms @ (if ended \<and> (pm_exited p \<or> exit_reported ms) then [PO_Exit (exit_status (pm_status p) ms)] else []))"

lemma pump_run: "all_taken ins \<Longrightarrow> \<not> pm_over p \<Longrightarrow> outputs (snd (run_steps pump_step p ins)) = pump_result p ins"
proof (induction ins arbitrary: p)
  case (Cons i ins)
  have IH: "outputs (snd (run_steps pump_step p' ins)) = pump_result p' ins" if "\<not> pm_over p'" for p'
    using Cons.IH [of p'] Cons.prems(1) that by (simp add: all_taken_def)
  note defs = pump_data_def pump_end_def exit_reported_def exit_status_def pump_over IH Cons.prems(2) pump_result_def
  show ?case
  proof (cases i)
    case (PU_Msg m b)
    with Cons.prems(1) have b by (simp add: all_taken_def)
    with PU_Msg show ?thesis
      by (cases m) (auto simp: defs split: prod.splits chan_msg.splits)
  next
    case (PU_Cmd c w)
    show ?thesis
    proof (cases c)
      case (Some x)
      show ?thesis unfolding PU_Cmd Some by (cases x) (auto simp: defs split: prod.splits)
    qed (auto simp: PU_Cmd defs split: prod.splits)
  qed
qed (simp add: pump_result_def)


section \<open>Examples\<close>

definition ex_chan :: pty_chan where
  "ex_chan = \<lparr>pc_read = [(5, CM_Success), (1, CM_Data ''motd''), (2, CM_Failure), (0, CM_Success), (9, CM_Data ''$ ''),
     (1, CM_ExitStatus 0), (0, CM_Close)], pc_faults = [], pc_sent = [], pc_early = []\<rparr>"

definition ex_size :: term_size where "ex_size = \<lparr>ts_cols = 80, ts_rows = 24\<rparr>"

lemma ex_start_pty:
  "start_pty ex_chan ex_size [(''LANG'', ''C'')] (\<lambda>b. if b then ''a'' else ''b'') =
     (\<lparr>pc_read = [(9, CM_Data ''$ ''), (1, CM_ExitStatus 0), (0, CM_Close)], pc_faults = [],
       pc_sent = [CR_Pty ''xterm-256color'' 80 24, CR_Env ''LANG'' ''C'', CR_Exec ''b''], pc_early = ''motd''\<rparr>,
      Ok (pump_start, [PO_Data ''motd'']))"
  by (simp add: start_pty_def setup_pty_def request_def chan_send_def reply_def REPLY_TIMEOUT_def ex_chan_def ex_size_def)

theorem pty_setup_exact_witness:
  "\<exists>ms bs. map snd (pc_read ex_chan) = ms @ [CM_Data ''$ '', CM_ExitStatus 0, CM_Close] \<and> answers ms = True # bs @ [True]
     \<and> length bs = 1 \<and> (if False \<notin> set bs then ''a'' else ''b'') = ''b''"
proof -
  from pty_setup_exact [OF ex_start_pty] obtain ms bs where
    "map snd (pc_read ex_chan) = ms @ [CM_Data ''$ '', CM_ExitStatus 0, CM_Close]" "answers ms = True # bs @ [True]"
    "length bs = 1" "''b'' = (if False \<notin> set bs then ''a'' else ''b'')"
    by (auto simp: ex_size_def ex_chan_def)
  then show ?thesis by metis
qed


end
