(* ===== verification/Ssh_Config.thy ===== *)
theory Ssh_Config
  imports Mai_Path Mai_Types
begin

text \<open>
  Host names and \<open>~/.ssh/config\<close> (\<open>crates/mai-core/src/ssh/config.rs\<close>).

  The parser and the lookup of the \<open>ssh2_config\<close> crate are the fields of \<open>config_lib\<close>; removing \<open>Match\<close> blocks,
  the warnings, \<open>[user@]host[:port]\<close> and the precedence of settings are modelled.
\<close>

section \<open>Types\<close>

datatype host_spec =
  Host_Spec (sp_alias: string) (sp_host: string) (sp_port: u16) (sp_user: string)
    (sp_identity_files: "path list") (sp_jumps: "host_spec list")

record host_params =
  pa_host_name :: "string option"
  pa_port :: "u16 option"
  pa_user :: "string option"
  pa_identity_file :: "path list option"
  pa_proxy_jump :: "string list option"

record 'c config_lib =
  cl_parse :: "string \<Rightarrow> string + 'c"
  cl_query :: "'c \<Rightarrow> string \<Rightarrow> host_params"

definition DEFAULT_PORT :: u16 where "DEFAULT_PORT = 22"
definition DEFAULT_KEYS :: "string list" where "DEFAULT_KEYS = [''id_ed25519'', ''id_ecdsa'', ''id_rsa'']"

section \<open>Match blocks\<close>

fun first_word :: "string \<Rightarrow> string" where
  "first_word [] = []"
| "first_word (c # cs) = (if ws_len (c # cs) \<noteq> 0 \<or> c = CHR ''='' then [] else c # first_word cs)"

definition keyword :: "string \<Rightarrow> string" where
  "keyword line = to_ascii_lowercase (first_word (trim_start line))"

fun keep_lines :: "bool \<Rightarrow> string list \<Rightarrow> string list" where
  "keep_lines in_match [] = []"
| "keep_lines in_match (line # rest) =
     (let now = (if keyword line = ''match'' then True else if keyword line = ''host'' then False else in_match)
      in (if now then [] else [line]) @ keep_lines now rest)"

definition without_match_blocks :: "string \<Rightarrow> string" where
  "without_match_blocks text = concat (map (\<lambda>line. line @ [newline]) (keep_lines False (lines text)))"

definition match_warning :: "nat \<Rightarrow> string" where
  "match_warning n = ''ssh config line '' @ show_nat n @ '': Match blocks are not supported; their settings are ignored''"

definition include_warning :: "nat \<Rightarrow> string" where
  "include_warning n = ''ssh config line '' @ show_nat n
     @ '': Include is followed, but Match blocks in included files are not detected; their settings may apply to the preceding Host''"

definition config_warnings :: "string \<Rightarrow> string list" where
  "config_warnings text =
     List.map_filter (\<lambda>(i, l).
         if keyword l = ''match'' then Some (match_warning (i + 1))
         else if keyword l = ''include'' then Some (include_warning (i + 1))
         else None)
       (List.enumerate 0 (lines text))"

definition parse_config :: "'c config_lib \<Rightarrow> string \<Rightarrow> string + 'c" where
  "parse_config lib text =
     (case cl_parse lib (without_match_blocks text) of Err e \<Rightarrow> Err (''ssh config: '' @ e) | Ok c \<Rightarrow> Ok c)"

section \<open>Targets\<close>

definition split_once :: "char \<Rightarrow> string \<Rightarrow> (string \<times> string) option" where
  "split_once c s =
     (case dropWhile (\<lambda>x. x \<noteq> c) s of [] \<Rightarrow> None | _ # rest \<Rightarrow> Some (takeWhile (\<lambda>x. x \<noteq> c) s, rest))"

definition rsplit_once :: "char \<Rightarrow> string \<Rightarrow> (string \<times> string) option" where
  "rsplit_once c s = map_option (\<lambda>(a, b). (rev b, rev a)) (split_once c (rev s))"

definition parse_u16 :: "string \<Rightarrow> u16 option" where
  "parse_u16 s = map_option of_nat (parse_nat (2 ^ 16) s)"

definition bad_port :: "string \<Rightarrow> string" where
  "bad_port target = ''bad port in '' @ [CHR 0x27] @ target @ [CHR 0x27]"

definition unclosed :: "string \<Rightarrow> string" where
  "unclosed target = ''unclosed '' @ [CHR 0x27, CHR ''['', CHR 0x27] @ '' in '' @ [CHR 0x27] @ target @ [CHR 0x27]"

definition split_target :: "string \<Rightarrow> string + (string option \<times> string \<times> u16 option)" where
  "split_target target =
     (let (user, rest) = (case rsplit_once CHR ''@'' target of Some (u, r) \<Rightarrow> (Some u, r) | None \<Rightarrow> (None, target))
      in case strip_prefix rest ''['' of
           Some inner \<Rightarrow>
             (case split_once CHR '']'' inner of
                None \<Rightarrow> Err (unclosed target)
              | Some (addr, tail) \<Rightarrow>
                  (case strip_prefix tail '':'' of
                     None \<Rightarrow> Ok (user, addr, None)
                   | Some p \<Rightarrow> (case parse_u16 p of None \<Rightarrow> Err (bad_port target) | Some port \<Rightarrow> Ok (user, addr, Some port))))
         | None \<Rightarrow>
             (case split_once CHR '':'' rest of
                Some (host, port) \<Rightarrow>
                  if CHR '':'' \<in> set port then Ok (user, rest, None)
                  else (case parse_u16 port of None \<Rightarrow> Err (bad_port target) | Some p \<Rightarrow> Ok (user, host, Some p))
              | None \<Rightarrow> Ok (user, rest, None)))"

section \<open>Resolving\<close>

definition or_else :: "'a option \<Rightarrow> 'a option \<Rightarrow> 'a option" where
  "or_else a b = (case a of Some x \<Rightarrow> Some x | None \<Rightarrow> b)"

definition unwrap_or :: "'a option \<Rightarrow> 'a \<Rightarrow> 'a" where
  "unwrap_or a d = (case a of Some x \<Rightarrow> x | None \<Rightarrow> d)"

definition resolve_hop :: "'c config_lib \<Rightarrow> 'c \<Rightarrow> string \<Rightarrow> string \<Rightarrow> path \<Rightarrow> string + host_spec" where
  "resolve_hop lib config target default_user home =
     (case split_target target of
        Err e \<Rightarrow> Err e
      | Ok (user, name, port) \<Rightarrow>
          (let params = cl_query lib config name
           in Ok (Host_Spec target (unwrap_or (pa_host_name params) name)
                (unwrap_or (or_else port (pa_port params)) DEFAULT_PORT)
                (unwrap_or (or_else user (pa_user params)) default_user)
                (unwrap_or (pa_identity_file params) (map (path_join (path_join home ''.ssh'')) DEFAULT_KEYS))
                [])))"

definition jumps_of :: "'c config_lib \<Rightarrow> 'c \<Rightarrow> string \<Rightarrow> string + string list" where
  "jumps_of lib config target =
     (case split_target target of
        Err e \<Rightarrow> Err e
      | Ok (_, name, _) \<Rightarrow>
          Ok (filter (\<lambda>j. j \<noteq> [] \<and> to_ascii_lowercase j \<noteq> ''none'')
                (map trim (concat (map (split_on CHR '','') (unwrap_or (pa_proxy_jump (cl_query lib config name)) []))))))"

fun collect_results :: "('e + 'a) list \<Rightarrow> 'e + 'a list" where
  "collect_results [] = Ok []"
| "collect_results (Err e # rs) = Err e"
| "collect_results (Ok x # rs) = (case collect_results rs of Err e \<Rightarrow> Err e | Ok xs \<Rightarrow> Ok (x # xs))"

definition with_jumps :: "host_spec \<Rightarrow> host_spec list \<Rightarrow> host_spec" where
  "with_jumps s js = Host_Spec (sp_alias s) (sp_host s) (sp_port s) (sp_user s) (sp_identity_files s) js"

definition resolve :: "'c config_lib \<Rightarrow> 'c \<Rightarrow> string \<Rightarrow> string \<Rightarrow> path \<Rightarrow> string + host_spec" where
  "resolve lib config target default_user home =
     (case resolve_hop lib config target default_user home of
        Err e \<Rightarrow> Err e
      | Ok spec \<Rightarrow>
          (case jumps_of lib config target of
             Err e \<Rightarrow> Err e
           | Ok js \<Rightarrow>
               (case collect_results (map (\<lambda>j. resolve_hop lib config j default_user home) js) of
                  Err e \<Rightarrow> Err e
                | Ok jumps \<Rightarrow> Ok (with_jumps spec jumps))))"

definition jump_warnings :: "'c config_lib \<Rightarrow> 'c \<Rightarrow> host_spec \<Rightarrow> string list" where
  "jump_warnings lib config spec =
     List.map_filter (\<lambda>j.
         case jumps_of lib config (sp_alias j) of
           Err _ \<Rightarrow> None
         | Ok own \<Rightarrow>
             if own = [] then None
             else Some (''ssh config: ProxyJump '' @ join '','' own @ '' of jump host '' @ sp_alias j @ '' is not followed''))
       (sp_jumps spec)"

section \<open>Ignored blocks are reported\<close>

definition in_block :: "string list \<Rightarrow> nat \<Rightarrow> bool" where
  "in_block ls i \<longleftrightarrow> (\<exists>j\<le>i. keyword (ls ! j) = ''match'' \<and> (\<forall>k. j < k \<and> k \<le> i \<longrightarrow> keyword (ls ! k) \<noteq> ''host''))"

lemma in_block_Cons_Suc:
  "in_block (l # ls) (Suc i) \<longleftrightarrow>
     in_block ls i \<or> (keyword l = ''match'' \<and> (\<forall>k\<le>i. keyword (ls ! k) \<noteq> ''host''))"
proof -
  have first: "(\<exists>j\<le>Suc i. P j) \<longleftrightarrow> P 0 \<or> (\<exists>j\<le>i. P (Suc j))" for P
    by (metis Suc_le_mono le0 not0_implies_Suc)
  have shift: "(\<forall>k. Suc j < k \<and> k \<le> Suc i \<longrightarrow> P k) \<longleftrightarrow> (\<forall>k. j < k \<and> k \<le> i \<longrightarrow> P (Suc k))" for j P
    by (metis Suc_le_mono Suc_lessE Suc_less_eq)
  have zero: "(\<forall>k. 0 < k \<and> k \<le> Suc i \<longrightarrow> P k) \<longleftrightarrow> (\<forall>k\<le>i. P (Suc k))" for P
    by (metis Suc_le_mono gr0_conv_Suc)
  show ?thesis unfolding in_block_def first shift zero nth_Cons_Suc nth_Cons_0 by blast
qed

definition blocked :: "bool \<Rightarrow> string list \<Rightarrow> nat \<Rightarrow> bool" where
  "blocked b ls i \<longleftrightarrow> in_block ls i \<or> (b \<and> (\<forall>k\<le>i. keyword (ls ! k) \<noteq> ''host''))"

lemma all_le_Suc: "(\<forall>k\<le>Suc i. P k) \<longleftrightarrow> P 0 \<and> (\<forall>k\<le>i. P (Suc k))"
  by (metis Suc_le_mono le0 not0_implies_Suc)

lemma keep_lines_nths: "keep_lines b ls = nths ls {i. \<not> blocked b ls i}"
proof (induction ls arbitrary: b)
  case (Cons l ls)
  define now where "now = (if keyword l = ''match'' then True else if keyword l = ''host'' then False else b)"
  have zero: "blocked b (l # ls) 0 \<longleftrightarrow> now" by (auto simp: blocked_def in_block_def now_def)
  have suc: "blocked b (l # ls) (Suc i) \<longleftrightarrow> blocked now ls i" for i
    by (auto simp: blocked_def in_block_Cons_Suc all_le_Suc now_def)
  have "keep_lines b (l # ls) = (if now then [] else [l]) @ keep_lines now ls" by (simp add: now_def Let_def)
  also have "\<dots> = nths (l # ls) {i. \<not> blocked b (l # ls) i}" by (simp add: nths_Cons zero suc Cons)
  finally show ?case .
qed simp

text \<open>C38. The configuration that is parsed is the text without its \<open>Match\<close> blocks, line by line: a line is left out exactly
  when the nearest \<open>Match\<close> or \<open>Host\<close> line at or above it is a \<open>Match\<close> line. Nothing is left out silently: above
  every such line is a \<open>Match\<close> line that \<open>config_warnings\<close> reports with its number.\<close>

theorem match_blocks_removed_and_reported:
  "without_match_blocks text = concat (map (\<lambda>line. line @ [newline]) (nths (lines text) {i. \<not> in_block (lines text) i}))
   \<and> (\<forall>i < length (lines text). in_block (lines text) i \<longrightarrow> (\<exists>j\<le>i. match_warning (j + 1) \<in> set (config_warnings text)))"
proof
  show "without_match_blocks text = concat (map (\<lambda>line. line @ [newline]) (nths (lines text) {i. \<not> in_block (lines text) i}))"
    by (simp add: without_match_blocks_def keep_lines_nths blocked_def)
  show "\<forall>i < length (lines text). in_block (lines text) i \<longrightarrow> (\<exists>j\<le>i. match_warning (j + 1) \<in> set (config_warnings text))"
  proof (intro allI impI)
    fix i assume i: "i < length (lines text)" "in_block (lines text) i"
    then obtain j where j: "j \<le> i" "keyword (lines text ! j) = ''match''" by (auto simp: in_block_def)
    with i have "(j, lines text ! j) \<in> set (List.enumerate 0 (lines text))" by (simp add: in_set_enumerate_eq)
    then have "match_warning (j + 1) \<in> set (config_warnings text)"
      using j by (force simp: config_warnings_def List.map_filter_def)
    with j show "\<exists>j\<le>i. match_warning (j + 1) \<in> set (config_warnings text)" by blast
  qed
qed

section \<open>Targets round-trip\<close>

lemma split_once_append: "c \<notin> set a \<Longrightarrow> split_once c (a @ c # b) = Some (a, b)"
  by (induction a) (auto simp: split_once_def split: list.splits)

lemma split_once_None:
  assumes "c \<notin> set a"
  shows "split_once c a = None"
proof -
  have "dropWhile (\<lambda>x. x \<noteq> c) a = []" using assms by auto
  then show ?thesis unfolding split_once_def by (simp only: list.case)
qed

lemma rsplit_once_append: "c \<notin> set b \<Longrightarrow> rsplit_once c (a @ c # b) = Some (a, b)"
  by (simp add: rsplit_once_def split_once_append)

lemma rsplit_once_None: "c \<notin> set a \<Longrightarrow> rsplit_once c a = None"
  by (simp add: rsplit_once_def split_once_None)

lemma parse_show_u16: "parse_u16 (show_nat (unat p)) = Some p"
  using unsigned_less [of p, where ?'a = nat] by (simp add: parse_u16_def parse_show_nat)

definition show_target :: "string option \<Rightarrow> string \<Rightarrow> u16 option \<Rightarrow> string" where
  "show_target user host port =
     (case user of None \<Rightarrow> [] | Some u \<Rightarrow> u @ ''@'')
     @ (if CHR '':'' \<in> set host \<or> starts_with host ''['' then ''['' @ host @ '']'' else host)
     @ (case port of None \<Rightarrow> [] | Some p \<Rightarrow> '':'' @ show_nat (unat p))"

lemma port_chars: "c \<in> set (show_nat n) \<Longrightarrow> c \<noteq> CHR '':'' \<and> c \<noteq> CHR ''@'' \<and> c \<noteq> CHR '']''"
  by (drule show_nat_digits) (auto simp: is_ascii_digit_def byte_def)

text \<open>Targets read back as written: any user (also one with \<open>@\<close> in it), a host name or a bare or bracketed
  address without \<open>@\<close> and \<open>]\<close>, and any port survive printing as \<open>[user@]host[:port]\<close> or
  \<open>[user@][address][:port]\<close> and \<open>split_target\<close>.\<close>

theorem target_roundtrip:
  assumes "CHR ''@'' \<notin> set host" "CHR '']'' \<notin> set host"
  shows "split_target (show_target user host port) = Ok (user, host, port)"
proof -
  define rest where "rest = (if CHR '':'' \<in> set host \<or> starts_with host ''['' then ''['' @ host @ '']'' else host)
     @ (case port of None \<Rightarrow> [] | Some p \<Rightarrow> '':'' @ show_nat (unat p))"
  have at: "CHR ''@'' \<notin> set rest" using assms port_chars by (auto simp: rest_def split: option.splits)
  have user: "(case rsplit_once CHR ''@'' (show_target user host port) of Some (u, r) \<Rightarrow> (Some u, r) | None \<Rightarrow> (None, show_target user host port))
      = (user, rest)"
    using at rsplit_once_append [OF at] rsplit_once_None [OF at]
    by (cases user) (auto simp: show_target_def rest_def)
  show ?thesis
  proof (cases "CHR '':'' \<in> set host \<or> starts_with host ''[''")
    case True
    then have p: "strip_prefix rest ''['' = Some (host @ CHR '']'' # (case port of None \<Rightarrow> [] | Some p \<Rightarrow> '':'' @ show_nat (unat p)))"
      by (simp add: rest_def strip_prefix_def)
    show ?thesis unfolding split_target_def user
      using split_once_append [OF assms(2)] strip_prefix_append [of "'':''"] strip_prefix_def [of "[]" "'':''"]
      by (cases port) (simp_all add: p parse_show_u16)
  next
    case False
    then have p: "strip_prefix rest ''['' = None"
      by (cases host) (auto simp: rest_def strip_prefix_def split: option.splits)
    have q: "CHR '':'' \<notin> set (show_nat n)" for n using port_chars by blast
    from False have c: "CHR '':'' \<notin> set host" by simp
    have "rest = host @ (case port of None \<Rightarrow> [] | Some p \<Rightarrow> '':'' @ show_nat (unat p))" using False by (simp add: rest_def)
    then show ?thesis unfolding split_target_def user Let_def prod.case p option.case
      using split_once_append [OF c] split_once_None [OF c]
      by (cases port) (simp_all add: q parse_show_u16)
  qed
qed

theorem target_roundtrip_witness:
  "split_target (show_target (Some ''a@b'') ''fe80::1'' (Some 2222)) = Ok (Some ''a@b'', ''fe80::1'', Some 2222)"
  by (rule target_roundtrip) simp_all

theorem match_blocks_removed_and_reported_witness:
  "\<exists>j\<le>1. match_warning (j + 1) \<in> set (config_warnings (''Match all'' @ [newline] @ '' User u''))"
proof -
  let ?t = "''Match all'' @ [newline] @ '' User u''"
  have l: "lines ?t = [''Match all'', '' User u'']" by code_simp
  have k: "keyword ''Match all'' = ''match''" "keyword '' User u'' = ''user''" by code_simp+
  have "in_block (lines ?t) 1" unfolding l in_block_def by (intro exI [of _ 0]) (auto simp: k nth_Cons')
  then show ?thesis using match_blocks_removed_and_reported [of ?t, THEN conjunct2, rule_format, of 1] l by simp
qed

end
