(* ===== verification/Auth.thy ===== *)
theory Auth
  imports Deploy Ssh_Config
begin

text \<open>
  Authentication of one hop: \<open>authenticate\<close>, \<open>agent_auth\<close>, \<open>try_agent\<close> (of both builds) and \<open>keyboard_interactive\<close> of
  \<open>crates/mai-core/src/ssh/client.rs\<close>, the key files and passphrases of \<open>ssh/signer.rs\<close>, the store keys of
  \<open>ssh/auth.rs\<close>.

  The server, the user and the file formats are functions of an environment record. The server answers a
  request from the requests made so far. \<open>russh\<close> offers a public key without a signature first and asks the
  signer only when the server accepts it. The key store is a dictionary whose writes can fail. What
  was asked of the server and of the user is kept in order in \<open>at_log\<close>.
\<close>

section \<open>Types\<close>

record secret =
  se_value :: string
  se_remember :: bool

datatype auth_method = M_PublicKey | M_Password | M_KeyboardInteractive | M_Other string

datatype auth_result = AU_Success | AU_Failure "auth_method list" bool

record kbd_prompt =
  kb_text :: string
  kb_echo :: bool

datatype kbd_response = KR_Success | KR_Failure | KR_InfoRequest string string "kbd_prompt list"

datatype 'k auth_request =
    AR_None string
  | AR_Offer string 'k
  | AR_Signed string 'k bool
  | AR_Password string string
  | AR_KbdStart string
  | AR_KbdRespond "string list"

datatype 'k auth_action =
    AA_Request "'k auth_request"
  | AA_Password string string
  | AA_Passphrase path
  | AA_Kbd string string "kbd_prompt list"

datatype load_error = LE_Encrypted | LE_Other

datatype 'k agent_identity = AI_PublicKey 'k | AI_Certificate

text \<open>\<open>ae_result\<close>, \<open>ae_offer\<close> (\<open>None\<close>: the key is acceptable) and \<open>ae_kbd\<close> are the server's answers to the last of
  the given requests, \<open>Err\<close> a transport failure. A private key is named by its public key. \<open>ae_agent\<close> and \<open>ae_pageant\<close>
  are the identities of the agents that can be reached: the agent of the environment on Unix; that of the named pipe
  and Pageant on Windows. \<open>ae_windows\<close> is the platform and \<open>ae_to_lowercase\<close> Unicode's lower case.\<close>

record 'k auth_env =
  ae_result :: "'k auth_request list \<Rightarrow> string + auth_result"
  ae_offer :: "'k auth_request list \<Rightarrow> string + auth_result option"
  ae_kbd :: "'k auth_request list \<Rightarrow> string + kbd_response"
  ae_rsa_hash :: "'k auth_request list \<Rightarrow> string + unit"
  ae_ask_password :: "'k auth_action list \<Rightarrow> secret option"
  ae_ask_passphrase :: "'k auth_action list \<Rightarrow> secret option"
  ae_ask_kbd :: "'k auth_action list \<Rightarrow> string list option"
  ae_set_fault :: "string \<Rightarrow> string option"
  ae_delete_fault :: "string \<Rightarrow> string option"
  ae_is_file :: "path \<Rightarrow> bool"
  ae_canonicalize :: "path \<Rightarrow> path option"
  ae_load_public :: "path \<Rightarrow> 'k option"
  ae_read :: "path \<Rightarrow> string option"
  ae_from_openssh :: "string \<Rightarrow> 'k option"
  ae_load_secret :: "path \<Rightarrow> string option \<Rightarrow> load_error + 'k"
  ae_can_sign :: "'k \<Rightarrow> bool"
  ae_data :: "'k \<Rightarrow> string"
  ae_agent :: "'k agent_identity list option"
  ae_pageant :: "'k agent_identity list option"
  ae_agent_signs :: "'k \<Rightarrow> bool"
  ae_windows :: bool
  ae_to_lowercase :: "string \<Rightarrow> string"

record 'k auth_state =
  at_log :: "'k auth_action list"
  at_secrets :: "(string, string) dict"
  at_notes :: "string list"

section \<open>Requests and questions\<close>

definition requests :: "'k auth_action list \<Rightarrow> 'k auth_request list" where
  "requests l = List.map_filter (\<lambda>a. case a of AA_Request r \<Rightarrow> Some r | _ \<Rightarrow> None) l"

definition logged :: "'k auth_action \<Rightarrow> 'k auth_state \<Rightarrow> 'k auth_state" where
  "logged a s = s\<lparr>at_log := at_log s @ [a]\<rparr>"

definition add_note :: "string \<Rightarrow> 'k auth_state \<Rightarrow> 'k auth_state" where
  "add_note n s = s\<lparr>at_notes := at_notes s @ [n]\<rparr>"

definition auth_call :: "'k auth_env \<Rightarrow> 'k auth_request \<Rightarrow> 'k auth_state \<Rightarrow> 'k auth_state \<times> (string + auth_result)" where
  "auth_call env r s = (let s1 = logged (AA_Request r) s in (s1, ae_result env (requests (at_log s1))))"

section \<open>Remembered secrets\<close>

definition password_key :: "string \<Rightarrow> string" where
  "password_key host_id = host_id @ ''/password''"

text \<open>On Windows a canonical path starts with two backslashes, a question mark and a backslash.\<close>

definition VERBATIM :: string where "VERBATIM = [CHR 92, CHR 92, CHR 63, CHR 92]"

definition passphrase_key :: "'k auth_env \<Rightarrow> path \<Rightarrow> string" where
  "passphrase_key env file =
     (let path = (case ae_canonicalize env file of Some p \<Rightarrow> p | None \<Rightarrow> file)
      in ''passphrase:'' @
           (if ae_windows env
            then ae_to_lowercase env (case strip_prefix path VERBATIM of Some rest \<Rightarrow> rest | None \<Rightarrow> path)
            else path))"

definition legacy_passphrase_key :: "path \<Rightarrow> string" where
  "legacy_passphrase_key file = ''passphrase:'' @ file"

definition secret_set :: "'k auth_env \<Rightarrow> string \<Rightarrow> string \<Rightarrow> 'k auth_state \<Rightarrow> 'k auth_state \<times> (string + unit)" where
  "secret_set env key v s =
     (case ae_set_fault env key of
        Some e \<Rightarrow> (s, Err e)
      | None \<Rightarrow> (s\<lparr>at_secrets := AList.update key v (at_secrets s)\<rparr>, Ok ()))"

definition secret_delete :: "'k auth_env \<Rightarrow> string \<Rightarrow> 'k auth_state \<Rightarrow> 'k auth_state \<times> (string + unit)" where
  "secret_delete env key s =
     (case ae_delete_fault env key of
        Some e \<Rightarrow> (s, Err e)
      | None \<Rightarrow> (s\<lparr>at_secrets := AList.delete key (at_secrets s)\<rparr>, Ok ()))"

definition set_or_note :: "'k auth_env \<Rightarrow> string \<Rightarrow> string \<Rightarrow> string \<Rightarrow> 'k auth_state \<Rightarrow> 'k auth_state" where
  "set_or_note env key v text s =
     (case secret_set env key v s of (s1, Err e) \<Rightarrow> add_note (text @ e) s1 | (s1, Ok _) \<Rightarrow> s1)"

definition delete_or_note :: "'k auth_env \<Rightarrow> string \<Rightarrow> string \<Rightarrow> 'k auth_state \<Rightarrow> 'k auth_state" where
  "delete_or_note env key text s =
     (case secret_delete env key s of (s1, Err e) \<Rightarrow> add_note (text @ e) s1 | (s1, Ok _) \<Rightarrow> s1)"

section \<open>Key files\<close>

definition public_key_of :: "'k auth_env \<Rightarrow> path \<Rightarrow> 'k option" where
  "public_key_of env path =
     (case ae_load_public env (path @ ''.pub'') of
        Some k \<Rightarrow> Some k
      | None \<Rightarrow> (case ae_read env path of None \<Rightarrow> None | Some text \<Rightarrow> ae_from_openssh env (trim text)))"

definition decrypt :: "'k auth_env \<Rightarrow> path \<Rightarrow> string \<Rightarrow> 'k option" where
  "decrypt env path pass = (case ae_load_secret env path (Some pass) of Ok k \<Rightarrow> Some k | Err _ \<Rightarrow> None)"

definition migrate_passphrase :: "'k auth_env \<Rightarrow> path \<Rightarrow> string \<Rightarrow> 'k auth_state \<Rightarrow> 'k auth_state \<times> 'k option" where
  "migrate_passphrase env path key s =
     (let legacy = legacy_passphrase_key path
      in if legacy = key \<or> map_of (at_secrets s) key \<noteq> None then (s, None)
         else case map_of (at_secrets s) legacy of
           None \<Rightarrow> (s, None)
         | Some pass \<Rightarrow>
             (let decrypted = decrypt env path pass;
                  remove = delete_or_note env legacy (''could not remove the old passphrase entry of '' @ path @ '' from the keychain: '')
              in if decrypted = None then (remove s, None)
                 else case secret_set env key pass s of
                        (s1, Err e) \<Rightarrow> (add_note (''could not save the passphrase of '' @ path @ '' in the keychain: '' @ e) s1, decrypted)
                      | (s1, Ok _) \<Rightarrow> (remove s1, decrypted)))"

definition ask_passphrase :: "'k auth_env \<Rightarrow> path \<Rightarrow> string \<Rightarrow> 'k auth_state \<Rightarrow> 'k auth_state \<times> 'k option" where
  "ask_passphrase env path key s =
     (let s1 = logged (AA_Passphrase path) s
      in case ae_ask_passphrase env (at_log s1) of
           None \<Rightarrow> (s1, None)
         | Some sec \<Rightarrow>
             (case decrypt env path (se_value sec) of
                None \<Rightarrow> (s1, None)
              | Some k \<Rightarrow>
                  (if se_remember sec
                   then set_or_note env key (se_value sec) (''could not save the passphrase of '' @ path @ '' in the keychain: '') s1
                   else s1, Some k)))"

definition load_key :: "'k auth_env \<Rightarrow> path \<Rightarrow> 'k auth_state \<Rightarrow> 'k auth_state \<times> 'k option" where
  "load_key env path s =
     (case ae_load_secret env path None of
        Ok k \<Rightarrow> (s, Some k)
      | Err LE_Other \<Rightarrow> (s, None)
      | Err LE_Encrypted \<Rightarrow>
          (let key = passphrase_key env path
           in case migrate_passphrase env path key s of
                (s1, Some k) \<Rightarrow> (s1, Some k)
              | (s1, None) \<Rightarrow>
                  (case map_of (at_secrets s1) key of
                     None \<Rightarrow> ask_passphrase env path key s1
                   | Some pass \<Rightarrow>
                       (case decrypt env path pass of
                          Some k \<Rightarrow> (s1, Some k)
                        | None \<Rightarrow>
                            ask_passphrase env path key
                              (delete_or_note env key (''could not remove the stale passphrase of '' @ path @ '' from the keychain: '') s1)))))"

text \<open>\<open>FileSigner::auth_sign\<close>: whether the signature is genuine (else the signer has \<open>declined\<close>).\<close>

definition auth_sign :: "'k auth_env \<Rightarrow> path \<Rightarrow> 'k auth_state \<Rightarrow> 'k auth_state \<times> bool" where
  "auth_sign env path s =
     (case load_key env path s of
        (s1, Some k) \<Rightarrow> (s1, ae_can_sign env k)
      | (s1, None) \<Rightarrow> (s1, False))"

section \<open>Authentication\<close>

definition offers :: "auth_method list option \<Rightarrow> auth_method \<Rightarrow> bool" where
  "offers methods kind = (case methods of None \<Rightarrow> True | Some m \<Rightarrow> kind \<in> set m)"

datatype step = ST_Done | ST_Partial | ST_Failed

definition auth_step :: "auth_method list option \<Rightarrow> auth_result \<Rightarrow> auth_method list option \<times> step" where
  "auth_step methods r =
     (case r of
        AU_Success \<Rightarrow> (methods, ST_Done)
      | AU_Failure remaining partial \<Rightarrow> (Some remaining, if partial then ST_Partial else ST_Failed))"

text \<open>A public key with the signer of its file: the result and whether the signer declined.\<close>

definition publickey_with ::
    "'k auth_env \<Rightarrow> string \<Rightarrow> 'k \<Rightarrow> path \<Rightarrow> 'k auth_state \<Rightarrow> 'k auth_state \<times> (string + auth_result \<times> bool)" where
  "publickey_with env user k path s =
     (let s1 = logged (AA_Request (AR_Offer user k)) s
      in case ae_offer env (requests (at_log s1)) of
           Err e \<Rightarrow> (s1, Err e)
         | Ok (Some r) \<Rightarrow> (s1, Ok (r, False))
         | Ok None \<Rightarrow>
             (let (s2, genuine) = auth_sign env path s1
              in case auth_call env (AR_Signed user k genuine) s2 of
                   (s3, Err e) \<Rightarrow> (s3, Err e)
                 | (s3, Ok r) \<Rightarrow> (s3, Ok (r, \<not> genuine))))"

text \<open>One key file: no result when it cannot be loaded. The second component is the key to count as tried.\<close>

definition try_file ::
    "'k auth_env \<Rightarrow> string \<Rightarrow> path \<Rightarrow> 'k auth_state \<Rightarrow> 'k auth_state \<times> (ssh_error + (auth_result \<times> 'k list) option)" where
  "try_file env user path s =
     (case ae_rsa_hash env (requests (at_log s)) of
        Err e \<Rightarrow> (s, Err (SE_Connect e))
      | Ok _ \<Rightarrow>
          (case public_key_of env path of
             Some public \<Rightarrow>
               (case publickey_with env user public path s of
                  (s1, Err e) \<Rightarrow> (s1, Err (SE_Connect e))
                | (s1, Ok (r, declined)) \<Rightarrow> (s1, Ok (Some (r, if declined then [] else [public]))))
           | None \<Rightarrow>
               (case load_key env path s of
                  (s1, None) \<Rightarrow> (s1, Ok None)
                | (s1, Some k) \<Rightarrow>
                    (case auth_call env (AR_Signed user k True) s1 of
                       (s2, Err e) \<Rightarrow> (s2, Err (SE_Connect e))
                     | (s2, Ok r) \<Rightarrow> (s2, Ok (Some (r, [k])))))))"

fun try_files ::
    "'k auth_env \<Rightarrow> string \<Rightarrow> path list \<Rightarrow> 'k list \<Rightarrow> auth_method list option \<Rightarrow> 'k auth_state
     \<Rightarrow> 'k auth_state \<times> (ssh_error + step \<times> 'k list \<times> auth_method list option)" where
  "try_files env user [] tried methods s = (s, Ok (ST_Failed, tried, methods))"
| "try_files env user (path # paths) tried methods s =
     (case try_file env user path s of
        (s1, Err e) \<Rightarrow> (s1, Err e)
      | (s1, Ok None) \<Rightarrow> try_files env user paths tried methods s1
      | (s1, Ok (Some (r, ks))) \<Rightarrow>
          (case auth_step methods r of
             (methods1, ST_Failed) \<Rightarrow> try_files env user paths (tried @ ks) methods1 s1
           | (methods1, st) \<Rightarrow> (s1, Ok (st, tried @ ks, methods1))))"

text \<open>One key of the agent; failures of the call are skipped.\<close>

definition agent_offer :: "'k auth_env \<Rightarrow> string \<Rightarrow> 'k \<Rightarrow> 'k auth_state \<Rightarrow> 'k auth_state \<times> auth_result option" where
  "agent_offer env user k s =
     (let s1 = logged (AA_Request (AR_Offer user k)) s
      in case ae_offer env (requests (at_log s1)) of
           Err _ \<Rightarrow> (s1, None)
         | Ok (Some r) \<Rightarrow> (s1, Some r)
         | Ok None \<Rightarrow>
             if \<not> ae_agent_signs env k then (s1, None)
             else (case auth_call env (AR_Signed user k True) s1 of
                     (s2, Err _) \<Rightarrow> (s2, None)
                   | (s2, Ok r) \<Rightarrow> (s2, Some r)))"

fun agent_auth ::
    "'k auth_env \<Rightarrow> string \<Rightarrow> 'k list \<Rightarrow> 'k agent_identity list \<Rightarrow> auth_method list option \<Rightarrow> 'k auth_state
     \<Rightarrow> 'k auth_state \<times> (ssh_error + step \<times> auth_method list option)" where
  "agent_auth env user tried [] methods s = (s, Ok (ST_Failed, methods))"
| "agent_auth env user tried (AI_Certificate # ids) methods s = agent_auth env user tried ids methods s"
| "agent_auth env user tried (AI_PublicKey k # ids) methods s =
     (if list_ex (\<lambda>t. ae_data env t = ae_data env k) tried then agent_auth env user tried ids methods s
      else case ae_rsa_hash env (requests (at_log s)) of
        Err e \<Rightarrow> (s, Err (SE_Connect e))
      | Ok _ \<Rightarrow>
          (case agent_offer env user k s of
             (s1, None) \<Rightarrow> agent_auth env user tried ids methods s1
           | (s1, Some r) \<Rightarrow>
               (case auth_step methods r of
                  (methods1, ST_Failed) \<Rightarrow> agent_auth env user tried ids methods1 s1
                | (methods1, st) \<Rightarrow> (s1, Ok (st, methods1)))))"

definition try_agent_unix ::
    "'k auth_env \<Rightarrow> string \<Rightarrow> 'k list \<Rightarrow> auth_method list option \<Rightarrow> 'k auth_state
     \<Rightarrow> 'k auth_state \<times> (ssh_error + step \<times> auth_method list option)" where
  "try_agent_unix env user tried methods s =
     (case ae_agent env of None \<Rightarrow> (s, Ok (ST_Failed, methods)) | Some ids \<Rightarrow> agent_auth env user tried ids methods s)"

definition try_pageant ::
    "'k auth_env \<Rightarrow> string \<Rightarrow> 'k list \<Rightarrow> auth_method list option \<Rightarrow> 'k auth_state
     \<Rightarrow> 'k auth_state \<times> (ssh_error + step \<times> auth_method list option)" where
  "try_pageant env user tried methods s =
     (case ae_pageant env of None \<Rightarrow> (s, Ok (ST_Failed, methods)) | Some ids \<Rightarrow> agent_auth env user tried ids methods s)"

definition try_agent_windows ::
    "'k auth_env \<Rightarrow> string \<Rightarrow> 'k list \<Rightarrow> auth_method list option \<Rightarrow> 'k auth_state
     \<Rightarrow> 'k auth_state \<times> (ssh_error + step \<times> auth_method list option)" where
  "try_agent_windows env user tried methods s =
     (case ae_agent env of
        None \<Rightarrow> try_pageant env user tried methods s
      | Some ids \<Rightarrow>
          (case agent_auth env user tried ids methods s of
             (s1, Err e) \<Rightarrow> (s1, Err e)
           | (s1, Ok (r, methods1)) \<Rightarrow>
               if r \<noteq> ST_Failed then (s1, Ok (r, methods1)) else try_pageant env user tried methods1 s1))"

definition try_agent ::
    "'k auth_env \<Rightarrow> string \<Rightarrow> 'k list \<Rightarrow> auth_method list option \<Rightarrow> 'k auth_state
     \<Rightarrow> 'k auth_state \<times> (ssh_error + step \<times> auth_method list option)" where
  "try_agent env = (if ae_windows env then try_agent_windows env else try_agent_unix env)"

definition key_auth ::
    "'k auth_env \<Rightarrow> host_spec \<Rightarrow> bool \<Rightarrow> auth_method list option \<Rightarrow> 'k auth_state
     \<Rightarrow> 'k auth_state \<times> (ssh_error + bool \<times> auth_method list option)" where
  "key_auth env spec use_agent methods s =
     (if \<not> offers methods M_PublicKey then (s, Ok (False, methods))
      else case try_files env (sp_user spec) (filter (ae_is_file env) (sp_identity_files spec)) [] methods s of
             (s1, Err e) \<Rightarrow> (s1, Err e)
           | (s1, Ok (ST_Done, _, methods1)) \<Rightarrow> (s1, Ok (True, methods1))
           | (s1, Ok (ST_Partial, _, methods1)) \<Rightarrow> (s1, Ok (False, methods1))
           | (s1, Ok (ST_Failed, tried, methods1)) \<Rightarrow>
               if \<not> use_agent then (s1, Ok (False, methods1))
               else (case try_agent env (sp_user spec) tried methods1 s1 of
                       (s2, Err e) \<Rightarrow> (s2, Err e)
                     | (s2, Ok (st, methods2)) \<Rightarrow> (s2, Ok (st = ST_Done, methods2))))"

text \<open>The remembered password: whether it authenticated, and whether it was accepted as one factor.\<close>

definition stored_password ::
    "'k auth_env \<Rightarrow> host_spec \<Rightarrow> auth_method list option \<Rightarrow> 'k auth_state
     \<Rightarrow> 'k auth_state \<times> (ssh_error + step option \<times> auth_method list option)" where
  "stored_password env spec methods s =
     (let key = password_key (sp_alias spec)
      in case map_of (at_secrets s) key of
           None \<Rightarrow> (s, Ok (None, methods))
         | Some pw \<Rightarrow>
             (case auth_call env (AR_Password (sp_user spec) pw) s of
                (s1, Err e) \<Rightarrow> (s1, Err (SE_Connect e))
              | (s1, Ok r) \<Rightarrow>
                  (case auth_step methods r of
                     (methods1, ST_Failed) \<Rightarrow>
                       (delete_or_note env key
                          (''could not remove the wrong password of '' @ sp_alias spec @ '' from the keychain: '') s1,
                        Ok (Some ST_Failed, methods1))
                   | (methods1, st) \<Rightarrow> (s1, Ok (Some st, methods1)))))"

definition asked_password ::
    "'k auth_env \<Rightarrow> host_spec \<Rightarrow> auth_method list option \<Rightarrow> 'k auth_state
     \<Rightarrow> 'k auth_state \<times> (ssh_error + bool \<times> auth_method list option)" where
  "asked_password env spec methods s =
     (let s1 = logged (AA_Password (sp_user spec) (sp_host spec)) s
      in case ae_ask_password env (at_log s1) of
           None \<Rightarrow> (s1, Ok (False, methods))
         | Some sec \<Rightarrow>
             (case auth_call env (AR_Password (sp_user spec) (se_value sec)) s1 of
                (s2, Err e) \<Rightarrow> (s2, Err (SE_Connect e))
              | (s2, Ok r) \<Rightarrow>
                  (let (methods1, result) = auth_step methods r;
                       s3 = (if result \<noteq> ST_Failed \<and> se_remember sec
                             then set_or_note env (password_key (sp_alias spec)) (se_value sec)
                                    (''could not save the password of '' @ sp_alias spec @ '' in the keychain: '') s2
                             else s2)
                   in (s3, Ok (result = ST_Done, methods1)))))"

definition password_auth ::
    "'k auth_env \<Rightarrow> host_spec \<Rightarrow> auth_method list option \<Rightarrow> 'k auth_state
     \<Rightarrow> 'k auth_state \<times> (ssh_error + bool \<times> auth_method list option)" where
  "password_auth env spec methods s =
     (if \<not> offers methods M_Password then (s, Ok (False, methods))
      else case stored_password env spec methods s of
             (s1, Err e) \<Rightarrow> (s1, Err e)
           | (s1, Ok (stored, methods1)) \<Rightarrow>
               if stored = Some ST_Done then (s1, Ok (True, methods1))
               else if stored = Some ST_Partial \<or> \<not> offers methods1 M_Password then (s1, Ok (False, methods1))
               else asked_password env spec methods1 s1)"

definition MAX_KBD_ROUNDS :: nat where "MAX_KBD_ROUNDS = 10"

fun kbd_rounds :: "'k auth_env \<Rightarrow> nat \<Rightarrow> kbd_response \<Rightarrow> 'k auth_state \<Rightarrow> 'k auth_state \<times> (ssh_error + bool)" where
  "kbd_rounds env 0 reply s = (s, Ok (reply = KR_Success))"
| "kbd_rounds env (Suc n) reply s =
     (case reply of
        KR_Success \<Rightarrow> (s, Ok True)
      | KR_Failure \<Rightarrow> (s, Ok False)
      | KR_InfoRequest name instructions asks \<Rightarrow>
          (let s1 = (if asks = [] then s else logged (AA_Kbd name instructions asks) s)
           in case (if asks = [] then Some [] else ae_ask_kbd env (at_log s1)) of
                None \<Rightarrow> (s1, Ok False)
              | Some answers \<Rightarrow>
                  (let s2 = logged (AA_Request (AR_KbdRespond answers)) s1
                   in case ae_kbd env (requests (at_log s2)) of
                        Err e \<Rightarrow> (s2, Err (SE_Connect e))
                      | Ok reply1 \<Rightarrow> kbd_rounds env n reply1 s2)))"

definition keyboard_interactive :: "'k auth_env \<Rightarrow> host_spec \<Rightarrow> 'k auth_state \<Rightarrow> 'k auth_state \<times> (ssh_error + bool)" where
  "keyboard_interactive env spec s =
     (let s1 = logged (AA_Request (AR_KbdStart (sp_user spec))) s
      in case ae_kbd env (requests (at_log s1)) of
           Err e \<Rightarrow> (s1, Err (SE_Connect e))
         | Ok reply \<Rightarrow> kbd_rounds env MAX_KBD_ROUNDS reply s1)"

definition no_method :: "host_spec \<Rightarrow> 'k auth_state \<Rightarrow> ssh_error" where
  "no_method spec s =
     SE_Auth (''no method succeeded for '' @ sp_user spec @ ''@'' @ sp_host spec
       @ (if at_notes s = [] then [] else '' ('' @ join ''; '' (at_notes s) @ '')''))"

definition authenticate :: "'k auth_env \<Rightarrow> host_spec \<Rightarrow> bool \<Rightarrow> 'k auth_state \<Rightarrow> 'k auth_state \<times> (ssh_error + unit)" where
  "authenticate env spec use_agent s =
     (case auth_call env (AR_None (sp_user spec)) s of
        (s1, Err e) \<Rightarrow> (s1, Err (SE_Connect e))
      | (s1, Ok AU_Success) \<Rightarrow> (s1, Ok ())
      | (s1, Ok (AU_Failure remaining _)) \<Rightarrow>
          (case key_auth env spec use_agent (Some remaining) s1 of
             (s2, Err e) \<Rightarrow> (s2, Err e)
           | (s2, Ok (True, _)) \<Rightarrow> (s2, Ok ())
           | (s2, Ok (False, methods2)) \<Rightarrow>
               (case password_auth env spec methods2 s2 of
                  (s3, Err e) \<Rightarrow> (s3, Err e)
                | (s3, Ok (True, _)) \<Rightarrow> (s3, Ok ())
                | (s3, Ok (False, methods3)) \<Rightarrow>
                    if \<not> offers methods3 M_KeyboardInteractive then (s3, Err (no_method spec s3))
                    else (case keyboard_interactive env spec s3 of
                            (s4, Err e) \<Rightarrow> (s4, Err e)
                          | (s4, Ok True) \<Rightarrow> (s4, Ok ())
                          | (s4, Ok False) \<Rightarrow> (s4, Err (no_method spec s4))))))"

section \<open>The outcome is the server's\<close>

definition granted :: "'k auth_env \<Rightarrow> 'k auth_request list \<Rightarrow> bool" where
  "granted env rs \<longleftrightarrow> rs \<noteq> [] \<and>
     (case last rs of
        AR_Offer _ _ \<Rightarrow> ae_offer env rs = Ok (Some AU_Success)
      | AR_KbdStart _ \<Rightarrow> ae_kbd env rs = Ok KR_Success
      | AR_KbdRespond _ \<Rightarrow> ae_kbd env rs = Ok KR_Success
      | _ \<Rightarrow> ae_result env rs = Ok AU_Success)"

definition never_granted :: "'k auth_env \<Rightarrow> 'k auth_request list \<Rightarrow> bool" where
  "never_granted env rs \<longleftrightarrow> (\<forall>p. prefix p rs \<longrightarrow> \<not> granted env p)"

definition just_granted :: "'k auth_env \<Rightarrow> 'k auth_request list \<Rightarrow> bool" where
  "just_granted env rs \<longleftrightarrow> granted env rs \<and> (\<forall>p. strict_prefix p rs \<longrightarrow> \<not> granted env p)"

definition outcome :: "'k auth_env \<Rightarrow> bool \<Rightarrow> 'k auth_state \<Rightarrow> bool" where
  "outcome env b s = (if b then just_granted env (requests (at_log s)) else never_granted env (requests (at_log s)))"

lemma requests_simps [simp]:
  "requests [] = []" "requests (l @ l') = requests l @ requests l'" "requests (AA_Request r # l) = r # requests l"
  "requests (AA_Password u h # l) = requests l" "requests (AA_Passphrase path # l) = requests l" "requests (AA_Kbd n i a # l) = requests l"
  by (simp_all add: requests_def List.map_filter_def)

lemma logged_fields [simp]:
  "at_log (logged a s) = at_log s @ [a]" "at_secrets (logged a s) = at_secrets s" "at_notes (logged a s) = at_notes s"
  by (simp_all add: logged_def)

lemma asked_outcome: "never_granted env rs \<Longrightarrow> (if granted env (rs @ [r]) then just_granted env (rs @ [r]) else never_granted env (rs @ [r]))"
  by (auto simp: never_granted_def just_granted_def strict_prefix_def)

lemma outcome_call:
  assumes "outcome env False s" "auth_call env r s = (s', x)" "\<forall>u k. r \<noteq> AR_Offer u k" "\<forall>u. r \<noteq> AR_KbdStart u" "\<forall>a. r \<noteq> AR_KbdRespond a"
  shows "outcome env (x = Ok AU_Success) s'"
  using asked_outcome [of env "requests (at_log s)" r] assms
  by (cases r) (auto simp: outcome_def auth_call_def Let_def granted_def)

lemma outcome_offer:
  assumes "outcome env False s"
  shows "outcome env (ae_offer env (requests (at_log s) @ [AR_Offer u k]) = Ok (Some AU_Success)) (logged (AA_Request (AR_Offer u k)) s)"
  using asked_outcome [of env "requests (at_log s)" "AR_Offer u k"] assms by (auto simp: outcome_def granted_def)

lemma outcome_kbd:
  assumes "outcome env False s" "r = AR_KbdStart u \<or> r = AR_KbdRespond a"
  shows "outcome env (ae_kbd env (requests (at_log s) @ [r]) = Ok KR_Success) (logged (AA_Request r) s)"
  using asked_outcome [of env "requests (at_log s)" r] assms by (auto simp: outcome_def granted_def)

lemma store_log [simp]: "at_log (add_note n s) = at_log s" "at_log (set_or_note env k v t s) = at_log s" "at_log (delete_or_note env k t s) = at_log s"
  by (simp_all add: add_note_def set_or_note_def delete_or_note_def secret_set_def secret_delete_def split: option.split)

lemma migrate_log [simp]: "at_log (fst (migrate_passphrase env path key s)) = at_log s"
  by (simp add: migrate_passphrase_def Let_def secret_set_def split: option.split)

lemma ask_passphrase_log: "at_log (fst (ask_passphrase env path key s)) = at_log s @ [AA_Passphrase path]"
  by (simp add: ask_passphrase_def Let_def split: option.split)

lemma load_key_log: "at_log (fst (load_key env path s)) \<in> {at_log s, at_log s @ [AA_Passphrase path]}"
proof -
  obtain s1 k where m: "migrate_passphrase env path (passphrase_key env path) s = (s1, k)" by force
  then have "at_log s1 = at_log s" using migrate_log [of env path "passphrase_key env path" s] by simp
  then show ?thesis
    by (auto simp: load_key_def Let_def m ask_passphrase_log split: option.split sum.split load_error.split)
qed

lemma load_key_requests: "requests (at_log (fst (load_key env path s))) = requests (at_log s)"
  using load_key_log [of env path s] by auto

lemma auth_sign_requests: "requests (at_log (fst (auth_sign env path s))) = requests (at_log s)"
  using load_key_requests [of env path s] by (auto simp: auth_sign_def split: option.split prod.split)

lemma outcome_cong: "requests (at_log s) = requests (at_log s') \<Longrightarrow> outcome env b s = outcome env b s'"
  by (simp add: outcome_def)

lemma auth_step_Done [simp]: "(\<exists>m. auth_step methods r = (m, ST_Done)) \<longleftrightarrow> r = AU_Success"
  by (auto simp: auth_step_def split: auth_result.splits)

lemma auth_step_snd: "snd (auth_step methods r) = ST_Done \<longleftrightarrow> r = AU_Success"
  by (auto simp: auth_step_def split: auth_result.splits)

lemma publickey_with_outcome:
  assumes "outcome env False s" "publickey_with env user k path s = (s', x)"
  shows "outcome env (\<exists>d. x = Ok (AU_Success, d)) s'"
proof -
  let ?s1 = "logged (AA_Request (AR_Offer user k)) s"
  note o1 = outcome_offer [OF assms(1), of user k]
  show ?thesis
  proof (cases "ae_offer env (requests (at_log s) @ [AR_Offer user k]) = Ok None")
    case True
    obtain s2 g where g: "auth_sign env path ?s1 = (s2, g)" by force
    have "requests (at_log s2) = requests (at_log ?s1)" using auth_sign_requests [of env path ?s1] g by simp
    then have o2: "outcome env False s2" using o1 True outcome_cong [of s2 ?s1] by simp
    obtain s3 r where c: "auth_call env (AR_Signed user k g) s2 = (s3, r)" by force
    from outcome_call [OF o2 c] have "outcome env (r = Ok AU_Success) s3" by simp
    then show ?thesis using assms(2) True g c by (auto simp: publickey_with_def Let_def split: sum.splits)
  qed (use assms(2) o1 in \<open>auto simp: publickey_with_def Let_def ex_bool_eq split: sum.splits option.splits\<close>)
qed

lemma try_file_outcome:
  assumes "outcome env False s" "try_file env user path s = (s', x)"
  shows "outcome env (\<exists>ks. x = Ok (Some (AU_Success, ks))) s'"
proof (cases "public_key_of env path")
  case (Some k)
  obtain s1 y where p: "publickey_with env user k path s = (s1, y)" by force
  from publickey_with_outcome [OF assms(1) p] assms p Some show ?thesis
    by (auto simp: try_file_def split: sum.splits)
next
  case None
  obtain s1 y where l: "load_key env path s = (s1, y)" by force
  then have o1: "outcome env False s1" using load_key_requests [of env path s] assms(1) outcome_cong [of s1 s] by simp
  show ?thesis
  proof (cases y)
    case (Some k)
    obtain s2 z where c: "auth_call env (AR_Signed user k True) s1 = (s2, z)" by force
    from outcome_call [OF o1 c] have "outcome env (z = Ok AU_Success) s2" by simp
    then show ?thesis using assms None l c Some by (auto simp: try_file_def split: sum.splits)
  qed (use assms None l o1 in \<open>auto simp: try_file_def split: sum.splits\<close>)
qed

lemma try_files_outcome:
  assumes "outcome env False s" "try_files env user paths tried methods s = (s', x)"
  shows "outcome env (\<exists>t m. x = Ok (ST_Done, t, m)) s'"
  using assms
proof (induction paths arbitrary: s tried methods)
  case (Cons path paths)
  obtain s1 y where t: "try_file env user path s = (s1, y)" by force
  note o1 = try_file_outcome [OF Cons.prems(1) t]
  show ?case
  proof (cases "\<exists>r ks. y = Ok (Some (r, ks))")
    case True
    then obtain r ks where y: "y = Ok (Some (r, ks))" by blast
    obtain m st where a: "auth_step methods r = (m, st)" by force
    then have d: "st = ST_Done \<longleftrightarrow> r = AU_Success" using auth_step_snd [of methods r] by simp
    show ?thesis using o1 Cons t y a d by (cases st) (auto split: sum.splits)
  next
    case False
    then show ?thesis using o1 Cons t by (cases y) (auto split: option.splits)
  qed
qed auto

lemma agent_offer_outcome:
  assumes "outcome env False s" "agent_offer env user k s = (s', r)"
  shows "outcome env (r = Some AU_Success) s'"
proof -
  let ?s1 = "logged (AA_Request (AR_Offer user k)) s"
  note o1 = outcome_offer [OF assms(1), of user k]
  obtain s2 x where c: "auth_call env (AR_Signed user k True) ?s1 = (s2, x)" by force
  have "outcome env (x = Ok AU_Success) s2" if "outcome env False ?s1" using outcome_call [OF that c] by simp
  then show ?thesis using o1 assms(2) c by (auto simp: agent_offer_def Let_def split: sum.splits option.splits if_splits)
qed

lemma agent_auth_outcome:
  assumes "outcome env False s" "agent_auth env user tried ids methods s = (s', x)"
  shows "outcome env (\<exists>m. x = Ok (ST_Done, m)) s'"
  using assms
proof (induction ids arbitrary: s methods)
  case (Cons i ids)
  show ?case
  proof (cases "\<exists>k. i = AI_PublicKey k \<and> \<not> list_ex (\<lambda>t. ae_data env t = ae_data env k) tried
      \<and> ae_rsa_hash env (requests (at_log s)) = Ok ()")
    case True
    then obtain k where k: "i = AI_PublicKey k" "\<not> list_ex (\<lambda>t. ae_data env t = ae_data env k) tried"
      "ae_rsa_hash env (requests (at_log s)) = Ok ()" by blast
    obtain s1 r where a: "agent_offer env user k s = (s1, r)" by force
    note o1 = agent_offer_outcome [OF Cons.prems(1) a]
    show ?thesis
    proof (cases r)
      case None
      then show ?thesis using Cons o1 k a by simp
    next
      case (Some res)
      obtain m st where st: "auth_step methods res = (m, st)" by force
      then have "st = ST_Done \<longleftrightarrow> res = AU_Success" using auth_step_snd [of methods res] by simp
      then show ?thesis using Cons o1 k a Some st by (cases st) auto
    qed
  next
    case False
    then show ?thesis using Cons by (cases i) (auto split: if_splits sum.splits)
  qed
qed auto

lemma try_agent_outcome:
  assumes "outcome env False s" "try_agent env user tried methods s = (s', x)"
  shows "outcome env (\<exists>m. x = Ok (ST_Done, m)) s'"
proof -
  have p: "outcome env (\<exists>m. y = Ok (ST_Done, m)) s2" if "outcome env False s1" "try_pageant env user tried m1 s1 = (s2, y)" for s1 s2 y m1
    using that by (auto simp: try_pageant_def agent_auth_outcome split: option.splits)
  show ?thesis
  proof (cases "ae_agent env")
    case None
    with assms p show ?thesis by (auto simp: try_agent_def try_agent_windows_def try_agent_unix_def split: if_splits)
  next
    case (Some ids)
    obtain s1 y where a: "agent_auth env user tried ids methods s = (s1, y)" by force
    note o1 = agent_auth_outcome [OF assms(1) a]
    from assms(2) Some a o1 p show ?thesis
      by (auto simp: try_agent_def try_agent_windows_def try_agent_unix_def split: if_splits sum.splits)
  qed
qed

lemma key_auth_outcome:
  assumes "outcome env False s" "key_auth env spec use_agent methods s = (s', x)"
  shows "outcome env (\<exists>m. x = Ok (True, m)) s'"
proof -
  obtain s1 y where t: "try_files env (sp_user spec) (filter (ae_is_file env) (sp_identity_files spec)) [] methods s = (s1, y)" by force
  note o1 = try_files_outcome [OF assms(1) t]
  show ?thesis
  proof (cases "\<exists>tried m. y = Ok (ST_Failed, tried, m) \<and> offers methods M_PublicKey \<and> use_agent")
    case True
    then obtain tried m where y: "y = Ok (ST_Failed, tried, m)" "offers methods M_PublicKey" use_agent by blast
    obtain s2 z where a: "try_agent env (sp_user spec) tried m s1 = (s2, z)" by force
    from o1 y have "outcome env False s1" by simp
    from try_agent_outcome [OF this a] have "outcome env (\<exists>m. z = Ok (ST_Done, m)) s2" .
    then show ?thesis using assms(2) t y a by (auto simp: key_auth_def split: sum.splits)
  next
    case False
    then show ?thesis using assms t o1 by (auto simp: key_auth_def split: sum.splits if_splits step.splits)
  qed
qed

lemma asked_password_outcome:
  assumes "outcome env False s" "asked_password env spec methods s = (s', x)"
  shows "outcome env (\<exists>m. x = Ok (True, m)) s'"
proof -
  let ?s1 = "logged (AA_Password (sp_user spec) (sp_host spec)) s"
  have o1: "outcome env False ?s1" using assms(1) outcome_cong [of ?s1 s] by simp
  show ?thesis
  proof (cases "ae_ask_password env (at_log ?s1)")
    case (Some sec)
    obtain s2 r where c: "auth_call env (AR_Password (sp_user spec) (se_value sec)) ?s1 = (s2, r)" by force
    from outcome_call [OF o1 c] have o2: "outcome env (r = Ok AU_Success) s2" by simp
    have o3: "outcome env b (set_or_note env k v t s2) = outcome env b s2" for b k v t by (rule outcome_cong) simp
    show ?thesis using assms(2) Some c o2 o3
      by (auto simp: asked_password_def Let_def auth_step_def split: sum.splits auth_result.splits if_splits)
  qed (use assms(2) o1 in \<open>auto simp: asked_password_def Let_def\<close>)
qed

lemma stored_password_outcome:
  assumes "outcome env False s" "stored_password env spec methods s = (s', x)"
  shows "outcome env (\<exists>m. x = Ok (Some ST_Done, m)) s'"
proof (cases "map_of (at_secrets s) (password_key (sp_alias spec))")
  case (Some pw)
  obtain s1 r where c: "auth_call env (AR_Password (sp_user spec) pw) s = (s1, r)" by force
  from outcome_call [OF assms(1) c] have o1: "outcome env (r = Ok AU_Success) s1" by simp
  have o2: "outcome env b (delete_or_note env k t s1) = outcome env b s1" for b k t by (rule outcome_cong) simp
  show ?thesis using assms(2) Some c o1 o2
    by (auto simp: stored_password_def Let_def auth_step_def split: sum.splits auth_result.splits if_splits)
qed (use assms in \<open>auto simp: stored_password_def Let_def\<close>)

lemma password_auth_outcome:
  assumes "outcome env False s" "password_auth env spec methods s = (s', x)"
  shows "outcome env (\<exists>m. x = Ok (True, m)) s'"
proof -
  obtain s1 y where p: "stored_password env spec methods s = (s1, y)" by force
  note o1 = stored_password_outcome [OF assms(1) p]
  show ?thesis using assms p o1 asked_password_outcome [of env s1 spec]
    by (auto simp: password_auth_def split: sum.splits if_splits)
qed

lemma kbd_rounds_outcome:
  assumes "outcome env (reply = KR_Success) s" "kbd_rounds env n reply s = (s', x)"
  shows "outcome env (x = Ok True) s'"
  using assms
proof (induction n arbitrary: reply s)
  case (Suc n)
  show ?case
  proof (cases reply)
    case (KR_InfoRequest name ins asks)
    let ?s1 = "if asks = [] then s else logged (AA_Kbd name ins asks) s"
    have o1: "outcome env False ?s1" using Suc.prems(1) KR_InfoRequest outcome_cong [of ?s1 s] by simp
    note o2 = outcome_kbd [OF o1, of "AR_KbdRespond a" "[]" a for a]
    show ?thesis
    proof (cases "if asks = [] then Some [] else ae_ask_kbd env (at_log ?s1)")
      case None
      then show ?thesis using Suc.prems(2) KR_InfoRequest o1 by (auto split: if_splits)
    next
      case (Some answers)
      let ?s2 = "logged (AA_Request (AR_KbdRespond answers)) ?s1"
      show ?thesis
      proof (cases "ae_kbd env (requests (at_log ?s2))")
        case (Inl e)
        then show ?thesis using Suc.prems(2) KR_InfoRequest Some o2 [of answers] by (auto simp: Let_def)
      next
        case (Inr r)
        then have "outcome env (r = KR_Success) ?s2" using o2 [of answers] by (auto simp del: logged_fields(1) simp add: logged_def)
        moreover have "kbd_rounds env n r ?s2 = (s', x)" using Suc.prems(2) KR_InfoRequest Some Inr by (simp add: Let_def)
        ultimately show ?thesis by (rule Suc.IH)
      qed
    qed
  qed (use Suc.prems in auto)
qed auto

lemma keyboard_interactive_outcome:
  assumes "outcome env False s" "keyboard_interactive env spec s = (s', x)"
  shows "outcome env (x = Ok True) s'"
proof -
  let ?s1 = "logged (AA_Request (AR_KbdStart (sp_user spec))) s"
  note o1 = outcome_kbd [OF assms(1), of "AR_KbdStart (sp_user spec)" "sp_user spec" "[]"]
  show ?thesis
  proof (cases "ae_kbd env (requests (at_log ?s1))")
    case (Inr r)
    then have "outcome env (r = KR_Success) ?s1" using o1 by simp
    from kbd_rounds_outcome [OF this] show ?thesis using assms(2) Inr by (auto simp: keyboard_interactive_def Let_def)
  qed (use assms(2) o1 in \<open>auto simp: keyboard_interactive_def Let_def\<close>)
qed

text \<open>C15. Authentication succeeds exactly when the server has granted access, with the last request made: no request
  is sent after the grant, no success is reported without it, and whatever error is returned, the
  server never granted access before.\<close>

theorem authenticated_iff_granted:
  assumes "at_log s = []" "authenticate env spec use_agent s = (s', r)"
  shows "if r = Ok () then just_granted env (requests (at_log s')) else never_granted env (requests (at_log s'))"
proof -
  have o0: "outcome env False s" using assms(1) by (simp add: outcome_def never_granted_def granted_def)
  obtain s1 r1 where c: "auth_call env (AR_None (sp_user spec)) s = (s1, r1)" by force
  from outcome_call [OF o0 c] have o1: "outcome env (r1 = Ok AU_Success) s1" by simp
  show ?thesis
  proof (cases "\<exists>m p. r1 = Ok (AU_Failure m p)")
    case True
    then obtain m p where r1: "r1 = Ok (AU_Failure m p)" by blast
    with o1 have o1': "outcome env False s1" by simp
    obtain s2 r2 where k: "key_auth env spec use_agent (Some m) s1 = (s2, r2)" by force
    note o2 = key_auth_outcome [OF o1' k]
    show ?thesis
    proof (cases "\<exists>m2. r2 = Ok (False, m2)")
      case True
      then obtain m2 where r2: "r2 = Ok (False, m2)" by blast
      obtain s3 r3 where p: "password_auth env spec m2 s2 = (s3, r3)" by force
      from o2 r2 have "outcome env False s2" by simp
      from password_auth_outcome [OF this p] have o3: "outcome env (\<exists>m. r3 = Ok (True, m)) s3" .
      show ?thesis
      proof (cases "\<exists>m3. r3 = Ok (False, m3) \<and> offers m3 M_KeyboardInteractive")
        case True
        then obtain m3 where r3: "r3 = Ok (False, m3)" "offers m3 M_KeyboardInteractive" by blast
        obtain s4 r4 where b: "keyboard_interactive env spec s3 = (s4, r4)" by force
        from o3 r3 have "outcome env False s3" by simp
        from keyboard_interactive_outcome [OF this b] show ?thesis
          using assms(2) c r1 k r2 p r3 b by (auto simp: authenticate_def outcome_def split: sum.splits bool.splits)
      qed (use assms(2) c r1 k r2 p o3 in \<open>auto simp: authenticate_def outcome_def split: sum.splits bool.splits if_splits\<close>)
    qed (use assms(2) c r1 k o2 in \<open>auto simp: authenticate_def outcome_def split: sum.splits bool.splits\<close>)
  qed (use assms(2) c o1 in \<open>auto simp: authenticate_def outcome_def split: sum.splits auth_result.splits\<close>)
qed

section \<open>The key store and the passphrase prompt\<close>

text \<open>The policy of the store: a password is remembered only after the server accepted it and forgotten only
  after the server rejected it; a passphrase is remembered only when it decrypts the key file and
  forgotten only when it does not, or when it is already stored under the file's current name.\<close>

definition answered :: "'k auth_env \<Rightarrow> 'k auth_request list \<Rightarrow> 'k auth_request \<Rightarrow> auth_result \<Rightarrow> bool" where
  "answered env rs r a \<longleftrightarrow> (\<exists>p. prefix (p @ [r]) rs \<and> ae_result env (p @ [r]) = Ok a)"

inductive store_step :: "'k auth_env \<Rightarrow> host_spec \<Rightarrow> 'k auth_request list \<Rightarrow> (string, string) dict \<Rightarrow> (string, string) dict \<Rightarrow> bool"
  for env :: "'k auth_env" and spec :: host_spec and rs :: "'k auth_request list" where
  save_password: "answered env rs (AR_Password (sp_user spec) v) a \<Longrightarrow> a = AU_Success \<or> (\<exists>m. a = AU_Failure m True) \<Longrightarrow>
    store_step env spec rs d (AList.update (password_key (sp_alias spec)) v d)"
| drop_password: "map_of d (password_key (sp_alias spec)) = Some v \<Longrightarrow>
    answered env rs (AR_Password (sp_user spec) v) (AU_Failure m False) \<Longrightarrow>
    store_step env spec rs d (AList.delete (password_key (sp_alias spec)) d)"
| save_passphrase: "path \<in> set (sp_identity_files spec) \<Longrightarrow> decrypt env path v \<noteq> None \<Longrightarrow>
    store_step env spec rs d (AList.update (passphrase_key env path) v d)"
| drop_passphrase: "path \<in> set (sp_identity_files spec) \<Longrightarrow> key = passphrase_key env path \<or> key = legacy_passphrase_key path \<Longrightarrow>
    map_of d key = Some v \<Longrightarrow> decrypt env path v = None \<Longrightarrow> store_step env spec rs d (AList.delete key d)"
| drop_moved: "path \<in> set (sp_identity_files spec) \<Longrightarrow> legacy_passphrase_key path \<noteq> passphrase_key env path \<Longrightarrow>
    map_of d (legacy_passphrase_key path) = Some v \<Longrightarrow> map_of d (passphrase_key env path) = Some v \<Longrightarrow>
    store_step env spec rs d (AList.delete (legacy_passphrase_key path) d)"

lemma answered_mono: "answered env rs r a \<Longrightarrow> prefix rs rs' \<Longrightarrow> answered env rs' r a"
  unfolding answered_def by (meson prefix_order.trans)

lemma store_step_mono: "store_step env spec rs d d' \<Longrightarrow> prefix rs rs' \<Longrightarrow> store_step env spec rs' d d'"
  by (induction rule: store_step.induct) (auto intro: store_step.intros answered_mono)

lemma store_steps_mono: "(store_step env spec rs)\<^sup>*\<^sup>* d d' \<Longrightarrow> prefix rs rs' \<Longrightarrow> (store_step env spec rs')\<^sup>*\<^sup>* d d'"
  by (induction rule: rtranclp_induct) (auto intro: rtranclp.rtrancl_into_rtrancl store_step_mono)

text \<open>A passphrase may be asked for a file whose public key is readable only right after the server accepted
  that key.\<close>

definition may_ask :: "'k auth_env \<Rightarrow> host_spec \<Rightarrow> 'k auth_request list \<Rightarrow> path \<Rightarrow> bool" where
  "may_ask env spec rs path \<longleftrightarrow>
     (case public_key_of env path of
        None \<Rightarrow> True
      | Some k \<Rightarrow> (\<exists>p. rs = p @ [AR_Offer (sp_user spec) k]) \<and> ae_offer env rs = Ok None)"

definition asks_ok :: "'k auth_env \<Rightarrow> host_spec \<Rightarrow> 'k auth_action list \<Rightarrow> bool" where
  "asks_ok env spec l \<longleftrightarrow> (\<forall>l1 path l2. l = l1 @ AA_Passphrase path # l2 \<longrightarrow> may_ask env spec (requests l1) path)"

lemma asks_ok_snoc [simp]:
  "asks_ok env spec (l @ [a]) \<longleftrightarrow>
     asks_ok env spec l \<and> (\<forall>path. a = AA_Passphrase path \<longrightarrow> may_ask env spec (requests l) path)"
proof -
  have "l @ [a] = l1 @ AA_Passphrase path # l2 \<longleftrightarrow>
      (l1 = l \<and> a = AA_Passphrase path \<and> l2 = []) \<or> (\<exists>l2'. l2 = l2' @ [a] \<and> l = l1 @ AA_Passphrase path # l2')" for l1 path l2
    by (cases l2 rule: rev_cases) auto
  note eq = this
  show ?thesis unfolding asks_ok_def eq by (auto 0 3)
qed

definition proper :: "'k auth_env \<Rightarrow> host_spec \<Rightarrow> 'k auth_state \<Rightarrow> 'k auth_state \<Rightarrow> bool" where
  "proper env spec s s' \<longleftrightarrow> prefix (at_log s) (at_log s') \<and> (asks_ok env spec (at_log s) \<longrightarrow> asks_ok env spec (at_log s'))
     \<and> (store_step env spec (requests (at_log s')))\<^sup>*\<^sup>* (at_secrets s) (at_secrets s')"

lemma proper_refl: "proper env spec s s" by (simp add: proper_def)

lemma proper_trans [trans]:
  assumes "proper env spec s s1" "proper env spec s1 s2"
  shows "proper env spec s s2"
proof -
  have "prefix (requests (at_log s1)) (requests (at_log s2))" using assms(2) by (auto simp: proper_def prefix_def)
  then show ?thesis using assms unfolding proper_def
    by (meson prefix_order.trans rtranclp_trans store_steps_mono)
qed

lemma proper_logged: "(\<forall>path. a \<noteq> AA_Passphrase path) \<Longrightarrow> proper env spec s (logged a s)"
  by (simp add: proper_def)

lemma proper_call: "auth_call env r s = (s', x) \<Longrightarrow> proper env spec s s'"
  by (auto simp: auth_call_def Let_def intro: proper_logged)

lemma proper_note: "proper env spec s s' \<Longrightarrow> proper env spec s (add_note n s')"
  by (simp add: proper_def add_note_def)

lemma proper_set:
  "store_step env spec (requests (at_log s)) (at_secrets s) (AList.update key v (at_secrets s)) \<Longrightarrow>
   proper env spec s (set_or_note env key v t s)"
  by (auto simp: set_or_note_def secret_set_def proper_note proper_refl split: option.split) (simp add: proper_def)

lemma proper_delete:
  "store_step env spec (requests (at_log s)) (at_secrets s) (AList.delete key (at_secrets s)) \<Longrightarrow>
   proper env spec s (delete_or_note env key t s)"
  by (auto simp: delete_or_note_def secret_delete_def proper_note proper_refl split: option.split) (simp add: proper_def)

lemma proper_migrate:
  assumes "path \<in> set (sp_identity_files spec)" "migrate_passphrase env path (passphrase_key env path) s = (s', k)"
  shows "proper env spec s s'"
proof (cases "legacy_passphrase_key path = passphrase_key env path \<or> map_of (at_secrets s) (passphrase_key env path) \<noteq> None
    \<or> map_of (at_secrets s) (legacy_passphrase_key path) = None")
  case True
  then show ?thesis using assms(2) by (auto simp: migrate_passphrase_def Let_def proper_refl split: if_splits)
next
  case False
  let ?key = "passphrase_key env path" and ?legacy = "legacy_passphrase_key path"
  from False obtain pass where ne: "?legacy \<noteq> ?key" and pass: "map_of (at_secrets s) ?legacy = Some pass"
    and none: "map_of (at_secrets s) ?key = None" by auto
  show ?thesis
  proof (cases "decrypt env path pass")
    case None
    then show ?thesis using assms ne pass none
      by (auto simp: migrate_passphrase_def Let_def intro!: proper_delete intro: store_step.drop_passphrase)
  next
    case (Some key)
    show ?thesis
    proof (cases "ae_set_fault env ?key")
      case None
      let ?s1 = "s\<lparr>at_secrets := AList.update ?key pass (at_secrets s)\<rparr>"
      have "proper env spec s ?s1" using Some assms(1)
        by (auto simp: proper_def intro: store_step.save_passphrase)
      also have "proper env spec ?s1 (delete_or_note env ?legacy t ?s1)" for t using assms(1) ne pass
        by (intro proper_delete store_step.drop_moved [of path]) (simp_all add: update_conv')
      finally show ?thesis using assms(2) ne pass none Some None by (auto simp: migrate_passphrase_def Let_def secret_set_def)
    next
      case (Some e)
      then show ?thesis using assms(2) ne pass none \<open>decrypt env path pass = Some key\<close>
        by (auto simp: migrate_passphrase_def Let_def secret_set_def intro: proper_note proper_refl)
    qed
  qed
qed

lemma proper_ask_passphrase:
  assumes "path \<in> set (sp_identity_files spec)" "may_ask env spec (requests (at_log s)) path"
  shows "proper env spec s (fst (ask_passphrase env path (passphrase_key env path) s))"
proof -
  let ?s1 = "logged (AA_Passphrase path) s"
  have p: "proper env spec s ?s1" using assms(2) by (simp add: proper_def)
  have "proper env spec ?s1 (set_or_note env (passphrase_key env path) v t ?s1)" if "decrypt env path v = Some k" for v k t
    using that assms(1) by (intro proper_set store_step.save_passphrase [of path]) simp_all
  with p show ?thesis by (auto simp: ask_passphrase_def Let_def split: option.split intro: proper_trans)
qed

lemma proper_load_key:
  assumes "path \<in> set (sp_identity_files spec)" "may_ask env spec (requests (at_log s)) path"
  shows "proper env spec s (fst (load_key env path s))"
proof -
  let ?key = "passphrase_key env path"
  obtain s1 k where m: "migrate_passphrase env path ?key s = (s1, k)" by force
  have p1: "proper env spec s s1" by (rule proper_migrate [OF assms(1) m])
  have l1: "at_log s1 = at_log s" using migrate_log [of env path ?key s] m by simp
  have ask: "proper env spec s (fst (ask_passphrase env path ?key s2))" if "proper env spec s s2" "at_log s2 = at_log s" for s2
    using that proper_ask_passphrase [OF assms(1), of env s2] assms(2) by (auto intro: proper_trans)
  have "proper env spec s (delete_or_note env ?key t s1)" if "map_of (at_secrets s1) ?key = Some v" "decrypt env path v = None" for v t
    by (rule proper_trans [OF p1]) (use that assms(1) in \<open>auto intro!: proper_delete intro: store_step.drop_passphrase\<close>)
  with p1 l1 ask m show ?thesis
    by (auto simp: load_key_def Let_def proper_refl split: option.split sum.split load_error.split)
qed

lemma proper_auth_sign:
  assumes "path \<in> set (sp_identity_files spec)" "may_ask env spec (requests (at_log s)) path"
  shows "proper env spec s (fst (auth_sign env path s))"
  using proper_load_key [OF assms] by (auto simp: auth_sign_def split: option.split prod.split)

lemma proper_publickey_with:
  assumes "path \<in> set (sp_identity_files spec)" "public_key_of env path = Some k"
  shows "proper env spec s (fst (publickey_with env (sp_user spec) k path s))"
proof -
  let ?s1 = "logged (AA_Request (AR_Offer (sp_user spec) k)) s"
  have p1: "proper env spec s ?s1" by (simp add: proper_logged)
  obtain s2 g where g: "auth_sign env path ?s1 = (s2, g)" by force
  obtain s3 r where c: "auth_call env (AR_Signed (sp_user spec) k g) s2 = (s3, r)" by force
  have "proper env spec s s3" if "ae_offer env (requests (at_log ?s1)) = Ok None"
  proof -
    have "proper env spec ?s1 s2" using proper_auth_sign [OF assms(1), of env ?s1] that assms(2) g by (simp add: may_ask_def)
    from proper_trans [OF proper_trans [OF p1 this] proper_call [OF c]] show ?thesis .
  qed
  with p1 g c show ?thesis by (auto simp: publickey_with_def Let_def split: option.split sum.split)
qed

lemma proper_try_file:
  assumes "path \<in> set (sp_identity_files spec)"
  shows "proper env spec s (fst (try_file env (sp_user spec) path s))"
proof (cases "public_key_of env path")
  case (Some k)
  from proper_publickey_with [OF assms Some, of s] show ?thesis
    by (auto simp: try_file_def Some proper_refl split: option.split sum.split prod.split)
next
  case None
  obtain s1 y where l: "load_key env path s = (s1, y)" by force
  have p1: "proper env spec s s1" using proper_load_key [OF assms, of env s] None l by (simp add: may_ask_def)
  have "proper env spec s s2" if "auth_call env r s1 = (s2, x)" for r s2 x using proper_trans [OF p1 proper_call [OF that]] .
  with p1 l show ?thesis by (auto simp: try_file_def None proper_refl split: option.split sum.split prod.split)
qed

lemma proper_try_files:
  "set paths \<subseteq> set (sp_identity_files spec) \<Longrightarrow> proper env spec s (fst (try_files env (sp_user spec) paths tried methods s))"
proof (induction paths arbitrary: s tried methods)
  case (Cons path paths)
  obtain s1 y where t: "try_file env (sp_user spec) path s = (s1, y)" by force
  have p1: "proper env spec s s1" using proper_try_file [of path spec env s] Cons.prems t by simp
  have "proper env spec s (fst (try_files env (sp_user spec) paths tr m s1))" for tr m
    using Cons p1 by (auto intro: proper_trans)
  with p1 t show ?case by (auto split: option.split sum.split prod.split step.split)
qed (simp add: proper_refl)

lemma proper_agent_offer: "proper env spec s (fst (agent_offer env user k s))"
proof -
  let ?s1 = "logged (AA_Request (AR_Offer user k)) s"
  obtain s2 x where c: "auth_call env (AR_Signed user k True) ?s1 = (s2, x)" by force
  have "proper env spec s ?s1" by (simp add: proper_logged)
  with proper_trans [OF this proper_call [OF c]] c show ?thesis
    by (auto simp: agent_offer_def Let_def split: sum.split option.split)
qed

lemma proper_agent_auth: "proper env spec s (fst (agent_auth env user tried ids methods s))"
proof (induction ids arbitrary: s methods)
  case (Cons i ids)
  show ?case
  proof (cases i)
    case (AI_PublicKey k)
    obtain s1 r where a: "agent_offer env user k s = (s1, r)" by force
    have p1: "proper env spec s s1" using proper_agent_offer [of env spec s user k] a by simp
    have "proper env spec s (fst (agent_auth env user tried ids m s1))" for m using Cons p1 by (blast intro: proper_trans)
    with p1 a Cons AI_PublicKey show ?thesis by (auto simp: proper_refl split: option.split sum.split prod.split step.split)
  qed (simp add: Cons)
qed (simp add: proper_refl)

lemma proper_try_agent: "proper env spec s (fst (try_agent env user tried methods s))"
proof -
  have p: "proper env spec s1 (fst (try_pageant env user tried m s1))" for m s1
    using proper_agent_auth by (auto simp: try_pageant_def proper_refl split: option.split)
  show ?thesis
  proof (cases "ae_agent env")
    case None
    with p show ?thesis by (auto simp: try_agent_def try_agent_windows_def try_agent_unix_def proper_refl)
  next
    case (Some ids)
    obtain s1 y where a: "agent_auth env user tried ids methods s = (s1, y)" by force
    with proper_agent_auth [of env spec s user tried ids methods] have "proper env spec s s1" by simp
    with Some a p show ?thesis
      by (auto simp: try_agent_def try_agent_windows_def try_agent_unix_def split: sum.split intro: proper_trans)
  qed
qed

lemma proper_key_auth: "proper env spec s (fst (key_auth env spec use_agent methods s))"
proof -
  obtain s1 y where t: "try_files env (sp_user spec) (filter (ae_is_file env) (sp_identity_files spec)) [] methods s = (s1, y)" by force
  have p1: "proper env spec s s1"
    using proper_try_files [of "filter (ae_is_file env) (sp_identity_files spec)" spec env s "[]" methods] t by auto
  have "proper env spec s (fst (try_agent env (sp_user spec) tr m s1))" for tr m
    using p1 proper_try_agent by (blast intro: proper_trans)
  then have "proper env spec s s2" if "try_agent env (sp_user spec) tr m s1 = (s2, x)" for tr m s2 x using that by (metis fst_conv)
  with p1 t show ?thesis by (auto simp: key_auth_def proper_refl split: sum.split prod.split step.split)
qed

lemma call_answered: "auth_call env r s = (s', Ok a) \<Longrightarrow> answered env (requests (at_log s')) r a"
  by (auto simp: auth_call_def Let_def answered_def)

lemma proper_stored_password: "proper env spec s (fst (stored_password env spec methods s))"
proof (cases "map_of (at_secrets s) (password_key (sp_alias spec))")
  case (Some pw)
  obtain s1 r where c: "auth_call env (AR_Password (sp_user spec) pw) s = (s1, r)" by force
  have p1: "proper env spec s s1" by (rule proper_call [OF c])
  have "at_secrets s1 = at_secrets s" using c by (auto simp: auth_call_def Let_def)
  then have "proper env spec s (delete_or_note env (password_key (sp_alias spec)) t s1)" if "r = Ok (AU_Failure m False)" for t m
    using that c Some by (intro proper_trans [OF p1] proper_delete store_step.drop_password [of _ _ pw _ _ m]) (auto intro: call_answered)
  with p1 c Some show ?thesis
    by (auto simp: stored_password_def Let_def auth_step_def split: sum.split auth_result.split)
qed (simp add: stored_password_def proper_refl)

lemma proper_asked_password: "proper env spec s (fst (asked_password env spec methods s))"
proof -
  let ?s1 = "logged (AA_Password (sp_user spec) (sp_host spec)) s"
  have p1: "proper env spec s ?s1" by (simp add: proper_logged)
  have p2: "proper env spec s s2" if "auth_call env r ?s1 = (s2, x)" for r s2 x by (rule proper_trans [OF p1 proper_call [OF that]])
  have "proper env spec s (set_or_note env (password_key (sp_alias spec)) v t s2)"
    if c: "auth_call env (AR_Password (sp_user spec) v) ?s1 = (s2, Ok a)" and a: "a = AU_Success \<or> (\<exists>m. a = AU_Failure m True)" for v s2 a t
    by (intro proper_trans [OF p2 [OF c]] proper_set store_step.save_password [OF call_answered [OF c] a])
  with p1 p2 show ?thesis
    by (auto simp: asked_password_def Let_def auth_step_def split: option.split sum.split auth_result.split prod.split)
qed

lemma proper_password_auth: "proper env spec s (fst (password_auth env spec methods s))"
proof -
  obtain s1 y where p: "stored_password env spec methods s = (s1, y)" by force
  have p1: "proper env spec s s1" using proper_stored_password [of env spec s methods] p by simp
  have "proper env spec s (fst (asked_password env spec m s1))" for m using p1 proper_asked_password by (rule proper_trans)
  with p1 p show ?thesis by (auto simp: password_auth_def proper_refl split: sum.split)
qed

lemma proper_kbd_rounds: "proper env spec s (fst (kbd_rounds env n reply s))"
proof (induction n arbitrary: reply s)
  case (Suc n)
  have s1: "proper env spec s (logged (AA_Request r) s)" for r by (simp add: proper_logged)
  have s2: "proper env spec s (logged (AA_Request r) (logged (AA_Kbd name ins asks) s))" for r name ins asks
    by (rule proper_trans [of _ _ _ "logged (AA_Kbd name ins asks) s"]) (simp_all add: proper_logged)
  show ?case using s1 s2 proper_trans [OF s1 Suc.IH] proper_trans [OF s2 Suc.IH]
    by (simp add: Let_def proper_refl proper_logged split: kbd_response.split option.split sum.split)
qed (simp add: proper_refl)

lemma proper_keyboard_interactive: "proper env spec s (fst (keyboard_interactive env spec s))"
proof -
  have "proper env spec s (logged (AA_Request r) s)" for r by (simp add: proper_logged)
  with proper_trans [OF this proper_kbd_rounds] show ?thesis
    by (auto simp: keyboard_interactive_def Let_def split: sum.split)
qed

lemma proper_authenticate:
  assumes "authenticate env spec use_agent s = (s', r)"
  shows "proper env spec s s'"
proof -
  obtain s1 r1 where c: "auth_call env (AR_None (sp_user spec)) s = (s1, r1)" by force
  have p1: "proper env spec s s1" by (rule proper_call [OF c])
  have key: "proper env spec s s2" if "key_auth env spec use_agent m s1 = (s2, x)" for m s2 x
    using proper_trans [OF p1 proper_key_auth [of env spec s1 use_agent m]] that by simp
  have pw: "proper env spec s s3" if "key_auth env spec use_agent m s1 = (s2, x)" "password_auth env spec m2 s2 = (s3, y)" for m s2 x m2 s3 y
    using proper_trans [OF key [OF that(1)] proper_password_auth [of env spec s2 m2]] that(2) by simp
  have kb: "proper env spec s s4" if "key_auth env spec use_agent m s1 = (s2, x)" "password_auth env spec m2 s2 = (s3, y)"
    "keyboard_interactive env spec s3 = (s4, z)" for m s2 x m2 s3 y s4 z
    using proper_trans [OF pw [OF that(1,2)] proper_keyboard_interactive] that(3) by (metis fst_conv)
  show ?thesis using assms c p1 key pw kb
    by (auto simp: authenticate_def split: sum.splits auth_result.splits prod.splits bool.splits if_splits)
qed

text \<open>C16. Authentication changes the key store only by the policy of \<open>store_step\<close>: a password is saved only after the
  server accepted that very password and removed only after the server rejected it, a passphrase is
  saved only when it decrypts the identity file and removed only when it does not or when the same
  passphrase is already saved under the file's canonical name, however the user answers and whichever
  writes to the store fail.\<close>

theorem store_policy:
  assumes "authenticate env spec use_agent s = (s', r)"
  shows "(store_step env spec (requests (at_log s')))\<^sup>*\<^sup>* (at_secrets s) (at_secrets s')"
  using proper_authenticate [OF assms] by (simp add: proper_def)

text \<open>The passphrase of a key file whose public key is readable is asked for only right after the server has
  accepted that public key.\<close>

theorem passphrase_after_acceptance:
  assumes "at_log s = []" "authenticate env spec use_agent s = (s', r)"
    "at_log s' = l1 @ AA_Passphrase path # l2" "public_key_of env path = Some k"
  shows "(\<exists>p. requests l1 = p @ [AR_Offer (sp_user spec) k]) \<and> ae_offer env (requests l1) = Ok None"
proof -
  have "asks_ok env spec (at_log s')" using proper_authenticate [OF assms(2)] assms(1) by (simp add: proper_def asks_ok_def)
  then have "may_ask env spec (requests l1) path" using assms(3) by (simp add: asks_ok_def)
  then show ?thesis using assms(4) by (simp add: may_ask_def)
qed

section \<open>Examples\<close>

text \<open>A server that accepts the key \<open>k\<close> and the password \<open>pw\<close>; the file \<open>id\<close> holds \<open>k\<close> encrypted with \<open>pass\<close>, and
  the passphrase is remembered under the file's old name.\<close>

definition ex_env :: "string auth_env" where
  "ex_env = \<lparr>ae_result = (\<lambda>rs. Ok (case last rs of AR_Password _ p \<Rightarrow> (if p = ''pw'' then AU_Success else AU_Failure [M_Password] False)
       | AR_Signed _ k g \<Rightarrow> (if g \<and> k = ''k'' then AU_Success else AU_Failure [M_Password] False) | _ \<Rightarrow> AU_Failure [M_PublicKey, M_Password] False)),
     ae_offer = (\<lambda>_. Ok None), ae_kbd = (\<lambda>_. Ok KR_Failure), ae_rsa_hash = (\<lambda>_. Ok ()),
     ae_ask_password = (\<lambda>_. Some \<lparr>se_value = ''pw'', se_remember = True\<rparr>),
     ae_ask_passphrase = (\<lambda>_. Some \<lparr>se_value = ''pass'', se_remember = True\<rparr>), ae_ask_kbd = (\<lambda>_. None),
     ae_set_fault = (\<lambda>_. None), ae_delete_fault = (\<lambda>_. None), ae_is_file = (\<lambda>_. True), ae_canonicalize = (\<lambda>p. Some (''/'' @ p)),
     ae_load_public = (\<lambda>_. Some ''k''), ae_read = (\<lambda>_. None), ae_from_openssh = (\<lambda>_. None),
     ae_load_secret = (\<lambda>_ p. if p = Some ''pass'' then Ok ''k'' else Err LE_Encrypted), ae_can_sign = (\<lambda>_. True),
     ae_data = (\<lambda>k. k), ae_agent = None, ae_pageant = None, ae_agent_signs = (\<lambda>_. True),
     ae_windows = False, ae_to_lowercase = (\<lambda>s. s)\<rparr>"

definition ex_host :: host_spec where
  "ex_host = Host_Spec ''h'' ''h'' 22 ''u'' [''id''] []"

definition ex_start :: "(string, string) dict \<Rightarrow> string auth_state" where
  "ex_start d = \<lparr>at_log = [], at_secrets = d, at_notes = []\<rparr>"

theorem authenticated_iff_granted_witness:
  "just_granted ex_env (requests (at_log (fst (authenticate ex_env ex_host True (ex_start [])))))"
proof -
  have "snd (authenticate ex_env ex_host True (ex_start [])) = Ok ()" by code_simp
  then have "authenticate ex_env ex_host True (ex_start []) = (fst (authenticate ex_env ex_host True (ex_start [])), Ok ())"
    by (metis prod.collapse)
  from authenticated_iff_granted [OF _ this] show ?thesis by (simp add: ex_start_def)
qed

theorem store_policy_witness:
  "\<exists>s'. fst (authenticate ex_env ex_host True (ex_start [(''passphrase:id'', ''pass'')])) = s'
     \<and> at_secrets s' = [(''passphrase:/id'', ''pass'')]
     \<and> (store_step ex_env ex_host (requests (at_log s')))\<^sup>*\<^sup>* [(''passphrase:id'', ''pass'')] [(''passphrase:/id'', ''pass'')]"
proof -
  let ?run = "authenticate ex_env ex_host True (ex_start [(''passphrase:id'', ''pass'')])"
  have d: "at_secrets (fst ?run) = [(''passphrase:/id'', ''pass'')]" by code_simp
  have "(store_step ex_env ex_host (requests (at_log (fst ?run))))\<^sup>*\<^sup>* (at_secrets (ex_start [(''passphrase:id'', ''pass'')])) (at_secrets (fst ?run))"
    by (rule store_policy [of _ _ True _ _ "snd ?run"]) simp
  with d show ?thesis by (simp add: ex_start_def)
qed

theorem passphrase_after_acceptance_witness:
  "\<exists>l1 l2. at_log (fst (authenticate ex_env ex_host True (ex_start []))) = l1 @ AA_Passphrase ''id'' # l2
     \<and> (\<exists>p. requests l1 = p @ [AR_Offer ''u'' ''k''])"
proof -
  let ?run = "authenticate ex_env ex_host True (ex_start [])"
  have l: "at_log (fst ?run) = [AA_Request (AR_None ''u''), AA_Request (AR_Offer ''u'' ''k'')] @ AA_Passphrase ''id''
      # [AA_Request (AR_Signed ''u'' ''k'' True)]" by code_simp
  have "public_key_of ex_env ''id'' = Some ''k''" by (simp add: public_key_of_def ex_env_def)
  from passphrase_after_acceptance [OF _ _ l this, of "ex_start []" ex_host True "snd ?run"]
  have "\<exists>p. requests [AA_Request (AR_None ''u''), AA_Request (AR_Offer ''u'' ''k'')] = p @ [AR_Offer ''u'' ''k'']"
    by (simp add: ex_start_def ex_host_def)
  with l show ?thesis by blast
qed

end
