(* ===== verification/Stderr.thy ===== *)
theory Stderr
  imports Utf8
begin

text \<open>
  The end of a probe's standard error (\<open>crates/mai-core/src/stderr.rs\<close>): what is kept while it is read, and the
  summary shown when the probe stops.

  The reader is a list of read results (an empty read is the end). While \<open>summary\<close> waits the collecting task goes on,
  so the tail it looks at is a function of the time in milliseconds since the call.
\<close>

section \<open>Operations\<close>

definition TAIL_BYTES :: nat where "TAIL_BYTES = 2048"
definition SETTLE :: nat where "SETTLE = 300"

record stderr_tail =
  sd_text :: string
  sd_done :: bool

definition tail_new :: stderr_tail where
  "tail_new = \<lparr>sd_text = [], sd_done = False\<rparr>"

text \<open>The loop that moves \<open>cut\<close> to a character boundary; the end of the text is one.\<close>

function next_boundary :: "string \<Rightarrow> nat \<Rightarrow> nat" where
  "next_boundary s pos = (if is_char_boundary s pos \<or> length s \<le> pos then pos else next_boundary s (pos + 1))"
  by pat_completeness auto
termination
  by (relation "measure (\<lambda>(s, pos). length s - pos)") auto

declare next_boundary.simps [simp del]

definition tail_push :: "stderr_tail \<Rightarrow> string \<Rightarrow> stderr_tail" where
  "tail_push t bytes =
     (let text = sd_text t @ from_utf8_lossy bytes
      in t\<lparr>sd_text := if TAIL_BYTES < length text then drop (next_boundary text (length text - TAIL_BYTES)) text else text\<rparr>)"

definition tail_finish :: "stderr_tail \<Rightarrow> stderr_tail" where
  "tail_finish t = t\<lparr>sd_done := True\<rparr>"

fun tail_collect :: "(string + string) list \<Rightarrow> stderr_tail \<Rightarrow> stderr_tail" where
  "tail_collect [] t = tail_finish t"
| "tail_collect (Err e # rs) t = tail_finish t"
| "tail_collect (Ok bytes # rs) t = (if bytes = [] then tail_finish t else tail_collect rs (tail_push t bytes))"

function settled_at :: "(nat \<Rightarrow> bool) \<Rightarrow> nat \<Rightarrow> nat" where
  "settled_at done now = (if done now \<or> SETTLE \<le> now then now else settled_at done (now + 20))"
  by pat_completeness auto
termination
  by (relation "measure (\<lambda>(_, now). SETTLE - now)") auto

declare settled_at.simps [simp del]

definition summary_of :: "string \<Rightarrow> string option" where
  "summary_of text =
     (let ls = filter (\<lambda>l. l \<noteq> []) (map trim (lines text));
          final = drop (length ls - 3) ls
      in if final = [] then None else Some (join '' | '' final))"

definition tail_summary :: "(nat \<Rightarrow> stderr_tail) \<Rightarrow> string option" where
  "tail_summary tail_at = summary_of (sd_text (tail_at (settled_at (\<lambda>t. sd_done (tail_at t)) 0)))"

section \<open>The kept text\<close>

lemma next_boundary_least:
  assumes "pos \<le> j" "is_char_boundary s j"
  shows "pos \<le> next_boundary s pos \<and> next_boundary s pos \<le> j \<and> is_char_boundary s (next_boundary s pos)"
  using assms
proof (induction s pos rule: next_boundary.induct)
  case (1 s pos)
  show ?case
  proof (cases "is_char_boundary s pos \<or> length s \<le> pos")
    case True
    moreover from 1(2,3) have "j \<le> length s" by (auto simp: is_char_boundary_def)
    ultimately show ?thesis using 1(2,3) by (auto simp: next_boundary.simps [of s pos] is_char_boundary_def)
  next
    case False
    then have "pos \<noteq> j" using 1(3) by auto
    with False 1(1) [OF False] 1(2,3) show ?thesis by (simp add: next_boundary.simps [of s pos])
  qed
qed

text \<open>Cutting valid text to its last \<open>TAIL_BYTES\<close> bytes loses at most three more.\<close>

lemma cut_tail:
  assumes "valid_utf8 text" "TAIL_BYTES < length text"
  defines "kept \<equiv> drop (next_boundary text (length text - TAIL_BYTES)) text"
  shows "valid_utf8 kept" "suffix kept text" "length kept \<le> TAIL_BYTES" "TAIL_BYTES - 3 \<le> length kept"
proof -
  obtain j where j: "length text - TAIL_BYTES \<le> j" "j \<le> length text - TAIL_BYTES + 3" "is_char_boundary text j"
    using boundary_near [OF assms(1), of "length text - TAIL_BYTES"] by auto
  note b = next_boundary_least [OF j(1,3)]
  show "valid_utf8 kept" using boundary_valid [OF assms(1)] b by (simp add: kept_def)
  show "suffix kept text" by (simp add: kept_def suffix_drop)
  show "length kept \<le> TAIL_BYTES" "TAIL_BYTES - 3 \<le> length kept" using b j(2) assms(2)
    unfolding kept_def length_drop by linarith+
qed

definition kept_of :: "string \<Rightarrow> string \<Rightarrow> bool" where
  "kept_of everything kept \<longleftrightarrow> valid_utf8 kept \<and> suffix kept everything \<and> length kept \<le> TAIL_BYTES
     \<and> (kept = everything \<or> TAIL_BYTES - 3 \<le> length kept)"

lemma tail_push_kept:
  assumes "kept_of everything (sd_text t)"
  shows "kept_of (everything @ from_utf8_lossy bytes) (sd_text (tail_push t bytes))"
proof -
  let ?new = "from_utf8_lossy bytes" and ?text = "sd_text t @ from_utf8_lossy bytes"
  have v: "valid_utf8 ?text" using assms valid_lossy by (simp add: kept_of_def valid_append)
  have s: "suffix ?text (everything @ ?new)" using assms by (simp add: kept_of_def)
  show ?thesis
  proof (cases "TAIL_BYTES < length ?text")
    case True
    then have "sd_text (tail_push t bytes) = drop (next_boundary ?text (length ?text - TAIL_BYTES)) ?text"
      by (simp add: tail_push_def Let_def del: drop_append length_append)
    with cut_tail [OF v True] suffix_order.trans [OF _ s] show ?thesis unfolding kept_of_def by metis
  next
    case False
    with assms v s show ?thesis by (auto simp: tail_push_def kept_of_def)
  qed
qed

text \<open>The bytes the reader gives before it ends.\<close>

fun read_bytes :: "(string + string) list \<Rightarrow> string list" where
  "read_bytes [] = []"
| "read_bytes (Err e # rs) = []"
| "read_bytes (Ok bytes # rs) = (if bytes = [] then [] else bytes # read_bytes rs)"

lemma tail_collect_kept:
  "kept_of everything (sd_text t) \<Longrightarrow>
   kept_of (everything @ concat (map from_utf8_lossy (read_bytes rs))) (sd_text (tail_collect rs t))"
proof (induction rs t arbitrary: everything rule: tail_collect.induct)
  case (3 bytes rs t)
  show ?case
  proof (cases "bytes = []")
    case False
    with 3(1) [OF False tail_push_kept [OF 3(2)]] show ?thesis by simp
  qed (use 3(2) in \<open>simp add: tail_finish_def\<close>)
qed (simp_all add: tail_finish_def)

text \<open>What is kept of a probe's standard error is bounded and recent: after all of it has been collected, the
  text is valid UTF-8, at most 2048 bytes, the end of everything that was read, and nothing is dropped that
  need not be: either all of it is kept, or at least 2045 bytes are.\<close>

theorem stderr_tail_bounded:
  "let kept = sd_text (tail_collect rs tail_new); everything = concat (map from_utf8_lossy (read_bytes rs))
   in valid_utf8 kept \<and> suffix kept everything \<and> length kept \<le> 2048 \<and> (kept = everything \<or> 2045 \<le> length kept)"
proof -
  have "kept_of [] (sd_text tail_new)" by (simp add: kept_of_def tail_new_def)
  from tail_collect_kept [OF this, of rs] show ?thesis by (simp add: kept_of_def TAIL_BYTES_def Let_def)
qed

section \<open>The summary\<close>

lemma settled_at_bound: "now < SETTLE + 20 \<Longrightarrow> settled_at done now < SETTLE + 20 \<and> (done (settled_at done now) \<or> SETTLE \<le> settled_at done now)"
  by (induction "done" now rule: settled_at.induct) (subst (1 2 3) settled_at.simps, auto)

text \<open>A stopped probe's message comes within 320 milliseconds, from the tail after standard error ended or after
  the time to settle.\<close>

lemma summary_in_time:
  "\<exists>now < 320. (sd_done (tail_at now) \<or> 300 \<le> now) \<and> tail_summary tail_at = summary_of (sd_text (tail_at now))"
  using settled_at_bound [of 0 "\<lambda>t. sd_done (tail_at t)"] by (auto simp: tail_summary_def SETTLE_def)

end
