(* ===== verification/Ssh_Session.thy ===== *)
theory Ssh_Session
  imports Ssh_Pty Auth Stderr
begin

text \<open>
  SSH sessions (\<open>crates/mai-core/src/ssh/client.rs\<close>): connecting through jump hosts, running a command to its end
  (\<open>exec\<close>) and as a stream (\<open>open_exec\<close>, \<open>open_exec_split\<close>), and the mapping of failures for the host task (\<open>connect.rs\<close>).

  Reaching a hop (TCP or a channel of the previous hop, key exchange, host key) is the field \<open>nw_reach\<close>; the theory of one
  hop's timer and host-key check is separate. A channel is the record of the PTY theory.
\<close>

section \<open>Commands on a channel\<close>

fun exec_collect :: "chan_msg list \<Rightarrow> exec_output \<Rightarrow> exec_output" where
  "exec_collect [] out = out"
| "exec_collect (msg # msgs) out =
     exec_collect msgs
       (case msg of
          CM_Data d \<Rightarrow> out\<lparr>eo_stdout := eo_stdout out @ d\<rparr>
        | CM_ExtendedData d \<Rightarrow> out\<lparr>eo_stderr := eo_stderr out @ d\<rparr>
        | CM_ExitStatus st \<Rightarrow> out\<lparr>eo_status := Some st\<rparr>
        | _ \<Rightarrow> out)"

definition channel_open :: "string option \<Rightarrow> ssh_error + unit" where
  "channel_open fault = (case fault of Some e \<Rightarrow> Err (SE_Channel e) | None \<Rightarrow> Ok ())"

definition session_exec :: "string option \<Rightarrow> pty_chan \<Rightarrow> string \<Rightarrow> pty_chan \<times> (ssh_error + exec_output)" where
  "session_exec open_fault c command =
     (case channel_open open_fault of
        Err e \<Rightarrow> (c, Err e)
      | Ok _ \<Rightarrow>
          (case chan_send c (CR_Exec command) of
             (c1, Err e) \<Rightarrow> (c1, Err e)
           | (c1, Ok _) \<Rightarrow>
               (c1\<lparr>pc_read := []\<rparr>, Ok (exec_collect (map snd (pc_read c1)) \<lparr>eo_status = None, eo_stdout = [], eo_stderr = []\<rparr>))))"

fun send_envs :: "pty_chan \<Rightarrow> (string \<times> string) list \<Rightarrow> pty_chan \<times> (ssh_error + unit)" where
  "send_envs c [] = (c, Ok ())"
| "send_envs c ((k, v) # env) =
     (case chan_send c (CR_Env k v) of (c1, Err e) \<Rightarrow> (c1, Err e) | (c1, Ok _) \<Rightarrow> send_envs c1 env)"

definition open_exec :: "string option \<Rightarrow> pty_chan \<Rightarrow> string \<Rightarrow> (string \<times> string) list \<Rightarrow> pty_chan \<times> (ssh_error + unit)" where
  "open_exec open_fault c command env =
     (case channel_open open_fault of
        Err e \<Rightarrow> (c, Err e)
      | Ok _ \<Rightarrow> (case send_envs c env of (c1, Err e) \<Rightarrow> (c1, Err e) | (c1, Ok _) \<Rightarrow> chan_send c1 (CR_Exec command)))"

text \<open>The task of \<open>open_exec_split\<close>: each message comes with whether the reader of standard output still takes bytes.
  The result is the bytes of standard output and the tail of standard error.\<close>

fun split_pump :: "(chan_msg \<times> bool) list \<Rightarrow> string \<Rightarrow> stderr_tail \<Rightarrow> string \<times> stderr_tail" where
  "split_pump [] out err = (out, tail_finish err)"
| "split_pump ((msg, taken) # msgs) out err =
     (case msg of
        CM_Data d \<Rightarrow> if taken then split_pump msgs (out @ d) err else (out, tail_finish err)
      | CM_ExtendedData d \<Rightarrow> split_pump msgs out (tail_push err d)
      | CM_Eof \<Rightarrow> (out, tail_finish err)
      | CM_Close \<Rightarrow> (out, tail_finish err)
      | _ \<Rightarrow> split_pump msgs out err)"

definition open_exec_split ::
    "string option \<Rightarrow> pty_chan \<Rightarrow> string \<Rightarrow> (string \<times> string) list \<Rightarrow> (chan_msg \<times> bool) list \<Rightarrow> pty_chan \<times> (ssh_error + string \<times> stderr_tail)" where
  "open_exec_split open_fault c command env msgs =
     (case open_exec open_fault c command env of
        (c1, Err e) \<Rightarrow> (c1, Err e)
      | (c1, Ok _) \<Rightarrow> (c1, Ok (split_pump msgs [] tail_new)))"

text \<open>\<open>sftp\<close>: the subsystem is requested (the request is written, its answer is not awaited) and the SFTP client says hello on the
  stream; \<open>hello\<close> gives its failure, from the time limit for one request. The result is that limit.\<close>

definition SFTP_REQUEST_TIMEOUT_SECS :: nat where "SFTP_REQUEST_TIMEOUT_SECS = 60"

definition session_sftp :: "string option \<Rightarrow> pty_chan \<Rightarrow> (nat \<Rightarrow> string option) \<Rightarrow> pty_chan \<times> (ssh_error + nat)" where
  "session_sftp open_fault c hello_fault =
     (case channel_open open_fault of
        Err e \<Rightarrow> (c, Err e)
      | Ok _ \<Rightarrow>
          (case chan_send c (CR_Subsystem ''sftp'') of
             (c1, Err e) \<Rightarrow> (c1, Err e)
           | (c1, Ok _) \<Rightarrow>
               (case hello_fault SFTP_REQUEST_TIMEOUT_SECS of
                  Some e \<Rightarrow> (c1, Err (SE_Channel e))
                | None \<Rightarrow> (c1, Ok SFTP_REQUEST_TIMEOUT_SECS))))"

section \<open>Connecting\<close>

text \<open>A connection knows the hops it goes through, outermost first, and the notes of all of them.\<close>

record ssh_conn =
  cn_hops :: "host_spec list"
  cn_notes :: "string list"

record 'k network =
  nw_reach :: "host_spec list \<Rightarrow> host_spec \<Rightarrow> ssh_error + unit"
  nw_auth :: "host_spec list \<Rightarrow> host_spec \<Rightarrow> 'k auth_env"

definition via_hops :: "ssh_conn option \<Rightarrow> host_spec list" where
  "via_hops via = (case via of None \<Rightarrow> [] | Some c \<Rightarrow> cn_hops c)"

definition via_notes :: "ssh_conn option \<Rightarrow> string list" where
  "via_notes via = (case via of None \<Rightarrow> [] | Some c \<Rightarrow> cn_notes c)"

definition connect_hop ::
    "'k network \<Rightarrow> bool \<Rightarrow> host_spec \<Rightarrow> ssh_conn option \<Rightarrow> (string, string) dict \<Rightarrow> (string, string) dict \<times> (ssh_error + ssh_conn)" where
  "connect_hop net use_agent hop via secrets =
     (case nw_reach net (via_hops via) hop of
        Err e \<Rightarrow> (secrets, Err e)
      | Ok _ \<Rightarrow>
          (case authenticate (nw_auth net (via_hops via) hop) hop use_agent
                  \<lparr>at_log = [], at_secrets = secrets, at_notes = via_notes via\<rparr> of
             (s, Err e) \<Rightarrow> (at_secrets s, Err e)
           | (s, Ok _) \<Rightarrow> (at_secrets s, Ok \<lparr>cn_hops = via_hops via @ [hop], cn_notes = at_notes s\<rparr>)))"

fun connect_hops ::
    "'k network \<Rightarrow> bool \<Rightarrow> host_spec list \<Rightarrow> ssh_conn option \<Rightarrow> (string, string) dict
     \<Rightarrow> (string, string) dict \<times> (ssh_error + ssh_conn option)" where
  "connect_hops net use_agent [] via secrets = (secrets, Ok via)"
| "connect_hops net use_agent (hop # hops) via secrets =
     (case connect_hop net use_agent hop via secrets of
        (secrets1, Err e) \<Rightarrow> (secrets1, Err e)
      | (secrets1, Ok c) \<Rightarrow> connect_hops net use_agent hops (Some c) secrets1)"

definition ssh_connect ::
    "'k network \<Rightarrow> bool \<Rightarrow> host_spec \<Rightarrow> (string, string) dict \<Rightarrow> (string, string) dict \<times> (ssh_error + ssh_conn)" where
  "ssh_connect net use_agent spec secrets =
     (case connect_hops net use_agent (sp_jumps spec @ [spec]) None secrets of
        (secrets1, Err e) \<Rightarrow> (secrets1, Err e)
      | (secrets1, Ok None) \<Rightarrow> (secrets1, Err (SE_Connect ''no hops''))
      | (secrets1, Ok (Some c)) \<Rightarrow> (secrets1, Ok c))"

section \<open>Errors for the host task\<close>

definition with_notes :: "open_error \<Rightarrow> string list \<Rightarrow> open_error" where
  "with_notes err notes =
     (if notes = [] then err
      else let add = (\<lambda>m. m @ '' ('' @ join ''; '' notes @ '')'')
           in case err of
                OE_Retry m \<Rightarrow> OE_Retry (add m)
              | OE_NeedsUser (P_Auth m) \<Rightarrow> OE_NeedsUser (P_Auth (add m))
              | OE_NeedsUser (P_Deploy m) \<Rightarrow> OE_NeedsUser (P_Deploy (add m))
              | OE_NeedsUser (P_Config m) \<Rightarrow> OE_NeedsUser (P_Config (add m))
              | other \<Rightarrow> other)"

fun ssh_open_error :: "ssh_error \<Rightarrow> open_error" where
  "ssh_open_error (SE_Connect m) = OE_Retry m"
| "ssh_open_error (SE_Channel m) = OE_Retry m"
| "ssh_open_error (SE_Auth m) = OE_NeedsUser (P_Auth m)"
| "ssh_open_error (SE_HostKeyRejected _ _ _) = OE_NeedsUser P_HostKeyRejected"
| "ssh_open_error (SE_HostKeyChanged _ _ f l) = OE_NeedsUser (P_HostKeyChanged f l)"
| "ssh_open_error (SE_HostKeyRevoked _ _ f l) = OE_NeedsUser (P_HostKeyRevoked f l)"

definition deploy_open_error :: "deploy_error \<Rightarrow> open_error" where
  "deploy_open_error e =
     (case e of DE_Ssh x \<Rightarrow> ssh_open_error x | _ \<Rightarrow> OE_NeedsUser (P_Deploy (show_deploy_error e)))"

section \<open>Streams\<close>

definition data_of :: "chan_msg list \<Rightarrow> string" where
  "data_of ms = concat (map (\<lambda>m. case m of CM_Data d \<Rightarrow> d | _ \<Rightarrow> []) ms)"

definition ext_of :: "chan_msg list \<Rightarrow> string list" where
  "ext_of ms = List.map_filter (\<lambda>m. case m of CM_ExtendedData d \<Rightarrow> Some d | _ \<Rightarrow> None) ms"

definition status_of :: "chan_msg list \<Rightarrow> u32 option" where
  "status_of ms = fold (\<lambda>m st. case m of CM_ExitStatus n \<Rightarrow> Some n | _ \<Rightarrow> st) ms None"

definition before_end :: "chan_msg list \<Rightarrow> chan_msg list" where
  "before_end ms = takeWhile (\<lambda>m. m \<noteq> CM_Eof \<and> m \<noteq> CM_Close) ms"

lemma stream_simps [simp]:
  "data_of [] = []" "data_of (m # ms) = (case m of CM_Data d \<Rightarrow> d | _ \<Rightarrow> []) @ data_of ms"
  "ext_of [] = []" "ext_of (m # ms) = (case m of CM_ExtendedData d \<Rightarrow> [d] | _ \<Rightarrow> []) @ ext_of ms"
  "before_end [] = []" "before_end (m # ms) = (if m = CM_Eof \<or> m = CM_Close then [] else m # before_end ms)"
  by (simp_all add: data_of_def ext_of_def before_end_def List.map_filter_def split: chan_msg.split)

lemma exec_collect_eq:
  "exec_collect ms out = out\<lparr>eo_stdout := eo_stdout out @ data_of ms, eo_stderr := eo_stderr out @ concat (ext_of ms),
     eo_status := fold (\<lambda>m st. case m of CM_ExitStatus n \<Rightarrow> Some n | _ \<Rightarrow> st) ms (eo_status out)\<rparr>"
  by (induction ms arbitrary: out) (auto split: chan_msg.split)

lemma exec_output_exact:
  assumes "session_exec None c command = (c', Ok out)"
  shows "out = \<lparr>eo_status = status_of (map snd (pc_read c)), eo_stdout = data_of (map snd (pc_read c)),
    eo_stderr = concat (ext_of (map snd (pc_read c)))\<rparr>"
  using assms by (auto simp: session_exec_def channel_open_def chan_send_def exec_collect_eq status_of_def split: list.splits option.splits)

lemma split_pump_eq:
  "\<forall>m \<in> set msgs. snd m \<Longrightarrow> split_pump msgs out err =
     (out @ data_of (before_end (map fst msgs)), tail_finish (fold (\<lambda>d t. tail_push t d) (ext_of (before_end (map fst msgs))) err))"
  by (induction msgs out err rule: split_pump.induct) (auto split: chan_msg.splits)

lemma fold_push_kept:
  "kept_of everything (sd_text t) \<Longrightarrow>
   kept_of (everything @ concat (map from_utf8_lossy ds)) (sd_text (fold (\<lambda>d t. tail_push t d) ds t))"
proof (induction ds arbitrary: everything t)
  case (Cons d ds)
  from Cons.IH [OF tail_push_kept [OF Cons.prems]] show ?case by simp
qed simp

text \<open>The probe's output reaches the app byte for byte: as long as the app reads, standard output is what the server
  sent as data up to the end of the stream, in order, standard error never gets mixed into it, and the kept
  tail of standard error (at most 2048 bytes) is the end of what was sent there.\<close>

theorem probe_stream_exact:
  assumes "open_exec_split open_fault c command env msgs = (c', Ok (out, err))" "\<forall>m \<in> set msgs. snd m"
  shows "out = data_of (before_end (map fst msgs)) \<and> sd_done err
    \<and> suffix (sd_text err) (concat (map from_utf8_lossy (ext_of (before_end (map fst msgs)))))
    \<and> length (sd_text err) \<le> 2048"
proof -
  let ?ds = "ext_of (before_end (map fst msgs))"
  from assms have "out = data_of (before_end (map fst msgs))" and e: "err = tail_finish (fold (\<lambda>d t. tail_push t d) ?ds tail_new)"
    by (auto simp: open_exec_split_def split_pump_eq split: prod.splits sum.splits)
  moreover have "kept_of [] (sd_text tail_new)" by (simp add: kept_of_def tail_new_def)
  from fold_push_kept [OF this, of ?ds] have "kept_of (concat (map from_utf8_lossy ?ds)) (sd_text err)"
    by (simp add: e tail_finish_def)
  ultimately show ?thesis by (simp add: kept_of_def TAIL_BYTES_def tail_finish_def)
qed

theorem probe_stream_exact_witness:
  "\<exists>c' err. open_exec_split None \<lparr>pc_read = [], pc_faults = [], pc_sent = [], pc_early = []\<rparr> ''serve'' []
     [(CM_Data ''ab'', True), (CM_ExtendedData ''oops'', True), (CM_Data ''c'', True), (CM_Eof, True), (CM_Data ''x'', True)]
   = (c', Ok (''abc'', err)) \<and> sd_done err"
proof -
  let ?c = "\<lparr>pc_read = [], pc_faults = [], pc_sent = [], pc_early = []\<rparr>"
  let ?ms = "[(CM_Data ''ab'', True), (CM_ExtendedData ''oops'', True), (CM_Data ''c'', True), (CM_Eof, True), (CM_Data ''x'', True)]"
  obtain c' out err where o: "open_exec_split None ?c ''serve'' [] ?ms = (c', Ok (out, err))"
    by (simp add: open_exec_split_def open_exec_def channel_open_def chan_send_def)
  from probe_stream_exact [OF this] o show ?thesis by simp
qed

section \<open>The session of a deployment\<close>

text \<open>The deployment runs commands and SFTP on a session. Here that session is made of channels: each command has a channel of its
  own, with the fault of opening it, and SFTP has another.\<close>

record channels =
  ch_exec :: "string \<Rightarrow> string option \<times> pty_chan"
  ch_sftp :: "string option \<times> pty_chan"
  ch_sftp_hello :: "nat \<Rightarrow> string option"

definition session_on :: "channels \<Rightarrow> session \<Rightarrow> session" where
  "session_on ch s =
     s\<lparr>ss_answer := \<lambda>cmd. snd (session_exec (fst (ch_exec ch cmd)) (snd (ch_exec ch cmd)) cmd),
       ss_sftp := (case snd (session_sftp (fst (ch_sftp ch)) (snd (ch_sftp ch)) (ch_sftp_hello ch)) of Err e \<Rightarrow> Some e | Ok _ \<Rightarrow> None)\<rparr>"

text \<open>The hash a deployment decides on is read from the bytes the host sent on standard output of that command's channel, all of
  them and in order; standard error and the other messages have no part in it. A channel that fails gives no hash.\<close>

lemma host_hash_from_channel:
  "host_hash lib (session_on ch s) r path =
     (let c = ch_exec ch (hash_command r path)
      in if fst c = None \<and> (pc_faults (snd c) = [] \<or> hd (pc_faults (snd c)) = None)
         then parse_hash (from_utf8_lossy (data_of (map snd (pc_read (snd c)))))
         else None)"
proof -
  obtain f c where c: "ch_exec ch (hash_command r path) = (f, c)" by force
  let ?cmd = "hash_command r path"
  have "session_exec f c ?cmd = (c', Ok out) \<Longrightarrow> eo_stdout out = data_of (map snd (pc_read c))" for c' out
    by (auto simp: session_exec_def exec_collect_eq chan_send_def split: sum.splits prod.splits list.splits option.splits)
  moreover have "(\<exists>c' out. session_exec f c ?cmd = (c', Ok out)) \<longleftrightarrow> f = None \<and> (pc_faults c = [] \<or> hd (pc_faults c) = None)"
    by (auto simp: session_exec_def channel_open_def chan_send_def split: list.split option.split)
  ultimately show ?thesis
    by (cases "session_exec f c ?cmd") (auto simp: host_hash_def session_on_def c Let_def split: sum.split)
qed

section \<open>Every hop\<close>

text \<open>The hop after \<open>done\<close> was reached through them and authenticated with a fresh log.\<close>

definition hop_ok :: "'k network \<Rightarrow> bool \<Rightarrow> host_spec list \<Rightarrow> host_spec \<Rightarrow> bool" where
  "hop_ok net use_agent before hop \<longleftrightarrow> nw_reach net before hop = Ok ()
     \<and> (\<exists>s s'. at_log s = [] \<and> authenticate (nw_auth net before hop) hop use_agent s = (s', Ok ()))"

lemma connect_hop_ok:
  assumes "connect_hop net ua hop via secrets = (secrets', Ok c)"
  shows "cn_hops c = via_hops via @ [hop] \<and> hop_ok net ua (via_hops via) hop"
proof -
  let ?s = "\<lparr>at_log = [], at_secrets = secrets, at_notes = via_notes via\<rparr>"
  obtain s r where a: "authenticate (nw_auth net (via_hops via) hop) hop ua ?s = (s, r)" by force
  with assms have "nw_reach net (via_hops via) hop = Ok ()" "r = Ok ()" "cn_hops c = via_hops via @ [hop]"
    by (auto simp: connect_hop_def split: sum.splits)
  with a show ?thesis unfolding hop_ok_def by (metis auth_state.select_convs(1))
qed

lemma connect_hops_ok:
  "connect_hops net ua hops via secrets = (secrets', Ok via') \<Longrightarrow>
   via_hops via' = via_hops via @ hops \<and> (\<forall>i < length hops. hop_ok net ua (via_hops via @ take i hops) (hops ! i))"
proof (induction hops arbitrary: via secrets)
  case (Cons hop hops)
  from Cons.prems obtain s1 c where c: "connect_hop net ua hop via secrets = (s1, Ok c)"
    and r: "connect_hops net ua hops (Some c) s1 = (secrets', Ok via')" by (auto split: prod.splits sum.splits)
  have h: "via_hops (Some c) = via_hops via @ [hop]" using connect_hop_ok [OF c] by (simp add: via_hops_def)
  have "hop_ok net ua (via_hops via @ take i (hop # hops)) ((hop # hops) ! i)" if "i < length (hop # hops)" for i
    using that Cons.IH [OF r] connect_hop_ok [OF c] h by (cases i) auto
  with Cons.IH [OF r] h show ?case by simp
qed (simp add: via_hops_def)

lemma ssh_connect_every:
  assumes "ssh_connect net ua spec secrets = (secrets', Ok c)"
  shows "cn_hops c = sp_jumps spec @ [spec] \<and> (\<forall>i < length (cn_hops c). hop_ok net ua (take i (cn_hops c)) (cn_hops c ! i))"
proof -
  from assms have "connect_hops net ua (sp_jumps spec @ [spec]) None secrets = (secrets', Ok (Some c))"
    by (auto simp: ssh_connect_def split: prod.splits sum.splits option.splits)
  from connect_hops_ok [OF this] show ?thesis by (simp add: via_hops_def)
qed

lemmas ssh_connect_hops = ssh_connect_every [THEN conjunct1]

text \<open>A connection is only as good as each of its hops: \<open>connect\<close> succeeds only if every jump host in order and then the
  target was reached through the ones before it, with its host key checked and the user authenticated on it.
  It never falls back to reaching the target directly.\<close>

theorem connect_every_hop:
  assumes "ssh_connect net use_agent spec secrets = (secrets', Ok c)"
  shows "cn_hops c = sp_jumps spec @ [spec]
    \<and> (\<forall>i < length (cn_hops c). hop_ok net use_agent (take i (cn_hops c)) (cn_hops c ! i))"
  by (rule ssh_connect_every [OF assms])

text \<open>A server that lets everybody in.\<close>

definition open_door :: "string auth_env" where
  "open_door = ex_env\<lparr>ae_result := \<lambda>_. Ok AU_Success\<rparr>"

theorem connect_every_hop_witness:
  "\<exists>secrets c. ssh_connect \<lparr>nw_reach = \<lambda>_ _. Ok (), nw_auth = \<lambda>_ _. open_door\<rparr> False
     (Host_Spec ''t'' ''t'' 22 ''u'' [] [Host_Spec ''j'' ''j'' 22 ''u'' [] []]) [] = (secrets, Ok c)
   \<and> length (cn_hops c) = 2"
proof -
  let ?net = "\<lparr>nw_reach = \<lambda>_ _. Ok (), nw_auth = \<lambda>_ _. open_door\<rparr>"
  let ?spec = "Host_Spec ''t'' ''t'' 22 ''u'' [] [Host_Spec ''j'' ''j'' 22 ''u'' [] []]"
  obtain secrets c where "ssh_connect ?net False ?spec [] = (secrets, Ok c)"
    by (simp add: ssh_connect_def connect_hop_def authenticate_def auth_call_def open_door_def Let_def)
  with connect_every_hop [OF this] show ?thesis by auto
qed

end
