(* ===== verification/Terminals.thy ===== *)
theory Terminals
  imports Ssh_Session Zellij_Cli
begin

text \<open>
  The terminal connection of one host (\<open>crates/mai-core/src/terminals.rs\<close>): a PTY channel of an SSH session, or a local
  PTY; where zellij is, and the locale it runs in.

  \<open>cfg!\<close> values are arguments (\<open>windows\<close>, \<open>linux\<close>), so is the process environment \<open>var\<close>.
\<close>

section \<open>Finding zellij\<close>

datatype system_terminals = ST_Ssh remote "string option" | ST_Local

definition ZELLIJ_DIRS :: "string list" where
  "ZELLIJ_DIRS = [''/opt/homebrew/bin'', ''/usr/local/bin'', ''~/.cargo/bin'', ''~/.local/bin'']"

definition ZELLIJ_SEARCH_TIMEOUT :: duration where "ZELLIJ_SEARCH_TIMEOUT = 10000"

definition dir_word :: "string \<Rightarrow> string" where
  "dir_word d =
     (case strip_prefix d ''~/'' of
        Some rest \<Rightarrow> [dquote] @ ''$HOME/'' @ rest @ [dquote]
      | None \<Rightarrow> d)"

definition find_zellij_script :: string where
  "find_zellij_script =
     ''command -v zellij || for d in '' @ join '' '' (map dir_word ZELLIJ_DIRS) @ ''; do if [ -x '' @ [dquote] @ ''$d/zellij'' @ [dquote]
       @ '' ]; then echo '' @ [dquote] @ ''$d/zellij'' @ [dquote] @ ''; exit 0; fi; done; exec '' @ [dquote] @ ''${SHELL:-sh}'' @ [dquote]
       @ '' -lc '' @ [dquote] @ ''command -v zellij'' @ [dquote] @ '' </dev/null''"

definition find_zellij_command :: string where
  "find_zellij_command = ''sh -c '' @ [quote] @ find_zellij_script @ [quote]"

definition found_zellij :: "string \<Rightarrow> string option" where
  "found_zellij out = find (\<lambda>l. starts_with l ''/'' \<and> CHR '' '' \<notin> set l) (rev (map trim (lines out)))"

definition zellij_dir :: "path option \<Rightarrow> string \<Rightarrow> path option" where
  "zellij_dir home d =
     (case strip_prefix d ''~/'' of
        Some rest \<Rightarrow> map_option (\<lambda>h. path_join h rest) home
      | None \<Rightarrow> Some d)"

definition local_zellij :: "bool \<Rightarrow> (path \<Rightarrow> bool) \<Rightarrow> string option \<Rightarrow> path option \<Rightarrow> string" where
  "local_zellij windows is_file path_env home =
     (let exe = (if windows then ''zellij.exe'' else ''zellij'');
          on_path = list_ex (\<lambda>d. is_file (path_join d exe)) (case path_env of None \<Rightarrow> [] | Some e \<Rightarrow> split_on CHR '':'' e)
      in if on_path \<or> windows then ''zellij''
         else case find is_file (map (\<lambda>d. path_join d exe) (List.map_filter (zellij_dir home) ZELLIJ_DIRS)) of
                Some p \<Rightarrow> p
              | None \<Rightarrow> ''zellij'')"

section \<open>Locale\<close>

definition FALLBACK_LOCALE :: "bool \<Rightarrow> string" where
  "FALLBACK_LOCALE linux = (if linux then ''C.UTF-8'' else ''en_US.UTF-8'')"

definition has_utf8_locale :: "(string \<Rightarrow> string option) \<Rightarrow> bool" where
  "has_utf8_locale var =
     (case List.map_filter (\<lambda>k. case var k of Some v \<Rightarrow> if v \<noteq> [] then Some v else None | None \<Rightarrow> None) [''LC_ALL'', ''LC_CTYPE'', ''LANG''] of
        [] \<Rightarrow> False
      | v # _ \<Rightarrow> (let v = to_ascii_lowercase v in contains v ''utf-8'' \<or> contains v ''utf8''))"

definition local_env_with :: "bool \<Rightarrow> bool \<Rightarrow> (string \<Rightarrow> string option) \<Rightarrow> (string \<times> string) list" where
  "local_env_with windows linux var =
     [(''TERM'', ''xterm-256color'')]
       @ (if \<not> windows \<and> \<not> has_utf8_locale var
          then [(''LANG'', FALLBACK_LOCALE linux), (''LC_CTYPE'', FALLBACK_LOCALE linux)]
            @ (if (case var ''LC_ALL'' of Some v \<Rightarrow> v \<noteq> [] | None \<Rightarrow> False) then [(''LC_ALL'', FALLBACK_LOCALE linux)] else [])
          else [])"

section \<open>Attaching\<close>

text \<open>The parts of this machine a local terminal is started from; \<open>lc_spawn\<close> says why starting fails.\<close>

record local_machine =
  lc_windows :: bool
  lc_linux :: bool
  lc_var :: "string \<Rightarrow> string option"
  lc_is_file :: "path \<Rightarrow> bool"
  lc_spawn :: "string \<Rightarrow> string option"

text \<open>A running terminal: the pump of an SSH channel with its first output, or the program of a local one.\<close>

datatype terminal_io = TI_Ssh pump "pty_out list" | TI_Local string "string list" "(string \<times> string) list" term_size

definition open_pty ::
    "string option \<Rightarrow> pty_chan \<Rightarrow> term_size \<Rightarrow> (string \<times> string) list \<Rightarrow> (bool \<Rightarrow> string) \<Rightarrow> pty_chan \<times> (ssh_error + pump \<times> pty_out list)" where
  "open_pty open_fault c sz env command =
     (case channel_open open_fault of Err e \<Rightarrow> (c, Err e) | Ok _ \<Rightarrow> start_pty c sz env command)"

definition terminal_attach ::
    "local_machine \<Rightarrow> string option \<Rightarrow> pty_chan \<Rightarrow> system_terminals \<Rightarrow> string option \<Rightarrow> attach_spec
     \<Rightarrow> pty_chan \<times> (open_error + terminal_io)" where
  "terminal_attach m open_fault c terms zellij spec =
     (case terms of
        ST_Ssh remote found \<Rightarrow>
          (let zellij = (case zellij of Some z \<Rightarrow> Some z | None \<Rightarrow> found)
           in case open_pty open_fault c (as_size spec) LOCALE_ENV
                     (\<lambda>accepted. remote_attach_command remote zellij (as_session spec) (as_create spec) accepted) of
                (c1, Err e) \<Rightarrow> (c1, Err (ssh_open_error e))
              | (c1, Ok (p, out)) \<Rightarrow> (c1, Ok (TI_Ssh p out)))
      | ST_Local \<Rightarrow>
          (let program = (case zellij of
                            Some z \<Rightarrow> z
                          | None \<Rightarrow> local_zellij (lc_windows m) (lc_is_file m) (lc_var m ''PATH'') (lc_var m ''HOME''))
           in case lc_spawn m program of
                Some e \<Rightarrow> (c, Err (OE_NeedsUser (P_Config (''cannot start '' @ program @ '': '' @ e))))
              | None \<Rightarrow>
                  (c, Ok (TI_Local program (attach_argv (as_session spec) (as_create spec))
                        (local_env_with (lc_windows m) (lc_linux m) (lc_var m)) (as_size spec)))))"

definition terminals_alive :: "bool \<Rightarrow> system_terminals \<Rightarrow> bool" where
  "terminals_alive closed t = (case t of ST_Ssh _ _ \<Rightarrow> \<not> closed | ST_Local \<Rightarrow> True)"

section \<open>A local terminal speaks UTF-8\<close>

text \<open>The environment of a program started with extra variables.\<close>

definition with_env :: "(string \<times> string) list \<Rightarrow> (string \<Rightarrow> string option) \<Rightarrow> string \<Rightarrow> string option" where
  "with_env env var k = (case map_of env k of Some v \<Rightarrow> Some v | None \<Rightarrow> var k)"

lemma has_utf8_locale_first:
  "has_utf8_locale var = (case if var ''LC_ALL'' \<noteq> None \<and> var ''LC_ALL'' \<noteq> Some [] then var ''LC_ALL''
      else if var ''LC_CTYPE'' \<noteq> None \<and> var ''LC_CTYPE'' \<noteq> Some [] then var ''LC_CTYPE''
      else if var ''LANG'' \<noteq> None \<and> var ''LANG'' \<noteq> Some [] then var ''LANG'' else None of
     None \<Rightarrow> False | Some v \<Rightarrow> contains (to_ascii_lowercase v) ''utf-8'' \<or> contains (to_ascii_lowercase v) ''utf8'')"
  by (auto simp: has_utf8_locale_def List.map_filter_simps split: option.splits)

lemma fallback_utf8: "contains (to_ascii_lowercase (FALLBACK_LOCALE linux)) ''utf-8''"
proof -
  have "contains (to_ascii_lowercase ''C.UTF-8'') ''utf-8''" "contains (to_ascii_lowercase ''en_US.UTF-8'') ''utf-8''" by code_simp+
  then show ?thesis by (simp add: FALLBACK_LOCALE_def)
qed

text \<open>A local terminal always runs in a UTF-8 locale: whatever the app's own environment is, the locale in effect
  (\<open>LC_ALL\<close>, else \<open>LC_CTYPE\<close>, else \<open>LANG\<close>) of the environment \<open>zellij attach\<close> is started with is UTF-8, and a user whose
  locale already is keeps it: no locale variable is overridden.\<close>

theorem local_env_utf8:
  "has_utf8_locale (with_env (local_env_with False linux var) var)
   \<and> (has_utf8_locale var \<longrightarrow> (\<forall>k. k \<noteq> ''TERM'' \<longrightarrow> with_env (local_env_with False linux var) var k = var k))"
proof (cases "has_utf8_locale var")
  case True
  then have k: "with_env (local_env_with False linux var) var k = var k" if "k \<noteq> ''TERM''" for k
    using that by (simp add: with_env_def local_env_with_def)
  have "has_utf8_locale (with_env (local_env_with False linux var) var) = has_utf8_locale var"
    unfolding has_utf8_locale_first by (simp add: k)
  with True k show ?thesis by blast
next
  case False
  have "FALLBACK_LOCALE linux \<noteq> []" by (simp add: FALLBACK_LOCALE_def)
  with False show ?thesis
    using fallback_utf8 [of linux] unfolding has_utf8_locale_first [of "with_env _ _"]
    by (auto simp: with_env_def local_env_with_def split: option.splits)
qed

theorem local_env_utf8_witness:
  "has_utf8_locale (with_env (local_env_with False True [''LC_ALL'' \<mapsto> ''C'']) [''LC_ALL'' \<mapsto> ''C''])"
  using local_env_utf8 [of True "[''LC_ALL'' \<mapsto> ''C'']"] by blast

section \<open>The search on the host\<close>

text \<open>The login shell passes the search script to \<open>sh\<close> as one word.\<close>

lemma find_command_words: "sh_words find_zellij_command = Some [''sh'', ''-c'', find_zellij_script]"
proof -
  have q: "quote \<notin> set find_zellij_script" by code_simp
  have "replace_char quote [quote, backslash, quote, quote] t = t" if "quote \<notin> set t" for t
    using that by (induction t) (auto simp: replace_char_def)
  from this [OF q] have "replace_char quote [quote, backslash, quote, quote] find_zellij_script = find_zellij_script" .
  then have c: "find_zellij_command = ''sh'' @ '' '' @ ''-c'' @ '' '' @ sh_quote find_zellij_script"
    by (simp add: find_zellij_command_def sh_quote_def)
  have "sh_lex False None (sh_quote find_zellij_script @ []) = Some [find_zellij_script]"
    by (subst lex_sh_quote) simp
  moreover have "sh_lex False None (''sh'' @ '' '' @ ''-c'' @ '' '' @ t) = map_option (\<lambda>ws. ''sh'' # ''-c'' # ws) (sh_lex False None t)" for t
    by (simp add: sh_safe_def is_ascii_alphanumeric_def is_ascii_digit_def byte_def option.map_comp comp_def)
  ultimately show ?thesis unfolding sh_words_def c by simp
qed

lemma local_zellij_exists:
  "local_zellij windows is_file path_env home = ''zellij'' \<or> is_file (local_zellij windows is_file path_env home)"
  by (auto simp: local_zellij_def Let_def find_Some_iff split: option.split)

end
