(* ===== verification/Hostkey.thy ===== *)
theory Hostkey
  imports Link Mai_Path Utf8
begin

text \<open>
  Host key verification against \<open>known_hosts\<close> files (\<open>crates/mai-core/src/ssh/hostkey.rs\<close>).

  The parser of one \<open>known_hosts\<close> line, the HMAC check of hashed names, the accessors of public keys and
  the OpenSSH encoder belong to third-party crates and are the fields of \<open>hostkey_lib\<close>; \<open>'k\<close> is their key
  type. A file is absent, unreadable, or its bytes.
\<close>

section \<open>Types\<close>

datatype hostkey_status =
    HK_Known
  | HK_Unknown
  | HK_Changed path nat
  | HK_Revoked path nat
  | HK_Unreadable path string

datatype host_patterns = HP_Hashed string string | HP_Patterns "string list"

datatype marker = MK_Revoked | MK_CertAuthority

record 'k known_host =
  kh_patterns :: host_patterns
  kh_marker :: "marker option"
  kh_key :: 'k

record 'k hostkey_lib =
  hk_parse :: "string \<Rightarrow> 'k known_host option"
  hk_data :: "'k \<Rightarrow> string"
  hk_alg :: "'k \<Rightarrow> string"
  hk_encode :: "'k \<Rightarrow> string + string"
  hk_hmac :: "string \<Rightarrow> string \<Rightarrow> string \<Rightarrow> bool"

type_synonym host_files = "path \<Rightarrow> (string + string) option"

section \<open>Names and patterns\<close>

definition host_name :: "string \<Rightarrow> u16 \<Rightarrow> string" where
  "host_name host port =
     (let host = to_ascii_lowercase host
      in if port = 22 then host else ''['' @ host @ '']:'' @ show_nat (unat port))"

text \<open>\<open>chars()\<close>: a character is its bytes.\<close>

function chars :: "string \<Rightarrow> string list" where
  "chars [] = []"
| "chars (c # cs) = (c # takeWhile is_cont cs) # chars (dropWhile is_cont cs)"
  by pat_completeness auto
termination
  by (relation "measure length") (auto simp: le_imp_less_Suc length_dropWhile_le)

fun glob :: "string list \<Rightarrow> string list \<Rightarrow> bool" where
  "glob [] text = (text = [])"
| "glob (p # rest) text =
     (if p = ''*'' then list_ex (\<lambda>i. glob rest (drop i text)) [0..<length text + 1]
      else if p = ''?'' then text \<noteq> [] \<and> glob rest (drop 1 text)
      else text \<noteq> [] \<and> hd text = p \<and> glob rest (drop 1 text))"

fun match_list :: "string list \<Rightarrow> string list \<Rightarrow> bool \<Rightarrow> bool" where
  "match_list [] text matched = matched"
| "match_list (p # ps) text matched =
     (let (negated, q) = (case strip_prefix p ''!'' of Some r \<Rightarrow> (True, r) | None \<Rightarrow> (False, p))
      in if glob (chars (to_ascii_lowercase q)) text
         then (if negated then False else match_list ps text True)
         else match_list ps text matched)"

fun host_matches :: "'k hostkey_lib \<Rightarrow> host_patterns \<Rightarrow> string \<Rightarrow> bool" where
  "host_matches lib (HP_Hashed salt hash) name = hk_hmac lib salt hash name"
| "host_matches lib (HP_Patterns l) name = match_list l (chars name) False"

section \<open>Files\<close>

record file_verdict =
  fv_known :: bool
  fv_changed :: "nat option"
  fv_revoked :: "nat option"

text \<open>\<open>get_or_insert\<close>\<close>

definition get_or_insert :: "nat \<Rightarrow> nat option \<Rightarrow> nat option" where
  "get_or_insert n x = (case x of None \<Rightarrow> Some n | Some m \<Rightarrow> Some m)"

definition scan_line :: "'k hostkey_lib \<Rightarrow> string \<Rightarrow> 'k \<Rightarrow> nat \<times> string \<Rightarrow> file_verdict \<Rightarrow> file_verdict" where
  "scan_line lib name key il v =
     (case hk_parse lib (snd il) of
        None \<Rightarrow> v
      | Some entry \<Rightarrow>
          if \<not> host_matches lib (kh_patterns entry) name then v
          else let same_key = (hk_data lib (kh_key entry) = hk_data lib key)
               in (case kh_marker entry of
                     Some MK_Revoked \<Rightarrow> if same_key then v\<lparr>fv_revoked := get_or_insert (fst il + 1) (fv_revoked v)\<rparr> else v
                   | Some MK_CertAuthority \<Rightarrow> v
                   | None \<Rightarrow>
                       if same_key then v\<lparr>fv_known := True\<rparr>
                       else if hk_alg lib (kh_key entry) = hk_alg lib key
                       then v\<lparr>fv_changed := get_or_insert (fst il + 1) (fv_changed v)\<rparr>
                       else v))"

definition scan :: "'k hostkey_lib \<Rightarrow> string \<Rightarrow> string \<Rightarrow> 'k \<Rightarrow> file_verdict" where
  "scan lib text name key =
     fold (scan_line lib name key) (List.enumerate 0 (lines text))
       \<lparr>fv_known = False, fv_changed = None, fv_revoked = None\<rparr>"

fun check_files ::
    "'k hostkey_lib \<Rightarrow> host_files \<Rightarrow> string \<Rightarrow> 'k \<Rightarrow> path list \<Rightarrow> (path \<times> nat) option \<Rightarrow> bool \<Rightarrow> hostkey_status" where
  "check_files lib fs name key [] changed known =
     (case changed of
        Some (file, line) \<Rightarrow> HK_Changed file line
      | None \<Rightarrow> if known then HK_Known else HK_Unknown)"
| "check_files lib fs name key (file # files) changed known =
     (case fs file of
        None \<Rightarrow> check_files lib fs name key files changed known
      | Some (Err e) \<Rightarrow> HK_Unreadable file e
      | Some (Ok bytes) \<Rightarrow>
          let v = scan lib (from_utf8_lossy bytes) name key
          in (case fv_revoked v of
                Some line \<Rightarrow> HK_Revoked file line
              | None \<Rightarrow>
                  check_files lib fs name key files
                    (case changed of None \<Rightarrow> map_option (\<lambda>line. (file, line)) (fv_changed v) | Some c \<Rightarrow> Some c)
                    (known \<or> fv_known v)))"

definition check_host_key :: "'k hostkey_lib \<Rightarrow> host_files \<Rightarrow> path list \<Rightarrow> string \<Rightarrow> u16 \<Rightarrow> 'k \<Rightarrow> hostkey_status" where
  "check_host_key lib fs files host port key = check_files lib fs (host_name host port) key files None False"

text \<open>\<open>mkdir\<close> and \<open>write\<close> say how the calls fail; a failing write may have written some bytes.\<close>

definition learn ::
    "'k hostkey_lib \<Rightarrow> string option \<Rightarrow> (nat \<times> string) option \<Rightarrow> host_files \<Rightarrow> path \<Rightarrow> string \<Rightarrow> u16 \<Rightarrow> 'k
     \<Rightarrow> host_files \<times> (string + unit)" where
  "learn lib mkdir write fs file host port key =
     (let err = (\<lambda>e. file @ '': '' @ e)
      in case (case fs file of None \<Rightarrow> Ok [] | Some r \<Rightarrow> r) of
           Err e \<Rightarrow> (fs, Err (err e))
         | Ok existing \<Rightarrow>
             let name = host_name host port
             in if fv_known (scan lib (from_utf8_lossy existing) name key) then (fs, Ok ())
                else (case hk_encode lib key of
                        Err e \<Rightarrow> (fs, Err (err e))
                      | Ok encoded \<Rightarrow>
                          let line = (if existing \<noteq> [] \<and> \<not> ends_with existing [newline] then [newline] else [])
                                @ name @ '' '' @ trim_end encoded @ [newline]
                          in (case if path_parent file = None then None else mkdir of
                                Some e \<Rightarrow> (fs, Err (err e))
                              | None \<Rightarrow>
                                  (case write of
                                     Some (n, e) \<Rightarrow> (fs(file \<mapsto> Ok (existing @ take n line)), Err (err e))
                                   | None \<Rightarrow> (fs(file \<mapsto> Ok (existing @ line)), Ok ())))))"

section \<open>Patterns mean what they say\<close>

text \<open>One pattern character against a run of text.\<close>

definition piece_matches :: "string \<Rightarrow> string list \<Rightarrow> bool" where
  "piece_matches p w \<longleftrightarrow> (if p = ''*'' then True else if p = ''?'' then length w = 1 else w = [p])"

abbreviation cut_into :: "string list \<Rightarrow> string list \<Rightarrow> bool" where
  "cut_into p tx \<equiv> \<exists>ws. list_all2 piece_matches p ws \<and> concat ws = tx"

lemma cut_star: "cut_into (''*'' # rest) tx \<longleftrightarrow> (\<exists>i \<le> length tx. cut_into rest (drop i tx))"
proof
  assume "cut_into (''*'' # rest) tx"
  then obtain w ws where "list_all2 piece_matches rest ws" "w @ concat ws = tx" by (auto simp: list_all2_Cons1)
  then show "\<exists>i \<le> length tx. cut_into rest (drop i tx)" by (intro exI [of _ "length w"]) auto
next
  assume "\<exists>i \<le> length tx. cut_into rest (drop i tx)"
  then obtain i ws where "list_all2 piece_matches rest ws" "concat ws = drop i tx" by blast
  then have "list_all2 piece_matches (''*'' # rest) (take i tx # ws) \<and> concat (take i tx # ws) = tx"
    by (simp add: piece_matches_def)
  then show "cut_into (''*'' # rest) tx" by blast
qed

lemma cut_char:
  assumes "q \<noteq> ''*''"
  shows "cut_into (q # rest) tx \<longleftrightarrow> (\<exists>c t. tx = c # t \<and> (q = ''?'' \<or> c = q) \<and> cut_into rest t)"
proof
  assume "cut_into (q # rest) tx"
  then obtain w ws where "piece_matches q w" "list_all2 piece_matches rest ws" "w @ concat ws = tx"
    by (auto simp: list_all2_Cons1)
  then show "\<exists>c t. tx = c # t \<and> (q = ''?'' \<or> c = q) \<and> cut_into rest t"
    using assms by (auto simp: piece_matches_def length_Suc_conv split: if_splits)
next
  assume "\<exists>c t. tx = c # t \<and> (q = ''?'' \<or> c = q) \<and> cut_into rest t"
  then obtain c ws where "tx = c # concat ws" "q = ''?'' \<or> c = q" "list_all2 piece_matches rest ws" by blast
  then have "list_all2 piece_matches (q # rest) ([c] # ws) \<and> concat ([c] # ws) = tx"
    using assms by (auto simp: piece_matches_def)
  then show "cut_into (q # rest) tx" by blast
qed

lemma glob_pieces: "glob p tx \<longleftrightarrow> (\<exists>ws. list_all2 piece_matches p ws \<and> concat ws = tx)"
proof (induction p arbitrary: tx)
  case Nil
  show ?case by auto
next
  case (Cons q rest)
  show ?case
  proof (cases "q = ''*''")
    case True
    have "glob (q # rest) tx \<longleftrightarrow> (\<exists>i \<le> length tx. glob rest (drop i tx))"
      using True by (simp add: list_ex_iff atLeast0LessThan lessThan_Suc_atMost Bex_def del: upt_Suc)
    then show ?thesis using cut_star [of rest tx] True Cons.IH by simp
  next
    case False
    have "glob (q # rest) tx \<longleftrightarrow> (\<exists>c t. tx = c # t \<and> (q = ''?'' \<or> c = q) \<and> glob rest t)"
      using False by (cases tx) auto
    then show ?thesis using cut_char [OF False, of rest tx] Cons.IH by simp
  qed
qed

lemma glob_refl: "glob p p"
  unfolding glob_pieces
  by (intro exI [of _ "map (\<lambda>c. [c]) p"]) (auto simp: list_all2_conv_all_nth piece_matches_def)

definition negated_pattern :: "string \<Rightarrow> string option" where
  "negated_pattern p = strip_prefix p ''!''"

definition pattern_matches :: "string \<Rightarrow> string \<Rightarrow> bool" where
  "pattern_matches p name \<longleftrightarrow>
     (\<exists>ws. list_all2 piece_matches (chars (to_ascii_lowercase p)) ws \<and> concat ws = chars name)"

lemma match_list_iff:
  "match_list ps (chars name) m \<longleftrightarrow>
     (m \<or> (\<exists>p \<in> set ps. negated_pattern p = None \<and> pattern_matches p name))
     \<and> \<not> (\<exists>p \<in> set ps. \<exists>q. negated_pattern p = Some q \<and> pattern_matches q name)"
  by (induction ps arbitrary: m)
    (auto simp: negated_pattern_def pattern_matches_def glob_pieces split: option.splits)

text \<open>A host field of a \<open>known_hosts\<close> line applies to a name exactly when some pattern of it matches
  and no negated pattern does, where a pattern matches when the name splits into one piece per
  pattern character: any run for \<open>*\<close>, one character for \<open>?\<close>, the character itself otherwise.\<close>

theorem host_matches_patterns:
  "host_matches lib (HP_Patterns ps) name \<longleftrightarrow>
     (\<exists>p \<in> set ps. negated_pattern p = None \<and> pattern_matches p name)
     \<and> \<not> (\<exists>p \<in> set ps. \<exists>q. negated_pattern p = Some q \<and> pattern_matches q name)"
  by (simp add: match_list_iff)

section \<open>What the files record\<close>

definition records_entry :: "'k hostkey_lib \<Rightarrow> string \<Rightarrow> ('k known_host \<Rightarrow> bool) \<Rightarrow> string \<Rightarrow> bool" where
  "records_entry lib name P tx \<longleftrightarrow>
     (\<exists>l \<in> set (lines tx). \<exists>e. hk_parse lib l = Some e \<and> host_matches lib (kh_patterns e) name \<and> P e)"

abbreviation same_key :: "'k hostkey_lib \<Rightarrow> 'k \<Rightarrow> 'k known_host \<Rightarrow> bool" where
  "same_key lib key e \<equiv> hk_data lib (kh_key e) = hk_data lib key"

definition known_in where
  "known_in lib name key = records_entry lib name (\<lambda>e. kh_marker e = None \<and> same_key lib key e)"

definition changed_in where
  "changed_in lib name key = records_entry lib name
     (\<lambda>e. kh_marker e = None \<and> \<not> same_key lib key e \<and> hk_alg lib (kh_key e) = hk_alg lib key)"

definition revoked_in where
  "revoked_in lib name key = records_entry lib name (\<lambda>e. kh_marker e = Some MK_Revoked \<and> same_key lib key e)"

lemma get_or_insert_Some [simp]: "get_or_insert n x \<noteq> None"
  by (simp add: get_or_insert_def split: option.split)

lemma scan_fold:
  fixes lib :: "'k hostkey_lib" and name :: string
  defines "has \<equiv> \<lambda>xs P. \<exists>x \<in> set xs. \<exists>e. hk_parse lib (snd x) = Some e \<and> host_matches lib (kh_patterns e) name \<and> P e"
  shows
    "fv_known (fold (scan_line lib name key) xs v) \<longleftrightarrow> fv_known v \<or> has xs (\<lambda>e. kh_marker e = None \<and> same_key lib key e)"
    "fv_revoked (fold (scan_line lib name key) xs v) \<noteq> None \<longleftrightarrow>
       fv_revoked v \<noteq> None \<or> has xs (\<lambda>e. kh_marker e = Some MK_Revoked \<and> same_key lib key e)"
    "fv_changed (fold (scan_line lib name key) xs v) \<noteq> None \<longleftrightarrow>
       fv_changed v \<noteq> None \<or> has xs (\<lambda>e. kh_marker e = None \<and> \<not> same_key lib key e \<and> hk_alg lib (kh_key e) = hk_alg lib key)"
proof (induction xs arbitrary: v)
  case (Cons x xs)
  have k: "fv_known (scan_line lib name key x v) \<longleftrightarrow> fv_known v \<or> has [x] (\<lambda>e. kh_marker e = None \<and> same_key lib key e)" for v
    by (auto simp: scan_line_def has_def Let_def split: option.splits marker.splits)
  have r: "fv_revoked (scan_line lib name key x v) \<noteq> None \<longleftrightarrow>
      fv_revoked v \<noteq> None \<or> has [x] (\<lambda>e. kh_marker e = Some MK_Revoked \<and> same_key lib key e)" for v
    by (auto simp: scan_line_def has_def Let_def get_or_insert_def split: option.splits marker.splits)
  have c: "fv_changed (scan_line lib name key x v) \<noteq> None \<longleftrightarrow>
      fv_changed v \<noteq> None \<or> has [x] (\<lambda>e. kh_marker e = None \<and> \<not> same_key lib key e \<and> hk_alg lib (kh_key e) = hk_alg lib key)" for v
    by (auto simp: scan_line_def has_def Let_def get_or_insert_def split: option.splits marker.splits)
  have h: "has (x # xs) P \<longleftrightarrow> has [x] P \<or> has xs P" for P by (simp add: has_def)
  { case 1 show ?case unfolding fold_simps Cons.IH(1) k h by blast }
  { case 2 show ?case unfolding fold_simps Cons.IH(2) r h by blast }
  { case 3 show ?case unfolding fold_simps Cons.IH(3) c h by blast }
qed (simp_all add: has_def)

lemma enumerate_snd: "set xs = snd ` set (List.enumerate n xs)"
  by (metis list.set_map map_snd_enumerate)

lemma scan_iff:
  "fv_known (scan lib tx name key) \<longleftrightarrow> known_in lib name key tx"
  "fv_revoked (scan lib tx name key) \<noteq> None \<longleftrightarrow> revoked_in lib name key tx"
  "fv_changed (scan lib tx name key) \<noteq> None \<longleftrightarrow> changed_in lib name key tx"
  unfolding scan_def known_in_def revoked_in_def changed_in_def records_entry_def scan_fold enumerate_snd [of "lines tx" 0]
  by simp_all

text \<open>The bytes of a file that is there and readable.\<close>

definition readable :: "host_files \<Rightarrow> path \<Rightarrow> string \<Rightarrow> bool" where
  "readable fs f b \<longleftrightarrow> fs f = Some (Ok b)"

lemma check_files_known:
  "check_files lib fs name key files changed known = HK_Known \<longleftrightarrow>
     changed = None
     \<and> (\<forall>f \<in> set files. (\<forall>e. fs f \<noteq> Some (Err e))
          \<and> (\<forall>b. readable fs f b \<longrightarrow> \<not> revoked_in lib name key (from_utf8_lossy b) \<and> \<not> changed_in lib name key (from_utf8_lossy b)))
     \<and> (known \<or> (\<exists>f \<in> set files. \<exists>b. readable fs f b \<and> known_in lib name key (from_utf8_lossy b)))"
proof (induction files arbitrary: changed known)
  case Nil
  show ?case by (auto split: option.splits)
next
  case (Cons f files)
  show ?case
  proof (cases "fs f")
    case None
    then show ?thesis using Cons by (simp add: readable_def)
  next
    case (Some r)
    show ?thesis
    proof (cases r)
      case (Inl e)
      then show ?thesis using Some by auto
    next
      case (Inr b)
      let ?v = "scan lib (from_utf8_lossy b) name key"
      show ?thesis
      proof (cases "fv_revoked ?v")
        case (Some n)
        then have "revoked_in lib name key (from_utf8_lossy b)" using scan_iff(2) [of lib "from_utf8_lossy b" name key] by simp
        then show ?thesis using Some \<open>fs f = Some r\<close> Inr by (auto simp: readable_def)
      next
        case None
        then have nr: "\<not> revoked_in lib name key (from_utf8_lossy b)" using scan_iff(2) [of lib "from_utf8_lossy b" name key] by simp
        have ch: "(case changed of None \<Rightarrow> map_option (Pair f) (fv_changed ?v) | Some c \<Rightarrow> Some c) = None \<longleftrightarrow>
            changed = None \<and> \<not> changed_in lib name key (from_utf8_lossy b)"
          using scan_iff(3) [of lib "from_utf8_lossy b" name key] by (auto split: option.splits)
        show ?thesis
          using None \<open>fs f = Some r\<close> Inr nr ch scan_iff(1) [of lib "from_utf8_lossy b" name key]
          by (auto simp: Cons.IH readable_def)
      qed
    qed
  qed
qed

lemma check_files_unknown:
  "check_files lib fs name key files changed known = HK_Unknown \<Longrightarrow>
     (\<forall>f \<in> set files. (\<forall>e. fs f \<noteq> Some (Err e))
          \<and> (\<forall>b. readable fs f b \<longrightarrow> \<not> revoked_in lib name key (from_utf8_lossy b) \<and> \<not> changed_in lib name key (from_utf8_lossy b)))
     \<and> \<not> (\<exists>f \<in> set files. \<exists>b. readable fs f b \<and> known_in lib name key (from_utf8_lossy b)) \<and> changed = None \<and> \<not> known"
proof (induction files arbitrary: changed known)
  case (Cons f files)
  show ?case
  proof (cases "fs f")
    case None
    then show ?thesis using Cons by (auto simp: readable_def)
  next
    case (Some r)
    with Cons.prems obtain b where r: "r = Ok b" by (cases r) auto
    let ?v = "scan lib (from_utf8_lossy b) name key"
    from Cons.prems Some r have nr: "fv_revoked ?v = None" by (auto simp: Let_def split: option.splits)
    let ?ch = "case changed of None \<Rightarrow> map_option (Pair f) (fv_changed ?v) | Some c \<Rightarrow> Some c"
    from Cons.prems Some r nr have "check_files lib fs name key files ?ch (known \<or> fv_known ?v) = HK_Unknown" by (simp add: Let_def)
    from Cons.IH [OF this] Some r nr show ?thesis
      using scan_iff [of lib "from_utf8_lossy b" name key] by (auto simp: readable_def split: option.splits)
  qed
qed (auto split: option.splits if_splits)

text \<open>C35. A host key is accepted without asking only when it is right: the check says \<open>Known\<close> exactly when
  every existing file could be read, no file marks the key as revoked for the host or records a
  different key of the same type for it, and some file records this key for it.\<close>

theorem host_key_known_iff:
  "check_host_key lib fs files host port key = HK_Known \<longleftrightarrow>
     (\<forall>f \<in> set files. (\<forall>e. fs f \<noteq> Some (Err e))
        \<and> (\<forall>b. readable fs f b \<longrightarrow> \<not> revoked_in lib (host_name host port) key (from_utf8_lossy b)
              \<and> \<not> changed_in lib (host_name host port) key (from_utf8_lossy b)))
     \<and> (\<exists>f \<in> set files. \<exists>b. readable fs f b \<and> known_in lib (host_name host port) key (from_utf8_lossy b))"
  by (simp add: check_host_key_def check_files_known)

section \<open>Learning a key\<close>

lemma lines_append: "lines (a @ newline # b) = lines (a @ [newline]) @ lines b"
  using split_inclusive_append [of "a @ [newline]" newline b] by (simp add: lines_def)

lemma split_inclusive_snoc:
  "a \<noteq> [] \<Longrightarrow> last a \<noteq> d \<Longrightarrow>
   \<exists>ws w. w \<noteq> [] \<and> last w = last a \<and> d \<notin> set w \<and> split_inclusive d a = ws @ [w] \<and> split_inclusive d (a @ [d]) = ws @ [w @ [d]]"
proof (induction a)
  case (Cons c a)
  show ?case
  proof (cases "a = []")
    case True
    with Cons.prems show ?thesis by (intro exI [of _ "[]"] exI [of _ "[c]"]) simp
  next
    case False
    with Cons obtain ws w where w: "w \<noteq> []" "last w = last a" "d \<notin> set w" "split_inclusive d a = ws @ [w]"
      "split_inclusive d (a @ [d]) = ws @ [w @ [d]]" by auto
    show ?thesis
    proof (cases "c = d")
      case True
      with w False show ?thesis by (intro exI [of _ "[c] # ws"] exI [of _ w]) simp
    next
      case nd: False
      show ?thesis
      proof (cases ws)
        case Nil
        with w False nd show ?thesis by (intro exI [of _ "[]"] exI [of _ "c # w"]) simp
      next
        case (Cons v vs)
        with w False nd show ?thesis by (intro exI [of _ "(c # v) # vs"] exI [of _ w]) simp
      qed
    qed
  qed
qed simp

lemma line_of_clean: "w \<noteq> [] \<Longrightarrow> last w \<noteq> carriage_return \<Longrightarrow> newline \<notin> set w \<Longrightarrow> line_of (w @ [newline]) = line_of w"
  by (cases w rule: rev_cases) (auto simp: line_of_def strip_suffix_def suffix_def)

lemma lines_end_line:
  "a \<noteq> [] \<Longrightarrow> last a \<noteq> newline \<Longrightarrow> last a \<noteq> carriage_return \<Longrightarrow> lines (a @ [newline]) = lines a"
  using split_inclusive_snoc [of a newline] line_of_clean by (auto simp: lines_def)

lemma lines_after_newline: "ends_with a [newline] \<Longrightarrow> lines (a @ b) = lines a @ lines b"
proof -
  assume "ends_with a [newline]"
  then obtain a' where "a = a' @ [newline]" by (auto simp: suffix_def)
  with lines_append [of a' b] show ?thesis by simp
qed

lemma ends_with_last: "a \<noteq> [] \<Longrightarrow> ends_with a [c] \<longleftrightarrow> last a = c"
  by (cases a rule: rev_cases) auto

lemma ascii_lower_digit: "is_ascii_digit c \<Longrightarrow> ascii_lower c = c"
  by (simp add: ascii_lower_def is_ascii_digit_def)

lemma host_name_lower: "to_ascii_lowercase (host_name host port) = host_name host port"
proof -
  have "map ascii_lower (show_nat n) = show_nat n" for n
    using show_nat_digits [of _ n] by (intro map_idI) (simp add: ascii_lower_digit)
  moreover have "map ascii_lower ''['' = ''[''" "map ascii_lower '']:'' = '']:''"
    by (simp_all add: ascii_lower_def byte_def)
  ultimately show ?thesis
    by (simp only: host_name_def Let_def to_ascii_lowercase_def map_append map_map o_def ascii_lower_idem split: if_split) simp
qed

lemma name_matches_itself:
  "\<not> starts_with (host_name host port) ''!'' \<Longrightarrow> host_matches lib (HP_Patterns [host_name host port]) (host_name host port)"
  by (simp add: strip_prefix_def host_name_lower glob_refl)

text \<open>What the entry written for a key is read back as.\<close>

definition entry_faithful :: "'k hostkey_lib \<Rightarrow> string \<Rightarrow> 'k \<Rightarrow> string \<Rightarrow> bool" where
  "entry_faithful lib name key l \<longleftrightarrow> newline \<notin> set l \<and> carriage_return \<notin> set l
     \<and> (\<exists>e. hk_parse lib l = Some e \<and> kh_patterns e = HP_Patterns [name] \<and> kh_marker e = None \<and> same_key lib key e)"

lemma records_append: "records_entry lib name P tx' \<longleftrightarrow> records_entry lib name P tx \<or>
    (\<exists>e. hk_parse lib l = Some e \<and> host_matches lib (kh_patterns e) name \<and> P e)" if "lines tx' = lines tx @ [l]"
  unfolding records_entry_def that by auto

lemma learned_lines:
  assumes "newline \<notin> set l" "carriage_return \<notin> set l" "\<not> ends_with b [carriage_return]"
  shows "lines (b @ (if b \<noteq> [] \<and> \<not> ends_with b [newline] then [newline] else []) @ l @ [newline]) = lines b @ [l]"
proof -
  have l: "lines (l @ [newline]) = [l]" using lines_cons [OF assms(1,2), of "[]"] by (simp add: lines_def)
  consider "b = []" | "b \<noteq> []" "ends_with b [newline]" | "b \<noteq> []" "\<not> ends_with b [newline]" by blast
  then show ?thesis
  proof cases
    case 1
    then show ?thesis using l by (simp add: lines_def)
  next
    case 2
    then show ?thesis using lines_after_newline [OF 2(2), of "l @ [newline]"] l by simp
  next
    case 3
    then have "lines (b @ [newline]) = lines b" using lines_end_line [of b] assms(3) by (simp add: ends_with_last)
    with 3 lines_append [of b "l @ [newline]"] l show ?thesis by simp
  qed
qed

text \<open>The text of a file that \<open>learn\<close> extends, and what it holds of the key before and after.\<close>

definition learned_text :: "string \<Rightarrow> string \<Rightarrow> string" where
  "learned_text b l = b @ (if b \<noteq> [] \<and> \<not> ends_with b [newline] then [newline] else []) @ l @ [newline]"

lemma learned_text_valid: "valid_utf8 b \<Longrightarrow> valid_utf8 l \<Longrightarrow> valid_utf8 (learned_text b l)"
  unfolding learned_text_def by (intro valid_append) (simp_all split: if_split)

lemma learned_text_known:
  fixes host :: string and port :: u16
  defines "n \<equiv> host_name host port"
  assumes "\<not> known_in lib n key b" "\<not> revoked_in lib n key b" "\<not> changed_in lib n key b"
    and "entry_faithful lib n key l" "\<not> starts_with n ''!''" "\<not> ends_with b [carriage_return]"
  shows "known_in lib n key (learned_text b l) \<and> \<not> revoked_in lib n key (learned_text b l) \<and> \<not> changed_in lib n key (learned_text b l)"
proof -
  have lines: "lines (learned_text b l) = lines b @ [l]"
    using learned_lines [of l b] assms(5,7) by (simp add: entry_faithful_def learned_text_def)
  obtain e where "hk_parse lib l = Some e" "kh_patterns e = HP_Patterns [n]" "kh_marker e = None" "same_key lib key e"
    using assms(5) by (auto simp: entry_faithful_def)
  with assms(2-4) name_matches_itself [OF assms(6) [unfolded n_def], of lib, folded n_def] show ?thesis
    unfolding known_in_def revoked_in_def changed_in_def records_append [OF lines] by auto
qed

lemma unknown_text:
  assumes "check_host_key lib fs files host port key = HK_Unknown" "file \<in> set files" "\<And>b. readable fs file b \<Longrightarrow> valid_utf8 b"
  obtains b where "(case fs file of None \<Rightarrow> Ok [] | Some r \<Rightarrow> r) = Ok b" "fs file = None \<and> b = [] \<or> readable fs file b" "valid_utf8 b"
    "\<not> known_in lib (host_name host port) key b" "\<not> revoked_in lib (host_name host port) key b" "\<not> changed_in lib (host_name host port) key b"
proof -
  let ?n = "host_name host port"
  note unknown = check_files_unknown [OF assms(1) [unfolded check_host_key_def]]
  define b where "b = (case fs file of Some (Ok b) \<Rightarrow> b | _ \<Rightarrow> [])"
  have b: "(case fs file of None \<Rightarrow> Ok [] | Some r \<Rightarrow> r) = Ok b" "fs file = None \<and> b = [] \<or> readable fs file b"
    using unknown assms(2) by (auto simp: b_def readable_def split: option.splits sum.splits)
  have valid: "valid_utf8 b" using b(2) assms(3) by auto
  have "\<not> records_entry lib ?n P []" for P by (simp add: records_entry_def lines_def)
  then have "\<not> known_in lib ?n key b \<and> \<not> revoked_in lib ?n key b \<and> \<not> changed_in lib ?n key b"
    using b(2) unknown assms(2) lossy_valid [OF valid] by (fastforce simp: known_in_def revoked_in_def changed_in_def)
  with b valid that show ?thesis by blast
qed

text \<open>Once the user accepts an unknown host key it is remembered: after a successful \<open>learn\<close> into one
  of the checked files, the same check says \<open>Known\<close>. The encoder and the line parser are assumed to
  agree on the written entry, and the file to be valid text that does not end in a lone carriage
  return.\<close>

theorem learned_key_known:
  assumes "check_host_key lib fs files host port key = HK_Unknown" and "file \<in> set files"
    and "learn lib mkdir write fs file host port key = (fs', Ok ())"
    and "hk_encode lib key = Ok enc" and "entry_faithful lib (host_name host port) key (host_name host port @ '' '' @ trim_end enc)"
    and "\<not> starts_with (host_name host port) ''!''"
    and "\<And>b. readable fs file b \<Longrightarrow> valid_utf8 b"
    and "\<And>b. readable fs file b \<Longrightarrow> \<not> ends_with b [carriage_return]"
    and "valid_utf8 (host_name host port @ '' '' @ trim_end enc)"
  shows "check_host_key lib fs' files host port key = HK_Known"
proof -
  let ?n = "host_name host port" and ?l = "host_name host port @ '' '' @ trim_end enc"
  note unknown = check_files_unknown [OF assms(1) [unfolded check_host_key_def]]
  from assms(1,2,7) obtain b where b: "(case fs file of None \<Rightarrow> Ok [] | Some r \<Rightarrow> r) = Ok b" "fs file = None \<and> b = [] \<or> readable fs file b"
    "valid_utf8 b" and old: "\<not> known_in lib ?n key b" "\<not> revoked_in lib ?n key b" "\<not> changed_in lib ?n key b"
    by (rule unknown_text)
  have fs': "fs' = fs(file \<mapsto> Ok (learned_text b ?l))"
    using assms(3,4) b(1) old lossy_valid [OF b(3)] scan_iff(1) [of lib b ?n key]
    by (auto simp: learn_def learned_text_def Let_def split: option.splits if_splits prod.splits)
  have "\<not> ends_with b [carriage_return]" using b(2) assms(8) by auto
  note new = learned_text_known [OF old assms(5,6) this]
  have l': "from_utf8_lossy (learned_text b ?l) = learned_text b ?l" by (rule lossy_valid [OF learned_text_valid [OF b(3) assms(9)]])
  have ok: "(\<forall>e. fs' f \<noteq> Some (Err e)) \<and> (\<forall>b. readable fs' f b \<longrightarrow>
      \<not> revoked_in lib ?n key (from_utf8_lossy b) \<and> \<not> changed_in lib ?n key (from_utf8_lossy b))" if "f \<in> set files" for f
    using unknown that fs' l' new by (cases "f = file") (simp_all add: readable_def)
  have "readable fs' file (learned_text b ?l)" "known_in lib ?n key (from_utf8_lossy (learned_text b ?l))"
    using fs' l' new by (simp_all add: readable_def)
  then show ?thesis unfolding check_host_key_def check_files_known using ok assms(2) by blast
qed

section \<open>Witnesses\<close>

text \<open>A toy key format: a line is a host name, a space and the key, a key being its own data.\<close>

definition ex_keys :: "string hostkey_lib" where
  "ex_keys = \<lparr>hk_parse = (\<lambda>l. if l = ''h k'' then Some \<lparr>kh_patterns = HP_Patterns [''h''], kh_marker = None, kh_key = ''k''\<rparr> else None),
     hk_data = (\<lambda>k. k), hk_alg = (\<lambda>_. ''a''), hk_encode = Ok, hk_hmac = (\<lambda>_ _ _. False)\<rparr>"

theorem host_key_known_iff_witness:
  "check_host_key ex_keys [''f'' \<mapsto> Ok ''h k''] [''f'', ''g''] ''h'' 22 ''k'' = HK_Known"
proof -
  have l: "lines ''h k'' = [''h k'']" by code_simp
  have n: "host_name ''h'' 22 = ''h''" by code_simp
  have m: "host_matches ex_keys (HP_Patterns [''h'']) ''h''" by (simp add: str_eval glob_refl)
  from l m have "known_in ex_keys ''h'' ''k'' ''h k''" "\<not> revoked_in ex_keys ''h'' ''k'' ''h k''"
    "\<not> changed_in ex_keys ''h'' ''k'' ''h k''"
    by (simp_all add: known_in_def revoked_in_def changed_in_def records_entry_def ex_keys_def)
  moreover have "from_utf8_lossy ''h k'' = ''h k''" by code_simp
  ultimately show ?thesis unfolding host_key_known_iff n by (simp add: readable_def)
qed

theorem learned_key_known_witness:
  "\<exists>fs'. learn ex_keys None None (\<lambda>_. None) ''f'' ''h'' 22 ''k'' = (fs', Ok ())
     \<and> check_host_key ex_keys fs' [''f''] ''h'' 22 ''k'' = HK_Known"
proof -
  have n: "host_name ''h'' 22 = ''h''" "trim_end ''k'' = ''k''" and valid: "valid_utf8 ''h k''" by code_simp+
  have m: "host_matches ex_keys (HP_Patterns [''h'']) ''h''" by (simp add: str_eval glob_refl)
  have u: "check_host_key ex_keys (\<lambda>_. None) [''f''] ''h'' 22 ''k'' = HK_Unknown" by (simp add: check_host_key_def)
  have l: "learn ex_keys None None (\<lambda>_. None) ''f'' ''h'' 22 ''k'' = ([''f'' \<mapsto> Ok (''h k'' @ [newline])], Ok ())"
    by (simp add: learn_def n ex_keys_def scan_def lines_def)
  have e: "entry_faithful ex_keys (host_name ''h'' 22) ''k'' (host_name ''h'' 22 @ '' '' @ trim_end ''k'')"
    unfolding n by (simp add: entry_faithful_def ex_keys_def)
  have "check_host_key ex_keys [''f'' \<mapsto> Ok (''h k'' @ [newline])] [''f''] ''h'' 22 ''k'' = HK_Known"
    using learned_key_known [OF u _ l _ e] valid by (simp add: n readable_def ex_keys_def)
  with l show ?thesis by blast
qed

end
