(* ===== verification/Hop.thy ===== *)
theory Hop
  imports Hostkey Deploy
begin

text \<open>
  Host-key checking against the connect time-out (\<open>HopState\<close>, \<open>Checker\<close> and the timer loop of \<open>connect_hop\<close> in
  \<open>crates/mai-core/src/ssh/client.rs\<close>).

  The session task of \<open>russh\<close> runs \<open>check_server_key\<close>; \<open>connect_hop\<close> sleeps beside it. They share two
  atomics and run on different threads, so the model interleaves them: one step of \<open>hop_step\<close> is one
  atomic operation, one file access or the answer to a prompt. Other programs may change the
  \<open>known_hosts\<close> files between any two steps.
\<close>

section \<open>State\<close>

record connect_options =
  co_known_hosts :: "path list"
  co_learn_to :: path
  co_timeout :: duration
  co_use_agent :: bool

definition IDLE :: "8 word" where "IDLE = 0"
definition PROMPTING :: "8 word" where "PROMPTING = 1"
definition ABANDONED :: "8 word" where "ABANDONED = 2"

lemmas phases = IDLE_def PROMPTING_def ABANDONED_def

datatype 'k server_key = SK_Key 'k | SK_Certificate

text \<open>Where the session task is in \<open>check_server_key\<close>: outside it, about to claim the prompt, waiting for
  the user, or closing the prompt with its answer.\<close>

datatype 'k session_task =
    TK_Outside
  | TK_Unknown 'k
  | TK_Prompting 'k
  | TK_Decided bool
  | TK_Counted bool

text \<open>Where \<open>connect_hop\<close> is: asleep or woken with the count of prompts it has seen, or past the loop.\<close>

datatype hop_timer = TM_Asleep u64 | TM_Woken u64 | TM_Over

record 'k hop =
  hp_files :: host_files
  hp_phase :: "8 word"
  hp_prompts_done :: u64
  hp_verdict :: "ssh_error option"
  hp_task :: "'k session_task"
  hp_timer :: hop_timer

record 'k checker =
  ck_lib :: "'k hostkey_lib"
  ck_fingerprint :: "'k \<Rightarrow> string"
  ck_host :: string
  ck_port :: u16
  ck_opts :: connect_options

section \<open>Operations\<close>

definition conn_check_files :: "connect_options \<Rightarrow> path list" where
  "conn_check_files opts =
     (if co_learn_to opts \<in> set (co_known_hosts opts) then co_known_hosts opts
      else co_known_hosts opts @ [co_learn_to opts])"

definition compare_exchange :: "8 word \<Rightarrow> 8 word \<Rightarrow> 'k hop \<Rightarrow> 'k hop \<times> bool" where
  "compare_exchange current new h =
     (if hp_phase h = current then (h\<lparr>hp_phase := new\<rparr>, True) else (h, False))"

definition refuse :: "ssh_error \<Rightarrow> 'k hop \<Rightarrow> 'k hop" where
  "refuse e h = h\<lparr>hp_verdict := Some e\<rparr>"

text \<open>\<open>check_server_key\<close> up to the claim of the prompt: an answer, or \<open>None\<close> for an unknown key.\<close>

definition check_server_key :: "'k checker \<Rightarrow> 'k hop \<Rightarrow> 'k server_key \<Rightarrow> 'k hop \<times> bool option" where
  "check_server_key ck h key =
     (case key of
        SK_Certificate \<Rightarrow> (refuse (SE_Connect ''host certificates are not supported'') h, Some False)
      | SK_Key k \<Rightarrow>
          (case check_host_key (ck_lib ck) (hp_files h) (conn_check_files (ck_opts ck)) (ck_host ck) (ck_port ck) k of
             HK_Known \<Rightarrow> (h, Some True)
           | HK_Changed file line \<Rightarrow> (refuse (SE_HostKeyChanged (ck_host ck) (ck_port ck) file line) h, Some False)
           | HK_Revoked file line \<Rightarrow> (refuse (SE_HostKeyRevoked (ck_host ck) (ck_port ck) file line) h, Some False)
           | HK_Unreadable file e \<Rightarrow>
               (refuse (SE_Connect (''cannot read known_hosts file '' @ file @ '': '' @ e)) h, Some False)
           | HK_Unknown \<Rightarrow> (h\<lparr>hp_task := TK_Unknown k\<rparr>, None)))"

text \<open>The user's answer: refuse the key, or record it.\<close>

definition decide_key ::
    "'k checker \<Rightarrow> string option \<Rightarrow> (nat \<times> string) option \<Rightarrow> 'k hop \<Rightarrow> 'k \<Rightarrow> bool \<Rightarrow> 'k hop \<times> bool" where
  "decide_key ck mkdir write h k trusted =
     (if \<not> trusted
      then (refuse (SE_HostKeyRejected (ck_host ck) (ck_port ck) (ck_fingerprint ck k)) h, False)
      else case learn (ck_lib ck) mkdir write (hp_files h) (co_learn_to (ck_opts ck)) (ck_host ck) (ck_port ck) k of
             (fs, Err e) \<Rightarrow> (refuse (SE_Connect (''cannot record host key: '' @ e)) (h\<lparr>hp_files := fs\<rparr>), False)
           | (fs, Ok _) \<Rightarrow> (h\<lparr>hp_files := fs\<rparr>, True))"

definition hop_start :: "host_files \<Rightarrow> 'k hop" where
  "hop_start fs =
     \<lparr>hp_files = fs, hp_phase = IDLE, hp_prompts_done = 0, hp_verdict = None, hp_task = TK_Outside, hp_timer = TM_Asleep 0\<rparr>"

definition timed_out_error :: "'k checker \<Rightarrow> ssh_error" where
  "timed_out_error ck = SE_Connect (ck_host ck @ '':'' @ show_port (ck_port ck) @ '' timed out'')"

definition failed_hop :: "'k checker \<Rightarrow> 'k hop \<Rightarrow> string \<Rightarrow> ssh_error" where
  "failed_hop ck h e =
     (case hp_verdict h of
        Some refused \<Rightarrow> refused
      | None \<Rightarrow> SE_Connect (ck_host ck @ '':'' @ show_port (ck_port ck) @ '': '' @ e))"

section \<open>Interleaving\<close>

datatype 'k hop_event =
    HV_Files
  | HV_Answered "'k server_key" bool
  | HV_Unknown 'k
  | HV_Prompted 'k
  | HV_Abandoned 'k
  | HV_Decided 'k bool bool
  | HV_Counted
  | HV_Closed bool
  | HV_Slept
  | HV_Woke
  | HV_TimedOut ssh_error
  | HV_Ended "ssh_error + unit"

inductive hop_step :: "'k checker \<Rightarrow> 'k hop \<Rightarrow> 'k hop_event \<Rightarrow> 'k hop \<Rightarrow> bool" for ck :: "'k checker" where
  files: "hop_step ck h HV_Files (h\<lparr>hp_files := fs\<rparr>)"
| checked: "hp_task h = TK_Outside \<Longrightarrow> check_server_key ck h key = (h', Some b) \<Longrightarrow> hop_step ck h (HV_Answered key b) h'"
| unknown: "hp_task h = TK_Outside \<Longrightarrow> check_server_key ck h (SK_Key k) = (h', None) \<Longrightarrow> hop_step ck h (HV_Unknown k) h'"
| claim: "hp_task h = TK_Unknown k \<Longrightarrow> compare_exchange IDLE PROMPTING h = (h', True) \<Longrightarrow>
    hop_step ck h (HV_Prompted k) (h'\<lparr>hp_task := TK_Prompting k\<rparr>)"
| lose: "hp_task h = TK_Unknown k \<Longrightarrow> compare_exchange IDLE PROMPTING h = (h', False) \<Longrightarrow>
    hop_step ck h (HV_Abandoned k) (h'\<lparr>hp_task := TK_Outside\<rparr>)"
| decide: "hp_task h = TK_Prompting k \<Longrightarrow> decide_key ck mkdir write h k trusted = (h', accepted) \<Longrightarrow>
    hop_step ck h (HV_Decided k trusted accepted) (h'\<lparr>hp_task := TK_Decided accepted\<rparr>)"
| count: "hp_task h = TK_Decided accepted \<Longrightarrow>
    hop_step ck h HV_Counted (h\<lparr>hp_prompts_done := hp_prompts_done h + 1, hp_task := TK_Counted accepted\<rparr>)"
| close: "hp_task h = TK_Counted accepted \<Longrightarrow>
    hop_step ck h (HV_Closed accepted) (h\<lparr>hp_phase := IDLE, hp_task := TK_Outside\<rparr>)"
| sleep: "hp_timer h = TM_Asleep seen \<Longrightarrow> hp_prompts_done h \<noteq> seen \<Longrightarrow>
    hop_step ck h HV_Slept (h\<lparr>hp_timer := TM_Asleep (hp_prompts_done h)\<rparr>)"
| woke: "hp_timer h = TM_Asleep seen \<Longrightarrow> hp_prompts_done h = seen \<Longrightarrow>
    hop_step ck h HV_Woke (h\<lparr>hp_timer := TM_Woken seen\<rparr>)"
| give_up: "hp_timer h = TM_Woken seen \<Longrightarrow> compare_exchange IDLE ABANDONED h = (h', True) \<Longrightarrow>
    hop_step ck h (HV_TimedOut (timed_out_error ck)) (h'\<lparr>hp_timer := TM_Over\<rparr>)"
| wait_on: "hp_timer h = TM_Woken seen \<Longrightarrow> compare_exchange IDLE ABANDONED h = (h', False) \<Longrightarrow>
    hop_step ck h HV_Slept (h'\<lparr>hp_timer := TM_Asleep seen\<rparr>)"
| failed: "hp_timer h = TM_Asleep seen \<Longrightarrow>
    hop_step ck h (HV_Ended (Err (failed_hop ck h e))) (h\<lparr>hp_timer := TM_Over, hp_verdict := None\<rparr>)"
| connected: "hp_timer h = TM_Asleep seen \<Longrightarrow> hop_step ck h (HV_Ended (Ok ())) (h\<lparr>hp_timer := TM_Over\<rparr>)"

abbreviation hop_run :: "'k checker \<Rightarrow> 'k hop \<Rightarrow> 'k hop_event list \<Rightarrow> 'k hop \<Rightarrow> bool" where
  "hop_run ck \<equiv> traced (hop_step ck)"

section \<open>Prompts and the time-out exclude each other\<close>

definition prompt_open :: "'k hop_event list \<Rightarrow> bool" where
  "prompt_open tr = fold (\<lambda>ev b. case ev of HV_Prompted _ \<Rightarrow> True | HV_Closed _ \<Rightarrow> False | _ \<Rightarrow> b) tr False"

definition timed_out :: "'k hop_event list \<Rightarrow> bool" where
  "timed_out tr \<longleftrightarrow> (\<exists>e. HV_TimedOut e \<in> set tr)"

definition claimed :: "'k hop \<Rightarrow> bool" where
  "claimed h \<longleftrightarrow> (case hp_task h of TK_Prompting _ \<Rightarrow> True | TK_Decided _ \<Rightarrow> True | TK_Counted _ \<Rightarrow> True | _ \<Rightarrow> False)"

definition hop_inv :: "'k hop_event list \<Rightarrow> 'k hop \<Rightarrow> bool" where
  "hop_inv tr h \<longleftrightarrow> (prompt_open tr \<longleftrightarrow> claimed h)
     \<and> hp_phase h = (if claimed h then PROMPTING else if timed_out tr then ABANDONED else IDLE)
     \<and> \<not> (claimed h \<and> timed_out tr)"

lemma prompt_open_snoc [simp]:
  "prompt_open (tr @ [ev]) = (case ev of HV_Prompted _ \<Rightarrow> True | HV_Closed _ \<Rightarrow> False | _ \<Rightarrow> prompt_open tr)"
  by (simp add: prompt_open_def split: hop_event.split)

lemma timed_out_snoc [simp]: "timed_out (tr @ [ev]) \<longleftrightarrow> timed_out tr \<or> (\<exists>e. ev = HV_TimedOut e)"
  by (auto simp: timed_out_def)

lemma check_server_key_fields:
  assumes "check_server_key ck h key = (h', r)"
  shows "hp_phase h' = hp_phase h" "hp_timer h' = hp_timer h" "hp_files h' = hp_files h"
    "hp_task h' = (case r of Some _ \<Rightarrow> hp_task h | None \<Rightarrow> hp_task h')" "r = None \<Longrightarrow> \<exists>k. key = SK_Key k \<and> hp_task h' = TK_Unknown k"
  using assms
  by (auto simp: check_server_key_def refuse_def split: server_key.splits hostkey_status.splits)

lemma decide_key_fields:
  assumes "decide_key ck mkdir write h k trusted = (h', accepted)"
  shows "hp_phase h' = hp_phase h" "hp_timer h' = hp_timer h"
  using assms by (auto simp: decide_key_def refuse_def split: if_splits sum.splits prod.splits)

lemma hop_step_inv: "hop_step ck h ev h' \<Longrightarrow> hop_inv tr h \<Longrightarrow> hop_inv (tr @ [ev]) h'"
proof (induction rule: hop_step.induct)
  case (checked h key h' b)
  from check_server_key_fields [OF checked(2)] checked show ?case by (simp add: hop_inv_def claimed_def)
next
  case (unknown h k h')
  from check_server_key_fields [OF unknown(2)] unknown show ?case by (auto simp: hop_inv_def claimed_def)
next
  case (decide h k md wr b h' a)
  from decide_key_fields [OF decide(2)] decide show ?case by (simp add: hop_inv_def claimed_def)
qed (auto simp: hop_inv_def claimed_def compare_exchange_def phases split: if_splits)

interpretation hop_invariant: traced_invariant "hop_step ck" hop_inv for ck
  by unfold_locales (rule hop_step_inv)

lemma hop_inv_start: "hop_inv [] (hop_start fs)"
  by (simp add: hop_inv_def hop_start_def claimed_def prompt_open_def timed_out_def)

text \<open>C14. The connect time-out and the host-key prompt never cross: when \<open>connect_hop\<close> gives up, no prompt is
  open, and from then on no prompt is shown and no key is recorded by the connection left behind, in
  every interleaving of the timer, the session task and other programs writing the files.\<close>

theorem timeout_never_crosses_prompt:
  assumes "hop_run ck (hop_start fs) (tr1 @ HV_TimedOut e # tr2) h"
  shows "\<not> prompt_open tr1 \<and> (\<forall>ev \<in> set tr2. \<forall>k trusted accepted. ev \<noteq> HV_Prompted k \<and> ev \<noteq> HV_Decided k trusted accepted)"
proof -
  have "\<not> prompt_open tr1"
    using assms hop_inv_start
  proof (rule hop_invariant.traced_at)
    fix h1 h2
    assume "hop_inv tr1 h1" "hop_step ck h1 (HV_TimedOut e) h2"
    from this(2,1) show "\<not> prompt_open tr1"
      by cases (auto simp: hop_inv_def compare_exchange_def phases split: if_splits)
  qed
  moreover have "ev \<noteq> HV_Prompted k \<and> ev \<noteq> HV_Decided k trusted accepted" if "ev \<in> set tr2" for ev k trusted accepted
  proof -
    from that obtain as bs where tr2: "tr2 = as @ ev # bs" by (meson split_list)
    with assms have "hop_run ck (hop_start fs) ((tr1 @ HV_TimedOut e # as) @ ev # bs) h" by simp
    from this hop_inv_start show ?thesis
    proof (rule hop_invariant.traced_at)
      fix h1 h2
      assume inv: "hop_inv (tr1 @ HV_TimedOut e # as) h1" and s: "hop_step ck h1 ev h2"
      from inv have "hp_phase h1 = ABANDONED" "\<not> claimed h1" by (auto simp: hop_inv_def timed_out_def split: if_splits)
      with s show ?thesis by cases (auto simp: compare_exchange_def claimed_def phases split: if_splits)
    qed
  qed
  ultimately show ?thesis by auto
qed

section \<open>Accepted keys\<close>

text \<open>The decision that the answer still to be given rests on.\<close>

definition decision :: "'k hop_event list \<Rightarrow> ('k \<times> bool \<times> bool) option" where
  "decision tr =
     fold (\<lambda>ev d. case ev of HV_Decided k trusted accepted \<Rightarrow> Some (k, trusted, accepted) | HV_Prompted _ \<Rightarrow> None | _ \<Rightarrow> d) tr None"

lemma decision_snoc [simp]:
  "decision (tr @ [ev]) =
     (case ev of HV_Decided k trusted accepted \<Rightarrow> Some (k, trusted, accepted) | HV_Prompted _ \<Rightarrow> None | _ \<Rightarrow> decision tr)"
  by (simp add: decision_def split: hop_event.split)

definition answer_ok :: "'k hop_event list \<Rightarrow> 'k hop \<Rightarrow> bool" where
  "answer_ok tr h \<longleftrightarrow>
     (\<forall>accepted. hp_task h = TK_Decided accepted \<or> hp_task h = TK_Counted accepted \<longrightarrow>
        (\<exists>k trusted. decision tr = Some (k, trusted, accepted)))"

lemma answer_ok_step: "hop_step ck h ev h' \<Longrightarrow> answer_ok tr h \<Longrightarrow> answer_ok (tr @ [ev]) h'"
proof (induction rule: hop_step.induct)
  case (checked h key h' b)
  from check_server_key_fields [OF checked(2)] checked show ?case by (simp add: answer_ok_def)
next
  case (unknown h k h')
  from check_server_key_fields [OF unknown(2)] show ?case by (auto simp: answer_ok_def)
qed (auto simp: answer_ok_def compare_exchange_def split: if_splits)

interpretation hop_answers: traced_invariant "hop_step ck" answer_ok for ck
  by unfold_locales (rule answer_ok_step)

lemma answer_ok_run: "hop_run ck (hop_start fs) tr h \<Longrightarrow> answer_ok tr h"
  by (erule hop_answers.traced_inv) (simp add: answer_ok_def hop_start_def)

lemma decided_accepts:
  assumes "decide_key ck mkdir write h k trusted = (h', True)"
  shows "trusted \<and> learn (ck_lib ck) mkdir write (hp_files h) (co_learn_to (ck_opts ck)) (ck_host ck) (ck_port ck) k = (hp_files h', Ok ())"
  using assms by (auto simp: decide_key_def split: if_splits sum.splits prod.splits)

lemma checked_accepts:
  assumes "check_server_key ck h key = (h', Some True)"
  shows "\<exists>k. key = SK_Key k
    \<and> check_host_key (ck_lib ck) (hp_files h) (conn_check_files (ck_opts ck)) (ck_host ck) (ck_port ck) k = HK_Known"
  using assms by (auto simp: check_server_key_def split: server_key.splits hostkey_status.splits)

lemma decision_found:
  "decision tr = Some (k, trusted, accepted) \<Longrightarrow>
   \<exists>tr1 tr2. tr = tr1 @ HV_Decided k trusted accepted # tr2 \<and> (\<forall>k'. HV_Prompted k' \<notin> set tr2)"
proof (induction tr rule: rev_induct)
  case (snoc ev tr)
  show ?case
  proof (cases "\<exists>a b c. ev = HV_Decided a b c")
    case True
    with snoc.prems show ?thesis by (intro exI [of _ tr] exI [of _ "[]"]) auto
  next
    case False
    with snoc.prems have "decision tr = Some (k, trusted, accepted)" "\<forall>k'. ev \<noteq> HV_Prompted k'" by (auto split: hop_event.splits)
    from snoc.IH [OF this(1)] obtain tr1 tr2 where "tr = tr1 @ HV_Decided k trusted accepted # tr2" "\<forall>k'. HV_Prompted k' \<notin> set tr2" by blast
    with \<open>\<forall>k'. ev \<noteq> HV_Prompted k'\<close> show ?thesis by (intro exI [of _ tr1] exI [of _ "tr2 @ [ev]"]) auto
  qed
qed (simp add: decision_def)

text \<open>The two ways to say yes, each at a point of a run: the files as they are know the key, or the user trusted the key
  and it was written to the file of learned keys.\<close>

definition known_at :: "'k checker \<Rightarrow> host_files \<Rightarrow> 'k hop_event list \<Rightarrow> 'k server_key \<Rightarrow> bool" where
  "known_at ck fs tr key \<longleftrightarrow>
     (\<exists>k h. key = SK_Key k \<and> hop_run ck (hop_start fs) tr h
        \<and> check_host_key (ck_lib ck) (hp_files h) (conn_check_files (ck_opts ck)) (ck_host ck) (ck_port ck) k = HK_Known)"

definition learned_at :: "'k checker \<Rightarrow> host_files \<Rightarrow> 'k hop_event list \<Rightarrow> 'k \<Rightarrow> bool" where
  "learned_at ck fs tr k \<longleftrightarrow>
     (\<exists>h1 h2 mkdir write. hop_run ck (hop_start fs) tr h1 \<and> hop_run ck (hop_start fs) (tr @ [HV_Decided k True True]) h2
        \<and> learn (ck_lib ck) mkdir write (hp_files h1) (co_learn_to (ck_opts ck)) (ck_host ck) (ck_port ck) k = (hp_files h2, Ok ()))"

lemma answered_known:
  assumes "hop_run ck (hop_start fs) (tr @ [HV_Answered key True]) h"
  shows "known_at ck fs tr key"
proof -
  obtain h1 where r: "hop_run ck (hop_start fs) tr h1" and s: "hop_step ck h1 (HV_Answered key True) h"
    using assms by (rule traced_snoc)
  from s show ?thesis by cases (use r in \<open>auto simp: known_at_def dest!: checked_accepts\<close>)
qed

lemma closed_learned:
  assumes "hop_run ck (hop_start fs) (tr @ [HV_Closed True]) h"
  shows "\<exists>k tr1 tr2. tr = tr1 @ HV_Decided k True True # tr2 \<and> (\<forall>k'. HV_Prompted k' \<notin> set tr2) \<and> learned_at ck fs tr1 k"
proof -
  obtain h1 where r: "hop_run ck (hop_start fs) tr h1" and s: "hop_step ck h1 (HV_Closed True) h"
    using assms by (rule traced_snoc)
  from s have "hp_task h1 = TK_Counted True" by cases auto
  with answer_ok_run [OF r] obtain k b where "decision tr = Some (k, b, True)" by (auto simp: answer_ok_def)
  from decision_found [OF this] obtain tr1 tr2 where tr: "tr = tr1 @ HV_Decided k b True # tr2" "\<forall>k'. HV_Prompted k' \<notin> set tr2"
    by blast
  with traced_split [of "hop_step ck" "hop_start fs" "tr1 @ [HV_Decided k b True]" tr2 h1] r
  obtain h3 where h3: "hop_run ck (hop_start fs) (tr1 @ [HV_Decided k b True]) h3" by auto
  then obtain h2 where h2: "hop_run ck (hop_start fs) tr1 h2" and d: "hop_step ck h2 (HV_Decided k b True) h3" by (rule traced_snoc)
  from d obtain md wr h4 where dk: "decide_key ck md wr h2 k b = (h4, True)" and f: "hp_files h3 = hp_files h4"
    by cases auto
  from decided_accepts [OF dk] f h2 h3 have "b" "learned_at ck fs tr1 k" unfolding learned_at_def by (auto, metis)
  with tr show ?thesis by auto
qed


section \<open>A time-out right after the answer\<close>

definition ex_checker :: "string checker" where
  "ex_checker = \<lparr>ck_lib = ex_keys, ck_fingerprint = (\<lambda>k. k), ck_host = ''h'', ck_port = 22,
     ck_opts = \<lparr>co_known_hosts = [''f''], co_learn_to = ''f'', co_timeout = 10, co_use_agent = False\<rparr>\<rparr>"

definition ex_learned :: host_files where
  "ex_learned = [''f'' \<mapsto> Ok (''h k'' @ [newline])]"

text \<open>The timer reads the number of finished prompts before it claims the phase, so a prompt that finishes between
  the two is not seen: the key is accepted and recorded, and the connection still times out at once,
  without the full period that is to start again after a prompt.\<close>

lemma timeout_right_after_prompt:
  "\<exists>h. hop_run ex_checker (hop_start (\<lambda>_. None))
     [HV_Unknown ''k'', HV_Prompted ''k'', HV_Woke, HV_Decided ''k'' True True, HV_Counted, HV_Closed True,
      HV_TimedOut (timed_out_error ex_checker)] h"
proof -
  let ?h = "hop_start (\<lambda>_. None) :: string hop" and ?ck = ex_checker
  have k: "check_host_key ex_keys (\<lambda>_. None) [''f''] ''h'' 22 ''k'' = HK_Unknown" by (simp add: check_host_key_def)
  have n: "host_name ''h'' 22 = ''h''" "trim_end ''k'' = ''k''" by code_simp+
  have l: "learn ex_keys None None (\<lambda>_. None) ''f'' ''h'' 22 ''k'' = (ex_learned, Ok ())"
    by (simp add: learn_def n ex_keys_def scan_def lines_def ex_learned_def)
  let ?h1 = "?h\<lparr>hp_task := TK_Unknown ''k''\<rparr>"
  let ?h2 = "?h\<lparr>hp_phase := PROMPTING, hp_task := TK_Prompting ''k''\<rparr>"
  let ?h3 = "?h2\<lparr>hp_timer := TM_Woken 0\<rparr>"
  let ?h4 = "?h3\<lparr>hp_files := ex_learned, hp_task := TK_Decided True\<rparr>"
  let ?h5 = "?h4\<lparr>hp_prompts_done := 1, hp_task := TK_Counted True\<rparr>"
  let ?h6 = "?h5\<lparr>hp_phase := IDLE, hp_task := TK_Outside\<rparr>"
  let ?h7 = "?h6\<lparr>hp_phase := ABANDONED, hp_timer := TM_Over\<rparr>"
  have s1: "hop_step ?ck ?h (HV_Unknown ''k'') ?h1"
    by (rule hop_step.unknown) (simp_all add: hop_start_def check_server_key_def ex_checker_def conn_check_files_def k)
  have s2: "hop_step ?ck ?h1 (HV_Prompted ''k'') ?h2"
    using hop_step.claim [of ?h1 "''k''" "?h1\<lparr>hp_phase := PROMPTING\<rparr>"] by (simp add: hop_start_def compare_exchange_def)
  have s3: "hop_step ?ck ?h2 HV_Woke ?h3" by (rule hop_step.woke) (simp_all add: hop_start_def)
  have s4: "hop_step ?ck ?h3 (HV_Decided ''k'' True True) ?h4"
    using hop_step.decide [of ?h3 "''k''" ?ck None None True "?h3\<lparr>hp_files := ex_learned\<rparr>" True]
    by (simp add: hop_start_def decide_key_def ex_checker_def l)
  have s5: "hop_step ?ck ?h4 HV_Counted ?h5" using hop_step.count [of ?h4 True ?ck] by (simp add: hop_start_def)
  have s6: "hop_step ?ck ?h5 (HV_Closed True) ?h6" using hop_step.close [of ?h5 True ?ck] by simp
  have s7: "hop_step ?ck ?h6 (HV_TimedOut (timed_out_error ?ck)) ?h7"
    using hop_step.give_up [of ?h6 0 "?h6\<lparr>hp_phase := ABANDONED\<rparr>" ?ck] by (simp add: compare_exchange_def)
  have "hop_run ?ck ?h ([] @ [HV_Unknown ''k''] @ [HV_Prompted ''k''] @ [HV_Woke] @ [HV_Decided ''k'' True True]
      @ [HV_Counted] @ [HV_Closed True] @ [HV_TimedOut (timed_out_error ?ck)]) ?h7"
    unfolding append_assoc [symmetric] by (rule traced.intros s1 s2 s3 s4 s5 s6 s7)+
  then show ?thesis by auto
qed

theorem timeout_never_crosses_prompt_witness:
  "\<not> prompt_open [HV_Unknown ''k'', HV_Prompted ''k'', HV_Woke, HV_Decided ''k'' True True, HV_Counted, HV_Closed True]"
proof -
  obtain h where "hop_run ex_checker (hop_start (\<lambda>_. None))
     ([HV_Unknown ''k'', HV_Prompted ''k'', HV_Woke, HV_Decided ''k'' True True, HV_Counted, HV_Closed True]
      @ HV_TimedOut (timed_out_error ex_checker) # []) h"
    using timeout_right_after_prompt by auto
  from timeout_never_crosses_prompt [OF this] show ?thesis by blast
qed


end
