(* ===== verification/Connect.thy ===== *)
theory Connect
  imports Host Terminals Hop
begin

text \<open>
  The connector of the app (\<open>crates/mai-core/src/connect.rs\<close>): opening the probe connection and the terminals of a host,
  over SSH or on this machine, and the gate that keeps two of these from overlapping on one host.

  The files of this machine are \<open>bin_files\<close> with a fault per call, programs answer through \<open>le_run\<close> and start through
  \<open>le_spawn\<close>; \<open>lh_runs\<close> is the list of programs that were run. An SSH host is the network, the session's answers
  and the channel \<open>serve\<close> runs on. The Unix build is modelled (paths, file modes).
\<close>

section \<open>Configuration\<close>

text \<open>Reading \<open>~/.ssh/config\<close> fails with whether the file is missing, and a message.\<close>

record 'c conn_lib =
  kl_config :: "'c config_lib"
  kl_read_config :: "path \<Rightarrow> (bool \<times> string) + string"
  kl_deploy :: deploy_lib
  kl_read_bin :: "path \<Rightarrow> string + string"

record sys_connector =
  sy_opts :: connect_options
  sy_probes :: path
  sy_ssh_config :: "path option"
  sy_home :: path
  sy_default_user :: string
  sy_client :: string
  sy_dir :: string
  sy_install_hooks :: bool

definition sys_connector_new :: "connect_options \<Rightarrow> path \<Rightarrow> path option \<Rightarrow> path \<Rightarrow> string \<Rightarrow> string \<Rightarrow> sys_connector" where
  "sys_connector_new opts probes ssh_config home default_user client =
     \<lparr>sy_opts = opts, sy_probes = probes, sy_ssh_config = ssh_config, sy_home = home, sy_default_user = default_user,
      sy_client = client, sy_dir = ''.mai'', sy_install_hooks = True\<rparr>"

definition config_error :: "string \<Rightarrow> open_error" where
  "config_error m = OE_NeedsUser (P_Config m)"

definition config_text :: "'c conn_lib \<Rightarrow> sys_connector \<Rightarrow> open_error + string" where
  "config_text lib sy =
     (case sy_ssh_config sy of
        None \<Rightarrow> Ok []
      | Some p \<Rightarrow>
          (case kl_read_config lib p of
             Ok t \<Rightarrow> Ok t
           | Err (not_found, e) \<Rightarrow> if not_found then Ok [] else Err (config_error (p @ '': '' @ e))))"

definition conn_spec :: "'c conn_lib \<Rightarrow> sys_connector \<Rightarrow> string \<Rightarrow> open_error + host_spec \<times> string list" where
  "conn_spec lib sy tgt =
     (case config_text lib sy of
        Err e \<Rightarrow> Err e
      | Ok t \<Rightarrow>
          (case parse_config (kl_config lib) t of
             Err e \<Rightarrow> Err (config_error e)
           | Ok config \<Rightarrow>
               (case resolve (kl_config lib) config tgt (sy_default_user sy) (sy_home sy) of
                  Err e \<Rightarrow> Err (config_error e)
                | Ok spec \<Rightarrow> Ok (spec, config_warnings t @ jump_warnings (kl_config lib) config spec))))"

definition hooks_outcome :: "deploy_lib \<Rightarrow> exec_output \<Rightarrow> string + hook_result list" where
  "hooks_outcome lib out =
     (case hooks_result lib out of Err e \<Rightarrow> Err (show_deploy_error e) | Ok hooks \<Rightarrow> Ok hooks)"

definition CONN_LOCALE :: string where "CONN_LOCALE = ''en_US.UTF-8''"

text \<open>The stream to a probe: what arrives on standard output of an SSH channel and the tail of its standard error,
  or the local program with its arguments.\<close>

datatype probe_io = IO_Ssh string stderr_tail | IO_Local path "string list"

record conn_opened =
  od_io :: probe_io
  od_hooks :: "string + hook_result list"
  od_notes :: "string list"

section \<open>SSH hosts\<close>

record 'k ssh_world =
  sw_net :: "'k network"
  sw_secrets :: "(string, string) dict"
  sw_session :: session
  sw_open_fault :: "string option"
  sw_chan :: pty_chan
  sw_msgs :: "(chan_msg \<times> bool) list"
  sw_search_ms :: nat

definition connect_world :: "sys_connector \<Rightarrow> host_spec \<Rightarrow> 'k ssh_world \<Rightarrow> 'k ssh_world \<times> (ssh_error + ssh_conn)" where
  "connect_world sy spec w =
     (let (secrets, r) = ssh_connect (sw_net w) (co_use_agent (sy_opts sy)) spec (sw_secrets w)
      in (w\<lparr>sw_secrets := secrets\<rparr>, r))"

definition world_exec :: "'k ssh_world \<Rightarrow> string \<Rightarrow> 'k ssh_world \<times> (ssh_error + exec_output)" where
  "world_exec w cmd = (let (s, r) = exec (sw_session w) cmd in (w\<lparr>sw_session := s\<rparr>, r))"

definition read_option :: "'c conn_lib \<Rightarrow> path \<Rightarrow> string option" where
  "read_option lib p = (case kl_read_bin lib p of Err _ \<Rightarrow> None | Ok b \<Rightarrow> Some b)"

definition world_deploy :: "'c conn_lib \<Rightarrow> sys_connector \<Rightarrow> u64 \<Rightarrow> 'k ssh_world \<Rightarrow> 'k ssh_world \<times> (deploy_error + deploy_report)" where
  "world_deploy lib sy now w =
     (let (s, r) = deploy (kl_deploy lib) (sy_probes sy) (read_option lib)
                     \<lparr>do_dir = sy_dir sy, do_install_hooks = False, do_client = sy_client sy\<rparr> now (sw_session w)
      in (w\<lparr>sw_session := s\<rparr>, r))"

definition ssh_hooks ::
    "'c conn_lib \<Rightarrow> sys_connector \<Rightarrow> deploy_report \<Rightarrow> 'k ssh_world \<Rightarrow> 'k ssh_world \<times> (ssh_error + (string + hook_result list))" where
  "ssh_hooks lib sy deployed w =
     (if sy_install_hooks sy
      then case world_exec w (invoke (dr_remote deployed) (dr_probe_path deployed) ''install-hooks'') of
             (w1, Err e) \<Rightarrow> (w1, Err e)
           | (w1, Ok out) \<Rightarrow> (w1, Ok (hooks_outcome (kl_deploy lib) out))
      else (w, Ok (Ok [])))"

definition start_serve :: "sys_connector \<Rightarrow> host_config \<Rightarrow> deploy_report \<Rightarrow> 'k ssh_world \<Rightarrow> 'k ssh_world \<times> (ssh_error + probe_io)" where
  "start_serve sy host deployed w =
     (let r = dr_remote deployed; args = serve_args r (sy_client sy) (hc_zellij host)
      in case open_exec_split (sw_open_fault w) (sw_chan w) (invoke r (dr_probe_path deployed) args)
                [(''LANG'', CONN_LOCALE), (''LC_CTYPE'', CONN_LOCALE)] (sw_msgs w) of
           (c, Err e) \<Rightarrow> (w\<lparr>sw_chan := c\<rparr>, Err e)
         | (c, Ok (out, err)) \<Rightarrow> (w\<lparr>sw_chan := c\<rparr>, Ok (IO_Ssh out err)))"

definition open_ssh ::
    "'c conn_lib \<Rightarrow> sys_connector \<Rightarrow> u64 \<Rightarrow> host_config \<Rightarrow> string \<Rightarrow> 'k ssh_world \<Rightarrow> 'k ssh_world \<times> (open_error + conn_opened)" where
  "open_ssh lib sy now host tgt w =
     (case conn_spec lib sy tgt of
        Err e \<Rightarrow> (w, Err e)
      | Ok (spec, warnings) \<Rightarrow>
          (case connect_world sy spec w of
             (w1, Err e) \<Rightarrow> (w1, Err (with_notes (ssh_open_error e) warnings))
           | (w1, Ok c) \<Rightarrow>
               (let notes = warnings @ cn_notes c
                in case world_deploy lib sy now w1 of
                     (w2, Err e) \<Rightarrow> (w2, Err (with_notes (deploy_open_error e) notes))
                   | (w2, Ok deployed) \<Rightarrow>
                       (case ssh_hooks lib sy deployed w2 of
                          (w3, Err e) \<Rightarrow> (w3, Err (with_notes (ssh_open_error e) notes))
                        | (w3, Ok hooks) \<Rightarrow>
                            (case start_serve sy host deployed w3 of
                               (w4, Err e) \<Rightarrow> (w4, Err (with_notes (ssh_open_error e) notes))
                             | (w4, Ok io) \<Rightarrow> (w4, Ok \<lparr>od_io = io, od_hooks = hooks, od_notes = notes\<rparr>))))))"

text \<open>The search for zellij gives up after \<open>ZELLIJ_SEARCH_TIMEOUT\<close>; a failure leaves \<open>PATH\<close>.\<close>

definition search_zellij :: "remote \<Rightarrow> 'k ssh_world \<Rightarrow> 'k ssh_world \<times> string option" where
  "search_zellij r w =
     (if re_shell r = Posix
      then case world_exec w find_zellij_command of
             (w1, Ok out) \<Rightarrow>
               (w1, if sw_search_ms w \<le> ZELLIJ_SEARCH_TIMEOUT then found_zellij (from_utf8_lossy (eo_stdout out)) else None)
           | (w1, Err _) \<Rightarrow> (w1, None)
      else (w, None))"

definition open_ssh_terminals ::
    "'c conn_lib \<Rightarrow> sys_connector \<Rightarrow> string \<Rightarrow> 'k ssh_world \<Rightarrow> 'k ssh_world \<times> (open_error + system_terminals)" where
  "open_ssh_terminals lib sy tgt w =
     (case conn_spec lib sy tgt of
        Err e \<Rightarrow> (w, Err e)
      | Ok (spec, notes) \<Rightarrow>
          (case connect_world sy spec w of
             (w1, Err e) \<Rightarrow> (w1, Err (with_notes (ssh_open_error e) notes))
           | (w1, Ok c) \<Rightarrow>
               (case detect (kl_deploy lib) (sw_session w1) of
                  (s, Err e) \<Rightarrow> (w1\<lparr>sw_session := s\<rparr>, Err (with_notes (deploy_open_error e) notes))
                | (s, Ok r) \<Rightarrow>
                    (let (w2, found) = search_zellij r (w1\<lparr>sw_session := s\<rparr>) in (w2, Ok (ST_Ssh r found))))))"

section \<open>This machine\<close>

record local_env =
  le_os :: string
  le_arch :: string
  le_run :: "path \<Rightarrow> string list \<Rightarrow> string + int option \<times> string \<times> string"
  le_spawn :: "path \<Rightarrow> string list \<Rightarrow> string option"
  le_pipes :: bool

text \<open>\<open>lh_partial\<close> is what a failing write leaves: nothing, or that many bytes.\<close>

record local_host =
  lh_files :: bin_files
  lh_partial :: "nat option"
  lh_runs :: "(path \<times> string list) list"

definition local_remote :: "string \<Rightarrow> string \<Rightarrow> path \<Rightarrow> remote option" where
  "local_remote os arch home =
     (case (if os = ''linux'' then Some Linux else if os = ''macos'' then Some MacOs
            else if os = ''windows'' then Some Windows else None) of
        None \<Rightarrow> None
      | Some o' \<Rightarrow>
          map_option (\<lambda>a. \<lparr>re_os = o', re_arch = a, re_shell = if o' = Windows then Cmd else Posix,
                          re_home = from_utf8_lossy home\<rparr>)
            (normalize_arch arch))"

definition local_call :: "local_host \<Rightarrow> local_host \<times> (string + unit)" where
  "local_call h =
     (let (f, b) = next_fault (lh_files h)
      in (h\<lparr>lh_files := b\<rparr>, case f of Some e \<Rightarrow> Err e | None \<Rightarrow> Ok ()))"

definition local_read :: "local_host \<Rightarrow> path \<Rightarrow> local_host \<times> string option" where
  "local_read h p =
     (case local_call h of
        (h1, Err _) \<Rightarrow> (h1, None)
      | (h1, Ok _) \<Rightarrow> (h1, map_of (bf_files (lh_files h1)) p))"

definition local_put :: "path \<Rightarrow> string \<Rightarrow> local_host \<Rightarrow> local_host" where
  "local_put p c h = h\<lparr>lh_files := (lh_files h)\<lparr>bf_files := AList.update p c (bf_files (lh_files h))\<rparr>\<rparr>"

definition local_write :: "local_host \<Rightarrow> path \<Rightarrow> string \<Rightarrow> local_host \<times> (string + unit)" where
  "local_write h p bytes =
     (case local_call h of
        (h1, Err e) \<Rightarrow> (case lh_partial h1 of None \<Rightarrow> h1 | Some n \<Rightarrow> local_put p (take n bytes) h1, Err e)
      | (h1, Ok _) \<Rightarrow> (local_put p bytes h1, Ok ()))"

text \<open>Write the upload, make it executable, stop the old probe if there is one, and swap.\<close>

definition place_new ::
    "u64 \<Rightarrow> (local_host \<Rightarrow> local_host) \<Rightarrow> bool \<Rightarrow> path \<Rightarrow> string \<Rightarrow> string \<Rightarrow> string \<Rightarrow> local_host \<Rightarrow> local_host \<times> (string + bool)" where
  "place_new stamp stop_old existing exe dir name bytes h =
     (case local_write h (exe @ ''.upload'') bytes of
        (h1, Err e) \<Rightarrow> (h1, Err e)
      | (h1, Ok _) \<Rightarrow>
          (case local_call h1 of
             (h2, Err e) \<Rightarrow> (h2, Err e)
           | (h2, Ok _) \<Rightarrow>
               (let h3 = (if existing then stop_old h2 else h2)
                in case swap_in local_files (lh_files h3) (from_utf8_lossy dir) (from_utf8_lossy name) stamp of
                     (b, Err e) \<Rightarrow> (h3\<lparr>lh_files := b\<rparr>, Err e)
                   | (b, Ok _) \<Rightarrow> (h3\<lparr>lh_files := b\<rparr>, Ok True))))"

definition place_binary ::
    "deploy_lib \<Rightarrow> u64 \<Rightarrow> (local_host \<Rightarrow> local_host) \<Rightarrow> path \<Rightarrow> string \<Rightarrow> local_host \<Rightarrow> local_host \<times> (string + bool)" where
  "place_binary lib stamp stop_old exe bytes h =
     (let (h1, existing) = local_read h exe
      in if map_option (sha256_hex lib) existing = Some (sha256_hex lib bytes) then (h1, Ok False)
         else case (path_parent exe, path_file_name exe) of
                (Some dir, Some name) \<Rightarrow>
                  (case local_call h1 of
                     (h2, Err e) \<Rightarrow> (h2, Err e)
                   | (h2, Ok _) \<Rightarrow> place_new stamp stop_old (existing \<noteq> None) exe dir name bytes h2)
              | _ \<Rightarrow> (h1, Err ''probe path has no directory''))"

definition run_local :: "local_env \<Rightarrow> path \<Rightarrow> string list \<Rightarrow> local_host \<Rightarrow> local_host \<times> (string + exec_output)" where
  "run_local env exe argv h =
     (h\<lparr>lh_runs := lh_runs h @ [(exe, argv)]\<rparr>,
      case le_run env exe argv of
        Err e \<Rightarrow> Err e
      | Ok (code, out, err) \<Rightarrow>
          Ok \<lparr>eo_status = (case code of None \<Rightarrow> None | Some c \<Rightarrow> if 0 \<le> c then Some (of_int c) else None),
              eo_stdout = out, eo_stderr = err\<rparr>)"

definition stop_local :: "local_env \<Rightarrow> path \<Rightarrow> string \<Rightarrow> local_host \<Rightarrow> local_host" where
  "stop_local env exe client h = fst (run_local env exe (stop_argv client) h)"

definition local_hooks :: "'c conn_lib \<Rightarrow> local_env \<Rightarrow> sys_connector \<Rightarrow> path \<Rightarrow> local_host \<Rightarrow> local_host \<times> (string + hook_result list)" where
  "local_hooks lib env sy exe h =
     (if sy_install_hooks sy
      then case run_local env exe [''install-hooks''] h of
             (h1, Ok out) \<Rightarrow> (h1, hooks_outcome (kl_deploy lib) out)
           | (h1, Err e) \<Rightarrow> (h1, Err e)
      else (h, Ok []))"

definition deploy_err :: "string \<Rightarrow> open_error" where
  "deploy_err m = OE_NeedsUser (P_Deploy m)"

definition start_local :: "local_env \<Rightarrow> path \<Rightarrow> string list \<Rightarrow> local_host \<Rightarrow> local_host \<times> (open_error + probe_io)" where
  "start_local env exe argv h =
     (case le_spawn env exe argv of
        Some e \<Rightarrow> (h, Err (OE_Retry (''start '' @ exe @ '': '' @ e)))
      | None \<Rightarrow>
          (h\<lparr>lh_runs := lh_runs h @ [(exe, argv)]\<rparr>,
           if le_pipes env then Ok (IO_Local exe argv) else Err (OE_Retry ''probe pipes unavailable'')))"

definition open_local ::
    "'c conn_lib \<Rightarrow> local_env \<Rightarrow> sys_connector \<Rightarrow> u64 \<Rightarrow> host_config \<Rightarrow> local_host \<Rightarrow> local_host \<times> (open_error + conn_opened)" where
  "open_local lib env sy now host h =
     (case local_remote (le_os env) (le_arch env) (sy_home sy) of
        None \<Rightarrow> (h, Err (deploy_err ''unsupported local platform''))
      | Some r \<Rightarrow>
          (case target r of
             None \<Rightarrow> (h, Err (deploy_err ''unsupported local platform''))
           | Some tgt \<Rightarrow>
               (let bin = probe_binary (sy_probes sy) tgt; exe = probe_path r (sy_dir sy)
                in case kl_read_bin lib bin of
                     Err e \<Rightarrow> (h, Err (deploy_err (bin @ '': '' @ e)))
                   | Ok bytes \<Rightarrow>
                       (case place_binary (kl_deploy lib) now (stop_local env exe (sy_client sy)) exe bytes h of
                          (h1, Err e) \<Rightarrow> (h1, Err (deploy_err (exe @ '': '' @ e)))
                        | (h1, Ok _) \<Rightarrow>
                            (let (h2, hooks) = local_hooks lib env sy exe h1
                             in case start_local env exe (serve_argv (sy_client sy) (hc_zellij host)) h2 of
                                  (h3, Err e) \<Rightarrow> (h3, Err e)
                                | (h3, Ok io) \<Rightarrow> (h3, Ok \<lparr>od_io = io, od_hooks = hooks, od_notes = []\<rparr>))))))"

section \<open>The connector\<close>

definition connector_open ::
    "'c conn_lib \<Rightarrow> local_env \<Rightarrow> sys_connector \<Rightarrow> u64 \<Rightarrow> host_config \<Rightarrow> local_host \<times> 'k ssh_world
     \<Rightarrow> (local_host \<times> 'k ssh_world) \<times> (open_error + conn_opened)" where
  "connector_open lib env sy now host s =
     (case hc_kind host of
        HK_Local \<Rightarrow> (let (h, r) = open_local lib env sy now host (fst s) in ((h, snd s), r))
      | HK_Ssh tgt \<Rightarrow> (let (w, r) = open_ssh lib sy now host tgt (snd s) in ((fst s, w), r)))"

definition open_terminals ::
    "'c conn_lib \<Rightarrow> sys_connector \<Rightarrow> host_config \<Rightarrow> 'k ssh_world \<Rightarrow> 'k ssh_world \<times> (open_error + system_terminals)" where
  "open_terminals lib sy host w =
     (case hc_kind host of
        HK_Local \<Rightarrow> (w, Ok ST_Local)
      | HK_Ssh tgt \<Rightarrow> open_ssh_terminals lib sy tgt w)"

section \<open>Placing the local binary\<close>

abbreviation local_at :: "local_host \<Rightarrow> path \<Rightarrow> string option" where
  "local_at h p \<equiv> map_of (bf_files (lh_files h)) p"

lemma local_call_keeps [simp]:
  "bf_files (lh_files (fst (local_call h))) = bf_files (lh_files h)" "lh_runs (fst (local_call h)) = lh_runs h"
  by (simp_all add: local_call_def split_beta)

lemma local_put_at [simp]:
  "local_at (local_put p c h) q = (if q = p then Some c else local_at h q)" "lh_runs (local_put p c h) = lh_runs h"
  by (simp_all add: local_put_def update_conv')

lemma local_read_effect:
  assumes "local_read h p = (h', x)"
  shows "bf_files (lh_files h') = bf_files (lh_files h)" "lh_runs h' = lh_runs h" "x = Some c \<Longrightarrow> local_at h p = Some c"
proof -
  obtain h1 r where c: "local_call h = (h1, r)" by force
  then have "bf_files (lh_files h1) = bf_files (lh_files h)" "lh_runs h1 = lh_runs h" using local_call_keeps [of h] by simp_all
  with assms c show "bf_files (lh_files h') = bf_files (lh_files h)" "lh_runs h' = lh_runs h" "x = Some c \<Longrightarrow> local_at h p = Some c"
    by (auto simp: local_read_def split: sum.splits)
qed

lemma local_write_effect:
  assumes "local_write h p bytes = (h', x)"
  shows "\<And>q. q \<noteq> p \<Longrightarrow> local_at h' q = local_at h q" "x = Ok u \<Longrightarrow> local_at h' p = Some bytes" "lh_runs h' = lh_runs h"
proof -
  obtain h1 r where c: "local_call h = (h1, r)" by force
  then have "bf_files (lh_files h1) = bf_files (lh_files h)" "lh_runs h1 = lh_runs h" using local_call_keeps [of h] by simp_all
  with assms c show "\<And>q. q \<noteq> p \<Longrightarrow> local_at h' q = local_at h q" "x = Ok u \<Longrightarrow> local_at h' p = Some bytes" "lh_runs h' = lh_runs h"
    by (auto simp: local_write_def split: sum.splits option.splits)
qed

lemma probe_exe_path:
  "path_parent (d @ ''/bin/mai-probe'') = Some (d @ ''/bin'')" "path_file_name (d @ ''/bin/mai-probe'') = Some ''mai-probe''"
  by (simp_all add: path_parent_def path_file_name_def last_component_def trim_tail.simps)

text \<open>What the file system holds under the name of the probe or under a name the probe was moved to.\<close>

definition kept_aside :: "u64 \<Rightarrow> path \<Rightarrow> local_host \<Rightarrow> local_host \<Rightarrow> bool" where
  "kept_aside stamp exe h h' \<longleftrightarrow> (\<exists>p \<in> insert exe (aside_names exe stamp). local_at h' p = local_at h exe)"

lemma place_new_effect:
  fixes d :: string
  assumes run: "place_new stamp stop_old existing exe (d @ ''/bin'') ''mai-probe'' bytes h = (h', x)"
    and exe: "exe = d @ ''/bin/mai-probe''" and d: "valid_utf8 d" and stop: "\<And>h. lh_files (stop_old h) = lh_files h"
  shows "case x of Ok placed \<Rightarrow> placed \<and> local_at h' exe = Some bytes | Err _ \<Rightarrow> kept_aside stamp exe h h'"
proof -
  have lossy: "from_utf8_lossy (d @ ''/bin'') = d @ ''/bin''" "from_utf8_lossy ''mai-probe'' = ''mai-probe''"
    by (intro lossy_valid valid_append d valid_ascii; simp add: byte_def)+
  obtain h1 r1 where w: "local_write h (exe @ ''.upload'') bytes = (h1, r1)" by force
  note w1 = local_write_effect [OF w]
  obtain h2 r2 where c: "local_call h1 = (h2, r2)" by force
  have c2: "bf_files (lh_files h2) = bf_files (lh_files h1)" using local_call_keeps [of h1] c by simp
  define h3 where "h3 = (if existing then stop_old h2 else h2)"
  have h3: "lh_files h3 = lh_files h2" using stop by (simp add: h3_def)
  obtain b r4 where s: "swap_in local_files (lh_files h3) (d @ ''/bin'') ''mai-probe'' stamp = (b, r4)" by force
  have old: "local_at h1 exe = local_at h exe" using w1(1) by simp
  have sw: "case r4 of Ok _ \<Rightarrow> map_of (bf_files b) exe = Some bytes
      | Err _ \<Rightarrow> \<exists>p \<in> insert exe (aside_names exe stamp). map_of (bf_files b) p = local_at h exe" if "r1 = Ok ()"
    using local_bin.swap_in_effect [OF s, of bytes] w1(2) [OF that] c2 h3 old by (cases r4) (simp_all add: exe)
  have "(h', x) = (case r1 of Err e \<Rightarrow> (h1, Err e) | Ok _ \<Rightarrow> (case r2 of Err e \<Rightarrow> (h2, Err e) | Ok _ \<Rightarrow>
      (case r4 of Err e \<Rightarrow> (h3\<lparr>lh_files := b\<rparr>, Err e) | Ok _ \<Rightarrow> (h3\<lparr>lh_files := b\<rparr>, Ok True))))"
    using run w c s by (auto simp: place_new_def lossy h3_def Let_def split: sum.splits)
  then show ?thesis using sw old c2 by (auto simp: kept_aside_def split: sum.splits)
qed

lemma place_binary_effect:
  fixes d :: string
  assumes run: "place_binary lib stamp stop_old exe bytes h = (h', x)" and exe: "exe = d @ ''/bin/mai-probe''" and d: "valid_utf8 d"
    and stop: "\<And>h. lh_files (stop_old h) = lh_files h"
  shows "case x of
     Ok False \<Rightarrow> bf_files (lh_files h') = bf_files (lh_files h) \<and> lh_runs h' = lh_runs h
       \<and> (\<exists>old. local_at h exe = Some old \<and> sha256_hex lib old = sha256_hex lib bytes)
   | Ok True \<Rightarrow> local_at h' exe = Some bytes
   | Err _ \<Rightarrow> kept_aside stamp exe h h'"
proof -
  obtain h1 existing where r: "local_read h exe = (h1, existing)" by force
  note r1 = local_read_effect [OF r]
  obtain h2 r2 where c: "local_call h1 = (h2, r2)" by force
  have c2: "bf_files (lh_files h2) = bf_files (lh_files h)" using local_call_keeps [of h1] c r1(1) by simp
  obtain h3 r3 where n: "place_new stamp stop_old (existing \<noteq> None) exe (d @ ''/bin'') ''mai-probe'' bytes h2 = (h3, r3)" by force
  have n3: "case r3 of Ok placed \<Rightarrow> placed \<and> local_at h3 exe = Some bytes | Err _ \<Rightarrow> kept_aside stamp exe h h3"
    using place_new_effect [OF n exe d stop] c2 by (cases r3) (simp_all add: kept_aside_def)
  have "(h', x) = (if map_option (sha256_hex lib) existing = Some (sha256_hex lib bytes) then (h1, Ok False)
      else case r2 of Err e \<Rightarrow> (h2, Err e) | Ok _ \<Rightarrow> (h3, r3))"
    unfolding run [symmetric] place_binary_def r prod.case Let_def c probe_exe_path [of d, folded exe] option.case n
    by (cases r2) simp_all
  then show ?thesis using n3 r1 c2 by (auto simp: kept_aside_def split: if_splits sum.splits bool.splits)
qed

lemma run_local_keeps [simp]:
  "lh_files (fst (run_local env exe argv h)) = lh_files h" "lh_files (stop_local env exe client h) = lh_files h"
  by (simp_all add: run_local_def stop_local_def)

lemma local_hooks_keeps [simp]: "lh_files (fst (local_hooks lib env sy exe h)) = lh_files h"
  by (simp add: local_hooks_def run_local_def split: sum.splits prod.splits)

lemma start_local_effect:
  assumes "start_local env exe argv h = (h', x)"
  shows "lh_files h' = lh_files h" "x = Ok io \<Longrightarrow> io = IO_Local exe argv \<and> lh_runs h' = lh_runs h @ [(exe, argv)]"
  using assms by (auto simp: start_local_def split: option.splits if_splits)

lemma unix_probe_path: "re_os r \<noteq> Windows \<Longrightarrow> probe_path r dir = (re_home r @ ''/'' @ dir) @ ''/bin/mai-probe''"
  by (simp add: probe_path_def exe_name_def)

lemma local_remote_unix: "local_remote os arch home = Some r \<Longrightarrow> os \<noteq> ''windows'' \<Longrightarrow> re_os r \<noteq> Windows \<and> valid_utf8 (re_home r)"
  by (auto simp: local_remote_def valid_lossy split: if_splits option.splits)

text \<open>The new binary is in place, or one with its hash already was and nothing changed.\<close>

definition in_place :: "deploy_lib \<Rightarrow> path \<Rightarrow> string \<Rightarrow> local_host \<Rightarrow> local_host \<Rightarrow> bool" where
  "in_place lib exe bytes h h' \<longleftrightarrow>
     local_at h' exe = Some bytes
     \<or> bf_files (lh_files h') = bf_files (lh_files h) \<and> (\<exists>old. local_at h exe = Some old \<and> sha256_hex lib old = sha256_hex lib bytes)"

text \<open>C28. The local host keeps a working probe. When \<open>open_local\<close> succeeds, the binary under the probe's path is the bundled
  one for this platform (or has its hash and no file was touched), and the program running behind the
  connection is that path with the arguments of \<open>serve\<close>. When it fails, at any step, no file has changed, or the
  previous binary is still under its own name or the name it was moved aside to, or the new one is in place.\<close>

theorem open_local_keeps_probe:
  assumes "open_local lib env sy now host h = (h', x)" "le_os env \<noteq> ''windows''" "valid_utf8 (sy_dir sy)"
  shows "case x of
     Ok opn \<Rightarrow> (\<exists>r t bytes. local_remote (le_os env) (le_arch env) (sy_home sy) = Some r \<and> target r = Some t
       \<and> kl_read_bin lib (probe_binary (sy_probes sy) t) = Ok bytes
       \<and> in_place (kl_deploy lib) (probe_path r (sy_dir sy)) bytes h h'
       \<and> od_io opn = IO_Local (probe_path r (sy_dir sy)) (serve_argv (sy_client sy) (hc_zellij host)))
   | Err _ \<Rightarrow> bf_files (lh_files h') = bf_files (lh_files h)
       \<or> (\<exists>r t bytes. local_remote (le_os env) (le_arch env) (sy_home sy) = Some r \<and> target r = Some t
            \<and> kl_read_bin lib (probe_binary (sy_probes sy) t) = Ok bytes
            \<and> (kept_aside now (probe_path r (sy_dir sy)) h h' \<or> local_at h' (probe_path r (sy_dir sy)) = Some bytes))"
proof (cases "\<exists>r t bytes. local_remote (le_os env) (le_arch env) (sy_home sy) = Some r \<and> target r = Some t
    \<and> kl_read_bin lib (probe_binary (sy_probes sy) t) = Ok bytes")
  case False
  then have "h' = h \<and> (\<exists>e. x = Err e)" using assms(1) by (auto simp: open_local_def Let_def split: option.splits sum.splits)
  then show ?thesis by auto
next
  case True
  then obtain r t bytes where r: "local_remote (le_os env) (le_arch env) (sy_home sy) = Some r" and t: "target r = Some t"
    and b: "kl_read_bin lib (probe_binary (sy_probes sy) t) = Ok bytes" by blast
  define exe where "exe = probe_path r (sy_dir sy)"
  have unix: "re_os r \<noteq> Windows" "valid_utf8 (re_home r)" using local_remote_unix [OF r assms(2)] by simp_all
  have v: "valid_utf8 (re_home r @ ''/'' @ sy_dir sy)"
    by (intro valid_append unix assms(3) valid_ascii) (simp add: byte_def)
  obtain h1 y where p: "place_binary (kl_deploy lib) now (stop_local env exe (sy_client sy)) exe bytes h = (h1, y)" by force
  note p1 = place_binary_effect [OF p unix_probe_path [OF unix(1), of "sy_dir sy", folded exe_def] v run_local_keeps(2)]
  obtain h2 hooks where k: "local_hooks lib env sy exe h1 = (h2, hooks)" by force
  have k2: "lh_files h2 = lh_files h1" using local_hooks_keeps [of lib env sy exe h1] k by simp
  obtain h3 z where s: "start_local env exe (serve_argv (sy_client sy) (hc_zellij host)) h2 = (h3, z)" by force
  note s3 = start_local_effect [OF s]
  have "(h', x) = (case y of Err e \<Rightarrow> (h1, Err (deploy_err (exe @ '': '' @ e))) | Ok _ \<Rightarrow>
      (case z of Err e \<Rightarrow> (h3, Err e) | Ok io \<Rightarrow> (h3, Ok \<lparr>od_io = io, od_hooks = hooks, od_notes = []\<rparr>)))"
    using assms(1) p k s by (auto simp: open_local_def r t b exe_def [symmetric] Let_def split: sum.splits)
  moreover have "in_place (kl_deploy lib) exe bytes h h3" if "y = Ok placed" for placed
    using p1 that k2 s3(1) by (cases placed) (auto simp: in_place_def)
  moreover have "kept_aside now exe h h1" if "y = Err e" for e using p1 that by simp
  ultimately show ?thesis using r t b s3(2) k2 s3(1) by (auto simp: exe_def [symmetric] in_place_def split: sum.splits)
qed

definition example_conn :: "unit conn_lib" where
  "example_conn = \<lparr>kl_config = \<lparr>cl_parse = (\<lambda>_. Ok ()), cl_query = (\<lambda>_ _. \<lparr>pa_host_name = None, pa_port = None, pa_user = None,
       pa_identity_file = Some [], pa_proxy_jump = None\<rparr>)\<rparr>,
     kl_read_config = (\<lambda>_. Ok []), kl_deploy = example_lib, kl_read_bin = (\<lambda>_. Ok ''new'')\<rparr>"

definition example_connector :: sys_connector where
  "example_connector = sys_connector_new \<lparr>co_known_hosts = [], co_learn_to = ''/k'', co_timeout = 1000, co_use_agent = False\<rparr>
     ''/app'' None ''/h'' ''me'' ''c''"

definition example_env :: local_env where
  "example_env = \<lparr>le_os = ''linux'', le_arch = ''x86_64'', le_run = (\<lambda>_ _. Err ''no''), le_spawn = (\<lambda>_ _. None), le_pipes = True\<rparr>"

definition example_host :: local_host where
  "example_host = \<lparr>lh_files = \<lparr>bf_files = [(''/app/x86_64-unknown-linux-musl/mai-probe'', ''new'')], bf_faults = [], bf_overwrites = True\<rparr>,
     lh_partial = None, lh_runs = []\<rparr>"

theorem open_local_keeps_probe_witness:
  "\<exists>h' opn. open_local example_conn example_env example_connector 0 \<lparr>hc_id = ''l'', hc_kind = HK_Local, hc_zellij = None\<rparr> example_host
     = (h', Ok opn) \<and> od_io opn = IO_Local ''/h/.mai/bin/mai-probe'' [''serve'', ''--client'', ''c'']"
proof -
  let ?host = "\<lparr>hc_id = ''l'', hc_kind = HK_Local, hc_zellij = None\<rparr>"
  let ?run = "open_local example_conn example_env example_connector 0 ?host example_host"
  have ok: "case snd ?run of Ok _ \<Rightarrow> True | Err _ \<Rightarrow> False" by code_simp
  obtain h' x where r: "?run = (h', x)" by force
  with ok obtain opn where x: "x = Ok opn" by (cases x) auto
  have "valid_utf8 (sy_dir example_connector)" "le_os example_env \<noteq> ''windows''" by code_simp+
  from open_local_keeps_probe [OF r this(2,1), unfolded x] obtain rm where
    "local_remote (le_os example_env) (le_arch example_env) (sy_home example_connector) = Some rm"
    "od_io opn = IO_Local (probe_path rm (sy_dir example_connector)) (serve_argv (sy_client example_connector) None)" by auto
  moreover have "map_option (\<lambda>rm. probe_path rm (sy_dir example_connector))
      (local_remote (le_os example_env) (le_arch example_env) (sy_home example_connector)) = Some ''/h/.mai/bin/mai-probe''"
    "serve_argv (sy_client example_connector) None = [''serve'', ''--client'', ''c'']" by code_simp+
  ultimately show ?thesis using r x by simp
qed

section \<open>Opening an SSH host\<close>

lemma send_envs_sent:
  "send_envs c env = (c', Ok ()) \<Longrightarrow> pc_sent c' = pc_sent c @ map (\<lambda>(k, v). CR_Env k v) env"
  by (induction c env rule: send_envs.induct) (auto simp: chan_send_def split: prod.splits sum.splits list.splits option.splits)

lemma open_exec_split_sent:
  assumes "open_exec_split f c cmd env msgs = (c', Ok io)"
  shows "pc_sent c' = pc_sent c @ map (\<lambda>(k, v). CR_Env k v) env @ [CR_Exec cmd]"
proof -
  obtain c1 where "send_envs c env = (c1, Ok ())" "chan_send c1 (CR_Exec cmd) = (c', Ok ())"
    using assms by (auto simp: open_exec_split_def open_exec_def split: prod.splits sum.splits)
  with send_envs_sent [of c env c1] show ?thesis by (auto simp: chan_send_def split: list.splits option.splits)
qed

text \<open>The session of a world after its hooks, and the files behind it.\<close>

lemma ssh_hooks_keeps:
  "ss_files (sw_session (fst (ssh_hooks lib sy d w))) = ss_files (sw_session w) \<and> sw_chan (fst (ssh_hooks lib sy d w)) = sw_chan w
   \<and> sw_secrets (fst (ssh_hooks lib sy d w)) = sw_secrets w"
  by (auto simp: ssh_hooks_def world_exec_def exec_def Let_def split: sum.splits)

lemma start_serve_effect:
  assumes "start_serve sy host d w = (w', Ok io)"
  shows "w' = w\<lparr>sw_chan := sw_chan w'\<rparr>"
    "pc_sent (sw_chan w') = pc_sent (sw_chan w) @ [CR_Env ''LANG'' CONN_LOCALE, CR_Env ''LC_CTYPE'' CONN_LOCALE,
       CR_Exec (invoke (dr_remote d) (dr_probe_path d) (serve_args (dr_remote d) (sy_client sy) (hc_zellij host)))]"
proof -
  from assms obtain c out where o: "open_exec_split (sw_open_fault w) (sw_chan w)
      (invoke (dr_remote d) (dr_probe_path d) (serve_args (dr_remote d) (sy_client sy) (hc_zellij host)))
      [(''LANG'', CONN_LOCALE), (''LC_CTYPE'', CONN_LOCALE)] (sw_msgs w) = (c, Ok out)" and w: "w' = w\<lparr>sw_chan := c\<rparr>"
    by (auto simp: start_serve_def Let_def split: sum.splits prod.splits)
  then show "w' = w\<lparr>sw_chan := sw_chan w'\<rparr>" by simp
  show "pc_sent (sw_chan w') = pc_sent (sw_chan w) @ [CR_Env ''LANG'' CONN_LOCALE, CR_Env ''LC_CTYPE'' CONN_LOCALE,
       CR_Exec (invoke (dr_remote d) (dr_probe_path d) (serve_args (dr_remote d) (sy_client sy) (hc_zellij host)))]"
    using open_exec_split_sent [OF o] w by simp
qed

lemma open_ssh_run:
  assumes "open_ssh lib sy now host tgt w = (w', Ok opn)"
  obtains spec warnings c w1 w2 d w3 hooks where
    "conn_spec lib sy tgt = Ok (spec, warnings)" "connect_world sy spec w = (w1, Ok c)" "world_deploy lib sy now w1 = (w2, Ok d)"
    "ssh_hooks lib sy d w2 = (w3, Ok hooks)" "start_serve sy host d w3 = (w', Ok (od_io opn))"
    "od_hooks opn = hooks" "od_notes opn = warnings @ cn_notes c"
proof -
  from assms obtain spec warnings where s: "conn_spec lib sy tgt = Ok (spec, warnings)" by (auto simp: open_ssh_def split: sum.splits)
  with assms obtain w1 c where c: "connect_world sy spec w = (w1, Ok c)" by (auto simp: open_ssh_def split: sum.splits prod.splits)
  with s assms obtain w2 d where d: "world_deploy lib sy now w1 = (w2, Ok d)" by (auto simp: open_ssh_def Let_def split: sum.splits prod.splits)
  with s c assms obtain w3 hooks where h: "ssh_hooks lib sy d w2 = (w3, Ok hooks)"
    by (auto simp: open_ssh_def Let_def split: sum.splits prod.splits)
  with s c d assms have "start_serve sy host d w3 = (w', Ok (od_io opn))" "od_hooks opn = hooks" "od_notes opn = warnings @ cn_notes c"
    by (auto simp: open_ssh_def Let_def split: sum.splits prod.splits)
  with s c d h show ?thesis using that by blast
qed

text \<open>The host runs the bundled binary: it was uploaded and the host computed its hash, or the host had it already.\<close>

definition verified_on :: "deploy_lib \<Rightarrow> string \<Rightarrow> remote \<Rightarrow> string \<Rightarrow> session \<Rightarrow> session \<Rightarrow> bool" where
  "verified_on lib dir r bytes s s' \<longleftrightarrow>
     file_at s' (dir @ ''/bin/'' @ exe_name r) = Some bytes
       \<and> host_hash lib s r (probe_path r dir @ ''.upload'') = Some (sha256_hex lib bytes)
     \<or> ss_files s' = ss_files s \<and> host_hash lib s r (probe_path r dir) = Some (sha256_hex lib bytes)"

lemma world_deploy_verified:
  assumes "world_deploy lib sy now w = (w', Ok d)"
  shows "\<exists>t bytes. target (dr_remote d) = Some t \<and> kl_read_bin lib (probe_binary (sy_probes sy) t) = Ok bytes
    \<and> dr_probe_path d = probe_path (dr_remote d) (sy_dir sy)
    \<and> verified_on (kl_deploy lib) (sy_dir sy) (dr_remote d) bytes (sw_session w) (sw_session w')"
    "w' = w\<lparr>sw_session := sw_session w'\<rparr>"
proof -
  let ?opts = "\<lparr>do_dir = sy_dir sy, do_install_hooks = False, do_client = sy_client sy\<rparr>"
  from assms have r: "deploy (kl_deploy lib) (sy_probes sy) (read_option lib) ?opts now (sw_session w) = (sw_session w', Ok d)"
    and "w' = w\<lparr>sw_session := sw_session w'\<rparr>"
    by (auto simp: world_deploy_def split: prod.splits)
  then show "w' = w\<lparr>sw_session := sw_session w'\<rparr>" by simp
  from deploy_effect [OF r] obtain t bytes where "target (dr_remote d) = Some t" "read_option lib (probe_binary (sy_probes sy) t) = Some bytes"
    "dr_probe_path d = probe_path (dr_remote d) (sy_dir sy)"
    "verified_on (kl_deploy lib) (sy_dir sy) (dr_remote d) bytes (sw_session w) (sw_session w')"
    by (auto simp: verified_on_def split: if_splits)
  then show "\<exists>t bytes. target (dr_remote d) = Some t \<and> kl_read_bin lib (probe_binary (sy_probes sy) t) = Ok bytes
    \<and> dr_probe_path d = probe_path (dr_remote d) (sy_dir sy)
    \<and> verified_on (kl_deploy lib) (sy_dir sy) (dr_remote d) bytes (sw_session w) (sw_session w')"
    by (auto simp: read_option_def split: sum.splits)
qed

text \<open>C8. An open SSH connection runs a verified probe on the right host. When \<open>open_ssh\<close> succeeds, the target was resolved
  from the configuration, every jump host and the target were passed in order, the host has the bundled binary for its
  platform (uploaded and its hash computed there, or already present with that hash), and the last request on the
  channel starts that binary: on a POSIX host the shell splits it into the probe's path and the arguments of \<open>serve\<close>.\<close>

theorem open_ssh_runs_verified_probe:
  assumes "open_ssh lib sy now host tgt w = (w', Ok opn)"
  shows "\<exists>spec warnings c r t bytes cmd. conn_spec lib sy tgt = Ok (spec, warnings) \<and> od_notes opn = warnings @ cn_notes c
    \<and> ssh_connect (sw_net w) (co_use_agent (sy_opts sy)) spec (sw_secrets w) = (sw_secrets w', Ok c)
    \<and> cn_hops c = sp_jumps spec @ [spec]
    \<and> target r = Some t \<and> kl_read_bin lib (probe_binary (sy_probes sy) t) = Ok bytes
    \<and> verified_on (kl_deploy lib) (sy_dir sy) r bytes (sw_session w) (sw_session w')
    \<and> pc_sent (sw_chan w') = pc_sent (sw_chan w) @ [CR_Env ''LANG'' ''en_US.UTF-8'', CR_Env ''LC_CTYPE'' ''en_US.UTF-8'', CR_Exec cmd]
    \<and> (re_shell r = Posix \<longrightarrow> sh_words cmd = Some (probe_path r (sy_dir sy) # serve_argv (sy_client sy) (hc_zellij host)))"
  using assms
proof (cases rule: open_ssh_run)
  case (1 spec warnings c w1 w2 d w3 hooks)
  define r where "r = dr_remote d"
  define cmd where "cmd = invoke r (dr_probe_path d) (serve_args r (sy_client sy) (hc_zellij host))"
  from 1(2) have w1: "w1 = w\<lparr>sw_secrets := sw_secrets w1\<rparr>"
    and conn: "ssh_connect (sw_net w) (co_use_agent (sy_opts sy)) spec (sw_secrets w) = (sw_secrets w1, Ok c)"
    by (auto simp: connect_world_def split: prod.splits)
  note dep = world_deploy_verified [OF 1(3)] and srv = start_serve_effect [OF 1(5)]
  have keep: "ss_files (sw_session w3) = ss_files (sw_session w2)" "sw_chan w3 = sw_chan w2" "sw_secrets w3 = sw_secrets w2"
    using ssh_hooks_keeps [of lib sy d w2] 1(4) by simp_all
  have same: "sw_session w1 = sw_session w" "sw_chan w2 = sw_chan w" "sw_secrets w2 = sw_secrets w1"
    by (subst w1, simp) (subst dep(2), simp, subst w1, simp, subst dep(2), simp)
  have last: "sw_session w' = sw_session w3" "sw_secrets w' = sw_secrets w3" by (subst srv(1), simp)+
  from dep(1) obtain t bytes where t: "target r = Some t" "kl_read_bin lib (probe_binary (sy_probes sy) t) = Ok bytes"
    "dr_probe_path d = probe_path r (sy_dir sy)"
    "verified_on (kl_deploy lib) (sy_dir sy) r bytes (sw_session w1) (sw_session w2)" by (auto simp: r_def)
  have "verified_on (kl_deploy lib) (sy_dir sy) r bytes (sw_session w) (sw_session w')"
    using t(4) keep(1) same(1) last(1) by (simp add: verified_on_def)
  moreover have "pc_sent (sw_chan w') = pc_sent (sw_chan w) @ [CR_Env ''LANG'' ''en_US.UTF-8'', CR_Env ''LC_CTYPE'' ''en_US.UTF-8'', CR_Exec cmd]"
    using srv(2) keep(2) same(2) by (simp add: cmd_def r_def CONN_LOCALE_def)
  moreover have "cn_hops c = sp_jumps spec @ [spec]" by (rule ssh_connect_hops [OF conn])
  moreover have "re_shell r = Posix \<longrightarrow> sh_words cmd = Some (probe_path r (sy_dir sy) # serve_argv (sy_client sy) (hc_zellij host))"
    using serve_words by (auto simp: cmd_def t(3))
  ultimately show ?thesis using 1(1,7) conn t(1,2) keep(3) same(3) last(2) by metis
qed

definition example_world :: "string ssh_world" where
  "example_world = \<lparr>sw_net = \<lparr>nw_reach = \<lambda>_ _. Ok (), nw_auth = \<lambda>_ _. open_door\<rparr>, sw_secrets = [], sw_session = example_session,
     sw_open_fault = None, sw_chan = \<lparr>pc_read = [], pc_faults = [], pc_sent = [], pc_early = []\<rparr>, sw_msgs = [], sw_search_ms = 0\<rparr>"

theorem open_ssh_runs_verified_probe_witness:
  "\<exists>w' opn spec cmd. open_ssh example_conn example_connector 0 \<lparr>hc_id = ''s'', hc_kind = HK_Ssh ''t'', hc_zellij = None\<rparr> ''t'' example_world
     = (w', Ok opn) \<and> conn_spec example_conn example_connector ''t'' = Ok (spec, [])
     \<and> pc_sent (sw_chan w') = [CR_Env ''LANG'' ''en_US.UTF-8'', CR_Env ''LC_CTYPE'' ''en_US.UTF-8'', CR_Exec cmd]"
proof -
  let ?host = "\<lparr>hc_id = ''s'', hc_kind = HK_Ssh ''t'', hc_zellij = None\<rparr>"
  let ?run = "open_ssh example_conn example_connector 0 ?host ''t'' example_world"
  have ok: "case snd ?run of Ok _ \<Rightarrow> True | Err _ \<Rightarrow> False" by code_simp
  have warn: "case conn_spec example_conn example_connector ''t'' of Ok (_, ws) \<Rightarrow> ws = [] | Err _ \<Rightarrow> False" by code_simp
  obtain w' x where r: "?run = (w', x)" by force
  with ok obtain opn where x: "x = Ok opn" by (cases x) auto
  have "pc_sent (sw_chan example_world) = []" by code_simp
  with open_ssh_runs_verified_probe [OF r [unfolded x]] warn r x show ?thesis by auto
qed

section \<open>The connector and the host task\<close>

text \<open>The connector refuses a host when its configuration cannot be used, or when connecting fails for a reason
  that only the user can change.\<close>

definition conn_refused :: "'c conn_lib \<Rightarrow> sys_connector \<Rightarrow> host_config \<Rightarrow> 'k ssh_world \<Rightarrow> problem \<Rightarrow> bool" where
  "conn_refused lib sy host w p \<longleftrightarrow>
     (case hc_kind host of
        HK_Local \<Rightarrow> False
      | HK_Ssh tgt \<Rightarrow>
          (case conn_spec lib sy tgt of
             Err e \<Rightarrow> e = OE_NeedsUser p
           | Ok (spec, warnings) \<Rightarrow>
               (case snd (ssh_connect (sw_net w) (co_use_agent (sy_opts sy)) spec (sw_secrets w)) of
                  Err e \<Rightarrow> with_notes (ssh_open_error e) warnings = OE_NeedsUser p
                | Ok _ \<Rightarrow> False)))"

interpretation system_connector: connector "connector_open lib env sy now host" "\<lambda>s. conn_refused lib sy host (snd s)" for lib env sy now host
  by unfold_locales
    (auto simp: conn_refused_def connector_open_def open_ssh_def connect_world_def split_beta split: host_kind.splits sum.splits)

text \<open>Notes extend the text of a problem and never change its kind.\<close>

definition same_problem :: "ssh_error \<Rightarrow> problem \<Rightarrow> bool" where
  "same_problem e p =
     (case e of SE_HostKeyChanged _ _ file line \<Rightarrow> p = P_HostKeyChanged file line
      | SE_HostKeyRevoked _ _ file line \<Rightarrow> p = P_HostKeyRevoked file line
      | SE_HostKeyRejected _ _ _ \<Rightarrow> p = P_HostKeyRejected
      | SE_Auth _ \<Rightarrow> (\<exists>m. p = P_Auth m)
      | _ \<Rightarrow> False)"

lemma refused_problem:
  assumes "\<And>m. e \<noteq> SE_Connect m" "\<And>m. e \<noteq> SE_Channel m"
  obtains p where "with_notes (ssh_open_error e) notes = OE_NeedsUser p" "same_problem e p"
proof (cases "notes = []")
  case True
  then show ?thesis using that assms by (cases e) (auto simp: with_notes_def same_problem_def)
next
  case False
  then show ?thesis using that assms by (cases e) (auto simp: with_notes_def same_problem_def Let_def)
qed

text \<open>C31. A host whose key was changed, revoked or not accepted, or that refuses every way to authenticate, is never tried
  again by itself: the host task reports the problem and opens no connection, whatever else happens, until the
  user asks for a retry. The reported problem names the file and line of the changed or revoked key.\<close>

theorem refused_host_waits_for_user:
  assumes "hc_kind host = HK_Ssh tgt" "conn_spec lib sy tgt = Ok (spec, warnings)"
    and "ssh_connect (sw_net w) (co_use_agent (sy_opts sy)) spec (sw_secrets w) = (secrets, Err e)"
    and "\<And>m. e \<noteq> SE_Connect m" "\<And>m. e \<noteq> SE_Channel m"
    and "ho_phase h = HP_Opening" "\<forall>i \<in> set ins. \<not> is_retry i"
    and "run_steps (host_step wr) h (open_input f (snd (connector_open lib env sy now host (lh, w))) # ins) = (h', outs)"
  shows "\<exists>p rest. outs = O_Emit (hc_id (ho_cfg h)) (HE_Probe (CS_NeedsUser p)) # rest \<and> O_Open \<notin> set rest \<and> same_problem e p"
proof -
  obtain p where p: "with_notes (ssh_open_error e) warnings = OE_NeedsUser p" "same_problem e p"
    using assms(4,5) by (rule refused_problem)
  have "conn_refused lib sy host (snd (lh, w)) p" using assms(1-3) p(1) by (simp add: conn_refused_def)
  from system_connector.refused_waits [OF this assms(6-8)] p(2) show ?thesis by blast
qed

theorem refused_host_waits_for_user_witness:
  "\<exists>h' p rest. run_steps (host_step \<lparr>wi_de = \<lambda>_. Err [], wi_dbg = \<lambda>_. [], wi_ser = \<lambda>_. Ok []\<rparr>)
       \<lparr>ho_cfg = \<lparr>hc_id = ''s'', hc_kind = HK_Ssh ''t'', hc_zellij = None\<rparr>, ho_backoff = backoff_default, ho_phase = HP_Opening\<rparr>
       [open_input (\<lambda>_. undefined) (snd (connector_open example_conn example_env example_connector 0
          \<lparr>hc_id = ''s'', hc_kind = HK_Ssh ''t'', hc_zellij = None\<rparr>
          (example_host, example_world\<lparr>sw_net := \<lparr>nw_reach = \<lambda>_ _. Err (SE_HostKeyChanged ''t'' 22 ''/k'' 3), nw_auth = \<lambda>_ _. open_door\<rparr>\<rparr>))),
        I_Elapsed]
     = (h', O_Emit ''s'' (HE_Probe (CS_NeedsUser p)) # rest) \<and> O_Open \<notin> set rest \<and> p = P_HostKeyChanged ''/k'' 3"
proof -
  let ?host = "\<lparr>hc_id = ''s'', hc_kind = HK_Ssh ''t'', hc_zellij = None\<rparr>"
  let ?net = "\<lparr>nw_reach = \<lambda>_ _. Err (SE_HostKeyChanged ''t'' 22 ''/k'' 3), nw_auth = \<lambda>_ _. open_door\<rparr>"
  let ?w = "example_world\<lparr>sw_net := ?net\<rparr>"
  let ?h = "\<lparr>ho_cfg = ?host, ho_backoff = backoff_default, ho_phase = HP_Opening\<rparr>"
  let ?wr = "\<lparr>wi_de = \<lambda>_. Err [], wi_dbg = \<lambda>_. [], wi_ser = \<lambda>_. Ok []\<rparr>"
  let ?in = "open_input (\<lambda>_. undefined) (snd (connector_open example_conn example_env example_connector 0 ?host (example_host, ?w)))"
  have spec: "case conn_spec example_conn example_connector ''t'' of Ok (sp, _) \<Rightarrow> sp_jumps sp = [] | Err _ \<Rightarrow> False" by code_simp
  then obtain sp ws where sp: "conn_spec example_conn example_connector ''t'' = Ok (sp, ws)" "sp_jumps sp = []"
    by (auto split: sum.splits)
  have conn: "ssh_connect (sw_net ?w) (co_use_agent (sy_opts example_connector)) sp (sw_secrets ?w)
      = (sw_secrets ?w, Err (SE_HostKeyChanged ''t'' 22 ''/k'' 3))"
    by (simp add: ssh_connect_def sp(2) connect_hop_def)
  obtain h' outs where run: "run_steps (host_step ?wr) ?h (?in # [I_Elapsed]) = (h', outs)" by force
  from refused_host_waits_for_user [OF _ sp(1) conn _ _ _ _ run] obtain p rest where
    "outs = O_Emit ''s'' (HE_Probe (CS_NeedsUser p)) # rest" "O_Open \<notin> set rest" "p = P_HostKeyChanged ''/k'' 3"
    by (auto simp: same_problem_def is_retry_def)
  with run show ?thesis by blast
qed

section \<open>The gate of a host\<close>

text \<open>\<open>gate\<close> gives the mutex of a host id, a new one for a new id; a mutex is named by its number.\<close>

definition gate :: "(string, nat) dict \<Rightarrow> string \<Rightarrow> (string, nat) dict \<times> nat" where
  "gate gates i = (case map_of gates i of Some m \<Rightarrow> (gates, m) | None \<Rightarrow> (gates @ [(i, length gates)], length gates))"

text \<open>The calls of \<open>open\<close> and \<open>open_terminals\<close> as tasks: before the gate, waiting for its lock, connecting and deploying
  while holding it, and past it (also when the call was cancelled or has failed).\<close>

datatype gate_phase = GP_Start | GP_Waiting nat | GP_Inside nat | GP_Past

record gate_sys =
  gs_gates :: "(string, nat) dict"
  gs_locked :: "nat set"
  gs_tasks :: "nat \<Rightarrow> (string \<times> gate_phase) option"

text \<open>A step is labelled with the task that makes it.\<close>

inductive gate_step :: "gate_sys \<Rightarrow> nat \<Rightarrow> gate_sys \<Rightarrow> bool" where
  call: "gs_tasks s k = None \<Longrightarrow> gate_step s k (s\<lparr>gs_tasks := (gs_tasks s)(k \<mapsto> (i, GP_Start))\<rparr>)"
| fail: "gs_tasks s k = Some (i, GP_Start) \<Longrightarrow> gate_step s k (s\<lparr>gs_tasks := (gs_tasks s)(k \<mapsto> (i, GP_Past))\<rparr>)"
| get: "gs_tasks s k = Some (i, GP_Start) \<Longrightarrow> gate (gs_gates s) i = (g, m) \<Longrightarrow>
    gate_step s k (s\<lparr>gs_gates := g, gs_tasks := (gs_tasks s)(k \<mapsto> (i, GP_Waiting m))\<rparr>)"
| lock: "gs_tasks s k = Some (i, GP_Waiting m) \<Longrightarrow> m \<notin> gs_locked s \<Longrightarrow>
    gate_step s k (s\<lparr>gs_locked := insert m (gs_locked s), gs_tasks := (gs_tasks s)(k \<mapsto> (i, GP_Inside m))\<rparr>)"
| cancel: "gs_tasks s k = Some (i, GP_Waiting m) \<Longrightarrow> gate_step s k (s\<lparr>gs_tasks := (gs_tasks s)(k \<mapsto> (i, GP_Past))\<rparr>)"
| unlock: "gs_tasks s k = Some (i, GP_Inside m) \<Longrightarrow>
    gate_step s k (s\<lparr>gs_locked := gs_locked s - {m}, gs_tasks := (gs_tasks s)(k \<mapsto> (i, GP_Past))\<rparr>)"

definition gate_start :: gate_sys where
  "gate_start = \<lparr>gs_gates = [], gs_locked = {}, gs_tasks = (\<lambda>_. None)\<rparr>"

abbreviation gate_run :: "nat list \<Rightarrow> gate_sys \<Rightarrow> bool" where
  "gate_run \<equiv> traced gate_step gate_start"

definition gates_ok :: "(string, nat) dict \<Rightarrow> bool" where
  "gates_ok g \<longleftrightarrow> (\<forall>i m. map_of g i = Some m \<longrightarrow> m < length g) \<and> (\<forall>i j m. map_of g i = Some m \<longrightarrow> map_of g j = Some m \<longrightarrow> i = j)"

definition gate_inv :: "gate_sys \<Rightarrow> bool" where
  "gate_inv s \<longleftrightarrow> gates_ok (gs_gates s)
     \<and> (\<forall>k i m. gs_tasks s k = Some (i, GP_Waiting m) \<or> gs_tasks s k = Some (i, GP_Inside m) \<longrightarrow> map_of (gs_gates s) i = Some m)
     \<and> (\<forall>m. m \<in> gs_locked s \<longleftrightarrow> (\<exists>k i. gs_tasks s k = Some (i, GP_Inside m)))
     \<and> (\<forall>k l i j m. gs_tasks s k = Some (i, GP_Inside m) \<longrightarrow> gs_tasks s l = Some (j, GP_Inside m) \<longrightarrow> k = l)"

lemma gate_effect:
  assumes "gate g i = (g', m)" "gates_ok g"
  shows "gates_ok g'" "map_of g' i = Some m" "map_of g j = Some n \<Longrightarrow> map_of g' j = Some n"
proof -
  show "gates_ok g'" using assms unfolding gate_def gates_ok_def
    by (auto simp: map_add_def split: option.splits if_splits) (metis less_irrefl less_SucI)+
  show "map_of g' i = Some m" "map_of g j = Some n \<Longrightarrow> map_of g' j = Some n"
    using assms(1) by (auto simp: gate_def map_add_def split: option.splits)
qed

lemma gate_inv_outside:
  assumes "gate_inv s" "\<And>j m. gs_tasks s k \<noteq> Some (j, GP_Inside m)" "\<And>m. ph \<noteq> GP_Inside m"
    and "gates_ok g" "\<And>j n. map_of (gs_gates s) j = Some n \<Longrightarrow> map_of g j = Some n" "\<And>m. ph = GP_Waiting m \<Longrightarrow> map_of g i = Some m"
  shows "gate_inv (s\<lparr>gs_gates := g, gs_tasks := (gs_tasks s)(k \<mapsto> (i, ph))\<rparr>)"
proof -
  have "(if l = k then Some (i, ph) else gs_tasks s l) = Some (j, GP_Inside m) \<longleftrightarrow> gs_tasks s l = Some (j, GP_Inside m)" for l j m
    using assms(2,3) by auto
  then show ?thesis using assms(1,4-6) unfolding gate_inv_def by (simp add: fun_upd_def)
qed

lemma gate_inv_same:
  assumes "gate_inv s" "\<And>j m. gs_tasks s k \<noteq> Some (j, GP_Inside m)" "ph = GP_Start \<or> ph = GP_Past"
  shows "gate_inv (s\<lparr>gs_tasks := (gs_tasks s)(k \<mapsto> (i, ph))\<rparr>)"
proof -
  have ok: "gates_ok (gs_gates s)" using assms(1) by (simp add: gate_inv_def)
  have "gate_inv (s\<lparr>gs_gates := gs_gates s, gs_tasks := (gs_tasks s)(k \<mapsto> (i, ph))\<rparr>)"
    by (rule gate_inv_outside [OF assms(1,2)]) (use assms(3) ok in auto)
  then show ?thesis by simp
qed

lemma gate_step_inv: "gate_step s l s' \<Longrightarrow> gate_inv s \<Longrightarrow> gate_inv s'"
proof (induction rule: gate_step.induct)
  case (get s k i g m)
  then have "gates_ok (gs_gates s)" by (simp add: gate_inv_def)
  note eff = gate_effect [OF get(2) this]
  show ?case by (rule gate_inv_outside [OF get(3)]) (use get(1) eff in auto)
next
  case (call s k i)
  show ?case by (rule gate_inv_same [OF call(2)]) (use call(1) in auto)
next
  case (fail s k i)
  show ?case by (rule gate_inv_same [OF fail(2)]) (use fail(1) in auto)
next
  case (cancel s k i m)
  show ?case by (rule gate_inv_same [OF cancel(2)]) (use cancel(1) in auto)
next
  case (lock s k i m)
  then show ?case unfolding gate_inv_def by auto (metis prod.inject option.inject gate_phase.distinct)+
next
  case (unlock s k i m)
  then show ?case unfolding gate_inv_def by auto (metis prod.inject option.inject gate_phase.inject)+
qed

interpretation gate_invariant: traced_invariant gate_step "\<lambda>_. gate_inv"
  by unfold_locales (rule gate_step_inv)

lemma gate_run_inv: "gate_run tr s \<Longrightarrow> gate_inv s"
  by (erule gate_invariant.traced_inv) (simp add: gate_inv_def gate_start_def gates_ok_def)



end
