(* ===== verification/Ssh_Trust.thy ===== *)
theory Ssh_Trust
  imports Hop Ssh_Session
begin

text \<open>
  Connecting and checking host keys put together (\<open>connect\<close> and \<open>connect_hop\<close> in \<open>crates/mai-core/src/ssh/client.rs\<close>).

  The theory of sessions takes the result of reaching a hop from the network; the theory of hops says which results the
  timer and the host-key check can give. Here the network is made of hop runs: each hop of a connection has the
  \<open>known_hosts\<close> files it started with and the events of its run, and the last event is its result.
\<close>

section \<open>One hop\<close>

text \<open>How the bytes of a hop travel: a TCP connection, or a channel of the hop before it. \<open>via\<close> is the session of the hops
  before it, so it is there exactly when there are such hops.\<close>

datatype hop_transport =
    HT_Tcp string u16
  | HT_Tunnel string u32 string u32

definition transport_of :: "host_spec list \<Rightarrow> host_spec \<Rightarrow> hop_transport" where
  "transport_of before hop =
     (case before of
        [] \<Rightarrow> HT_Tcp (sp_host hop) (sp_port hop)
      | _ # _ \<Rightarrow> HT_Tunnel (sp_host hop) (ucast (sp_port hop)) ''127.0.0.1'' 0)"

record 'k key_checks =
  kc_lib :: "'k hostkey_lib"
  kc_fingerprint :: "'k \<Rightarrow> string"
  kc_opts :: connect_options

definition hop_checker :: "'k key_checks \<Rightarrow> host_spec \<Rightarrow> 'k checker" where
  "hop_checker kc hop =
     \<lparr>ck_lib = kc_lib kc, ck_fingerprint = kc_fingerprint kc, ck_host = sp_host hop, ck_port = sp_port hop, ck_opts = kc_opts kc\<rparr>"

text \<open>The result of a run that is over.\<close>

fun hop_result :: "'k hop_event list \<Rightarrow> (ssh_error + unit) option" where
  "hop_result [] = None"
| "hop_result [HV_Ended r] = Some r"
| "hop_result [HV_TimedOut e] = Some (Err e)"
| "hop_result [_] = None"
| "hop_result (_ # ev # tr) = hop_result (ev # tr)"

text \<open>What the session task was told last: \<open>Ok(true)\<close> or \<open>Ok(false)\<close> of \<open>check_server_key\<close>.\<close>

definition last_answer :: "'k hop_event list \<Rightarrow> bool option" where
  "last_answer tr =
     fold (\<lambda>ev a. case ev of HV_Answered _ b \<Rightarrow> Some b | HV_Closed b \<Rightarrow> Some b | HV_Abandoned _ \<Rightarrow> Some False | _ \<Rightarrow> a) tr None"

section \<open>Networks of hop runs\<close>

type_synonym 'k hop_runs = "host_spec list \<Rightarrow> hop_transport \<Rightarrow> host_files \<times> 'k hop_event list"

definition run_of :: "'k hop_runs \<Rightarrow> host_spec list \<Rightarrow> host_spec \<Rightarrow> host_files \<times> 'k hop_event list" where
  "run_of runs before hop = runs before (transport_of before hop)"

definition network_of :: "'k hop_runs \<Rightarrow> (host_spec list \<Rightarrow> host_spec \<Rightarrow> 'a auth_env) \<Rightarrow> 'a network" where
  "network_of runs auth =
     \<lparr>nw_reach = \<lambda>before hop. case hop_result (snd (run_of runs before hop)) of Some r \<Rightarrow> r | None \<Rightarrow> Err (SE_Connect ''not over''),
      nw_auth = auth\<rparr>"

text \<open>Every hop's run follows the timer and the host-key check of that hop's host and port, to its end.\<close>

definition runs_complete :: "'k key_checks \<Rightarrow> 'k hop_runs \<Rightarrow> bool" where
  "runs_complete kc runs \<longleftrightarrow>
     (\<forall>before hop. hop_result (snd (run_of runs before hop)) \<noteq> None
        \<and> (\<exists>h. hop_run (hop_checker kc hop) (hop_start (fst (run_of runs before hop))) (snd (run_of runs before hop)) h))"

text \<open>What \<open>russh\<close> promises of \<open>check_server_key\<close>: the connection is made only if the handler returned \<open>Ok(true)\<close>.\<close>

definition connects_on_accept :: "'k hop_runs \<Rightarrow> bool" where
  "connects_on_accept runs \<longleftrightarrow>
     (\<forall>before hop. hop_result (snd (run_of runs before hop)) = Some (Ok ()) \<longrightarrow> last_answer (snd (run_of runs before hop)) = Some True)"

section \<open>Trusted connections\<close>

text \<open>A run in which the last answer rests on a key the files knew, or on one the user trusted and that was recorded.\<close>

definition key_trusted :: "'k checker \<Rightarrow> host_files \<times> 'k hop_event list \<Rightarrow> bool" where
  "key_trusted ck run \<longleftrightarrow>
     (\<exists>tr1 key tr2. snd run = tr1 @ HV_Answered key True # tr2 \<and> known_at ck (fst run) tr1 key)
   \<or> (\<exists>tr1 k tr2 tr3. snd run = tr1 @ HV_Decided k True True # tr2 @ HV_Closed True # tr3
        \<and> (\<forall>k'. HV_Prompted k' \<notin> set tr2) \<and> learned_at ck (fst run) tr1 k)"

lemma last_answer_snoc [simp]:
  "last_answer (tr @ [ev]) =
     (case ev of HV_Answered _ b \<Rightarrow> Some b | HV_Closed b \<Rightarrow> Some b | HV_Abandoned _ \<Rightarrow> Some False | _ \<Rightarrow> last_answer tr)"
  by (simp add: last_answer_def split: hop_event.split)

lemma last_answer_found:
  "last_answer tr = Some True \<Longrightarrow>
   \<exists>tr1 ev tr2. tr = tr1 @ ev # tr2 \<and> ((\<exists>key. ev = HV_Answered key True) \<or> ev = HV_Closed True)"
proof (induction tr rule: rev_induct)
  case (snoc ev tr)
  show ?case
  proof (cases "(\<exists>key. ev = HV_Answered key True) \<or> ev = HV_Closed True")
    case True
    then show ?thesis by blast
  next
    case False
    with snoc.prems have "last_answer tr = Some True" by (auto split: hop_event.splits)
    from snoc.IH [OF this] show ?thesis by (metis append_Cons append_assoc)
  qed
qed (simp add: last_answer_def)

lemma hop_key_trusted:
  assumes r: "hop_run ck (hop_start fs) tr h" and a: "last_answer tr = Some True"
  shows "key_trusted ck (fs, tr)"
proof -
  from last_answer_found [OF a] obtain tr1 ev tr2 where tr: "tr = tr1 @ ev # tr2"
    and ev: "(\<exists>key. ev = HV_Answered key True) \<or> ev = HV_Closed True" by blast
  from tr r traced_split [of "hop_step ck" "hop_start fs" "tr1 @ [ev]" tr2 h]
  obtain h1 where h1: "hop_run ck (hop_start fs) (tr1 @ [ev]) h1" by auto
  from ev show ?thesis
  proof (elim disjE exE)
    fix key assume "ev = HV_Answered key True"
    with h1 tr answered_known [of ck fs tr1 key h1] show ?thesis by (auto simp: key_trusted_def)
  next
    assume e: "ev = HV_Closed True"
    with h1 obtain k as bs where "tr1 = as @ HV_Decided k True True # bs" "\<forall>k'. HV_Prompted k' \<notin> set bs" "learned_at ck fs as k"
      using closed_learned [of ck fs tr1 h1] by auto
    with tr e have "tr = as @ HV_Decided k True True # bs @ HV_Closed True # tr2 \<and> (\<forall>k'. HV_Prompted k' \<notin> set bs) \<and> learned_at ck fs as k"
      by simp
    then show ?thesis unfolding key_trusted_def fst_conv snd_conv by blast
  qed
qed


section \<open>A connection through a jump host\<close>

definition trust_checks :: "string key_checks" where
  "trust_checks = \<lparr>kc_lib = ex_keys, kc_fingerprint = (\<lambda>k. k),
     kc_opts = \<lparr>co_known_hosts = [''f''], co_learn_to = ''f'', co_timeout = 10, co_use_agent = False\<rparr>\<rparr>"

text \<open>The host \<open>h\<close> with its recorded key answers on port 22, directly and through a tunnel; every other host times out.\<close>

definition trust_runs :: "string hop_runs" where
  "trust_runs before t =
     (if t = HT_Tcp ''h'' 22 \<or> t = HT_Tunnel ''h'' 22 ''127.0.0.1'' 0
      then (ex_learned, [HV_Answered (SK_Key ''k'') True, HV_Ended (Ok ())])
      else (\<lambda>_. None, [HV_Woke, HV_TimedOut (timed_out_error (hop_checker trust_checks
        (case t of HT_Tcp host port \<Rightarrow> Host_Spec [] host port [] [] [] | HT_Tunnel host port _ _ \<Rightarrow> Host_Spec [] host (ucast port) [] [] [])))]))"

lemma port_ucast [simp]: "ucast (ucast (p :: u16) :: u32) = p"
  by (simp add: ucast_up_ucast_id is_up)

lemma transport_host:
  "transport_of before hop = HT_Tcp ''h'' 22 \<or> transport_of before hop = HT_Tunnel ''h'' 22 ''127.0.0.1'' 0
   \<longleftrightarrow> sp_host hop = ''h'' \<and> sp_port hop = 22"
proof -
  have "ucast (p :: u16) = (22 :: u32) \<longleftrightarrow> p = 22" for p
  proof
    assume "ucast p = (22 :: u32)"
    then have "(ucast (ucast p :: u32) :: u16) = ucast (22 :: u32)" by simp
    then show "p = 22" by simp
  qed simp
  then show ?thesis by (auto simp: transport_of_def split: list.split)
qed

lemma trusted_run:
  assumes "sp_host hop = ''h''" "sp_port hop = 22"
  shows "\<exists>h. hop_run (hop_checker trust_checks hop) (hop_start ex_learned) [HV_Answered (SK_Key ''k'') True, HV_Ended (Ok ())] h"
proof -
  let ?ck = "hop_checker trust_checks hop" and ?h = "hop_start ex_learned :: string hop"
  have k: "check_host_key ex_keys ex_learned [''f''] ''h'' 22 ''k'' = HK_Known" by code_simp
  have "hop_step ?ck ?h (HV_Answered (SK_Key ''k'') True) ?h"
    by (rule hop_step.checked)
      (simp_all add: hop_start_def check_server_key_def hop_checker_def trust_checks_def conn_check_files_def assms k)
  moreover have "hop_step ?ck ?h (HV_Ended (Ok ())) (?h\<lparr>hp_timer := TM_Over\<rparr>)"
    by (rule hop_step.connected [of _ 0]) (simp add: hop_start_def)
  ultimately have "hop_run ?ck ?h (([] @ [HV_Answered (SK_Key ''k'') True]) @ [HV_Ended (Ok ())]) (?h\<lparr>hp_timer := TM_Over\<rparr>)"
    by (rule traced.more [OF traced.more [OF traced.start]])
  then show ?thesis by auto
qed

lemma late_run: "\<exists>h. hop_run ck (hop_start fs) [HV_Woke, HV_TimedOut (timed_out_error ck)] h"
proof -
  let ?h = "hop_start fs" and ?h1 = "(hop_start fs)\<lparr>hp_timer := TM_Woken 0\<rparr>"
  have "hop_step ck ?h HV_Woke ?h1" by (rule hop_step.woke) (simp_all add: hop_start_def)
  moreover have "hop_step ck ?h1 (HV_TimedOut (timed_out_error ck)) (?h1\<lparr>hp_phase := ABANDONED, hp_timer := TM_Over\<rparr>)"
    using hop_step.give_up [of ?h1 0 "?h1\<lparr>hp_phase := ABANDONED\<rparr>" ck] by (simp add: compare_exchange_def hop_start_def)
  ultimately have "hop_run ck ?h (([] @ [HV_Woke]) @ [HV_TimedOut (timed_out_error ck)]) (?h1\<lparr>hp_phase := ABANDONED, hp_timer := TM_Over\<rparr>)"
    by (rule traced.more [OF traced.more [OF traced.start]])
  then show ?thesis by auto
qed

lemma trust_run_of:
  "run_of trust_runs before hop =
     (if sp_host hop = ''h'' \<and> sp_port hop = 22 then (ex_learned, [HV_Answered (SK_Key ''k'') True, HV_Ended (Ok ())])
      else (\<lambda>_. None, [HV_Woke, HV_TimedOut (timed_out_error (hop_checker trust_checks hop))]))"
  using transport_host [of before hop]
  by (auto simp: run_of_def trust_runs_def transport_of_def timed_out_error_def hop_checker_def split: list.splits)


end
