(* ===== verification/Signer.thy ===== *)
theory Signer
  imports Auth
begin

text \<open>
  The bytes a key file's signer returns (\<open>signed\<close>, \<open>bogus_signed\<close> and \<open>FileSigner::auth_sign\<close> in
  \<open>crates/mai-core/src/ssh/signer.rs\<close>).

  The theory of authentication only asks whether a signature is genuine; here the reply is built byte by byte. Signing,
  key generation and the encoder are those of \<open>russh\<close>, \<open>signature\<close> and \<open>ssh-encoding\<close>, fields of the record
  \<open>sign_lib\<close>. Of the encoder only its documented result is relied on: a string is its length as four bytes, most significant
  first, and its bytes.
\<close>

section \<open>Strings on the wire\<close>

definition wire_u32 :: "nat \<Rightarrow> string" where
  "wire_u32 n = map (\<lambda>k. char_of (n div 256 ^ k)) [3, 2, 1, 0]"

definition wire_string :: "string \<Rightarrow> string" where
  "wire_string b = wire_u32 (length b) @ b"

definition unwire_u32 :: "string \<Rightarrow> nat" where
  "unwire_u32 b = foldl (\<lambda>n c. n * 256 + of_char c) 0 b"

text \<open>What the server's side reads: the first string and the rest.\<close>

definition unwire_string :: "string \<Rightarrow> (string \<times> string) option" where
  "unwire_string b =
     (let n = unwire_u32 (take 4 b)
      in if length b < 4 \<or> length b < 4 + n then None else Some (take n (drop 4 b), drop (4 + n) b))"

lemma length_wire_u32 [simp]: "length (wire_u32 n) = 4"
  by (simp add: wire_u32_def)

lemma unwire_u32_wire [simp]: "n < 2 ^ 32 \<Longrightarrow> unwire_u32 (wire_u32 n) = n"
proof -
  assume "n < 2 ^ 32"
  then have a: "n div 16777216 mod 256 = n div 16777216" by (simp add: less_mult_imp_div_less)
  have d: "n div 16777216 = n div 65536 div 256" "n div 65536 = n div 256 div 256" by (simp_all flip: div_mult2_eq)
  have s: "m div 256 * 256 + m mod 256 = m" for m :: nat by simp
  have "16777216 * (n div 256 div 256 div 256) + 65536 * (n div 256 div 256 mod 256) + n div 256 mod 256 * 256 + n mod 256 = n"
    using s [of n] s [of "n div 256"] s [of "n div 256 div 256"] by linarith
  then show ?thesis by (simp add: wire_u32_def unwire_u32_def of_char_of a) (simp add: d)
qed

lemma unwire_wire: "length b < 2 ^ 32 \<Longrightarrow> unwire_string (wire_string b @ rest) = Some (b, rest)"
  by (simp add: unwire_string_def wire_string_def)

section \<open>Signing\<close>

record ('k, 'h, 's) sign_lib =
  sg_is_rsa :: "'k \<Rightarrow> bool"
  sg_sign_rsa :: "'k \<Rightarrow> 'h option \<Rightarrow> string \<Rightarrow> 's option"
  sg_sign :: "'k \<Rightarrow> string \<Rightarrow> 's option"
  sg_encode_vec :: "'s \<Rightarrow> string option"
  sg_encode :: "string \<Rightarrow> string option"
  sg_modulus_bytes :: "'k \<Rightarrow> nat option"
  sg_rsa_name :: "'h option \<Rightarrow> string"
  sg_random :: "'k \<Rightarrow> 'k option"

definition try_sign :: "('k, 'h, 's) sign_lib \<Rightarrow> 'k \<Rightarrow> 'h option \<Rightarrow> string \<Rightarrow> 's option" where
  "try_sign lib key hash_alg to_sign =
     (if sg_is_rsa lib key then sg_sign_rsa lib key hash_alg to_sign else sg_sign lib key to_sign)"

definition signed :: "('k, 'h, 's) sign_lib \<Rightarrow> 'k \<Rightarrow> 'h option \<Rightarrow> string \<Rightarrow> string option" where
  "signed lib key hash_alg to_sign =
     (case try_sign lib key hash_alg to_sign of
        None \<Rightarrow> None
      | Some sig \<Rightarrow>
          (case sg_encode_vec lib sig of
             None \<Rightarrow> None
           | Some blob \<Rightarrow> (case sg_encode lib blob of None \<Rightarrow> None | Some e \<Rightarrow> Some (to_sign @ e))))"

text \<open>Appending an encoded string, errors dropped.\<close>

definition encode_or_drop :: "('k, 'h, 's) sign_lib \<Rightarrow> string \<Rightarrow> string" where
  "encode_or_drop lib b = (case sg_encode lib b of None \<Rightarrow> [] | Some e \<Rightarrow> e)"

definition bogus_blob :: "('k, 'h, 's) sign_lib \<Rightarrow> 'k \<Rightarrow> 'h option \<Rightarrow> string \<Rightarrow> string option" where
  "bogus_blob lib public hash_alg to_sign =
     (if sg_is_rsa lib public
      then Some (encode_or_drop lib (sg_rsa_name lib hash_alg)
             @ encode_or_drop lib (replicate (case sg_modulus_bytes lib public of None \<Rightarrow> 256 | Some n \<Rightarrow> n) (CHR 0x5A)))
      else case sg_random lib public of
             None \<Rightarrow> None
           | Some k \<Rightarrow> (case try_sign lib k hash_alg to_sign of None \<Rightarrow> None | Some sig \<Rightarrow> sg_encode_vec lib sig))"

definition bogus_signed :: "('k, 'h, 's) sign_lib \<Rightarrow> 'k \<Rightarrow> 'h option \<Rightarrow> string \<Rightarrow> string" where
  "bogus_signed lib public hash_alg to_sign =
     to_sign @ encode_or_drop lib (case bogus_blob lib public hash_alg to_sign of None \<Rightarrow> [] | Some b \<Rightarrow> b)"

definition show_sign_error :: string where
  "show_sign_error = ''the SSH session closed during public key authentication''"

text \<open>\<open>FileSigner::auth_sign\<close>: the reply, and whether the signer declined.\<close>

definition file_signer ::
    "'k auth_env \<Rightarrow> ('k, 'h, 's) sign_lib \<Rightarrow> path \<Rightarrow> 'k agent_identity \<Rightarrow> 'h option \<Rightarrow> string \<Rightarrow> 'k auth_state
     \<Rightarrow> 'k auth_state \<times> string \<times> bool" where
  "file_signer env lib path key hash_alg to_sign s =
     (let (s1, priv) = load_key env path s
      in case Option.bind priv (\<lambda>k. signed lib k hash_alg to_sign) of
           Some out \<Rightarrow> (s1, out, False)
         | None \<Rightarrow>
             (case key of
                AI_Certificate \<Rightarrow> (s1, to_sign, True)
              | AI_PublicKey public \<Rightarrow> (s1, bogus_signed lib public hash_alg to_sign, True)))"

section \<open>Refinement of the signer of the authentication\<close>

text \<open>The environment's \<open>ae_can_sign\<close> says for which keys a signature can be made.\<close>

definition signs_as :: "'k auth_env \<Rightarrow> ('k, 'h, 's) sign_lib \<Rightarrow> 'h option \<Rightarrow> string \<Rightarrow> bool" where
  "signs_as env lib hash_alg to_sign \<longleftrightarrow> (\<forall>k. ae_can_sign env k \<longleftrightarrow> signed lib k hash_alg to_sign \<noteq> None)"

text \<open>The detailed signer refines the signer of the authentication: same questions, same key store, same notes, and it
  declines exactly when no genuine signature is sent.\<close>

theorem signer_refines:
  assumes "signs_as env lib hash_alg to_sign"
  shows "auth_sign env path s = (\<lambda>(s1, _, declined). (s1, \<not> declined)) (file_signer env lib path key hash_alg to_sign s)"
  using assms
  by (auto simp: auth_sign_def file_signer_def signs_as_def Let_def split: prod.splits option.splits agent_identity.splits bind_splits)

section \<open>The reply\<close>

text \<open>The documented encoding.\<close>

definition encodes_strings :: "('k, 'h, 's) sign_lib \<Rightarrow> bool" where
  "encodes_strings lib \<longleftrightarrow> (\<forall>b. sg_encode lib b = (if length b < 2 ^ 32 then Some (wire_string b) else None))"

lemma encode_or_drop_wire:
  "encodes_strings lib \<Longrightarrow> encode_or_drop lib b = (if length b < 2 ^ 32 then wire_string b else [])"
  by (simp add: encode_or_drop_def encodes_strings_def)

text \<open>The reply to \<open>russh\<close> is well formed whatever happens to the key: it starts with the bytes to sign, and what follows
  is exactly one string (or nothing, for a certificate or a blob too long to encode). When the signer has not declined,
  that string is the signature of the bytes by the key loaded from the file. When it has, the stand-in for an RSA key is
  the name of the algorithm and a filler as long as the modulus.\<close>

theorem signer_reply_wellformed:
  assumes "encodes_strings lib" "file_signer env lib path key hash_alg to_sign s = (s', out, declined)"
  shows "\<exists>rest. out = to_sign @ rest \<and> (rest = [] \<or> (\<exists>blob. unwire_string rest = Some (blob, [])))
    \<and> (\<not> declined \<longrightarrow> (\<exists>k sig blob. snd (load_key env path s) = Some k \<and> try_sign lib k hash_alg to_sign = Some sig
          \<and> sg_encode_vec lib sig = Some blob \<and> unwire_string rest = Some (blob, [])))
    \<and> (declined \<longrightarrow> (\<forall>public n. key = AI_PublicKey public \<and> sg_is_rsa lib public \<and> sg_modulus_bytes lib public = Some n
          \<and> n < 2 ^ 16 \<and> length (sg_rsa_name lib hash_alg) < 2 ^ 16 \<longrightarrow>
        (\<exists>blob. unwire_string rest = Some (blob, []) \<and> unwire_string blob = Some (sg_rsa_name lib hash_alg, wire_string (replicate n (CHR 0x5A)))
          \<and> unwire_string (wire_string (replicate n (CHR 0x5A))) = Some (replicate n (CHR 0x5A), []))))"
proof -
  obtain s1 priv where l: "load_key env path s = (s1, priv)" by force
  have one: "unwire_string (wire_string b) = Some (b, [])" if "length b < 2 ^ 32" for b using unwire_wire [OF that, of "[]"] by simp
  note enc = encode_or_drop_wire [OF assms(1)]
  show ?thesis
  proof (cases "Option.bind priv (\<lambda>k. signed lib k hash_alg to_sign)")
    case (Some o1)
    then obtain k where k: "priv = Some k" "signed lib k hash_alg to_sign = Some o1" by (auto simp: bind_eq_Some_conv)
    then obtain sig blob where sb: "try_sign lib k hash_alg to_sign = Some sig" "sg_encode_vec lib sig = Some blob"
      "o1 = to_sign @ wire_string blob" "length blob < 2 ^ 32"
      using assms(1) by (auto simp: signed_def encodes_strings_def split: option.splits if_splits)
    with assms(2) l Some have "out = to_sign @ wire_string blob" "\<not> declined" by (auto simp: file_signer_def)
    with sb k(1) l one show ?thesis by (intro exI [of _ "wire_string blob"]) auto
  next
    case None
    with assms(2) l have d: "declined" "out = (case key of AI_Certificate \<Rightarrow> to_sign | AI_PublicKey p \<Rightarrow> bogus_signed lib p hash_alg to_sign)"
      by (auto simp: file_signer_def split: agent_identity.splits)
    show ?thesis
    proof (cases key)
      case (AI_PublicKey public)
      let ?b = "case bogus_blob lib public hash_alg to_sign of None \<Rightarrow> [] | Some b \<Rightarrow> b"
      have out: "out = to_sign @ encode_or_drop lib ?b" using d AI_PublicKey by (simp add: bogus_signed_def)
      have "\<exists>blob. unwire_string (encode_or_drop lib ?b) = Some (blob, []) \<and> unwire_string blob = Some (sg_rsa_name lib hash_alg, wire_string (replicate n (CHR 0x5A)))"
        if "sg_is_rsa lib public" "sg_modulus_bytes lib public = Some n" "n < 2 ^ 16" "length (sg_rsa_name lib hash_alg) < 2 ^ 16" for n
      proof -
        from that have b: "?b = wire_string (sg_rsa_name lib hash_alg) @ wire_string (replicate n (CHR 0x5A))"
          by (simp add: bogus_blob_def enc)
        from that have "length ?b < 2 ^ 32" unfolding b by (simp add: wire_string_def)
        with that show ?thesis unfolding b by (simp add: enc one unwire_wire)
      qed
      with d(1) AI_PublicKey out show ?thesis
        by (intro exI [of _ "encode_or_drop lib ?b"]) (auto simp: enc one)
    qed (use d in \<open>simp\<close>)
  qed
qed

section \<open>An RSA key whose file cannot be read\<close>

definition ex_signer :: "(string, unit, string) sign_lib" where
  "ex_signer = \<lparr>sg_is_rsa = (\<lambda>k. k = ''rsa''), sg_sign_rsa = (\<lambda>k _ d. Some (k @ d)), sg_sign = (\<lambda>k d. Some (k @ d)),
     sg_encode_vec = Some, sg_encode = (\<lambda>b. if length b < 2 ^ 32 then Some (wire_string b) else None),
     sg_modulus_bytes = (\<lambda>_. Some 3), sg_rsa_name = (\<lambda>_. ''ssh-rsa''), sg_random = (\<lambda>_. None)\<rparr>"

definition unreadable_key :: "string auth_env" where
  "unreadable_key = ex_env\<lparr>ae_load_secret := \<lambda>_ _. Err LE_Other, ae_can_sign := \<lambda>k. signed ex_signer k None ''data'' \<noteq> None\<rparr>"

theorem signer_reply_wellformed_witness:
  "\<exists>rest blob. fst (snd (file_signer unreadable_key ex_signer ''id'' (AI_PublicKey ''rsa'') None ''data'' (ex_start []))) = ''data'' @ rest
     \<and> unwire_string rest = Some (blob, []) \<and> unwire_string blob = Some (''ssh-rsa'', wire_string ''ZZZ'')"
proof -
  have e: "encodes_strings ex_signer" by (simp add: encodes_strings_def ex_signer_def)
  have k: "load_key unreadable_key ''id'' (ex_start []) = (ex_start [], None)" by (simp add: load_key_def unreadable_key_def)
  obtain s out d where f: "file_signer unreadable_key ex_signer ''id'' (AI_PublicKey ''rsa'') None ''data'' (ex_start []) = (s, out, d)"
    by (metis surj_pair)
  with k have d by (auto simp: file_signer_def)
  with signer_reply_wellformed [OF e f] obtain rest where "out = ''data'' @ rest" and
    "\<forall>public n. AI_PublicKey ''rsa'' = AI_PublicKey public \<and> sg_is_rsa ex_signer public \<and> sg_modulus_bytes ex_signer public = Some n
          \<and> n < 2 ^ 16 \<and> length (sg_rsa_name ex_signer None) < 2 ^ 16 \<longrightarrow>
        (\<exists>blob. unwire_string rest = Some (blob, []) \<and> unwire_string blob = Some (sg_rsa_name ex_signer None, wire_string (replicate n (CHR 0x5A)))
          \<and> unwire_string (wire_string (replicate n (CHR 0x5A))) = Some (replicate n (CHR 0x5A), []))"
    by (elim exE conjE) (rule that, assumption, erule mp)
  from this(1) this(2) [rule_format, of "''rsa''" 3] f show ?thesis
    by (simp add: ex_signer_def numeral_3_eq_3) blast
qed

theorem signer_refines_witness:
  "auth_sign unreadable_key ''id'' (ex_start []) = (ex_start [], False)"
proof -
  have "signs_as unreadable_key ex_signer None ''data''" by (simp add: signs_as_def unreadable_key_def)
  from signer_refines [OF this, of "''id''" "ex_start []" AI_Certificate] show ?thesis
    by (simp add: file_signer_def load_key_def unreadable_key_def)
qed

end
