(* ===== verification/Secrets.thy ===== *)
theory Secrets
  imports Auth
begin

text \<open>
  Where remembered secrets are kept (\<open>SecretStore\<close> and \<open>KeyringStore\<close> in \<open>crates/mai-core/src/ssh/auth.rs\<close>, \<open>MemoryStore\<close> in
  \<open>crates/mai-core/examples/common/mod.rs\<close>).

  The trait is a locale: what is stored under a key is read back until it is replaced or deleted, and a failed call
  changes nothing. The operating system's keychain is a dictionary of services and keys in which every call of the
  \<open>keyring\<close> crate may fail; the memory store is a dictionary behind a lock that may be poisoned. The store of the
  authentication is a third instance.
\<close>

section \<open>The trait\<close>

datatype secret_op = SO_Set string string | SO_Delete string

text \<open>The abstract store: the last call on a key decides.\<close>

definition secrets_after :: "secret_op list \<Rightarrow> (string \<Rightarrow> string option) \<Rightarrow> string \<Rightarrow> string option" where
  "secrets_after ops m = fold (\<lambda>op m. case op of SO_Set k v \<Rightarrow> m(k := Some v) | SO_Delete k \<Rightarrow> m(k := None)) ops m"

lemma secrets_after_simps [simp]:
  "secrets_after [] m = m"
  "secrets_after (op # ops) m = secrets_after ops (case op of SO_Set k v \<Rightarrow> m(k := Some v) | SO_Delete k \<Rightarrow> m(k := None))"
  by (simp_all add: secrets_after_def)

lemma secrets_after_cong: "m k = m' k \<Longrightarrow> secrets_after ops m k = secrets_after ops m' k"
proof (induction ops arbitrary: m m')
  case (Cons op ops)
  let ?step = "\<lambda>m. case op of SO_Set k v \<Rightarrow> m(k := Some v) | SO_Delete k \<Rightarrow> m(k := None)"
  from Cons.prems have "?step m k = ?step m' k" by (cases op) auto
  from Cons.IH [of "?step m" "?step m'", OF this] show ?case by simp
qed simp

text \<open>A sequence of calls on a store, with those that succeeded.\<close>

fun run_ops :: "(secret_op \<Rightarrow> 's \<Rightarrow> 's \<times> (string + unit)) \<Rightarrow> secret_op list \<Rightarrow> 's \<Rightarrow> 's \<times> secret_op list" where
  "run_ops call [] s = (s, [])"
| "run_ops call (op # ops) s =
     (case call op s of
        (s1, Err _) \<Rightarrow> run_ops call ops s1
      | (s1, Ok _) \<Rightarrow> (case run_ops call ops s1 of (s2, ops2) \<Rightarrow> (s2, op # ops2)))"

locale secret_store =
  fixes get :: "'s \<Rightarrow> string \<Rightarrow> string option"
    and call :: "secret_op \<Rightarrow> 's \<Rightarrow> 's \<times> (string + unit)"
    and readable :: "string \<Rightarrow> bool"
  assumes get_set: "call (SO_Set k v) s = (s', Ok ()) \<Longrightarrow> readable k' \<Longrightarrow> get s' k' = (if k' = k then Some v else get s k')"
    and get_delete: "call (SO_Delete k) s = (s', Ok ()) \<Longrightarrow> readable k' \<Longrightarrow> get s' k' = (if k' = k then None else get s k')"
    and failed: "call op s = (s', Err e) \<Longrightarrow> s' = s"
begin

lemma call_ok:
  assumes "call op s = (s', Ok ())" "readable k"
  shows "get s' k = secrets_after [op] (get s) k"
  using assms get_set get_delete by (cases op) auto

lemma ops_decide:
  "run_ops call ops s = (s', ok_ops) \<Longrightarrow> readable k \<Longrightarrow> get s' k = secrets_after ok_ops (get s) k"
proof (induction ops arbitrary: s ok_ops)
  case (Cons op ops)
  obtain s1 r where c: "call op s = (s1, r)" by force
  show ?case
  proof (cases r)
    case (Inl e)
    with Cons c failed [of op s s1 e] show ?thesis by simp
  next
    case (Inr u)
    with Cons.prems(1) c obtain ops2 where r: "run_ops call ops s1 = (s', ops2)" "ok_ops = op # ops2" by (auto split: prod.splits)
    from c Inr Cons.prems(2) have "get s1 k = secrets_after [op] (get s) k" by (intro call_ok) simp_all
    from secrets_after_cong [of "get s1" k "secrets_after [op] (get s)", OF this] Cons.IH [OF r(1) Cons.prems(2)] r(2) show ?thesis by simp
  qed
qed simp

end

section \<open>The keychain\<close>

definition KEYRING_SERVICE :: string where "KEYRING_SERVICE = ''multi-ai''"

text \<open>The keychain of the user: passwords by service and key. Which calls fail, and with which message, is the fault record;
  deleting what is not there fails.\<close>

type_synonym keychain = "(string \<times> string, string) dict"

record keyring_faults =
  kf_new :: "string \<Rightarrow> string \<Rightarrow> string option"
  kf_get :: "string \<Rightarrow> string \<Rightarrow> string option"
  kf_set :: "string \<Rightarrow> string \<Rightarrow> string option"
  kf_delete :: "string \<Rightarrow> string \<Rightarrow> string option"
  kf_no_entry :: string

definition entry_new :: "keyring_faults \<Rightarrow> string \<Rightarrow> string \<Rightarrow> string + string \<times> string" where
  "entry_new kf service user = (case kf_new kf service user of Some e \<Rightarrow> Err e | None \<Rightarrow> Ok (service, user))"

definition keyring_get :: "keyring_faults \<Rightarrow> keychain \<Rightarrow> string \<Rightarrow> string option" where
  "keyring_get kf kc key =
     (case entry_new kf KEYRING_SERVICE key of
        Err _ \<Rightarrow> None
      | Ok entry \<Rightarrow> if kf_get kf (fst entry) (snd entry) \<noteq> None then None else map_of kc entry)"

definition keyring_set :: "keyring_faults \<Rightarrow> string \<Rightarrow> string \<Rightarrow> keychain \<Rightarrow> keychain \<times> (string + unit)" where
  "keyring_set kf key v kc =
     (case entry_new kf KEYRING_SERVICE key of
        Err e \<Rightarrow> (kc, Err e)
      | Ok entry \<Rightarrow>
          (case kf_set kf (fst entry) (snd entry) of Some e \<Rightarrow> (kc, Err e) | None \<Rightarrow> (AList.update entry v kc, Ok ())))"

definition keyring_delete :: "keyring_faults \<Rightarrow> string \<Rightarrow> keychain \<Rightarrow> keychain \<times> (string + unit)" where
  "keyring_delete kf key kc =
     (case entry_new kf KEYRING_SERVICE key of
        Err e \<Rightarrow> (kc, Err e)
      | Ok entry \<Rightarrow>
          (case kf_delete kf (fst entry) (snd entry) of
             Some e \<Rightarrow> (kc, Err e)
           | None \<Rightarrow> if map_of kc entry = None then (kc, Err (kf_no_entry kf)) else (AList.delete entry kc, Ok ())))"

fun keyring_call :: "keyring_faults \<Rightarrow> secret_op \<Rightarrow> keychain \<Rightarrow> keychain \<times> (string + unit)" where
  "keyring_call kf (SO_Set k v) kc = keyring_set kf k v kc"
| "keyring_call kf (SO_Delete k) kc = keyring_delete kf k kc"

definition keyring_readable :: "keyring_faults \<Rightarrow> string \<Rightarrow> bool" where
  "keyring_readable kf key \<longleftrightarrow> kf_new kf KEYRING_SERVICE key = None \<and> kf_get kf KEYRING_SERVICE key = None"

lemmas keyring_defs = keyring_get_def keyring_set_def keyring_delete_def entry_new_def keyring_readable_def

interpretation keyring: secret_store "keyring_get kf" "keyring_call kf" "keyring_readable kf" for kf
proof unfold_locales
  show "s' = s" if "keyring_call kf op s = (s', Err e)" for op s s' e
    using that by (cases op) (auto simp: keyring_defs split: option.splits if_splits)
qed (auto simp: keyring_defs update_conv' delete_conv' split: option.splits if_splits)

section \<open>The store of the examples\<close>

record memory_store =
  ms_map :: "(string, string) dict"
  ms_poisoned :: "string option"

definition memory_get :: "memory_store \<Rightarrow> string \<Rightarrow> string option" where
  "memory_get m key = (if ms_poisoned m \<noteq> None then None else map_of (ms_map m) key)"

definition memory_set :: "string \<Rightarrow> string \<Rightarrow> memory_store \<Rightarrow> memory_store \<times> (string + unit)" where
  "memory_set key v m =
     (case ms_poisoned m of Some e \<Rightarrow> (m, Err e) | None \<Rightarrow> (m\<lparr>ms_map := AList.update key v (ms_map m)\<rparr>, Ok ()))"

definition memory_delete :: "string \<Rightarrow> memory_store \<Rightarrow> memory_store \<times> (string + unit)" where
  "memory_delete key m =
     (case ms_poisoned m of Some e \<Rightarrow> (m, Err e) | None \<Rightarrow> (m\<lparr>ms_map := AList.delete key (ms_map m)\<rparr>, Ok ()))"

fun memory_call :: "secret_op \<Rightarrow> memory_store \<Rightarrow> memory_store \<times> (string + unit)" where
  "memory_call (SO_Set k v) m = memory_set k v m"
| "memory_call (SO_Delete k) m = memory_delete k m"

lemmas memory_defs = memory_get_def memory_set_def memory_delete_def

interpretation memory: secret_store memory_get memory_call "\<lambda>_. True"
proof unfold_locales
  show "s' = s" if "memory_call op s = (s', Err e)" for op s s' e
    using that by (cases op) (auto simp: memory_defs split: option.splits)
qed (auto simp: memory_defs update_conv' delete_conv' split: option.splits)

section \<open>The store of the authentication\<close>

fun auth_store_call :: "'k auth_env \<Rightarrow> secret_op \<Rightarrow> 'k auth_state \<Rightarrow> 'k auth_state \<times> (string + unit)" where
  "auth_store_call env (SO_Set k v) s = secret_set env k v s"
| "auth_store_call env (SO_Delete k) s = secret_delete env k s"

interpretation auth_store: secret_store "\<lambda>s. map_of (at_secrets s)" "auth_store_call env" "\<lambda>_. True" for env
proof unfold_locales
  show "s' = s" if "auth_store_call env op s = (s', Err e)" for op s s' e
    using that by (cases op) (auto simp: secret_set_def secret_delete_def split: option.splits)
qed (auto simp: secret_set_def secret_delete_def update_conv' delete_conv' split: option.splits)

text \<open>The keychain keeps what it was given. After any calls, a readable key holds what the last successful call on it left, and
  no call touches an entry of another service or another key: the app's secrets and those of other programs do not mix.\<close>

lemma keyring_other_service:
  "fst entry \<noteq> KEYRING_SERVICE \<Longrightarrow> keyring_call kf op kc = (kc', r) \<Longrightarrow> map_of kc' entry = map_of kc entry"
  by (cases op) (auto simp: keyring_defs update_conv' delete_conv' split: option.splits if_splits)

theorem keychain_keeps_secrets:
  assumes "run_ops (keyring_call kf) ops kc = (kc', ok_ops)"
  shows "(keyring_readable kf key \<longrightarrow> keyring_get kf kc' key = secrets_after ok_ops (keyring_get kf kc) key)
    \<and> (fst entry \<noteq> KEYRING_SERVICE \<longrightarrow> map_of kc' entry = map_of kc entry)"
proof (intro conjI impI)
  assume "keyring_readable kf key"
  with assms show "keyring_get kf kc' key = secrets_after ok_ops (keyring_get kf kc) key" by (rule keyring.ops_decide)
next
  assume e: "fst entry \<noteq> KEYRING_SERVICE"
  from assms show "map_of kc' entry = map_of kc entry"
  proof (induction ops arbitrary: kc ok_ops)
    case (Cons op ops)
    obtain kc1 r where c: "keyring_call kf op kc = (kc1, r)" by force
    with Cons keyring_other_service [OF e c] show ?case by (auto split: sum.splits prod.splits)
  qed simp
qed

text \<open>The authentication sees the store it is given: with the keychain's own faults as the faults of its environment and every key
  readable, a set or a delete of a stored secret has the same result on both, and every later read agrees.\<close>

definition store_agrees :: "keyring_faults \<Rightarrow> 'k auth_env \<Rightarrow> bool" where
  "store_agrees kf env \<longleftrightarrow> (\<forall>k. keyring_readable kf k
     \<and> ae_set_fault env k = kf_set kf KEYRING_SERVICE k \<and> ae_delete_fault env k = kf_delete kf KEYRING_SERVICE k)"

theorem auth_store_refined:
  assumes "store_agrees kf env" "\<forall>k. keyring_get kf kc k = map_of (at_secrets s) k"
    and "keyring_call kf op kc = (kc', r)" "auth_store_call env op s = (s', r')"
    and "\<forall>k. op = SO_Delete k \<longrightarrow> map_of (at_secrets s) k \<noteq> None"
  shows "r' = r \<and> (\<forall>k. keyring_get kf kc' k = map_of (at_secrets s') k)"
proof -
  have "r' = r"
  proof (cases op)
    case (SO_Set k v)
    with assms show ?thesis
      by (auto simp: store_agrees_def keyring_defs secret_set_def split: option.splits)
  next
    case (SO_Delete k)
    with assms(5) have "map_of (at_secrets s) k \<noteq> None" by simp
    with assms(1,2) have "map_of kc (KEYRING_SERVICE, k) \<noteq> None"
      by (auto simp: store_agrees_def keyring_defs)
    with SO_Delete assms show ?thesis
      by (auto simp: store_agrees_def keyring_defs secret_delete_def split: option.splits if_splits)
  qed
  moreover have "keyring_get kf kc' k = map_of (at_secrets s') k" for k
  proof (cases r)
    case (Inl e)
    with assms keyring.failed [of kf op kc kc' e] auth_store.failed [of env op s s' e] \<open>r' = r\<close> show ?thesis by simp
  next
    case (Inr u)
    have "keyring_get kf kc' k = secrets_after [op] (keyring_get kf kc) k"
      by (rule keyring.call_ok) (use assms(1,3) Inr in \<open>auto simp: store_agrees_def\<close>)
    moreover have "map_of (at_secrets s') k = secrets_after [op] (map_of (at_secrets s)) k"
      by (rule auth_store.call_ok) (use assms(4) Inr \<open>r' = r\<close> in auto)
    ultimately show ?thesis using assms(2) secrets_after_cong [of "keyring_get kf kc" k "map_of (at_secrets s)" "[op]"] by simp
  qed
  ultimately show ?thesis by blast
qed

section \<open>A keychain shared with another program\<close>

definition plain_keyring :: keyring_faults where
  "plain_keyring = \<lparr>kf_new = \<lambda>_ _. None, kf_get = \<lambda>_ _. None, kf_set = \<lambda>_ _. None, kf_delete = \<lambda>_ _. None, kf_no_entry = ''No matching entry''\<rparr>"

theorem keychain_keeps_secrets_witness:
  "\<exists>kc'. fst (run_ops (keyring_call plain_keyring) [SO_Set ''h/password'' ''pw'', SO_Delete ''x''] [((''other'', ''u''), ''p'')]) = kc'
     \<and> keyring_get plain_keyring kc' ''h/password'' = Some ''pw'' \<and> map_of kc' (''other'', ''u'') = Some ''p''"
proof -
  let ?kc = "[((''other'', ''u''), ''p'')]" and ?ops = "[SO_Set ''h/password'' ''pw'', SO_Delete ''x'']"
  have r: "run_ops (keyring_call plain_keyring) ?ops ?kc = (AList.update (''multi-ai'', ''h/password'') ''pw'' ?kc, [SO_Set ''h/password'' ''pw''])"
    by (simp add: plain_keyring_def keyring_defs KEYRING_SERVICE_def)
  have "keyring_readable plain_keyring ''h/password''" by (simp add: plain_keyring_def keyring_readable_def)
  with keychain_keeps_secrets [OF r, of "''h/password''" "(''other'', ''u'')"] r show ?thesis
    by (simp add: KEYRING_SERVICE_def)
qed

theorem auth_store_refined_witness:
  "keyring_get plain_keyring (fst (keyring_call plain_keyring (SO_Set ''k'' ''v'') [])) ''k''
     = map_of (at_secrets (fst (auth_store_call (ex_env\<lparr>ae_set_fault := \<lambda>_. None, ae_delete_fault := \<lambda>_. None\<rparr>) (SO_Set ''k'' ''v'') (ex_start [])))) ''k''"
proof -
  let ?env = "ex_env\<lparr>ae_set_fault := \<lambda>_. None, ae_delete_fault := \<lambda>_. None\<rparr>"
  have a: "store_agrees plain_keyring ?env" by (simp add: store_agrees_def plain_keyring_def keyring_readable_def)
  have g: "\<forall>k. keyring_get plain_keyring [] k = map_of (at_secrets (ex_start [])) k"
    by (simp add: plain_keyring_def keyring_defs ex_start_def)
  obtain kc r where k: "keyring_call plain_keyring (SO_Set ''k'' ''v'') [] = (kc, r)" by force
  obtain s r' where s: "auth_store_call ?env (SO_Set ''k'' ''v'') (ex_start []) = (s, r')" by force
  from auth_store_refined [OF a g k s] k s show ?thesis by simp
qed

end
