(* ===== verification/Zellij_Pipe.thy ===== *)
theory Zellij_Pipe
  imports Zellij_Cli
begin

text \<open>
  The threads of \<open>output_with_timeout\<close> (\<open>drain\<close>, \<open>wait_until\<close>, \<open>output_with_timeout\<close> in \<open>crates/mai-probe/src/zellij.rs\<close>).

  The theory of the adapter takes the output of a command as given. Here the command writes its bytes into two pipes of
  a bounded size, one thread per pipe drains it to its end, and the calling thread polls the child and then joins both
  threads. The child may leave background processes behind that inherited the pipes. One step is one system call; reads
  from a pipe are taken not to fail.
\<close>

section \<open>State\<close>

datatype pipe = P_Out | P_Err

text \<open>What the child does before it exits.\<close>

datatype child_act = CA_Write pipe char | CA_Fork

datatype main_thread =
    MT_Wait
  | MT_Polled
  | MT_Join pipe "bool \<times> string"
  | MT_Over "string + cmd_output option"

record piped =
  pw_todo :: "child_act list"
  pw_exited :: "(bool \<times> string) option"
  pw_heirs :: nat
  pw_pipe :: "pipe \<Rightarrow> string"
  pw_buf :: "pipe \<Rightarrow> string"
  pw_done :: "pipe \<Rightarrow> bool"
  pw_main :: main_thread
  pw_clock :: nat

definition piped_start :: "child_act list \<Rightarrow> piped" where
  "piped_start acts =
     \<lparr>pw_todo = acts, pw_exited = None, pw_heirs = 0, pw_pipe = (\<lambda>_. []), pw_buf = (\<lambda>_. []), pw_done = (\<lambda>_. False),
      pw_main = MT_Wait, pw_clock = 0\<rparr>"

definition collected :: "bool \<times> string \<Rightarrow> (pipe \<Rightarrow> string) \<Rightarrow> cmd_output" where
  "collected st buf = \<lparr>ou_success = fst st, ou_status = snd st, ou_stdout = buf P_Out, ou_stderr = buf P_Err\<rparr>"

section \<open>Steps\<close>

datatype pipe_event =
    PV_Wrote pipe char
  | PV_Forked
  | PV_Exited
  | PV_HeirWrote pipe char
  | PV_HeirClosed
  | PV_Read pipe string
  | PV_Eof pipe
  | PV_Tick nat
  | PV_Polled
  | PV_Slept
  | PV_WaitFailed string
  | PV_TimedOut
  | PV_Joined pipe

text \<open>\<open>cap\<close> is the size of a pipe, \<open>timeout\<close> the time limit, \<open>st\<close> the exit status of the child; a child that is killed gets
  the status of \<open>killed\<close>.\<close>

record pipe_env =
  pe_cap :: nat
  pe_timeout :: nat
  pe_status :: "bool \<times> string"
  pe_killed :: "bool \<times> string"

inductive pipe_step :: "pipe_env \<Rightarrow> piped \<Rightarrow> pipe_event \<Rightarrow> piped \<Rightarrow> bool" for env :: pipe_env where
  wrote: "pw_exited s = None \<Longrightarrow> pw_todo s = CA_Write p c # acts \<Longrightarrow> length (pw_pipe s p) < pe_cap env \<Longrightarrow>
    pipe_step env s (PV_Wrote p c) (s\<lparr>pw_todo := acts, pw_pipe := (pw_pipe s)(p := pw_pipe s p @ [c])\<rparr>)"
| forked: "pw_exited s = None \<Longrightarrow> pw_todo s = CA_Fork # acts \<Longrightarrow>
    pipe_step env s PV_Forked (s\<lparr>pw_todo := acts, pw_heirs := Suc (pw_heirs s)\<rparr>)"
| exited: "pw_exited s = None \<Longrightarrow> pw_todo s = [] \<Longrightarrow> pipe_step env s PV_Exited (s\<lparr>pw_exited := Some (pe_status env)\<rparr>)"
| heir_wrote: "0 < pw_heirs s \<Longrightarrow> length (pw_pipe s p) < pe_cap env \<Longrightarrow>
    pipe_step env s (PV_HeirWrote p c) (s\<lparr>pw_pipe := (pw_pipe s)(p := pw_pipe s p @ [c])\<rparr>)"
| heir_closed: "pw_heirs s = Suc n \<Longrightarrow> pipe_step env s PV_HeirClosed (s\<lparr>pw_heirs := n\<rparr>)"
| read: "pw_pipe s p = xs @ ys \<Longrightarrow> xs \<noteq> [] \<Longrightarrow> \<not> pw_done s p \<Longrightarrow>
    pipe_step env s (PV_Read p xs) (s\<lparr>pw_pipe := (pw_pipe s)(p := ys), pw_buf := (pw_buf s)(p := pw_buf s p @ xs)\<rparr>)"
| eof: "pw_pipe s p = [] \<Longrightarrow> pw_exited s \<noteq> None \<Longrightarrow> pw_heirs s = 0 \<Longrightarrow> \<not> pw_done s p \<Longrightarrow>
    pipe_step env s (PV_Eof p) (s\<lparr>pw_done := (pw_done s)(p := True)\<rparr>)"
| tick: "pipe_step env s (PV_Tick d) (s\<lparr>pw_clock := pw_clock s + d\<rparr>)"
| poll_running: "pw_main s = MT_Wait \<Longrightarrow> pw_exited s = None \<Longrightarrow> pipe_step env s PV_Polled (s\<lparr>pw_main := MT_Polled\<rparr>)"
| poll_exited: "pw_main s = MT_Wait \<Longrightarrow> pw_exited s = Some st \<Longrightarrow> pipe_step env s PV_Polled (s\<lparr>pw_main := MT_Join P_Out st\<rparr>)"
| wait_failed: "pw_main s = MT_Wait \<Longrightarrow> pipe_step env s (PV_WaitFailed e) (s\<lparr>pw_main := MT_Over (Err e)\<rparr>)"
| slept: "pw_main s = MT_Polled \<Longrightarrow> pw_clock s < pe_timeout env \<Longrightarrow> pipe_step env s PV_Slept (s\<lparr>pw_main := MT_Wait\<rparr>)"
| timed_out: "pw_main s = MT_Polled \<Longrightarrow> pe_timeout env \<le> pw_clock s \<Longrightarrow>
    pipe_step env s PV_TimedOut
      (s\<lparr>pw_exited := (case pw_exited s of None \<Rightarrow> Some (pe_killed env) | Some st \<Rightarrow> Some st), pw_main := MT_Over (Ok None)\<rparr>)"
| joined_out: "pw_main s = MT_Join P_Out st \<Longrightarrow> pw_done s P_Out \<Longrightarrow>
    pipe_step env s (PV_Joined P_Out) (s\<lparr>pw_main := MT_Join P_Err st\<rparr>)"
| joined_err: "pw_main s = MT_Join P_Err st \<Longrightarrow> pw_done s P_Err \<Longrightarrow>
    pipe_step env s (PV_Joined P_Err) (s\<lparr>pw_main := MT_Over (Ok (Some (collected st (pw_buf s))))\<rparr>)"

abbreviation pipe_run :: "pipe_env \<Rightarrow> piped \<Rightarrow> pipe_event list \<Rightarrow> piped \<Rightarrow> bool" where
  "pipe_run env \<equiv> traced (pipe_step env)"

section \<open>What was written\<close>

definition written :: "pipe \<Rightarrow> pipe_event list \<Rightarrow> string" where
  "written p tr =
     concat (map (\<lambda>ev. case ev of PV_Wrote q c \<Rightarrow> if q = p then [c] else [] | PV_HeirWrote q c \<Rightarrow> if q = p then [c] else [] | _ \<Rightarrow> []) tr)"

definition child_wrote :: "pipe \<Rightarrow> pipe_event list \<Rightarrow> string" where
  "child_wrote p tr = concat (map (\<lambda>ev. case ev of PV_Wrote q c \<Rightarrow> if q = p then [c] else [] | _ \<Rightarrow> []) tr)"

definition writes :: "pipe \<Rightarrow> child_act list \<Rightarrow> string" where
  "writes p acts = concat (map (\<lambda>a. case a of CA_Write q c \<Rightarrow> if q = p then [c] else [] | CA_Fork \<Rightarrow> []) acts)"

lemma written_snoc [simp]:
  "written p (tr @ [ev]) = written p tr @
     (case ev of PV_Wrote q c \<Rightarrow> if q = p then [c] else [] | PV_HeirWrote q c \<Rightarrow> if q = p then [c] else [] | _ \<Rightarrow> [])"
  "child_wrote p (tr @ [ev]) = child_wrote p tr @ (case ev of PV_Wrote q c \<Rightarrow> if q = p then [c] else [] | _ \<Rightarrow> [])"
  "written p [] = []" "child_wrote p [] = []"
  by (simp_all add: written_def child_wrote_def)

lemma writes_simps [simp]:
  "writes p [] = []"
  "writes p (CA_Write q c # acts) = (if q = p then c # writes p acts else writes p acts)"
  "writes p (CA_Fork # acts) = writes p acts"
  by (simp_all add: writes_def)

text \<open>The bytes of a pipe are in the thread's buffer or still in the pipe; a thread that is done saw the end of its pipe, which
  takes the child and every background process; the calling thread holds the child's own status.\<close>

definition pipe_bytes :: "child_act list \<Rightarrow> pipe_event list \<Rightarrow> piped \<Rightarrow> bool" where
  "pipe_bytes acts tr s \<longleftrightarrow>
     (\<forall>p. pw_buf s p @ pw_pipe s p = written p tr) \<and> (\<forall>p. child_wrote p tr @ writes p (pw_todo s) = writes p acts)"

definition pipe_ends :: "pipe_env \<Rightarrow> piped \<Rightarrow> bool" where
  "pipe_ends env s \<longleftrightarrow>
     (\<forall>p. pw_done s p \<longrightarrow> pw_pipe s p = [] \<and> pw_exited s \<noteq> None \<and> pw_heirs s = 0)
   \<and> (\<forall>st. pw_exited s = Some st \<and> pw_main s \<noteq> MT_Over (Ok None) \<longrightarrow> st = pe_status env \<and> pw_todo s = [])
   \<and> (\<forall>p st. pw_main s = MT_Join p st \<longrightarrow> pw_exited s = Some st \<and> (p = P_Err \<longrightarrow> pw_done s P_Out))
   \<and> (\<forall>ou. pw_main s = MT_Over (Ok (Some ou)) \<longrightarrow> pw_done s P_Out \<and> pw_done s P_Err \<and> ou = collected (pe_status env) (pw_buf s))"

definition pipe_inv :: "pipe_env \<Rightarrow> child_act list \<Rightarrow> pipe_event list \<Rightarrow> piped \<Rightarrow> bool" where
  "pipe_inv env acts tr s \<longleftrightarrow> pipe_bytes acts tr s \<and> pipe_ends env s"

lemma pipe_inv_start: "pipe_inv env acts [] (piped_start acts)"
  by (simp add: pipe_inv_def pipe_bytes_def pipe_ends_def piped_start_def)

lemma pipe_step_bytes: "pipe_step env s ev s' \<Longrightarrow> pipe_bytes acts tr s \<Longrightarrow> pipe_bytes acts (tr @ [ev]) s'"
proof (induction rule: pipe_step.induct)
  case (wrote s p c acts')
  then have b: "pw_buf s q @ pw_pipe s q = written q tr"
    "child_wrote q tr @ (if p = q then c # writes q acts' else writes q acts') = writes q acts" for q
    by (simp_all add: pipe_bytes_def)
  have "child_wrote q tr @ (if p = q then [c] else []) @ writes q acts' = writes q acts" for q using b(2) [of q] by auto
  with b(1) show ?case by (auto simp: pipe_bytes_def simp flip: append_assoc)
next
  case (read s p xs ys)
  then show ?case by (simp add: pipe_bytes_def) metis
qed (auto simp: pipe_bytes_def)

lemma pipe_step_ends: "pipe_step env s ev s' \<Longrightarrow> pipe_ends env s \<Longrightarrow> pipe_ends env s'"
proof (induction rule: pipe_step.induct)
  case (read s p xs ys)
  then show ?case by (simp add: pipe_ends_def collected_def del: split_paired_All) (metis append_is_Nil_conv)
qed (auto simp: pipe_ends_def collected_def simp del: split_paired_All split_paired_Ex split: option.splits if_splits)

lemma pipe_step_inv: "pipe_step env s ev s' \<Longrightarrow> pipe_inv env acts tr s \<Longrightarrow> pipe_inv env acts (tr @ [ev]) s'"
  unfolding pipe_inv_def using pipe_step_bytes pipe_step_ends by blast

interpretation pipes: traced_invariant "pipe_step env" "pipe_inv env acts" for env acts
  by unfold_locales (rule pipe_step_inv)

lemma pipe_run_inv: "pipe_run env (piped_start acts) tr s \<Longrightarrow> pipe_inv env acts tr s"
  by (erule pipes.traced_inv) (rule pipe_inv_start)

text \<open>C19. What the call returns is what was written. With the output of a command it returns exactly the bytes written to each
  pipe, in order, however the threads interleave and however small the pipes are; the child has exited by itself with the
  status returned, everything it wrote is among these bytes, and no background process holds a pipe any more.\<close>

theorem command_output_exact:
  assumes "pipe_run env (piped_start acts) tr s" "pw_main s = MT_Over (Ok (Some ou))"
  shows "ou_stdout ou = written P_Out tr \<and> ou_stderr ou = written P_Err tr \<and> (ou_success ou, ou_status ou) = pe_status env
    \<and> (\<forall>p. child_wrote p tr = writes p acts) \<and> pw_heirs s = 0"
proof -
  from pipe_run_inv [OF assms(1)] assms(2) have inv: "pipe_inv env acts tr s" "pw_done s P_Out" "pw_done s P_Err"
    "ou = collected (pe_status env) (pw_buf s)" by (auto simp: pipe_inv_def pipe_ends_def)
  then have e: "pw_pipe s P_Out = []" "pw_pipe s P_Err = []" "pw_heirs s = 0" "pw_exited s \<noteq> None"
    by (auto simp: pipe_inv_def pipe_ends_def)
  with inv(1) assms(2) have "pw_todo s = []" by (auto simp: pipe_inv_def pipe_ends_def)
  moreover have b: "pw_buf s p @ pw_pipe s p = written p tr" "child_wrote p tr @ writes p (pw_todo s) = writes p acts" for p
    using inv(1) by (simp_all add: pipe_inv_def pipe_bytes_def)
  ultimately show ?thesis using e b(1) [of P_Out] b(1) [of P_Err] inv(4) by (simp add: collected_def)
qed

section \<open>A chatty child cannot block\<close>

lemma drain_step:
  assumes "pw_pipe s p \<noteq> []" "\<not> pw_done s p"
  shows "pipe_step env s (PV_Read p (pw_pipe s p)) (s\<lparr>pw_pipe := (pw_pipe s)(p := []), pw_buf := (pw_buf s)(p := pw_buf s p @ pw_pipe s p)\<rparr>)"
  using pipe_step.read [of s p "pw_pipe s p" "[]"] assms by simp

text \<open>Steps of the child and of the two draining threads.\<close>

definition io_event :: "pipe_event \<Rightarrow> bool" where
  "io_event ev \<longleftrightarrow> (case ev of PV_Wrote _ _ \<Rightarrow> True | PV_Forked \<Rightarrow> True | PV_Exited \<Rightarrow> True | PV_Read _ _ \<Rightarrow> True | _ \<Rightarrow> False)"

lemma io_event_simps [simp]: "io_event (PV_Wrote p c)" "io_event PV_Forked" "io_event PV_Exited" "io_event (PV_Read p xs)"
  by (simp_all add: io_event_def)

lemma child_writes:
  assumes "0 < pe_cap env" "pw_exited s = None" "\<forall>p. \<not> pw_done s p" "pw_todo s = CA_Write p c # acts"
  shows "\<exists>tr s'. pipe_run env s tr s' \<and> list_all io_event tr \<and> length tr \<le> 2 \<and> pw_exited s' = None \<and> (\<forall>p. \<not> pw_done s' p)
    \<and> pw_todo s' = acts \<and> pw_main s' = pw_main s \<and> pw_clock s' = pw_clock s \<and> pw_heirs s' = pw_heirs s"
proof (cases "pw_pipe s p = []")
  case True
  from pipe_step.wrote [OF assms(2,4), of env] True assms(1)
  have "pipe_step env s (PV_Wrote p c) (s\<lparr>pw_todo := acts, pw_pipe := (pw_pipe s)(p := [c])\<rparr>)" by simp
  with assms show ?thesis
    by (intro exI [of _ "[PV_Wrote p c]"] exI [of _ "s\<lparr>pw_todo := acts, pw_pipe := (pw_pipe s)(p := [c])\<rparr>"])
      (auto intro: traced_cons traced.start)
next
  case False
  let ?s1 = "s\<lparr>pw_pipe := (pw_pipe s)(p := []), pw_buf := (pw_buf s)(p := pw_buf s p @ pw_pipe s p)\<rparr>"
  have "pipe_step env s (PV_Read p (pw_pipe s p)) ?s1" using drain_step False assms(3) by blast
  moreover have "pipe_step env ?s1 (PV_Wrote p c) (?s1\<lparr>pw_todo := acts, pw_pipe := (pw_pipe ?s1)(p := [c])\<rparr>)"
    using pipe_step.wrote [of ?s1 p c acts env] assms by simp
  ultimately show ?thesis using assms
    by (intro exI [of _ "[PV_Read p (pw_pipe s p), PV_Wrote p c]"] exI [of _ "?s1\<lparr>pw_todo := acts, pw_pipe := (pw_pipe ?s1)(p := [c])\<rparr>"])
      (auto intro: traced_cons traced.start)
qed

lemma child_finishes:
  assumes "0 < pe_cap env" "pw_exited s = None" "\<forall>p. \<not> pw_done s p"
  shows "\<exists>tr s'. pipe_run env s tr s' \<and> list_all io_event tr \<and> length tr \<le> 2 * length (pw_todo s) + 1
    \<and> pw_exited s' = Some (pe_status env) \<and> pw_main s' = pw_main s \<and> pw_clock s' = pw_clock s
    \<and> pw_heirs s' = pw_heirs s + length (filter (\<lambda>a. a = CA_Fork) (pw_todo s)) \<and> (\<forall>p. \<not> pw_done s' p)"
  using assms(2,3)
proof (induction "pw_todo s" arbitrary: s)
  case Nil
  from pipe_step.exited [of s env] Nil show ?case
    by (intro exI [of _ "[PV_Exited]"] exI [of _ "s\<lparr>pw_exited := Some (pe_status env)\<rparr>"]) (auto intro: traced_cons traced.start)
next
  case (Cons a acts)
  have "\<exists>tr s1. pipe_run env s tr s1 \<and> list_all io_event tr \<and> length tr \<le> 2 \<and> pw_exited s1 = None \<and> (\<forall>p. \<not> pw_done s1 p)
    \<and> pw_todo s1 = acts \<and> pw_main s1 = pw_main s \<and> pw_clock s1 = pw_clock s
    \<and> pw_heirs s1 = pw_heirs s + length (filter (\<lambda>a. a = CA_Fork) [a])"
  proof (cases a)
    case (CA_Write p c)
    with child_writes [OF assms(1) Cons.prems, of p c acts] Cons.hyps(2) show ?thesis by auto
  next
    case CA_Fork
    with pipe_step.forked [of s acts env] Cons show ?thesis
      by (intro exI [of _ "[PV_Forked]"] exI [of _ "s\<lparr>pw_todo := acts, pw_heirs := Suc (pw_heirs s)\<rparr>"]) (auto intro: traced_cons traced.start)
  qed
  then obtain tr1 s1 where s1: "pipe_run env s tr1 s1" "list_all io_event tr1" "length tr1 \<le> 2" "pw_exited s1 = None" "\<forall>p. \<not> pw_done s1 p"
    "pw_todo s1 = acts" "pw_main s1 = pw_main s" "pw_clock s1 = pw_clock s"
    "pw_heirs s1 = pw_heirs s + length (filter (\<lambda>a. a = CA_Fork) [a])" by blast
  from Cons.hyps(1) [of s1] s1 obtain tr2 s2 where s2: "pipe_run env s1 tr2 s2" "list_all io_event tr2" "length tr2 \<le> 2 * length acts + 1"
    "pw_exited s2 = Some (pe_status env)" "pw_main s2 = pw_main s1" "pw_clock s2 = pw_clock s1"
    "pw_heirs s2 = pw_heirs s1 + length (filter (\<lambda>a. a = CA_Fork) acts)" "\<forall>p. \<not> pw_done s2 p" by auto
  from traced_append [OF s1(1) s2(1)] s1 s2 Cons.hyps(2) [symmetric] show ?case
    by (intro exI [of _ "tr1 @ tr2"] exI [of _ s2]) auto
qed

text \<open>A child that writes more than its pipes hold is never blocked for good: from every point of every run in which it has
  not exited, it comes to its exit by its own steps and reads of the draining threads alone, at most one read before
  each write. Nothing the calling thread does is needed for it.\<close>

theorem chatty_child_exits:
  assumes "0 < pe_cap env" "pipe_run env (piped_start acts) tr s" "pw_exited s = None"
  shows "\<exists>tr' s'. pipe_run env s tr' s' \<and> list_all io_event tr' \<and> length tr' \<le> 2 * length (pw_todo s) + 1
    \<and> pw_exited s' = Some (pe_status env)"
proof -
  from pipe_run_inv [OF assms(2)] assms(3) have "\<forall>p. \<not> pw_done s p" by (auto simp: pipe_inv_def pipe_ends_def)
  from child_finishes [OF assms(1,3) this] show ?thesis by blast
qed

section \<open>The call returns\<close>

lemma drain_ends:
  assumes "pw_exited s \<noteq> None" "pw_heirs s = 0"
  shows "\<exists>tr s'. pipe_run env s tr s' \<and> pw_done s' = (pw_done s)(p := True) \<and> pw_exited s' = pw_exited s \<and> pw_heirs s' = 0
    \<and> pw_main s' = pw_main s \<and> pw_clock s' = pw_clock s"
proof -
  let ?s1 = "s\<lparr>pw_pipe := (pw_pipe s)(p := []), pw_buf := (pw_buf s)(p := pw_buf s p @ pw_pipe s p)\<rparr>"
  have eof: "pipe_step env r (PV_Eof p) (r\<lparr>pw_done := (pw_done r)(p := True)\<rparr>)"
    if "pw_pipe r p = []" "pw_exited r = pw_exited s" "pw_heirs r = 0" "\<not> pw_done r p" for r
    using pipe_step.eof [of r p env] that assms by simp
  consider "pw_done s p" | "\<not> pw_done s p" "pw_pipe s p = []" | "\<not> pw_done s p" "pw_pipe s p \<noteq> []" by blast
  then show ?thesis
  proof cases
    case 1
    then have "pw_done s = (pw_done s)(p := True)" by (simp add: fun_eq_iff)
    with assms show ?thesis by (intro exI [of _ "[]"] exI [of _ s]) (auto intro: traced.start)
  next
    case 2
    from eof [of s] 2 assms show ?thesis
      by (intro exI [of _ "[PV_Eof p]"] exI [of _ "s\<lparr>pw_done := (pw_done s)(p := True)\<rparr>"]) (auto intro: traced_cons traced.start)
  next
    case 3
    from drain_step [of s p env] eof [of ?s1] 3 assms show ?thesis
      by (intro exI [of _ "[PV_Read p (pw_pipe s p), PV_Eof p]"] exI [of _ "?s1\<lparr>pw_done := (pw_done ?s1)(p := True)\<rparr>"])
        (auto intro!: traced_cons traced.start)
  qed
qed

lemma joins_end:
  assumes "pw_main s = MT_Wait" "pw_exited s = Some st" "pw_heirs s = 0"
  shows "\<exists>tr s' ou. pipe_run env s tr s' \<and> pw_main s' = MT_Over (Ok (Some ou)) \<and> pw_clock s' = pw_clock s"
proof -
  from drain_ends [of s env P_Out] assms obtain tr1 s1 where s1: "pipe_run env s tr1 s1" "pw_done s1 P_Out"
    "pw_exited s1 = Some st" "pw_heirs s1 = 0" "pw_main s1 = MT_Wait" "pw_clock s1 = pw_clock s" by auto
  from drain_ends [of s1 env P_Err] s1 obtain tr2 s2 where s2: "pipe_run env s1 tr2 s2" "pw_done s2 P_Out" "pw_done s2 P_Err"
    "pw_exited s2 = Some st" "pw_main s2 = MT_Wait" "pw_clock s2 = pw_clock s" by auto
  let ?s3 = "s2\<lparr>pw_main := MT_Join P_Out st\<rparr>" and ?s4 = "s2\<lparr>pw_main := MT_Join P_Err st\<rparr>"
  let ?s5 = "s2\<lparr>pw_main := MT_Over (Ok (Some (collected st (pw_buf s2))))\<rparr>"
  have "pipe_step env s2 PV_Polled ?s3" by (rule pipe_step.poll_exited [OF s2(5,4)])
  moreover have "pipe_step env ?s3 (PV_Joined P_Out) ?s4" using pipe_step.joined_out [of ?s3 st env] s2(2) by simp
  moreover have "pipe_step env ?s4 (PV_Joined P_Err) ?s5" using pipe_step.joined_err [of ?s4 st env] s2(3) by simp
  ultimately have "pipe_run env s2 [PV_Polled, PV_Joined P_Out, PV_Joined P_Err] ?s5" by (intro traced_cons) (auto intro: traced.start)
  from traced_append [OF s1(1) traced_append [OF s2(1) this]] s2(6) show ?thesis by fastforce
qed


section \<open>Background processes and the time limit\<close>

text \<open>The calling thread joins the draining thread of standard output while a background process holds that pipe.\<close>

definition held :: "piped \<Rightarrow> bool" where
  "held s \<longleftrightarrow> (\<exists>st. pw_main s = MT_Join P_Out st \<and> pw_exited s = Some st) \<and> 0 < pw_heirs s \<and> \<not> pw_done s P_Out"

lemma held_step: "pipe_step env s ev s' \<Longrightarrow> held s \<Longrightarrow> ev \<noteq> PV_HeirClosed \<Longrightarrow> held s'"
  by (induction rule: pipe_step.induct) (auto simp: held_def)

lemma held_run: "pipe_run env s tr s' \<Longrightarrow> held s \<Longrightarrow> PV_HeirClosed \<notin> set tr \<Longrightarrow> held s'"
  by (induction rule: traced.induct) (auto intro: held_step)

text \<open>The time limit covers the child only. A command that starts a background process and exits at once is seen to exit, and
  then the call joins the draining threads, which wait for the background process to close the pipes: at any later
  time, past every time limit, the call has not returned, and it does not return until that process lets go.\<close>

lemma call_outlives_timeout:
  "\<exists>tr s. pipe_run env (piped_start [CA_Fork]) tr s \<and> pw_clock s = pe_timeout env + late
     \<and> (\<forall>tr' s'. pipe_run env s tr' s' \<longrightarrow> PV_HeirClosed \<notin> set tr' \<longrightarrow> (\<forall>r. pw_main s' \<noteq> MT_Over r))"
proof -
  let ?s0 = "piped_start [CA_Fork]" and ?d = "pe_timeout env + late"
  let ?s1 = "?s0\<lparr>pw_todo := [], pw_heirs := 1\<rparr>"
  let ?s2 = "?s1\<lparr>pw_exited := Some (pe_status env)\<rparr>"
  let ?s3 = "?s2\<lparr>pw_main := MT_Join P_Out (pe_status env)\<rparr>"
  let ?s4 = "?s3\<lparr>pw_clock := ?d\<rparr>"
  have "pipe_step env ?s0 PV_Forked ?s1" using pipe_step.forked [of ?s0 "[]" env] by (simp add: piped_start_def)
  moreover have "pipe_step env ?s1 PV_Exited ?s2" by (rule pipe_step.exited) (simp_all add: piped_start_def)
  moreover have "pipe_step env ?s2 PV_Polled ?s3" by (rule pipe_step.poll_exited) (simp_all add: piped_start_def)
  moreover have "pipe_step env ?s3 (PV_Tick ?d) ?s4" using pipe_step.tick [of env ?s3 ?d] by (simp add: piped_start_def)
  ultimately have "pipe_run env ?s0 [PV_Forked, PV_Exited, PV_Polled, PV_Tick ?d] ?s4"
    by (intro traced_cons) (auto intro: traced.start)
  moreover have "held ?s4" by (simp add: held_def piped_start_def)
  then have "\<forall>r. pw_main s' \<noteq> MT_Over r" if "pipe_run env ?s4 tr' s'" "PV_HeirClosed \<notin> set tr'" for tr' s'
    using held_run [OF that(1) _ that(2)] by (auto simp: held_def)
  ultimately show ?thesis by (intro exI [of _ "[PV_Forked, PV_Exited, PV_Polled, PV_Tick ?d]"] exI [of _ ?s4]) auto
qed

section \<open>A child that writes more than a pipe holds\<close>

definition small_pipes :: pipe_env where
  "small_pipes = \<lparr>pe_cap = 1, pe_timeout = COMMAND_TIMEOUT, pe_status = (True, ''exit status: 0''), pe_killed = (False, ''signal: 9'')\<rparr>"

definition chatty :: "child_act list" where
  "chatty = [CA_Write P_Out CHR ''a'', CA_Write P_Out CHR ''b'']"

lemma chatty_start: "pw_exited (piped_start chatty) = None" "\<forall>p. \<not> pw_done (piped_start chatty) p" "0 < pe_cap small_pipes"
  by (simp_all add: piped_start_def small_pipes_def)

theorem command_output_exact_witness:
  "\<exists>tr s ou. pipe_run small_pipes (piped_start chatty) tr s \<and> pw_main s = MT_Over (Ok (Some ou)) \<and> child_wrote P_Out tr = ''ab''
     \<and> ou_stdout ou = written P_Out tr"
proof -
  from child_finishes [OF chatty_start(3,1,2)] obtain tr1 s1 where s1: "pipe_run small_pipes (piped_start chatty) tr1 s1"
    "pw_exited s1 = Some (pe_status small_pipes)" "pw_main s1 = MT_Wait" "pw_heirs s1 = 0"
    by (auto simp: piped_start_def chatty_def)
  from joins_end [OF s1(3,2,4), of small_pipes] obtain tr2 s2 ou where "pipe_run small_pipes s1 tr2 s2" and m: "pw_main s2 = MT_Over (Ok (Some ou))"
    by blast
  from traced_append [OF s1(1) this(1)] have r: "pipe_run small_pipes (piped_start chatty) (tr1 @ tr2) s2" .
  from command_output_exact [OF r m] r m show ?thesis
    by (intro exI [of _ "tr1 @ tr2"] exI [of _ s2] exI [of _ ou]) (simp add: chatty_def)
qed

theorem chatty_child_exits_witness:
  "\<exists>tr s. pipe_run small_pipes (piped_start chatty) tr s \<and> length tr \<le> 5 \<and> pw_exited s = Some (True, ''exit status: 0'')"
  using chatty_child_exits [OF chatty_start(3) traced.start chatty_start(1)]
  by (auto simp: piped_start_def small_pipes_def chatty_def)


end
