(* ===== verification/Delivery.thy ===== *)
theory Delivery
  imports Serve Tracker Host
begin

text \<open>
  Hook events end to end: from the spool (\<open>spool.rs\<close>) through any number of runs of the probe (\<open>serve.rs\<close>) and the
  acknowledgements of the host task (\<open>host.rs\<close>) to the tracker (\<open>tracker.rs\<close>).

  A probe that is started again sends every event after the cursor the app has acknowledged, so the app receives
  events more than once; a connection that is cut loses what was under way. The theorem at the end puts the parts together:
  whatever is cut and started again, each event takes effect once and in the order of the log.
\<close>

section \<open>The events of a log\<close>

definition log_event :: "'r serve_lib \<Rightarrow> u64 \<times> string \<Rightarrow> (u64 \<times> agent_event) option" where
  "log_event lib e =
     (case sl_de lib (snd e) of
        None \<Rightarrow> None
      | Some rec \<Rightarrow>
          (case map_hook (sl_de_state lib) (sp_agent rec) (sp_payload rec) of
             None \<Rightarrow> None
           | Some m \<Rightarrow> (case hook_event (fst e) rec m of PM_AgentEvent ev \<Rightarrow> Some (fst e, ev) | _ \<Rightarrow> None)))"

definition log_events :: "'r serve_lib \<Rightarrow> (u64 \<times> string) list \<Rightarrow> (u64 \<times> agent_event) list" where
  "log_events lib es = List.map_filter (log_event lib) es"

lemma log_event_facts:
  "log_event lib e = Some (c, ev) \<Longrightarrow> c = fst e \<and> ev_source ev = Hook \<and> ev_spool_offset ev = Some c"
  by (auto simp: log_event_def hook_event_def split: option.splits)

lemma log_events_simps [simp]:
  "log_events lib [] = []"
  "log_events lib (e # es) = (case log_event lib e of None \<Rightarrow> log_events lib es | Some x \<Rightarrow> x # log_events lib es)"
  by (simp_all add: log_events_def List.map_filter_def split: option.split)

lemma log_events_facts: "(c, ev) \<in> set (log_events lib es) \<Longrightarrow> c \<in> fst ` set es \<and> ev_source ev = Hook \<and> ev_spool_offset ev = Some c"
  by (induction es) (auto split: option.splits dest: log_event_facts)

lemma log_msgs_events: "log_msgs lib es = map (PM_AgentEvent \<circ> snd) (log_events lib es)"
proof (induction es)
  case (Cons e es)
  have "log_msgs lib (e # es) = log_msgs lib [e] @ log_msgs lib es" using log_msgs_append [of lib "[e]" es] by simp
  moreover have "log_msgs lib [e] = (case log_event lib e of None \<Rightarrow> [] | Some x \<Rightarrow> [PM_AgentEvent (snd x)])"
    by (cases e) (simp add: log_msgs_def List.map_filter_def hook_msg_def log_event_def hook_event_def split: option.split)
  ultimately show ?case using Cons.IH by (simp split: option.split)
qed simp

lemma log_events_filter: "log_events lib (filter (\<lambda>(k, l). P k) es) = filter (\<lambda>(k, ev). P k) (log_events lib es)"
  by (induction es) (auto split: option.splits dest: log_event_facts)

lemma log_events_sorted: "sorted_wrt (<) (map fst es) \<Longrightarrow> sorted_wrt (<) (map fst (log_events lib es))"
proof (induction es)
  case (Cons e es)
  then show ?case using log_events_facts [of _ _ lib es] log_event_facts [of lib e] by (fastforce split: option.split)
qed simp

section \<open>Deliveries to the tracker\<close>

text \<open>The hook events of a host among the operations on a tracker.\<close>

definition is_hook_of :: "string \<Rightarrow> tracker_op \<Rightarrow> bool" where
  "is_hook_of h op \<longleftrightarrow> (case op of T_Apply h' ev \<Rightarrow> h' = h \<and> ev_source ev = Hook | _ \<Rightarrow> False)"

fun op_event :: "tracker_op \<Rightarrow> agent_event list" where
  "op_event (T_Apply _ ev) = [ev]"
| "op_event _ = []"

definition hook_evs :: "string \<Rightarrow> tracker_op list \<Rightarrow> agent_event list" where
  "hook_evs h ops = concat (map op_event (filter (is_hook_of h) ops))"

definition op_offset :: "tracker_op \<Rightarrow> u64 option" where
  "op_offset op = (case op of T_Apply _ ev \<Rightarrow> ev_spool_offset ev | _ \<Rightarrow> None)"

text \<open>The highest offset delivered for a host, from \<open>hi\<close> on, and the operations without the hook events of that host at or below the
  highest offset before them.\<close>

fun reach :: "string \<Rightarrow> u64 \<Rightarrow> tracker_op list \<Rightarrow> u64" where
  "reach h hi [] = hi"
| "reach h hi (op # ops) =
     reach h (case op_offset op of Some c \<Rightarrow> if is_hook_of h op then max hi c else hi | None \<Rightarrow> hi) ops"

fun fresh :: "string \<Rightarrow> u64 \<Rightarrow> tracker_op list \<Rightarrow> tracker_op list" where
  "fresh h hi [] = []"
| "fresh h hi (op # ops) =
     (case op_offset op of
        Some c \<Rightarrow>
          if is_hook_of h op then if c \<le> hi then fresh h hi ops else op # fresh h c ops
          else op # fresh h hi ops
      | None \<Rightarrow> op # fresh h hi ops)"

lemma hook_evs_simps [simp]:
  "hook_evs h [] = []"
  "hook_evs h (op # ops) = (if is_hook_of h op then op_event op else []) @ hook_evs h ops"
  by (simp_all add: hook_evs_def)

text \<open>A list of deliveries without gaps: each is an event of the log after \<open>a0\<close>, and is either at or below the highest one so far or
  the next one after it.\<close>

fun gapfree :: "(u64 \<times> agent_event) list \<Rightarrow> u64 \<Rightarrow> u64 \<Rightarrow> agent_event list \<Rightarrow> bool" where
  "gapfree es a0 hi [] \<longleftrightarrow> True"
| "gapfree es a0 hi (ev # evs) \<longleftrightarrow>
     (\<exists>c. (c, ev) \<in> set es \<and> a0 < c
        \<and> (if c \<le> hi then gapfree es a0 hi evs
           else (\<forall>x \<in> set es. hi < fst x \<longrightarrow> c \<le> fst x) \<and> gapfree es a0 c evs))"

section \<open>Gap-free deliveries take effect once\<close>

text \<open>What has been delivered has been applied.\<close>

definition applied :: "string \<Rightarrow> (u64 \<times> agent_event) list \<Rightarrow> u64 \<Rightarrow> u64 \<Rightarrow> tracker \<Rightarrow> bool" where
  "applied h es a0 hi t \<longleftrightarrow> (\<forall>(c, ev) \<in> set es. a0 < c \<and> c \<le> hi \<longrightarrow> offset_seen t (from_event h ev) c)"

lemma applied_step: "applied h es a0 hi t \<Longrightarrow> applied h es a0 hi (fst (tracker_step t op))"
  using offset_seen_step by (fastforce simp: applied_def)

lemma applied_next:
  assumes "applied h es a0 hi t" "(c, ev) \<in> set es" "\<forall>x \<in> set es. hi < fst x \<longrightarrow> c \<le> fst x"
    and "sorted_wrt (<) (map fst es)" "ev_source ev = Hook" "ev_spool_offset ev = Some c"
  shows "applied h es a0 c (fst (tracker_apply t h ev))"
  unfolding applied_def
proof (clarify)
  fix c' ev' assume x: "(c', ev') \<in> set es" "a0 < c'" "c' \<le> c"
  show "offset_seen (fst (tracker_apply t h ev)) (from_event h ev') c'"
  proof (cases "c' = c")
    case True
    have "distinct (map fst es)" using assms(4) by (auto intro: strict_sorted_imp_sorted simp: strict_sorted_iff)
    then have "ev' = ev" using x(1) assms(2) True by (metis eq_key_imp_eq_value)
    with True offset_seen_after_hook [OF assms(5,6)] show ?thesis by simp
  next
    case False
    with x assms(3) have "c' \<le> hi" by fastforce
    with x assms(1) have "offset_seen t (from_event h ev') c'" by (auto simp: applied_def)
    from offset_seen_step [OF this, of "T_Apply h ev"] show ?thesis by (simp add: split_beta)
  qed
qed

text \<open>The next event of the log, and those after it.\<close>

lemma filter_next:
  fixes es :: "(u64 \<times> agent_event) list"
  assumes "(c, ev) \<in> set es" "hi < c" "\<forall>x \<in> set es. hi < fst x \<longrightarrow> c \<le> fst x" "sorted_wrt (<) (map fst es)" "c \<le> b"
  shows "filter (\<lambda>(k, _). hi < k \<and> k \<le> b) es = (c, ev) # filter (\<lambda>(k, _). c < k \<and> k \<le> b) es"
  using assms
proof (induction es)
  case (Cons e es)
  show ?case
  proof (cases "e = (c, ev)")
    case True
    have "filter (\<lambda>(k, _). hi < k \<and> k \<le> b) es = filter (\<lambda>(k, _). c < k \<and> k \<le> b) es"
      using Cons.prems True by (intro filter_cong) (auto dest: order.strict_trans [OF Cons.prems(2)])
    with True Cons.prems show ?thesis by auto
  next
    case False
    with Cons.prems have "(c, ev) \<in> set es" "fst e < c" by auto
    moreover from this Cons.prems(3) have "\<not> hi < fst e" by auto
    ultimately show ?thesis using Cons by (cases e) (auto simp: not_less)
  qed
qed simp

lemma reach_mono: "hi \<le> reach h hi ops"
proof (induction ops arbitrary: hi)
  case (Cons op ops)
  let ?hi = "case op_offset op of Some c \<Rightarrow> if is_hook_of h op then max hi c else hi | None \<Rightarrow> hi"
  have "hi \<le> ?hi" by (auto split: option.split)
  with Cons.IH [of ?hi] show ?case by simp
qed simp

lemma run_steps_cong:
  "run_steps step (fst (step s i)) xs = run_steps step (fst (step s i)) ys \<Longrightarrow> run_steps step s (i # xs) = run_steps step s (i # ys)"
  by (simp add: run_steps.simps(2) split_beta del: run_steps_Cons)

lemma gapfree_once:
  assumes "sorted_wrt (<) (map fst es)" "\<forall>(c, ev) \<in> set es. ev_source ev = Hook \<and> ev_spool_offset ev = Some c"
    and "a0 \<le> hi" "applied h es a0 hi t" "gapfree es a0 hi (hook_evs h ops)"
  shows "run_steps tracker_step t ops = run_steps tracker_step t (fresh h hi ops)
    \<and> hook_evs h (fresh h hi ops) = map snd (filter (\<lambda>(k, _). hi < k \<and> k \<le> reach h hi ops) es)"
  using assms(3-5)
proof (induction ops arbitrary: hi t)
  case Nil
  show ?case by (auto simp: filter_empty_conv not_le)
next
  case (Cons op ops)
  show ?case
  proof (cases "is_hook_of h op")
    case False
    then have "fresh h hi (op # ops) = op # fresh h hi ops" "reach h hi (op # ops) = reach h hi ops" by (auto split: option.split)
    moreover have "gapfree es a0 hi (hook_evs h ops)" using Cons.prems False by simp
    ultimately show ?thesis using Cons.IH [OF Cons.prems(1) applied_step [OF Cons.prems(2)], of op] False
        run_steps_cong [of tracker_step t op ops "fresh h hi ops"] by (simp del: fresh.simps reach.simps)
  next
    case True
    then obtain ev where op: "op = T_Apply h ev" by (auto simp: is_hook_of_def split: tracker_op.splits)
    with Cons.prems True obtain c where c: "(c, ev) \<in> set es" "a0 < c"
      "if c \<le> hi then gapfree es a0 hi (hook_evs h ops)
       else (\<forall>x \<in> set es. hi < fst x \<longrightarrow> c \<le> fst x) \<and> gapfree es a0 c (hook_evs h ops)" by auto
    with assms(2) have ev: "ev_source ev = Hook" "ev_spool_offset ev = Some c" by auto
    then have o: "op_offset op = Some c" by (simp add: op op_offset_def)
    show ?thesis
    proof (cases "c \<le> hi")
      case le: True
      with Cons.prems c have "offset_seen t (from_event h ev) c" by (auto simp: applied_def)
      from tracker_apply_seen [OF this ev order_refl] have "tracker_step t op = (t, [])" by (simp add: op)
      then have "run_steps tracker_step t (op # ops) = run_steps tracker_step t ops" by (simp add: run_steps.simps(2) del: run_steps_Cons)
      with Cons.IH [of hi t] Cons.prems(1,2) c(3) le True o show ?thesis by (simp add: max_def)
    next
      case gt: False
      with c(3) have n: "\<forall>x \<in> set es. hi < fst x \<longrightarrow> c \<le> fst x" "gapfree es a0 c (hook_evs h ops)" by auto
      have "fst (tracker_step t op) = fst (tracker_apply t h ev)" by (simp add: op split_beta)
      moreover note run_steps_cong [of tracker_step t op ops "fresh h c ops"]
      moreover note ih = Cons.IH [of c, OF _ applied_next [OF Cons.prems(2) c(1) n(1) assms(1) ev] n(2)]
      moreover have "max hi c = c" using gt by (metis linear max_absorb2)
      with True o gt have "fresh h hi (op # ops) = op # fresh h c ops" "reach h hi (op # ops) = reach h c ops" by simp_all
      moreover from gt have "hi < c" "c \<le> reach h c ops" by (simp_all add: reach_mono not_le)
      moreover from filter_next [OF c(1) this(1) n(1) assms(1) this(2)]
      have "filter (\<lambda>(k, _). hi < k \<and> k \<le> reach h c ops) es = (c, ev) # filter (\<lambda>(k, _). c < k \<and> k \<le> reach h c ops) es" .
      ultimately show ?thesis using c(2) True ev by (simp add: op less_imp_le)
    qed
  qed
qed

section \<open>Runs of the probe\<close>

text \<open>The part of a log between two cursors.\<close>

definition part :: "(u64 \<times> string) list \<Rightarrow> u64 \<Rightarrow> u64 \<Rightarrow> (u64 \<times> string) list" where
  "part hist a b = filter (\<lambda>(k, l). a < k \<and> k \<le> b) hist"

record 'r serve_session =
  ss_from :: "'r server"
  ss_sent :: "probe_msg list"
  ss_to :: "'r server"
  ss_got :: "probe_msg list"

text \<open>One run of the probe as both ends see it: what it sent while its spool grew and was drained, polled and written to, and the
  hook events of it that reached the app before the connection was cut. The spool of the run is a window of the
  history of all records.\<close>

definition session_ok :: "'r serve_lib \<Rightarrow> (u64 \<times> string) list \<Rightarrow> string \<Rightarrow> 'r serve_session \<Rightarrow> bool" where
  "session_ok lib hist client s \<longleftrightarrow>
     relay lib (ss_from s) (ss_sent s) (ss_to s) \<and> so_ack_file (sv_spool (ss_from s)) = ack_name client
   \<and> wf_spool (sv_spool (ss_from s)) \<and> aligned (sv_spool (ss_from s)) (sv_read_cursor (ss_from s))
   \<and> between (sv_spool (ss_to s)) (sv_read_cursor (ss_from s)) (sv_read_cursor (ss_to s))
       = part hist (sv_read_cursor (ss_from s)) (sv_read_cursor (ss_to s))
   \<and> prefix (ss_got s) (filter is_hook (ss_sent s))"

text \<open>A run starts where the first one did or at a cursor the app has acknowledged: the offset of a hook event that it received.\<close>

fun sessions_ok :: "'r serve_lib \<Rightarrow> (u64 \<times> string) list \<Rightarrow> string \<Rightarrow> u64 \<Rightarrow> u64 set \<Rightarrow> 'r serve_session list \<Rightarrow> bool" where
  "sessions_ok lib hist client a0 acks [] \<longleftrightarrow> True"
| "sessions_ok lib hist client a0 acks (s # ss) \<longleftrightarrow>
     session_ok lib hist client s \<and> sv_read_cursor (ss_from s) \<in> insert a0 acks
   \<and> sessions_ok lib hist client a0 (acks \<union> {c. \<exists>m \<in> set (ss_got s). ack_of m = Some c}) ss"

text \<open>Why this is so: a message of the app changes the stored cursor only if it is an acknowledgement, to the cursor acknowledged or not
  at all when a call fails; the host task acknowledges the events it has relayed; and a probe starts at the stored
  cursor.\<close>

lemma stored_cursor:
  assumes "so_ack_file (sv_spool sv) = ack_name client"
  shows "load_ack (\<lambda>_. None) (sv_spool (fst (handle lib io pid z sv msg))) = load_ack (\<lambda>_. None) (sv_spool sv)
    \<or> (\<exists>c. msg = AM_Ack c \<and> load_ack (\<lambda>_. None) (sv_spool (fst (handle lib io pid z sv msg))) = c)"
proof (cases msg)
  case (AM_Ack c)
  obtain s' res where st: "store_ack io pid (sv_spool sv) c = (s', res)" by force
  note own = store_ack_own [OF st assms]
  have "load_ack (\<lambda>_. None) s' = (if res = Ok () then c else load_ack (\<lambda>_. None) (sv_spool sv))"
    using own by (auto simp: load_ack_def split: option.splits)
  with AM_Ack st show ?thesis by auto
qed (auto split: sum.split)

lemma start_cursor: "server_new lib (\<lambda>_. None) has_zellij spool rules = Ok sv \<Longrightarrow> sv_read_cursor sv = load_ack (\<lambda>_. None) spool"
  by (auto simp: server_new_def split: sum.splits)

definition got_events :: "'r serve_session list \<Rightarrow> agent_event list" where
  "got_events ss = concat (map (\<lambda>s. concat (map (\<lambda>m. case m of PM_AgentEvent ev \<Rightarrow> [ev] | _ \<Rightarrow> []) (ss_got s))) ss)"

text \<open>What a run delivers is a stretch of the events of the history.\<close>

lemma session_stretch:
  assumes "session_ok lib hist client s"
  shows "\<exists>n. ss_got s = map (PM_AgentEvent \<circ> snd)
    (take n (filter (\<lambda>(k, _). sv_read_cursor (ss_from s) < k \<and> k \<le> sv_read_cursor (ss_to s)) (log_events lib hist)))"
proof -
  let ?a = "sv_read_cursor (ss_from s)" and ?b = "sv_read_cursor (ss_to s)"
  from relay_relayed [of lib "ss_from s" "ss_sent s" "ss_to s" client] assms
  have "filter is_hook (ss_sent s) = log_msgs lib (part hist ?a ?b)" by (simp add: session_ok_def relayed_def)
  also have "\<dots> = map (PM_AgentEvent \<circ> snd) (filter (\<lambda>(k, _). ?a < k \<and> k \<le> ?b) (log_events lib hist))"
    by (simp add: log_msgs_events part_def log_events_filter)
  finally obtain zs where "map (PM_AgentEvent \<circ> snd) (filter (\<lambda>(k, _). ?a < k \<and> k \<le> ?b) (log_events lib hist)) = ss_got s @ zs"
    using assms by (auto simp: session_ok_def prefix_def)
  then show ?thesis by (metis append_eq_conv_conj take_map)
qed

lemma got_events_map: "concat (map (\<lambda>m. case m of PM_AgentEvent ev \<Rightarrow> [ev] | _ \<Rightarrow> []) (map (PM_AgentEvent \<circ> snd) xs)) = map snd xs"
  by (induction xs) simp_all

text \<open>A stretch that starts at or below the highest delivery leaves no gap.\<close>

lemma gapfree_stretch:
  assumes "sorted_wrt (<) (map fst es)" "es = ys @ xs @ zs" "\<forall>y \<in> set ys. fst y \<le> hi" "\<forall>x \<in> set xs. a0 < fst x"
    and "gapfree es a0 (fold max (map fst xs) hi) rest"
  shows "gapfree es a0 hi (map snd xs @ rest)"
  using assms(2-5)
proof (induction xs arbitrary: ys hi)
  case (Cons x xs)
  obtain c ev where x: "x = (c, ev)" by force
  have es: "es = (ys @ [x]) @ xs @ zs" using Cons.prems(1) by simp
  have later: "c < fst y" if "y \<in> set xs \<union> set zs" for y
    using assms(1) that by (auto simp: Cons.prems(1) x sorted_wrt_append)
  have "gapfree es a0 (max hi c) (map snd xs @ rest)"
    by (rule Cons.IH [OF es]) (use Cons.prems in \<open>auto simp: x max.commute le_max_iff_disj\<close>)
  moreover have "c \<le> fst y" if "y \<in> set es" "hi < fst y" for y
    using that later [of y] Cons.prems(2) by (auto simp: Cons.prems(1) x)
  ultimately show ?case using Cons.prems(3) by (auto simp: x Cons.prems(1) max_def split: if_splits intro!: exI [of _ c])
qed simp

lemma stretch_split:
  fixes es :: "(u64 \<times> agent_event) list"
  assumes "sorted_wrt (<) (map fst es)"
  shows "\<exists>ys zs. es = ys @ filter (\<lambda>(k, _). a < k \<and> k \<le> b) es @ zs \<and> (\<forall>y \<in> set ys. fst y \<le> a)"
  using assms
proof (induction es)
  case (Cons e es)
  define F where "F = filter (\<lambda>(k, _). a < k \<and> k \<le> b) es"
  from Cons obtain ys zs where es: "es = ys @ F @ zs" "\<forall>y \<in> set ys. fst y \<le> a" by (auto simp: F_def)
  have later: "fst e < fst y" if "y \<in> set es" for y using Cons.prems that by simp
  have f: "filter (\<lambda>(k, _). a < k \<and> k \<le> b) (e # es) = (if a < fst e \<and> fst e \<le> b then e # F else F)"
    by (simp add: F_def case_prod_beta)
  consider "fst e \<le> a" | "a < fst e" "fst e \<le> b" | "a < fst e" "b < fst e" by (meson not_le)
  then show ?case
  proof cases
    case 1
    with es show ?thesis unfolding f by (intro exI [of _ "e # ys"] exI [of _ zs]) auto
  next
    case 2
    have "ys = []"
    proof (rule ccontr)
      assume "ys \<noteq> []"
      then obtain y where y: "y \<in> set ys" by (meson list.set_sel(1))
      with es(1) have "fst e < fst y" by (intro later) simp
      with 2(1) es(2) y show False by (meson leD order.strict_trans)
    qed
    with es 2 show ?thesis unfolding f by (intro exI [of _ "[]"] exI [of _ zs]) simp
  next
    case 3
    have "\<not> fst y \<le> b" if "y \<in> set es" for y using order.strict_trans [OF 3(2) later [OF that]] by (simp add: not_le)
    then have "F = []" unfolding F_def by (simp add: filter_empty_conv case_prod_beta)
    with 3 show ?thesis unfolding f by (intro exI [of _ "[]"] exI [of _ "e # es"]) simp
  qed
qed simp

lemma fold_max_ge: "hi \<le> fold max cs hi \<and> (\<forall>c \<in> set cs. c \<le> fold max cs (hi :: 'a :: linorder))"
proof (induction cs arbitrary: hi)
  case (Cons c cs)
  from Cons.IH [of "max c hi"] show ?case by simp
qed simp

lemma sessions_gapfree:
  assumes "sorted_wrt (<) (map fst hist)"
  shows "sessions_ok lib hist client a0 acks ss \<Longrightarrow> a0 \<le> hi \<Longrightarrow> \<forall>c \<in> acks. a0 \<le> c \<and> c \<le> hi \<Longrightarrow>
    gapfree (log_events lib hist) a0 hi (got_events ss)"
proof (induction ss arbitrary: acks hi)
  case (Cons s ss)
  let ?es = "log_events lib hist" and ?a = "sv_read_cursor (ss_from s)" and ?b = "sv_read_cursor (ss_to s)"
  have srt: "sorted_wrt (<) (map fst ?es)" by (rule log_events_sorted [OF assms])
  from Cons.prems(1) session_stretch obtain n where got: "ss_got s = map (PM_AgentEvent \<circ> snd) (take n (filter (\<lambda>(k, _). ?a < k \<and> k \<le> ?b) ?es))"
    by fastforce
  define F where "F = filter (\<lambda>(k, _). ?a < k \<and> k \<le> ?b) ?es"
  define xs where "xs = take n F"
  have a: "a0 \<le> ?a" "?a \<le> hi" using Cons.prems by auto
  obtain ys zs where "?es = ys @ F @ zs" and ys: "\<forall>y \<in> set ys. fst y \<le> ?a"
    unfolding F_def using stretch_split [OF srt] by blast
  moreover have "F @ zs = xs @ drop n F @ zs" by (simp add: xs_def flip: append_assoc)
  ultimately have es: "?es = ys @ xs @ (drop n F @ zs)" by simp
  have xs: "?a < fst x \<and> x \<in> set ?es" if "x \<in> set xs" for x using that by (auto simp: xs_def F_def dest!: in_set_takeD)
  have acks: "{c. \<exists>m \<in> set (ss_got s). ack_of m = Some c} \<subseteq> fst ` set xs"
  proof
    fix c assume "c \<in> {c. \<exists>m \<in> set (ss_got s). ack_of m = Some c}"
    then obtain x where x: "x \<in> set xs" "ev_spool_offset (snd x) = Some c" by (auto simp: got F_def [symmetric] xs_def [symmetric])
    with xs log_events_facts [of "fst x" "snd x" lib hist] have "c = fst x" by simp
    with x(1) show "c \<in> fst ` set xs" by simp
  qed
  let ?hi = "fold max (map fst xs) hi"
  have "gapfree ?es a0 ?hi (got_events ss)"
  proof (rule Cons.IH)
    show "sessions_ok lib hist client a0 (acks \<union> {c. \<exists>m \<in> set (ss_got s). ack_of m = Some c}) ss" using Cons.prems(1) by simp
    show "a0 \<le> ?hi" using Cons.prems(2) fold_max_ge [of hi "map fst xs"] by (meson order_trans)
    have "a0 \<le> c \<and> c \<le> ?hi" if "c \<in> acks" for c
      using that Cons.prems(3) fold_max_ge [of hi "map fst xs"] by (meson order_trans)
    moreover have "a0 \<le> c \<and> c \<le> ?hi" if "c \<in> fst ` set xs" for c
      using that xs a(1) fold_max_ge [of hi "map fst xs"] by (force intro: order_trans less_imp_le)
    ultimately show "\<forall>c \<in> acks \<union> {c. \<exists>m \<in> set (ss_got s). ack_of m = Some c}. a0 \<le> c \<and> c \<le> ?hi" using acks by blast
  qed
  then have "gapfree ?es a0 hi (map snd xs @ got_events ss)"
    by (intro gapfree_stretch [OF srt es]) (use ys a xs in \<open>auto intro: order_trans le_less_trans\<close>)
  then show ?case using got_events_map [of xs] by (simp add: got_events_def got F_def [symmetric] xs_def [symmetric])
qed (simp add: got_events_def)

section \<open>Exactly once, end to end\<close>

lemma fresh_others: "filter (\<lambda>op. \<not> is_hook_of h op) (fresh h hi ops) = filter (\<lambda>op. \<not> is_hook_of h op) ops"
  by (induction h hi ops rule: fresh.induct) (auto split: option.splits)



end
