(* ===== verification/Manual_Checks.thy ===== *)
theory Manual_Checks
  imports Connect Secrets Monitor
begin

text \<open>
  The programs for manual checks (\<open>crates/mai-core/examples\<close>): the console prompter, the options and the connector they share
  (\<open>common/mod.rs\<close>, \<open>monitor.rs\<close>, \<open>term.rs\<close>), and the terminal reader of \<open>term.rs\<close> that strips escape sequences.

  The console is the list of the answers it will give, \<open>None\<close> for a failed read. Environment variables, the temporary
  directory and the configuration parser are arguments; a panic is the error of its result.
\<close>

section \<open>The console prompter\<close>

record console =
  cs_lines :: "string option list"
  cs_hidden :: "string option list"

definition nonempty :: "string \<Rightarrow> string option" where
  "nonempty s = (if s = [] then None else Some s)"

definition next_answer :: "string option list \<Rightarrow> string option list \<times> string option" where
  "next_answer as = (case as of [] \<Rightarrow> ([], None) | a # as \<Rightarrow> (as, a))"

definition ask :: "console \<Rightarrow> console \<times> string option" where
  "ask c = (let (as, a) = next_answer (cs_lines c) in (c\<lparr>cs_lines := as\<rparr>, Option.bind a (\<lambda>l. nonempty (trim_end l))))"

definition ask_hidden :: "console \<Rightarrow> console \<times> string option" where
  "ask_hidden c = (let (as, a) = next_answer (cs_hidden c) in (c\<lparr>cs_hidden := as\<rparr>, Option.bind a nonempty))"

definition confirm_host_key :: "console \<Rightarrow> console \<times> bool" where
  "confirm_host_key c =
     (let (c1, a) = ask c in (c1, case a of None \<Rightarrow> False | Some a \<Rightarrow> to_ascii_lowercase a = ''y''))"

definition console_secret :: "console \<Rightarrow> console \<times> secret option" where
  "console_secret c = (let (c1, a) = ask_hidden c in (c1, map_option (\<lambda>v. \<lparr>se_value = v, se_remember = False\<rparr>) a))"

text \<open>The answers of a keyboard-interactive round; the first question without an answer ends it.\<close>

fun console_kbd :: "console \<Rightarrow> kbd_prompt list \<Rightarrow> console \<times> string list option" where
  "console_kbd c [] = (c, Some [])"
| "console_kbd c (p # ps) =
     (case (if kb_echo p then ask c else ask_hidden c) of
        (c1, None) \<Rightarrow> (c1, None)
      | (c1, Some a) \<Rightarrow> (case console_kbd c1 ps of (c2, None) \<Rightarrow> (c2, None) | (c2, Some as) \<Rightarrow> (c2, Some (a # as))))"

text \<open>A round is answered once per prompt, with no empty answer, or not at all.\<close>

lemma console_kbd_answers:
  "console_kbd c ps = (c', Some as) \<Longrightarrow> length as = length ps \<and> [] \<notin> set as"
proof (induction c ps arbitrary: c' as rule: console_kbd.induct)
  case (2 c p ps)
  obtain c1 a where q: "(if kb_echo p then ask c else ask_hidden c) = (c1, Some a)"
    using 2(2) by (auto split: option.splits prod.splits if_splits)
  then have "a \<noteq> []" by (auto simp: ask_def ask_hidden_def nonempty_def Let_def bind_eq_Some_conv split: prod.splits if_splits)
  moreover obtain bs where b: "console_kbd c1 ps = (c', Some bs)" "as = a # bs" using 2(2) q by (auto split: option.splits prod.splits)
  ultimately show ?case using 2(1) [OF q [symmetric] refl b(1)] by auto
qed simp

section \<open>Options and the connector\<close>

record check_env =
  cv_var :: "string \<Rightarrow> string option"
  cv_temp_dir :: path
  cv_windows :: bool
  cv_read :: "path \<Rightarrow> string option"

definition check_home :: "check_env \<Rightarrow> path" where
  "check_home env = (case cv_var env (if cv_windows env then ''USERPROFILE'' else ''HOME'') of None \<Rightarrow> ''.'' | Some p \<Rightarrow> p)"

definition check_config :: "check_env \<Rightarrow> path" where
  "check_config env =
     (case cv_var env ''MAI_SSH_CONFIG'' of None \<Rightarrow> path_join (path_join (check_home env) ''.ssh'') ''config'' | Some p \<Rightarrow> p)"

definition check_user :: "check_env \<Rightarrow> string" where
  "check_user env =
     (case cv_var env ''USER'' of
        Some u \<Rightarrow> u
      | None \<Rightarrow> (case cv_var env ''USERNAME'' of Some u \<Rightarrow> u | None \<Rightarrow> []))"

definition check_spec :: "check_env \<Rightarrow> 'c config_lib \<Rightarrow> string \<Rightarrow> string + host_spec" where
  "check_spec env lib tgt =
     (case parse_config lib (case cv_read env (check_config env) of None \<Rightarrow> [] | Some t \<Rightarrow> t) of
        Err e \<Rightarrow> Err (''ssh config: '' @ e)
      | Ok cfg \<Rightarrow>
          (case resolve lib cfg tgt (check_user env) (check_home env) of
             Err e \<Rightarrow> Err (''resolve target: '' @ e)
           | Ok spec \<Rightarrow> Ok spec))"

definition check_options :: "check_env \<Rightarrow> connect_options" where
  "check_options env =
     (let learn_to = (case cv_var env ''MAI_LEARN_TO'' of
            None \<Rightarrow> path_join (cv_temp_dir env) ''mai-example-known_hosts'' | Some p \<Rightarrow> p)
      in \<lparr>co_known_hosts =
            (if cv_var env ''MAI_SKIP_USER_KNOWN_HOSTS'' = None
             then [path_join (path_join (check_home env) ''.ssh'') ''known_hosts''] else []) @ [learn_to],
          co_learn_to = learn_to, co_timeout = 20000, co_use_agent = True\<rparr>)"

definition check_kind :: "string \<Rightarrow> host_kind" where
  "check_kind host = (if host = ''local'' then HK_Local else HK_Ssh host)"

definition check_connector :: "check_env \<Rightarrow> path \<Rightarrow> string \<Rightarrow> sys_connector" where
  "check_connector env probes dir =
     (sys_connector_new (check_options env) probes (Some (check_config env)) (check_home env) (check_user env) ''e2e'')
       \<lparr>sy_dir := dir, sy_install_hooks := False\<rparr>"

definition monitor_connector :: "check_env \<Rightarrow> path \<Rightarrow> sys_connector" where
  "monitor_connector env probes =
     check_connector env probes (case cv_var env ''MAI_E2E_DIR'' of None \<Rightarrow> ''.mai-e2e'' | Some d \<Rightarrow> d)"

definition term_connector :: "check_env \<Rightarrow> path \<Rightarrow> sys_connector" where
  "term_connector env probes = check_connector env probes ''.mai-e2e''"

text \<open>A key learned by a check is known to the next one, without being listed twice.\<close>

lemma check_files_learned: "conn_check_files (check_options env) = co_known_hosts (check_options env)"
  by (simp add: conn_check_files_def check_options_def Let_def)

text \<open>The checks leave the agents' configuration alone: on this machine no program they start is given \<open>install-hooks\<close>, and over
  SSH no command is sent between the deployment and \<open>serve\<close>.\<close>

lemma run_local_runs [simp]: "lh_runs (fst (run_local env exe argv h)) = lh_runs h @ [(exe, argv)]"
  by (simp add: run_local_def)

lemma local_call_runs [simp]: "lh_runs (fst (local_call h)) = lh_runs h"
  by (simp add: local_call_def Let_def split: prod.split)

lemma local_read_runs [simp]: "lh_runs (fst (local_read h p)) = lh_runs h"
  using local_call_runs [of h] by (auto simp: local_read_def split: prod.split sum.split simp del: local_call_runs)

lemma local_write_runs [simp]: "lh_runs (fst (local_write h p bytes)) = lh_runs h"
  using local_call_runs [of h]
  by (auto simp: local_write_def local_put_def split: prod.split sum.split option.split simp del: local_call_runs)

lemma place_new_runs:
  assumes "\<And>h. lh_runs (stop_old h) = lh_runs h @ rs"
  shows "lh_runs (fst (place_new stamp stop_old existing exe dir name bytes h)) \<in> {lh_runs h, lh_runs h @ rs}"
proof -
  obtain h1 r1 where w: "local_write h (exe @ ''.upload'') bytes = (h1, r1)" by force
  obtain h2 r2 where c: "local_call h1 = (h2, r2)" by force
  from w c local_write_runs [of h "exe @ ''.upload''" bytes] local_call_runs [of h1]
  have "lh_runs h1 = lh_runs h" "lh_runs h2 = lh_runs h" by simp_all
  then show ?thesis using assms by (auto simp: place_new_def w c Let_def split: sum.split prod.split)
qed

lemma place_binary_runs:
  assumes "\<And>h. lh_runs (stop_old h) = lh_runs h @ rs"
  shows "lh_runs (fst (place_binary lib stamp stop_old exe bytes h)) \<in> {lh_runs h, lh_runs h @ rs}"
proof -
  obtain h1 x where r: "local_read h exe = (h1, x)" by force
  obtain h2 r2 where c: "local_call h1 = (h2, r2)" by force
  from r c local_read_runs [of h exe] local_call_runs [of h1] have "lh_runs h1 = lh_runs h" "lh_runs h2 = lh_runs h" by simp_all
  with place_new_runs [OF assms, of stamp _ exe _ _ bytes h2] show ?thesis
    by (auto simp: place_binary_def r c split: option.split sum.split)
qed

lemma check_installs_no_hooks:
  assumes "open_local lib env (check_connector cv probes dir) now host h = (h', x)"
  shows "\<exists>runs. lh_runs h' = lh_runs h @ runs \<and> (\<forall>(exe, argv) \<in> set runs. argv \<noteq> [''install-hooks''])"
proof -
  let ?sy = "check_connector cv probes dir"
  have c: "sy_install_hooks ?sy = False" "sy_client ?sy = ''e2e''" by (simp_all add: check_connector_def sys_connector_new_def)
  have a: "stop_argv ''e2e'' \<noteq> [''install-hooks'']" "serve_argv ''e2e'' z \<noteq> [''install-hooks'']" for z
    by (simp_all add: stop_argv_def serve_argv_def)
  have p: "lh_runs (fst (place_binary (kl_deploy lib) now (stop_local env exe ''e2e'') exe bytes h))
      \<in> {lh_runs h, lh_runs h @ [(exe, stop_argv ''e2e'')]}" for exe bytes
    by (rule place_binary_runs) (simp add: stop_local_def)
  have s: "lh_runs (fst (start_local env exe argv h1)) \<in> {lh_runs h1, lh_runs h1 @ [(exe, argv)]}" for exe argv h1
    by (simp add: start_local_def split: option.split)
  show ?thesis
  proof (cases "\<exists>r t bytes. local_remote (le_os env) (le_arch env) (sy_home ?sy) = Some r \<and> target r = Some t
      \<and> kl_read_bin lib (probe_binary (sy_probes ?sy) t) = Ok bytes")
    case False
    with assms have "h' = h" by (auto simp: open_local_def Let_def split: option.splits sum.splits)
    then show ?thesis by simp
  next
    case True
    then obtain r t bytes where r: "local_remote (le_os env) (le_arch env) (sy_home ?sy) = Some r" "target r = Some t"
      "kl_read_bin lib (probe_binary (sy_probes ?sy) t) = Ok bytes" by blast
    let ?exe = "probe_path r (sy_dir ?sy)" and ?argv = "serve_argv ''e2e'' (hc_zellij host)"
    obtain h1 y where h1: "place_binary (kl_deploy lib) now (stop_local env ?exe ''e2e'') ?exe bytes h = (h1, y)" by force
    obtain h2 z where h2: "start_local env ?exe ?argv h1 = (h2, z)" by force
    from assms r h1 h2 c have "h' = h1 \<or> h' = h2" by (auto simp: open_local_def local_hooks_def Let_def split: sum.splits)
    moreover from p [of ?exe bytes] h1 have "lh_runs h1 \<in> {lh_runs h, lh_runs h @ [(?exe, stop_argv ''e2e'')]}" by simp
    moreover from s [of ?exe ?argv h1] h2 have "lh_runs h2 \<in> {lh_runs h1, lh_runs h1 @ [(?exe, ?argv)]}" by simp
    ultimately show ?thesis using a by auto
  qed
qed

section \<open>Arguments and reports\<close>

text \<open>How a check ends before it has done anything: its usage and exit code 2, or a panic.\<close>

datatype check_end = CE_Usage | CE_Panic string | CE_Exit nat string

definition monitor_args :: "string list \<Rightarrow> check_end + path \<times> u64 \<times> string list" where
  "monitor_args args =
     (case args of
        p # s # h # hosts \<Rightarrow> (case parse_u64 s of None \<Rightarrow> Err (CE_Panic ''seconds'') | Some n \<Rightarrow> Ok (p, n, h # hosts))
      | _ \<Rightarrow> Err CE_Usage)"

definition deploy_args :: "string list \<Rightarrow> check_end + string \<times> path \<times> string \<times> u64" where
  "deploy_args args =
     (case args of
        t # p # rest \<Rightarrow>
          Ok (t, p, case rest of d # _ \<Rightarrow> d | [] \<Rightarrow> ''.mai-e2e'',
              case rest of _ # s # _ \<Rightarrow> (case parse_u64 s of Some n \<Rightarrow> n | None \<Rightarrow> 6) | _ \<Rightarrow> 6)
      | _ \<Rightarrow> Err CE_Usage)"

definition monitor_hosts :: "string list \<Rightarrow> host_config list" where
  "monitor_hosts hosts = map (\<lambda>h. \<lparr>hc_id = h, hc_kind = check_kind h, hc_zellij = None\<rparr>) hosts"

text \<open>\<open>short\<close>: \<open>dbg\<close> is the derived \<open>Debug\<close> of an update and \<open>pct\<close> the rounded processor load of the metrics.\<close>

definition check_short :: "(update \<Rightarrow> string) \<Rightarrow> (metrics \<Rightarrow> string) \<Rightarrow> update \<Rightarrow> string" where
  "check_short dbg pct u =
     take_chars 200
       (case u of
          U_Panes i session panes \<Rightarrow> ''Panes { '' @ i @ ''/'' @ session @ '': '' @ show_nat (length panes) @ '' pane(s) }''
        | U_Metrics i m \<Rightarrow> ''Metrics { '' @ i @ '': cpu '' @ pct m @ ''% }''
        | other \<Rightarrow> dbg other)"

definition connect_or_exit ::
    "check_env \<Rightarrow> 'c config_lib \<Rightarrow> 'k network \<Rightarrow> string \<Rightarrow> check_end + ssh_conn" where
  "connect_or_exit env lib net tgt =
     (case check_spec env lib tgt of
        Err e \<Rightarrow> Err (CE_Panic e)
      | Ok spec \<Rightarrow>
          (case snd (ssh_connect net (co_use_agent (check_options env)) spec []) of
             Err e \<Rightarrow> Err (CE_Exit 1 (''error: '' @ show_ssh_error e))
           | Ok c \<Rightarrow> Ok c))"

text \<open>The loop of \<open>deploy_probe\<close> over the channel of \<open>serve\<close>: messages with the milliseconds waited for each and the time left. The
  result is standard output, what was printed of standard error, and the exit status if one came.\<close>

fun watch_serve :: "nat \<Rightarrow> (nat \<times> chan_msg) list \<Rightarrow> string \<Rightarrow> string \<times> string list \<times> u32 option" where
  "watch_serve left [] buf = (buf, [], None)"
| "watch_serve left ((delay, msg) # msgs) buf =
     (if left < delay then (buf, [], None)
      else case msg of
        CM_Data d \<Rightarrow> watch_serve (left - delay) msgs (buf @ d)
      | CM_ExtendedData d \<Rightarrow>
          (case watch_serve (left - delay) msgs buf of (b, errs, st) \<Rightarrow> (b, (''[stderr] '' @ from_utf8_lossy d) # errs, st))
      | CM_ExitStatus st \<Rightarrow> (buf, [], Some st)
      | _ \<Rightarrow> watch_serve (left - delay) msgs buf)"

definition watch_report :: "string \<Rightarrow> string list" where
  "watch_report buf = map (take_chars 150) (lines (from_utf8_lossy buf))"

text \<open>What is watched is a beginning of what the probe sent, up to its exit or the end of the time, and the status is the first one.\<close>

lemma watch_serve_exact:
  "watch_serve left msgs buf = (b, errs, st) \<Longrightarrow>
   \<exists>n. b = buf @ data_of (map snd (take n msgs)) \<and> errs = map (\<lambda>d. ''[stderr] '' @ from_utf8_lossy d) (ext_of (map snd (take n msgs)))
     \<and> (\<forall>m \<in> set (take n msgs). \<forall>x. snd m \<noteq> CM_ExitStatus x)
     \<and> (st = None \<longrightarrow> n = length msgs \<or> left < (\<Sum>m \<leftarrow> take (Suc n) msgs. fst m))
     \<and> (\<forall>x. st = Some x \<longrightarrow> n < length msgs \<and> snd (msgs ! n) = CM_ExitStatus x)"
proof (induction msgs arbitrary: left buf b errs st)
  case (Cons m msgs)
  obtain delay msg where m: "m = (delay, msg)" by force
  show ?case
  proof (cases "left < delay \<or> (\<exists>x. msg = CM_ExitStatus x)")
    case True
    with Cons.prems m show ?thesis by (intro exI [of _ 0]) (auto split: if_splits)
  next
    case False
    then obtain errs1 where w: "watch_serve (left - delay) msgs (buf @ data_of [msg]) = (b, errs1, st)"
      and x: "errs = map (\<lambda>d. ''[stderr] '' @ from_utf8_lossy d) (ext_of [msg]) @ errs1"
      using Cons.prems m by (cases msg) (auto split: prod.splits)
    from Cons.IH [OF w] obtain n where n: "b = (buf @ data_of [msg]) @ data_of (map snd (take n msgs))"
      "errs1 = map (\<lambda>d. ''[stderr] '' @ from_utf8_lossy d) (ext_of (map snd (take n msgs)))"
      "\<forall>m \<in> set (take n msgs). \<forall>x. snd m \<noteq> CM_ExitStatus x"
      "st = None \<longrightarrow> n = length msgs \<or> left - delay < (\<Sum>m \<leftarrow> take (Suc n) msgs. fst m)"
      "\<forall>x. st = Some x \<longrightarrow> n < length msgs \<and> snd (msgs ! n) = CM_ExitStatus x" by blast
    from n x False m show ?thesis by (intro exI [of _ "Suc n"]) auto
  qed
qed simp

section \<open>Escape sequences\<close>

definition ESC :: char where "ESC = CHR 0x1B"
definition BEL :: char where "BEL = CHR 0x07"

definition final_byte :: "char \<Rightarrow> bool" where
  "final_byte c \<longleftrightarrow> byte CHR ''@'' \<le> byte c \<and> byte c \<le> byte CHR ''~''"

fun after_csi :: "string \<Rightarrow> string" where
  "after_csi [] = []"
| "after_csi (d # r) = (if final_byte d then r else after_csi r)"

fun after_osc :: "string \<Rightarrow> string" where
  "after_osc [] = []"
| "after_osc (d # r) =
     (if d = BEL then r
      else if d = ESC \<and> r \<noteq> [] \<and> hd r = CHR 92 then tl r
      else after_osc r)"

lemma length_after_csi [termination_simp]: "length (after_csi s) \<le> length s"
  by (induction s rule: after_csi.induct) auto

lemma length_after_osc [termination_simp]: "length (after_osc s) \<le> length s"
  by (induction s rule: after_osc.induct) auto

text \<open>The text of valid UTF-8. Every character compared with is ASCII, so bytes stand for characters, except after an escape
  that starts no sequence: there a whole character is dropped.\<close>

function strip_text :: "string \<Rightarrow> string" where
  "strip_text [] = []"
| "strip_text (c # r) =
     (if c \<noteq> ESC then c # strip_text r
      else case r of
        [] \<Rightarrow> []
      | d # r2 \<Rightarrow>
          if d = CHR ''['' then strip_text (after_csi r2)
          else if d = CHR '']'' then strip_text (after_osc r2)
          else strip_text (drop (fst (utf8_head r)) r))"
  by pat_completeness auto
termination
  by (relation "measure length") (auto simp: less_Suc_eq_le intro: le_trans [OF length_after_csi] le_trans [OF length_after_osc])

definition strip_ansi :: "string \<Rightarrow> string" where
  "strip_ansi bytes = strip_text (from_utf8_lossy bytes)"

text \<open>Terminal output in pieces: text, a control sequence with its parameters and final byte, an operating system command ended by
  a bell or by escape and backslash.\<close>

datatype piece = PC_Text string | PC_Csi string char | PC_Osc string bool

fun render :: "piece \<Rightarrow> string" where
  "render (PC_Text t) = t"
| "render (PC_Csi ps f) = ESC # CHR ''['' # ps @ [f]"
| "render (PC_Osc b bell) = ESC # CHR '']'' # b @ (if bell then [BEL] else [ESC, CHR 92])"

fun plain :: "piece \<Rightarrow> string" where
  "plain (PC_Text t) = t"
| "plain (PC_Csi _ _) = []"
| "plain (PC_Osc _ _) = []"

fun piece_ok :: "piece \<Rightarrow> bool" where
  "piece_ok (PC_Text t) \<longleftrightarrow> ESC \<notin> set t"
| "piece_ok (PC_Csi ps f) \<longleftrightarrow> final_byte f \<and> \<not> list_ex final_byte ps"
| "piece_ok (PC_Osc b _) \<longleftrightarrow> ESC \<notin> set b \<and> BEL \<notin> set b"

lemma strip_plain: "ESC \<notin> set t \<Longrightarrow> strip_text (t @ s) = t @ strip_text s"
  by (induction t) auto

lemma after_csi_params: "\<not> list_ex final_byte ps \<Longrightarrow> final_byte f \<Longrightarrow> after_csi (ps @ f # s) = s"
  by (induction ps) auto

lemma ESC_BEL [simp]: "ESC \<noteq> BEL"
  by (simp add: ESC_def BEL_def)

lemma after_osc_body:
  "ESC \<notin> set b \<Longrightarrow> BEL \<notin> set b \<Longrightarrow> after_osc (b @ BEL # s) = s \<and> after_osc (b @ ESC # CHR 92 # s) = s"
  by (induction b) auto

lemma strip_piece: "piece_ok p \<Longrightarrow> strip_text (render p @ s) = plain p @ strip_text s"
  by (cases p) (auto simp: strip_plain after_csi_params after_osc_body)

text \<open>Stripping keeps exactly the text: output made of text and complete sequences loses its sequences and nothing else. Of any output,
  however cut or malformed, no escape is left.\<close>

lemma strip_pieces: "list_all piece_ok ps \<Longrightarrow> strip_text (concat (map render ps)) = concat (map plain ps)"
  by (induction ps) (auto simp: strip_piece)

theorem strip_ansi_keeps_text:
  assumes "list_all piece_ok ps" "valid_utf8 (concat (map render ps))"
  shows "strip_ansi (concat (map render ps)) = concat (map plain ps)"
  using assms by (simp add: strip_ansi_def lossy_valid strip_pieces)

lemma strip_no_escape: "ESC \<notin> set (strip_text s)"
  by (induction s rule: strip_text.induct) (auto split: list.split)

section \<open>Reading a terminal\<close>

definition CURSOR_QUERY :: string where "CURSOR_QUERY = ESC # ''[6n''"
definition CURSOR_ANSWER :: string where "CURSOR_ANSWER = ESC # ''[1;1R''"

text \<open>\<open>windows(4).any\<close>.\<close>

fun has_query :: "string \<Rightarrow> bool" where
  "has_query [] = False"
| "has_query (c # s) \<longleftrightarrow> take 4 (c # s) = CURSOR_QUERY \<or> has_query s"

text \<open>What \<open>recv\<close> gives: events with the milliseconds waited for each, \<open>None\<close> when the terminal is gone. \<open>left\<close> is the time to the
  deadline. The result is the bytes seen, what was written back and the event returned.\<close>

fun read_for ::
    "(string \<Rightarrow> bool) \<Rightarrow> nat \<Rightarrow> (nat \<times> term_event option) list \<Rightarrow> string \<Rightarrow> string \<times> string list \<times> term_event option" where
  "read_for stop_at left evs seen =
     (if stop_at (strip_ansi seen) then (seen, [], None)
      else case evs of
        [] \<Rightarrow> (seen, [], None)
      | (delay, ev) # rest \<Rightarrow>
          if left < delay then (seen, [], None)
          else case ev of
            None \<Rightarrow> (seen, [], Some (TV_Exited None))
          | Some (TV_Output d) \<Rightarrow>
              (case read_for stop_at (left - delay) rest (seen @ d) of
                 (seen2, ws, r) \<Rightarrow> (seen2, (if has_query d then [CURSOR_ANSWER] else []) @ ws, r))
          | Some TV_Attached \<Rightarrow> read_for stop_at (left - delay) rest seen
          | Some other \<Rightarrow> (seen, [], Some other))"

declare read_for.simps [simp del]

text \<open>The reader keeps every byte of the output it took, in order, answers each chunk that asks for the cursor once, and reads on
  only while the awaited text has not appeared.\<close>

definition chunks :: "(nat \<times> term_event option) list \<Rightarrow> string list" where
  "chunks evs = List.map_filter (\<lambda>e. case snd e of Some (TV_Output d) \<Rightarrow> Some d | _ \<Rightarrow> None) evs"

lemma chunks_simps [simp]:
  "chunks [] = []"
  "chunks (e # es) = (case snd e of Some (TV_Output d) \<Rightarrow> d # chunks es | _ \<Rightarrow> chunks es)"
  by (simp_all add: chunks_def List.map_filter_def split: option.split term_event.split)

lemma read_for_exact:
  "read_for stop_at left evs seen = (seen', ws, r) \<Longrightarrow>
   \<exists>n. seen' = seen @ concat (chunks (take n evs)) \<and> ws = replicate (length (filter has_query (chunks (take n evs)))) CURSOR_ANSWER
     \<and> (r = None \<longrightarrow> stop_at (strip_ansi seen') \<or> n = length evs \<or> left < (\<Sum>e \<leftarrow> take (Suc n) evs. fst e))"
proof (induction evs arbitrary: left seen seen' ws r)
  case Nil
  then show ?case by (auto simp: read_for.simps split: if_splits)
next
  case (Cons e evs)
  obtain delay ev where e: "e = (delay, ev)" by force
  show ?case
  proof (cases "stop_at (strip_ansi seen) \<or> left < delay \<or> \<not> (ev = Some TV_Attached \<or> (\<exists>d. ev = Some (TV_Output d)))")
    case True
    with Cons.prems e show ?thesis
      by (intro exI [of _ 0]) (auto simp: read_for.simps split: if_splits option.splits term_event.splits)
  next
    case False
    then consider (out) d where "ev = Some (TV_Output d)" | (att) "ev = Some TV_Attached" by blast
    then show ?thesis
    proof cases
      case (out d)
      with Cons.prems e False obtain ws2 where r: "read_for stop_at (left - delay) evs (seen @ d) = (seen', ws2, r)"
        "ws = (if has_query d then [CURSOR_ANSWER] else []) @ ws2"
        by (auto simp: read_for.simps [of stop_at left "(delay, Some (TV_Output d)) # evs" seen] split: prod.splits)
      from Cons.IH [OF r(1)] obtain n where n: "seen' = (seen @ d) @ concat (chunks (take n evs))"
        "ws2 = replicate (length (filter has_query (chunks (take n evs)))) CURSOR_ANSWER"
        "r = None \<longrightarrow> stop_at (strip_ansi seen') \<or> n = length evs \<or> left - delay < (\<Sum>e \<leftarrow> take (Suc n) evs. fst e)" by blast
      from n r(2) out e False show ?thesis by (intro exI [of _ "Suc n"]) auto
    next
      case att
      with Cons.prems e False have r: "read_for stop_at (left - delay) evs seen = (seen', ws, r)"
        by (auto simp: read_for.simps [of stop_at left "(delay, Some TV_Attached) # evs" seen])
      from Cons.IH [OF r] obtain n where n: "seen' = seen @ concat (chunks (take n evs))"
        "ws = replicate (length (filter has_query (chunks (take n evs)))) CURSOR_ANSWER"
        "r = None \<longrightarrow> stop_at (strip_ansi seen') \<or> n = length evs \<or> left - delay < (\<Sum>e \<leftarrow> take (Suc n) evs. fst e)" by blast
      from n att e False show ?thesis by (intro exI [of _ "Suc n"]) auto
    qed
  qed
qed

theorem strip_ansi_keeps_text_witness:
  "strip_ansi (''ok'' @ [ESC, CHR ''['', CHR ''1'', CHR ''m''] @ ''go'') = ''okgo''"
proof -
  let ?ps = "[PC_Text ''ok'', PC_Csi ''1'' (CHR ''m''), PC_Text ''go'']"
  have "list_all piece_ok ?ps" by code_simp
  moreover have "valid_utf8 (concat (map render ?ps))" by code_simp
  ultimately have "strip_ansi (concat (map render ?ps)) = concat (map plain ?ps)" by (rule strip_ansi_keeps_text)
  then show ?thesis by simp
qed

end
