(* ===== verification/Spec2Isabelle.thy ===== *)
theory Spec2Isabelle
  imports Host Manager Replica Term Local_Pty Probe_Main Connect Ssh_Trust Signer Secrets Zellij_Pipe Delivery Manual_Checks
begin

text \<open>
  \<^bold>\<open>multi-ai: monitoring AI coding agents in zellij sessions across SSH hosts.\<close>

  \<^bold>\<open>The program.\<close> A probe (\<open>crates/mai-probe\<close>) runs on every host. Agent hooks append events to a spool
  directory; the probe's serve loop drains the spool, polls zellij for sessions and panes, scrapes the
  screens of agents that have no hooks, and writes JSON lines. The application core (\<open>crates/mai-core\<close>) runs
  one task per host that connects, deploys the probe, checks its greeting, relays messages and reconnects
  with a backoff; a monitor task merges the messages of all hosts into views, a tracker of agent states
  and alerts for the user interface; a terminal task per host attaches PTYs to zellij sessions.
  \<open>crates/mai-protocol\<close> has the shared messages.

  \<^bold>\<open>Theories and sources.\<close>
  \<^item> \<open>Mai_Prelude\<close>: byte strings as the code uses them (UTF-8 aware \<open>trim\<close>, \<open>lines\<close>, \<open>split\<close>, number printing and
    parsing), saturating words, dictionaries (locale \<open>dictionary\<close>), logs with cursors (locale \<open>cursor_log\<close>), machines fed
    with inputs (\<open>run_steps\<close>, locale \<open>invariant_machine\<close>), interleaved systems (\<open>traced\<close>, locale \<open>traced_invariant\<close>). \<open>Mai_Path\<close>: \<open>std::path\<close> on Unix. \<open>Mai_Json\<close>: \<open>serde_json::Value\<close>. \<open>Utf8\<close>: \<open>String::from_utf8\<close>,
    \<open>from_utf8_lossy\<close> and character boundaries.
  \<^item> \<open>Mai_Protocol\<close> (\<open>mai-protocol\<close>): messages, the line codec, the client id filter.
  \<^item> \<open>Tracker\<close> (\<open>tracker.rs\<close>): agent records, hook offsets, scrape authority, alert spacing, acknowledgement.
  \<^item> \<open>Mai_Types\<close> (types of \<open>host.rs\<close>, \<open>link.rs\<close>, \<open>term.rs\<close>, \<open>deploy.rs\<close>), \<open>Monitor\<close> (\<open>monitor.rs\<close>), \<open>Link\<close> (\<open>link.rs\<close>),
    \<open>Host\<close> (\<open>host.rs\<close>), \<open>Manager\<close> (\<open>manager.rs\<close>), \<open>Term\<close> (\<open>term.rs\<close> and the types of \<open>pty.rs\<close>), \<open>Local_Pty\<close>
    (\<open>spawn_local\<close> of \<open>pty.rs\<close>).
  \<^item> \<open>Spool\<close>, \<open>Hookmap\<close>, \<open>Scrape\<close>, \<open>Serve\<close>, \<open>Metrics\<close>, \<open>Probe_Run\<close>, \<open>Install\<close>, \<open>Zellij_Cli\<close>, \<open>Instance\<close>, \<open>Probe_Main\<close>: the files of
    the probe (\<open>spool.rs\<close>, \<open>hookmap.rs\<close>, \<open>scrape.rs\<close>, \<open>serve.rs\<close>, \<open>metrics.rs\<close>, \<open>run.rs\<close>, \<open>install.rs\<close>, \<open>zellij.rs\<close>,
    \<open>instance.rs\<close>, \<open>main.rs\<close> with \<open>rules.rs\<close>). \<open>Zellij_Pipe\<close>: the threads and pipes of \<open>output_with_timeout\<close> (\<open>zellij.rs\<close>).
  \<^item> \<open>Ssh_Config\<close> (\<open>ssh/config.rs\<close>), \<open>Hostkey\<close> (\<open>ssh/hostkey.rs\<close>), \<open>Hop\<close> (host-key check against the time-out, \<open>ssh/client.rs\<close>),
    \<open>Auth\<close> (\<open>ssh/auth.rs\<close>, \<open>ssh/signer.rs\<close>, \<open>authenticate\<close> of \<open>ssh/client.rs\<close>), \<open>Ssh_Pty\<close> (\<open>ssh/pty.rs\<close>), \<open>Ssh_Session\<close>
    (\<open>connect\<close>, \<open>exec\<close>, \<open>open_exec_split\<close>, \<open>sftp\<close> of \<open>ssh/client.rs\<close>), \<open>Stderr\<close> (\<open>stderr.rs\<close>).
  \<^item> \<open>Signer\<close> (the reply of \<open>ssh/signer.rs\<close> byte by byte), \<open>Secrets\<close> (\<open>SecretStore\<close> and \<open>KeyringStore\<close> of \<open>ssh/auth.rs\<close>, \<open>MemoryStore\<close> of the
    examples), \<open>Ssh_Trust\<close> (\<open>connect\<close> and the host-key checks of its hops together, with the transport of \<open>connect_hop\<close>).
  \<^item> \<open>Swap\<close> (\<open>swap.rs\<close>), \<open>Deploy\<close> (\<open>deploy.rs\<close>, the attach command of \<open>term.rs\<close>), \<open>Terminals\<close> (\<open>terminals.rs\<close>), \<open>Connect\<close>
    (\<open>connect.rs\<close>): the connector puts configuration, connection, deployment, hooks and the exec channel together.
  \<^item> \<open>Replica\<close>: the serve loop and the monitor together, one end of the wire feeding the other. \<open>Delivery\<close>: hook events from the spool
    through any number of probe runs and acknowledgements to the tracker.
  \<^item> \<open>Manual_Checks\<close>: the programs for manual checks (\<open>examples/common/mod.rs\<close>, \<open>examples/term.rs\<close>, \<open>examples/monitor.rs\<close>, \<open>examples/deploy_probe.rs\<close>).

  \<^bold>\<open>How code becomes definitions.\<close> A struct is a record, an enum a datatype, \<open>u16\<close>/\<open>u32\<close>/\<open>u64\<close> are words of that width,
  \<open>Result\<close> is a sum with \<open>Ok\<close>/\<open>Err\<close>, a \<open>HashMap\<close> an association list with distinct keys (\<open>dict\<close>). An async task is
  a step function over its inputs: \<open>host_step\<close>, \<open>run_monitor_step\<close>, \<open>term_step\<close>, \<open>run_step\<close>, \<open>pump_step\<close> take what a
  \<open>select!\<close> received (a message, a command, the end of a timer) and return the new state and what was sent.
  Threads and tasks that share state are step relations with one shared access per step: \<open>hop_step\<close>, \<open>pty_step\<close>,
  \<open>gate_step\<close>, \<open>pipe_step\<close>. Time is a natural number of milliseconds passed with the inputs. File systems are stores in which
  every call can fail (\<open>Spool\<close>, \<open>Install\<close>, \<open>Swap\<close>, \<open>Deploy\<close>, \<open>Instance\<close>, \<open>Connect\<close>). Third-party code is an argument:
  \<open>serde_json\<close>, the regex engine, SHA-256, HMAC, the \<open>known_hosts\<close> entry parser, \<open>ssh2_config\<close>, \<open>sysinfo\<close>, the zellij
  process, the SSH transport.

  \<^bold>\<open>Interfaces.\<close> What one part relies on in another is a locale, interpreted where the other part is modelled: \<open>dictionary\<close>
  on association lists; \<open>cursor_log\<close> on the spool (used by \<open>Serve\<close>); \<open>bin_laws\<close>, the trait \<open>BinFiles\<close>, on \<open>LocalFiles\<close> and
  \<open>SftpFiles\<close> (used by \<open>Connect\<close> and \<open>Deploy\<close>); \<open>connector\<close>, the trait \<open>Connector\<close> as the host task uses it, on the system
  connector; \<open>invariant_machine\<close> on tracker, monitor, manager and server; \<open>traced_invariant\<close> on \<open>hop_step\<close>, \<open>pty_step\<close>, \<open>gate_step\<close> and
  \<open>pipe_step\<close>; \<open>secret_store\<close>, the trait \<open>SecretStore\<close>, on the keychain, the memory store and the store of the authentication.

  \<^bold>\<open>What is proved.\<close>
  \<^item> Tracker and Monitor: the tracker invariant, redelivered hook events change nothing, alerts of one state are
    spaced, a scrape never overrides a fresh hook; the updates sent to the interface rebuild the tracker's
    records exactly, agents end with their sessions, hosts do not touch each other.
  \<^item> Spool and Serve: reading after a cursor is the tail of an abstract log, appending then reading
    returns the record, every hook event reaches the application exactly once across restarts, the server's
    invariant; the monitor's view of sessions and panes equals the probe's; however connections are cut and probes
    restarted, each hook event takes effect on the tracker once and in the order of the log.
  \<^item> Link, Host, Manager: the greeting is accepted exactly when a compatible hello comes in time, the watchdog,
    lines survive the codec; the order of connection states, the fate of every command, acknowledgements,
    the backoff; the manager runs the monitor on the events of current hosts, and its task ends.
  \<^item> Term, Local_Pty, Ssh_Pty, Terminals: the order of terminal events, terminals against the connection, requests
    answered in order, recovery after a reconnect; a local terminal never hangs and ends with one exit; no byte of
    an SSH terminal is lost between the channel and the app; a local terminal runs in a UTF-8 locale.
  \<^item> Install, Swap, Deploy, Hostkey: uninstalling undoes installing, a configuration file is never torn,
    a reinstall is a no-op, the probe binary is never lost and always verified, command lines are split by a
    POSIX shell into the words that were meant, a host key is known exactly when recorded and neither changed
    nor revoked.
  \<^item> Ssh_Config, Hop, Auth, Ssh_Session: ignored configuration is exactly the \<open>Match\<close> blocks and is reported; a key is
    accepted only when recorded or when the user said so, and the time-out never cuts a prompt short; authentication
    succeeds exactly when the server granted it, secrets change only by the stated policy; every hop is passed.
  \<^item> Ssh_Trust, Signer, Secrets: each host on the way of a connection showed a key that was recorded or that the user confirmed;
    a signer's reply is the bytes to sign and one string, its signature genuine exactly when the signer has not declined;
    the keychain keeps what it was given and implements the store of the authentication.
  \<^item> Zellij_Pipe: a command's output is exactly what was written to its pipes, a child that writes more than a pipe holds does
    not block, the call can return at every moment before its deadline; the limit does not cover background processes.
  \<^item> Connect: an open SSH connection runs a verified probe on the resolved host; the local probe is never lost; a host
    whose key or login was refused is not tried again before the user asks; calls for one host exclude each other and no
    host waits for another.
  \<^item> Probe_Main, Instance, Metrics, Zellij_Cli, Stderr: a hook never disturbs its agent and its record reaches \<open>serve\<close>;
    the pid file names the running probe and a stop ends at most that process; rates without overflow; zellij
    commands end in bounded time; the kept standard error is a bounded suffix.

  \<^bold>\<open>Bounds and fuel.\<close> No function of the model runs on fuel. \<open>write_target_loop\<close> takes the code's own bound
  (\<open>MAX_LINKS\<close>); \<open>follow\<close> (the kernel's path resolution) the kernel's limit of 40 links; \<open>kbd_rounds\<close> the code's
  \<open>MAX_KBD_ROUNDS\<close>. Waiting loops (\<open>wait_until\<close>, \<open>wait_gone\<close>, \<open>settled_at\<close>) poll a function of time and end by a measure
  on what is left of their limit. Loops of tasks are driven by finite lists of inputs, so a run of any length is a list.

  \<^bold>\<open>Not modelled.\<close> The Unix build is modelled: the Windows branches of paths and console flags are not, except the command lines
  for Windows hosts, the SSH agents and the keys of stored passphrases. Cryptography and encodings of \<open>russh\<close>, its keep-alive and
  buffer settings and the disconnect of \<open>close\<close>, the \<open>clap\<close> parser of the command line, the \<open>toml\<close> parser and the text of the
  built-in rules are third-party or data. The main functions of the examples call the library and print what it returns; only their arguments and loops are modelled. Traits,
  re-exports and module lists have no behaviour of their own.
\<close>

end
